(* ===== verification/Go_Values.thy ===== *)
theory Go_Values
  imports Go_Base
begin

text \<open>
  The dynamic values of the engine: what a Go \<open>any\<close> can hold, \<open>map[string]any\<close> as an
  association list with strictly increasing keys (so that equal maps are equal lists), the
  copy loops \<open>for k, v := range src { dst[k] = v }\<close>, and the \<open>%v\<close> text of a value.
  Floats are their IEEE-754 bits. The record \<open>golib\<close> holds what is not modelled of the
  standard library, the decimal conversions of floats (\<open>strconv\<close>) and \<open>net/url.Parse\<close>;
  it is a parameter of the functions that use them.
\<close>

type_synonym f64 = "64 word"

datatype val =
    VNil
  | VBool bool
  | VInt int
  | VFloat f64
  | VStr string
  | VList "val list"
  | VMap "(string \<times> val) list"
  | VStrs "string list"
  | VMaps "(string \<times> val) list list"
  | VSMap "(string \<times> string) list"

type_synonym gomap = "(string \<times> val) list"

record url =
  u_scheme :: string
  u_host :: string
  u_has_user :: bool
  u_raw_query :: string
  u_fragment :: string
  u_path :: string

record golib =
  fmt_float :: "f64 \<Rightarrow> string"
  json_float :: "f64 \<Rightarrow> string"
  parse_float :: "string \<Rightarrow> f64 option"
  url_parse :: "string \<Rightarrow> url option"

subsection \<open>Maps\<close>

definition mget :: "('k \<times> 'v) list \<Rightarrow> 'k \<Rightarrow> 'v option" where
  "mget m = map_of m"

fun mput :: "'k::linorder \<Rightarrow> 'v \<Rightarrow> ('k \<times> 'v) list \<Rightarrow> ('k \<times> 'v) list" where
  "mput k v [] = [(k, v)]"
| "mput k v ((a, b) # m) =
     (if k < a then (k, v) # (a, b) # m
      else if k = a then (k, v) # m
      else (a, b) # mput k v m)"

definition mwf :: "('k::linorder \<times> 'v) list \<Rightarrow> bool" where
  "mwf m = sorted_wrt (<) (map fst m)"

definition mkeys :: "('k \<times> 'v) list \<Rightarrow> 'k list" where
  "mkeys m = map fst m"

text \<open>Copying the entries of one map into another, in the order given.\<close>

definition mcopy :: "('k::linorder \<times> 'v) list \<Rightarrow> ('k \<times> 'v) list \<Rightarrow> ('k \<times> 'v) list" where
  "mcopy src dst = fold (\<lambda>(k, v). mput k v) src dst"

definition mdel :: "'k \<Rightarrow> ('k \<times> 'v) list \<Rightarrow> ('k \<times> 'v) list" where
  "mdel k m = filter (\<lambda>e. fst e \<noteq> k) m"

lemma set_fst_mput: "fst ` set (mput k v m) = insert k (fst ` set m)"
  by (induction k v m rule: mput.induct) auto

lemma mwf_Nil [simp]: "mwf []"
  by (simp add: mwf_def)

lemma mwf_Cons: "mwf ((a, b) # m) \<longleftrightarrow> (\<forall>k\<in>fst ` set m. a < k) \<and> mwf m"
  by (simp add: mwf_def)

lemma mwf_mput: "mwf m \<Longrightarrow> mwf (mput k v m)"
proof (induction k v m rule: mput.induct)
  case (1 k v)
  then show ?case by (simp add: mwf_Cons)
next
  case (2 k v a b m)
  consider "k < a" | "k = a" | "a < k" by (rule linorder_cases)
  then show ?case
  proof cases
    case 1
    with "2.prems" show ?thesis by (fastforce simp: mwf_Cons)
  next
    case 2
    with "2.prems" show ?thesis by (simp add: mwf_Cons)
  next
    case 3
    with 2 have "mwf (mput k v m)" by (simp add: mwf_Cons not_less_iff_gr_or_eq)
    with 3 "2.prems" show ?thesis
      using set_fst_mput [of k v m] by (auto simp: mwf_Cons)
  qed
qed

lemma mget_mput: "mwf m \<Longrightarrow> mget (mput k v m) = (mget m)(k \<mapsto> v)"
proof (induction k v m rule: mput.induct)
  case (1 k v)
  then show ?case by (simp add: mget_def)
next
  case (2 k v a b m)
  then show ?case
    by (auto simp: mget_def mwf_Cons fun_eq_iff)
qed

lemma mget_ext:
  assumes "mwf m" "mwf n" "mget m = mget n"
  shows "m = n"
proof -
  have d: "distinct (map fst m)" "distinct (map fst n)"
    using assms strict_sorted_iff by (auto simp: mwf_def)
  have "set m = set n"
    using d assms(3) by (simp add: mget_def map_of_inject_set)
  moreover have "sorted (map fst m)" "sorted (map fst n)"
    using assms strict_sorted_iff by (auto simp: mwf_def)
  ultimately show ?thesis
    using d by (intro map_sorted_distinct_set_unique [of fst]) (auto simp: distinct_map)
qed

text \<open>
  The contract of a Go map: what a lookup returns after a store, and that a map is
  determined by its lookups. The copy loops of the engine are proved from it alone.
\<close>

locale go_map =
  fixes empty :: 'm
    and get :: "'m \<Rightarrow> 'k \<Rightarrow> 'v option"
    and put :: "'k \<Rightarrow> 'v \<Rightarrow> 'm \<Rightarrow> 'm"
    and ok :: "'m \<Rightarrow> bool"
  assumes get_empty: "get empty k = None"
    and get_put: "ok m \<Longrightarrow> get (put k v m) = (get m)(k \<mapsto> v)"
    and ok_empty: "ok empty"
    and ok_put: "ok m \<Longrightarrow> ok (put k v m)"
    and ext: "ok m \<Longrightarrow> ok n \<Longrightarrow> get m = get n \<Longrightarrow> m = n"
begin

lemma ok_fold_put: "ok m \<Longrightarrow> ok (fold (\<lambda>(k, v). put k v) es m)"
  by (induction es arbitrary: m) (auto simp: ok_put)

lemma get_fold_put:
  "ok m \<Longrightarrow> get (fold (\<lambda>(k, v). put k v) es m) = get m ++ map_of (rev es)"
proof (induction es arbitrary: m)
  case Nil
  then show ?case by simp
next
  case (Cons e es)
  obtain k v where e: "e = (k, v)" by (cases e)
  have "ok (put k v m)" using Cons.prems by (rule ok_put)
  then have "get (fold (\<lambda>(k, v). put k v) es (put k v m)) = get (put k v m) ++ map_of (rev es)"
    by (rule Cons.IH)
  then show ?case
    using Cons.prems by (simp add: e get_put)
qed

lemma fold_put_order:
  assumes "ok m" "distinct (map fst es)" "set es = set fs" "distinct (map fst fs)"
  shows "fold (\<lambda>(k, v). put k v) es m = fold (\<lambda>(k, v). put k v) fs m"
proof (rule ext)
  have "map_of (rev es) = map_of (rev fs)"
    using assms by (simp add: map_of_inject_set rev_map [symmetric])
  then show "get (fold (\<lambda>(k, v). put k v) es m) = get (fold (\<lambda>(k, v). put k v) fs m)"
    using assms(1) by (simp add: get_fold_put)
qed (use assms in \<open>simp_all add: ok_fold_put\<close>)

end

interpretation gmap: go_map "[]" mget mput mwf
  by unfold_locales (auto simp: mget_mput mwf_mput mget_ext, simp add: mget_def)

lemma mwf_mcopy: "mwf dst \<Longrightarrow> mwf (mcopy src dst)"
  unfolding mcopy_def by (rule gmap.ok_fold_put)

lemma mget_mcopy: "mwf dst \<Longrightarrow> mwf src \<Longrightarrow> mget (mcopy src dst) = mget dst ++ mget src"
proof -
  assume "mwf dst" "mwf src"
  have "distinct (map fst src)"
    using \<open>mwf src\<close> strict_sorted_iff by (auto simp: mwf_def)
  then have "map_of (rev src) = map_of src"
    by (simp add: map_of_inject_set rev_map [symmetric])
  with gmap.get_fold_put [OF \<open>mwf dst\<close>, of src] show ?thesis
    by (simp add: mcopy_def mget_def [of src])
qed

lemma mget_Nil [simp]: "mget [] k = None"
  by (simp add: mget_def)

lemma mget_Cons [simp]: "mget ((a, b) # m) k = (if k = a then Some b else mget m k)"
  by (simp add: mget_def)

lemma mwf_mdel: "mwf m \<Longrightarrow> mwf (mdel k m)"
  by (induction m) (auto simp: mdel_def mwf_Cons)

lemma mget_mdel: "mget (mdel k m) = (mget m)(k := None)"
  by (induction m) (auto simp: mdel_def fun_eq_iff)

lemma mput_same: "mwf m \<Longrightarrow> mget m k = Some v \<Longrightarrow> mput k v m = m"
  by (rule mget_ext) (auto simp: mwf_mput mget_mput)

lemma mcopy_Nil [simp]: "mcopy [] m = m"
  by (simp add: mcopy_def)

lemma mcopy_into_empty: "mwf m \<Longrightarrow> mcopy m [] = m"
  by (rule mget_ext) (auto simp: mwf_mcopy mget_mcopy fun_eq_iff map_add_def split: option.splits)

lemma mcopy_self: "mwf m \<Longrightarrow> mcopy m m = m"
  by (rule mget_ext) (auto simp: mwf_mcopy mget_mcopy map_add_def split: option.splits)

lemmas map_facts = mwf_mput mget_mput mwf_mcopy mget_mcopy mwf_mdel mget_mdel

subsection \<open>Well-formed values\<close>

fun vwf :: "val \<Rightarrow> bool" where
  "vwf (VInt i) = in_int64 i"
| "vwf (VList vs) = list_all vwf vs"
| "vwf (VMap m) = (mwf m \<and> list_all (\<lambda>e. vwf (snd e)) m)"
| "vwf (VMaps ms) = list_all (\<lambda>m. mwf m \<and> list_all (\<lambda>e. vwf (snd e)) m) ms"
| "vwf (VSMap m) = mwf m"
| "vwf _ = True"

definition ctx_wf :: "gomap \<Rightarrow> bool" where
  "ctx_wf m = (mwf m \<and> (\<forall>k v. mget m k = Some v \<longrightarrow> vwf v))"

subsection \<open>Float comparisons on the bits\<close>

definition f64_zero :: "f64 \<Rightarrow> bool" where
  "f64_zero b = (push_bit 1 b = 0)"

definition f64_magnitude :: "f64 \<Rightarrow> nat" where
  "f64_magnitude b = unat b mod 2 ^ 63"

definition f64_negative :: "f64 \<Rightarrow> bool" where
  "f64_negative b = (unat b \<ge> 2 ^ 63)"

text \<open>NaN: exponent all ones and a non-zero fraction. Infinity: a zero fraction.\<close>

definition f64_inf_magnitude :: nat where
  "f64_inf_magnitude = 2047 * 2 ^ 52"

definition f64_is_nan :: "f64 \<Rightarrow> bool" where
  "f64_is_nan b = (f64_magnitude b > f64_inf_magnitude)"

definition f64_is_inf :: "f64 \<Rightarrow> bool" where
  "f64_is_inf b = (f64_magnitude b = f64_inf_magnitude)"

definition f64_key :: "f64 \<Rightarrow> int" where
  "f64_key b = (if f64_negative b then - int (f64_magnitude b) else int (f64_magnitude b))"

definition f64_le :: "f64 \<Rightarrow> f64 \<Rightarrow> bool" where
  "f64_le a b = (\<not> f64_is_nan a \<and> \<not> f64_is_nan b \<and> f64_key a \<le> f64_key b)"

definition f64_one :: f64 where
  "f64_one = 0x3FF0000000000000"

subsection \<open>The text of a value: \<open>fmt.Sprintf("%v", v)\<close>\<close>

fun sprint :: "golib \<Rightarrow> val \<Rightarrow> string" where
  "sprint G VNil = ''<nil>''"
| "sprint G (VBool b) = (if b then ''true'' else ''false'')"
| "sprint G (VInt i) = int_text i"
| "sprint G (VFloat f) = fmt_float G f"
| "sprint G (VStr s) = s"
| "sprint G (VList vs) = ''['' @ join '' '' (map (sprint G) vs) @ '']''"
| "sprint G (VMap m) = ''map['' @ join '' '' (map (\<lambda>e. fst e @ '':'' @ sprint G (snd e)) m) @ '']''"
| "sprint G (VStrs ss) = ''['' @ join '' '' ss @ '']''"
| "sprint G (VMaps ms) = ''['' @ join '' ''
     (map (\<lambda>m. ''map['' @ join '' '' (map (\<lambda>e. fst e @ '':'' @ sprint G (snd e)) m) @ '']'') ms) @ '']''"
| "sprint G (VSMap m) = ''map['' @ join '' '' (map (\<lambda>e. fst e @ '':'' @ snd e) m) @ '']''"

subsection \<open>Type switches\<close>

fun as_string :: "val \<Rightarrow> string option" where
  "as_string (VStr s) = Some s"
| "as_string _ = None"

fun as_map :: "val \<Rightarrow> gomap option" where
  "as_map (VMap m) = Some m"
| "as_map _ = None"

fun as_bool :: "val \<Rightarrow> bool option" where
  "as_bool (VBool b) = Some b"
| "as_bool _ = None"

lemma as_string_Some [simp]: "as_string v = Some s \<longleftrightarrow> v = VStr s"
  by (cases v) auto

lemma as_map_Some [simp]: "as_map v = Some m \<longleftrightarrow> v = VMap m"
  by (cases v) auto

lemma as_bool_Some [simp]: "as_bool v = Some b \<longleftrightarrow> v = VBool b"
  by (cases v) auto

text \<open>\<open>s, _ := params[k].(string)\<close>: the string, or the zero value.\<close>

definition str_or_empty :: "gomap \<Rightarrow> string \<Rightarrow> string" where
  "str_or_empty m k = (case mget m k of Some (VStr s) \<Rightarrow> s | _ \<Rightarrow> [])"

text \<open>A nil entry and an absent key read the same through \<open>m[k]\<close>.\<close>

definition mget_nil :: "gomap \<Rightarrow> string \<Rightarrow> val" where
  "mget_nil m k = (case mget m k of Some v \<Rightarrow> v | None \<Rightarrow> VNil)"

text \<open>A concrete instance of the parameters, for the witnesses: no float is read, none has a text
  of its own, and no URL parses.\<close>

definition sample_golib :: golib where
  "sample_golib = \<lparr>fmt_float = (\<lambda>_. ''0''), json_float = (\<lambda>_. ''0''), parse_float = (\<lambda>_. None),
     url_parse = (\<lambda>_. None)\<rparr>"

end
