(* ===== verification/State_Store.thy ===== *)
theory State_Store
  imports Go_Values "HOL-Library.Multiset"
begin

text \<open>
  The checkpoint store (\<open>pkg/state/store.go\<close>, \<open>sqlite.go\<close>, \<open>postgres.go\<close>): the three
  tables as lists of rows in insertion order, one operation per statement of the code. The two
  back ends run the same statements. A NULL text column reads back as the empty string
  (\<open>nullStr\<close>), so a row is the Go struct itself; a comparison with NULL is never true, which
  shows in \<open>get_child_runs\<close>; where they place NULLs in an order is the one difference
  (\<open>get_steps\<close> is SQLite's, \<open>get_steps_postgres\<close> PostgreSQL's). Failures of the database itself are not modelled, only the
  primary-key conflict of \<open>CreateRun\<close> and the missing row of \<open>GetRun\<close>. Rows with equal
  sort keys keep their insertion order.
\<close>

datatype run_status = RunRunning | RunPaused | RunCompleted | RunFailed

datatype step_status =
  StepPending | StepRunning | StepPaused | StepCompleted | StepFailed | StepSkipped

record run_row =
  rn_run_id :: string
  rn_workflow_file :: string
  rn_source_digest :: string
  rn_entrypoint :: string
  rn_status :: run_status
  rn_vars_json :: string
  rn_parent_run_id :: string
  rn_parent_step :: string
  rn_for_each_key :: string
  rn_started_at :: int
  rn_completed_at :: "int option"

record source_check =
  sc_run_id :: string
  sc_checked_at :: int
  sc_mode :: string
  sc_expected_digest :: string
  sc_observed_digest :: string
  sc_source_drifted :: bool

record step_row =
  sr_run_id :: string
  sr_workflow_name :: string
  sr_step_name :: string
  sr_status :: step_status
  sr_output_json :: string
  sr_artifacts_json :: string
  sr_error :: string
  sr_started_at :: "int option"
  sr_completed_at :: "int option"
  sr_definition_hash :: string

record store =
  db_runs :: "run_row list"
  db_steps :: "step_row list"
  db_checks :: "source_check list"

type_synonym step_key = "string \<times> string \<times> string"

definition step_key :: "step_row \<Rightarrow> step_key" where
  "step_key r = (sr_run_id r, sr_workflow_name r, sr_step_name r)"

definition empty_store :: store where
  "empty_store = \<lparr>db_runs = [], db_steps = [], db_checks = []\<rparr>"

subsection \<open>Runs\<close>

fun find_run :: "run_row list \<Rightarrow> string \<Rightarrow> run_row option" where
  "find_run [] i = None"
| "find_run (r # rs) i = (if rn_run_id r = i then Some r else find_run rs i)"

definition create_run :: "run_row \<Rightarrow> store \<Rightarrow> string + store" where
  "create_run r st =
     (if find_run (db_runs st) (rn_run_id r) \<noteq> None then Inl ''creating run: UNIQUE constraint failed''
      else Inr (st\<lparr>db_runs := db_runs st @ [r\<lparr>rn_completed_at := None\<rparr>]\<rparr>))"

text \<open>\<open>UPDATE runs SET status, completed_at WHERE run_id\<close>: no other column.\<close>

definition update_run :: "run_row \<Rightarrow> store \<Rightarrow> store" where
  "update_run r st =
     st\<lparr>db_runs := map (\<lambda>q. if rn_run_id q = rn_run_id r
          then q\<lparr>rn_status := rn_status r, rn_completed_at := rn_completed_at r\<rparr> else q)
        (db_runs st)\<rparr>"

definition get_run :: "store \<Rightarrow> string \<Rightarrow> string + run_row" where
  "get_run st i =
     (case find_run (db_runs st) i of
        None \<Rightarrow> Inl (''run '' @ quoted i @ '' not found'')
      | Some r \<Rightarrow> Inr r)"

definition list_runs :: "store \<Rightarrow> run_row list" where
  "list_runs st = sort_key (\<lambda>r. - rn_started_at r) (db_runs st)"

definition get_child_runs :: "store \<Rightarrow> string \<Rightarrow> run_row list" where
  "get_child_runs st p =
     sort_key rn_started_at (filter (\<lambda>r. p \<noteq> [] \<and> rn_parent_run_id r = p) (db_runs st))"

subsection \<open>Source checks\<close>

definition save_source_check :: "source_check \<Rightarrow> store \<Rightarrow> store" where
  "save_source_check c st = st\<lparr>db_checks := db_checks st @ [c]\<rparr>"

definition get_source_checks :: "store \<Rightarrow> string \<Rightarrow> source_check list" where
  "get_source_checks st i = filter (\<lambda>c. sc_run_id c = i) (db_checks st)"

subsection \<open>Steps\<close>

fun upsert :: "step_row \<Rightarrow> step_row list \<Rightarrow> step_row list" where
  "upsert r [] = [r]"
| "upsert r (q # qs) = (if step_key q = step_key r then r # qs else q # upsert r qs)"

definition save_step :: "step_row \<Rightarrow> store \<Rightarrow> store" where
  "save_step r st = st\<lparr>db_steps := upsert r (db_steps st)\<rparr>"

fun find_step_row :: "step_row list \<Rightarrow> step_key \<Rightarrow> step_row option" where
  "find_step_row [] k = None"
| "find_step_row (r # rs) k = (if step_key r = k then Some r else find_step_row rs k)"

definition get_step :: "store \<Rightarrow> string \<Rightarrow> string \<Rightarrow> string \<Rightarrow> step_row option" where
  "get_step st run wn name = find_step_row (db_steps st) (run, wn, name)"

text \<open>\<open>ORDER BY started_at\<close> on a nullable column: NULLs first.\<close>

definition order_by_nullable :: "('a \<Rightarrow> int option) \<Rightarrow> 'a list \<Rightarrow> 'a list" where
  "order_by_nullable f xs =
     filter (\<lambda>x. f x = None) xs @ sort_key (\<lambda>x. the (f x)) (filter (\<lambda>x. f x \<noteq> None) xs)"

definition get_steps :: "store \<Rightarrow> string \<Rightarrow> step_row list" where
  "get_steps st run =
     order_by_nullable sr_started_at (filter (\<lambda>r. sr_run_id r = run) (db_steps st))"

text \<open>PostgreSQL sorts NULLs last.\<close>

definition get_steps_postgres :: "store \<Rightarrow> string \<Rightarrow> step_row list" where
  "get_steps_postgres st run =
     (let rs = filter (\<lambda>r. sr_run_id r = run) (db_steps st) in
      sort_key (\<lambda>r. the (sr_started_at r)) (filter (\<lambda>r. sr_started_at r \<noteq> None) rs)
      @ filter (\<lambda>r. sr_started_at r = None) rs)"

definition delete_step :: "string \<Rightarrow> string \<Rightarrow> store \<Rightarrow> store" where
  "delete_step run name st =
     st\<lparr>db_steps := filter (\<lambda>r. \<not> (sr_run_id r = run \<and> sr_step_name r = name)) (db_steps st)\<rparr>"

definition delete_steps :: "string \<Rightarrow> string list \<Rightarrow> store \<Rightarrow> store" where
  "delete_steps run names st = fold (delete_step run) names st"

subsection \<open>Choosing a back end\<close>

definition is_postgres_dsn :: "string \<Rightarrow> bool" where
  "is_postgres_dsn s = (has_prefix s ''postgres://'' \<or> has_prefix s ''postgresql://'')"

definition redact_store_location :: "golib \<Rightarrow> string \<Rightarrow> string" where
  "redact_store_location G s =
     (if \<not> is_postgres_dsn s then s
      else (case url_parse G s of
          None \<Rightarrow> ''postgres://<redacted>''
        | Some u \<Rightarrow> u_scheme u @ ''://'' @ (if u_has_user u then ''<redacted>@'' else [])
             @ u_host u @ u_path u @ (if u_raw_query u \<noteq> [] then ''?<redacted>'' else [])))"

subsection \<open>Invariant\<close>

definition store_ok :: "store \<Rightarrow> bool" where
  "store_ok st \<longleftrightarrow> distinct (map rn_run_id (db_runs st)) \<and> distinct (map step_key (db_steps st))"

lemma find_run_None: "find_run rs i = None \<longleftrightarrow> i \<notin> rn_run_id ` set rs"
  by (induction rs) auto

lemma find_run_Some: "find_run rs i = Some r \<Longrightarrow> r \<in> set rs \<and> rn_run_id r = i"
  by (induction rs) (auto split: if_splits)

lemma find_run_append: "find_run (rs @ qs) i =
    (case find_run rs i of Some r \<Rightarrow> Some r | None \<Rightarrow> find_run qs i)"
  by (induction rs) auto

lemma find_run_map:
  assumes "\<And>q. rn_run_id (f q) = rn_run_id q"
  shows "find_run (map f rs) i = map_option f (find_run rs i)"
  using assms by (induction rs) auto

lemma step_keys_upsert: "step_key ` set (upsert r qs) = insert (step_key r) (step_key ` set qs)"
  by (induction qs) auto

lemma set_upsert: "distinct (map step_key qs) \<Longrightarrow>
    set (upsert r qs) = insert r {q \<in> set qs. step_key q \<noteq> step_key r}"
  by (induction qs) (auto simp: image_iff)

lemma distinct_upsert: "distinct (map step_key qs) \<Longrightarrow> distinct (map step_key (upsert r qs))"
  by (induction qs) (auto simp: step_keys_upsert [simplified image_set [symmetric]] step_keys_upsert)

lemma find_step_row_upsert_key:
  "find_step_row (upsert r qs) k = (if k = step_key r then Some r else find_step_row qs k)"
  by (induction qs) auto

lemma find_step_row_upsert:
  "find_step_row (upsert r qs) = (find_step_row qs)(step_key r \<mapsto> r)"
  by (rule ext) (simp add: find_step_row_upsert_key)

lemma find_step_row_filter:
  "(\<And>r. P r \<longleftrightarrow> Q (step_key r)) \<Longrightarrow>
     find_step_row (filter P rs) k = (if Q k then find_step_row rs k else None)"
  by (induction rs) auto

lemma find_step_row_Some: "find_step_row rs k = Some r \<Longrightarrow> r \<in> set rs \<and> step_key r = k"
  by (induction rs) (auto split: if_splits)

lemma find_step_row_in:
  "distinct (map step_key rs) \<Longrightarrow> r \<in> set rs \<Longrightarrow> find_step_row rs (step_key r) = Some r"
  by (induction rs) (auto simp: image_iff)

lemma store_ok_empty [simp]: "store_ok empty_store"
  by (simp add: store_ok_def empty_store_def)

lemma store_ok_create_run: "store_ok st \<Longrightarrow> create_run r st = Inr st' \<Longrightarrow> store_ok st'"
  by (auto simp: store_ok_def create_run_def find_run_None split: if_splits)

lemma run_ids_update_run: "map rn_run_id (db_runs (update_run r st)) = map rn_run_id (db_runs st)"
  by (simp add: update_run_def)

lemma store_ok_update_run: "store_ok st \<Longrightarrow> store_ok (update_run r st)"
  by (simp add: store_ok_def run_ids_update_run) (simp add: update_run_def)

lemma store_ok_save_step: "store_ok st \<Longrightarrow> store_ok (save_step r st)"
  by (simp add: store_ok_def save_step_def distinct_upsert)

lemma delete_steps_filter: "delete_steps run names st =
    st\<lparr>db_steps := filter (\<lambda>r. \<not> (sr_run_id r = run \<and> sr_step_name r \<in> set names)) (db_steps st)\<rparr>"
proof (induction names arbitrary: st)
  case Nil
  then show ?case by (simp add: delete_steps_def)
next
  case (Cons n ns)
  have "delete_steps run (n # ns) st = delete_steps run ns (delete_step run n st)"
    by (simp add: delete_steps_def)
  also have "\<dots> = st\<lparr>db_steps := filter (\<lambda>r. \<not> (sr_run_id r = run \<and> sr_step_name r \<in> set (n # ns))) (db_steps st)\<rparr>"
    unfolding Cons.IH by (simp add: delete_step_def) (rule arg_cong [where f = "\<lambda>x. st\<lparr>db_steps := x\<rparr>"], rule filter_cong, auto)
  finally show ?case .
qed

lemma store_ok_delete_steps: "store_ok st \<Longrightarrow> store_ok (delete_steps run names st)"
  by (simp add: store_ok_def delete_steps_filter distinct_map_filter)

lemma store_ok_save_source_check: "store_ok st \<Longrightarrow> store_ok (save_source_check c st)"
  by (simp add: store_ok_def save_source_check_def)

lemmas store_ok_intros = store_ok_update_run store_ok_save_step store_ok_delete_steps
  store_ok_save_source_check

subsection \<open>The contract of the step table\<close>

text \<open>
  What the engine relies on: a row is found under its key after it was saved and until it is
  saved again or deleted; deleting removes exactly the keys selected.
\<close>

locale step_table =
  fixes put_row :: "'r \<Rightarrow> 's \<Rightarrow> 's"
    and find_row :: "'s \<Rightarrow> 'k \<Rightarrow> 'r option"
    and row_key :: "'r \<Rightarrow> 'k"
    and del_rows :: "'sel \<Rightarrow> 's \<Rightarrow> 's"
    and selects :: "'sel \<Rightarrow> 'k \<Rightarrow> bool"
  assumes find_put: "find_row (put_row r s) = (find_row s)(row_key r \<mapsto> r)"
    and find_del: "find_row (del_rows d s) k = (if selects d k then None else find_row s k)"
begin

lemma find_put_other: "row_key r \<noteq> k \<Longrightarrow> find_row (put_row r s) k = find_row s k"
  by (simp add: find_put)

lemma find_puts:
  "find_row (fold put_row rs s) = find_row s ++ map_of (rev (map (\<lambda>r. (row_key r, r)) rs))"
  by (induction rs arbitrary: s) (simp_all add: find_put map_add_assoc)

lemma find_puts_other:
  "k \<notin> row_key ` set rs \<Longrightarrow> find_row (fold put_row rs s) k = find_row s k"
  by (induction rs arbitrary: s) (auto simp: find_put)

lemma put_then_del: "selects d (row_key r) \<Longrightarrow>
    find_row (del_rows d (put_row r s)) = find_row (del_rows d s)"
  by (auto simp: fun_eq_iff find_del find_put)

end

definition find_key :: "store \<Rightarrow> step_key \<Rightarrow> step_row option" where
  "find_key st k = find_step_row (db_steps st) k"

definition deletes :: "string \<times> string list \<Rightarrow> step_key \<Rightarrow> bool" where
  "deletes d k = (fst k = fst d \<and> snd (snd k) \<in> set (snd d))"

definition delete_sel :: "string \<times> string list \<Rightarrow> store \<Rightarrow> store" where
  "delete_sel d st = delete_steps (fst d) (snd d) st"

interpretation steps: step_table save_step find_key step_key delete_sel deletes
proof unfold_locales
  show "find_key (save_step r s) = (find_key s)(step_key r \<mapsto> r)" for r s
    by (simp add: find_key_def save_step_def find_step_row_upsert fun_eq_iff)
  show "find_key (delete_sel d s) k = (if deletes d k then None else find_key s k)" for d s k
    using find_step_row_filter [of "\<lambda>r. \<not> (sr_run_id r = fst d \<and> sr_step_name r \<in> set (snd d))"
        "\<lambda>k. \<not> deletes d k" "db_steps s" k]
    by (simp add: find_key_def delete_sel_def delete_steps_filter deletes_def step_key_def)
qed

lemma get_step_find_key: "get_step st run wn name = find_key st (run, wn, name)"
  by (simp add: get_step_def find_key_def)

lemma get_step_save_step:
  "get_step (save_step r st) run wn name =
     (if step_key r = (run, wn, name) then Some r else get_step st run wn name)"
  by (simp add: get_step_find_key steps.find_put)

lemma get_step_delete_steps:
  "get_step (delete_steps run names st) run' wn name =
     (if run' = run \<and> name \<in> set names then None else get_step st run' wn name)"
  using steps.find_del [of "(run, names)" st "(run', wn, name)"]
  by (simp add: get_step_find_key delete_sel_def deletes_def)

lemma db_runs_frame [simp]:
  "db_runs (save_step r st) = db_runs st"
  "db_runs (delete_steps run names st) = db_runs st"
  "db_runs (save_source_check c st) = db_runs st"
  by (simp_all add: save_step_def delete_steps_filter save_source_check_def)

lemma db_steps_frame [simp]:
  "db_steps (update_run q st) = db_steps st"
  "db_steps (save_source_check c st) = db_steps st"
  by (simp_all add: update_run_def save_source_check_def)

lemma db_steps_create_run: "create_run r st = Inr st' \<Longrightarrow> db_steps st' = db_steps st"
  by (auto simp: create_run_def split: if_splits)

lemma get_step_update_run [simp]: "get_step (update_run q st) run wn name = get_step st run wn name"
  by (simp add: get_step_def)

lemma get_run_cong: "db_runs st = db_runs st' \<Longrightarrow> get_run st i = get_run st' i"
  by (simp add: get_run_def)

lemma set_order_by_nullable: "set (order_by_nullable f xs) = set xs"
  by (auto simp: order_by_nullable_def)

lemma mset_order_by_nullable: "mset (order_by_nullable f xs) = mset xs"
proof -
  have "mset (order_by_nullable f xs) =
      filter_mset (\<lambda>x. f x = None) (mset xs) + filter_mset (\<lambda>x. \<not> f x = None) (mset xs)"
    by (simp add: order_by_nullable_def mset_filter)
  then show ?thesis by (simp add: multiset_partition [symmetric])
qed

lemma set_get_steps: "set (get_steps st run) = {r \<in> set (db_steps st). sr_run_id r = run}"
  by (simp add: get_steps_def set_order_by_nullable)

lemma set_get_child_runs:
  "set (get_child_runs st p) = {r \<in> set (db_runs st). p \<noteq> [] \<and> rn_parent_run_id r = p}"
  by (simp add: get_child_runs_def)

lemma get_step_Some_get_steps:
  assumes "store_ok st"
  shows "get_step st run wn name = Some r \<longleftrightarrow>
    r \<in> set (get_steps st run) \<and> sr_workflow_name r = wn \<and> sr_step_name r = name"
proof
  assume "get_step st run wn name = Some r"
  then show "r \<in> set (get_steps st run) \<and> sr_workflow_name r = wn \<and> sr_step_name r = name"
    using find_step_row_Some [of "db_steps st" "(run, wn, name)" r]
    by (simp add: get_step_def set_get_steps step_key_def)
next
  assume r: "r \<in> set (get_steps st run) \<and> sr_workflow_name r = wn \<and> sr_step_name r = name"
  then have "r \<in> set (db_steps st)" "step_key r = (run, wn, name)"
    by (auto simp: set_get_steps step_key_def)
  then show "get_step st run wn name = Some r"
    using assms find_step_row_in [of "db_steps st" r] by (simp add: get_step_def store_ok_def)
qed

text \<open>The two back ends list the steps of a run alike when every row has a start time, and
  always list the same rows.\<close>

theorem backends_list_steps:
  "((\<forall>r\<in>set (db_steps st). sr_started_at r \<noteq> None) \<longrightarrow> get_steps_postgres st run = get_steps st run) \<and>
   mset (get_steps_postgres st run) = mset (get_steps st run)"
proof -
  have "filter (\<lambda>r. sr_started_at r = None) (filter (\<lambda>r. sr_run_id r = run) (db_steps st)) = []"
    if "\<forall>r\<in>set (db_steps st). sr_started_at r \<noteq> None"
    using that by (auto simp: filter_empty_conv)
  then show ?thesis
    by (auto simp: get_steps_postgres_def get_steps_def order_by_nullable_def Let_def)
qed

definition blank_row :: step_row where
  "blank_row = \<lparr>sr_run_id = ''r1'', sr_workflow_name = ''main'', sr_step_name = ''a'', sr_status = StepCompleted,
     sr_output_json = [], sr_artifacts_json = [], sr_error = [], sr_started_at = Some 2,
     sr_completed_at = Some 3, sr_definition_hash = []\<rparr>"

definition sample_run :: run_row where
  "sample_run = \<lparr>rn_run_id = ''r'', rn_workflow_file = ''wf.yaml'', rn_source_digest = ''d1'',
     rn_entrypoint = ''main'', rn_status = RunRunning, rn_vars_json = ''{}'', rn_parent_run_id = [],
     rn_parent_step = [], rn_for_each_key = [], rn_started_at = 0, rn_completed_at = None\<rparr>"

theorem backends_list_steps_witness:
  "get_steps_postgres \<lparr>db_runs = [], db_steps = [blank_row, blank_row\<lparr>sr_step_name := ''b'', sr_started_at := Some 1\<rparr>],
     db_checks = []\<rparr> ''r1'' = [blank_row\<lparr>sr_step_name := ''b'', sr_started_at := Some 1\<rparr>, blank_row]"
proof -
  let ?st = "\<lparr>db_runs = [], db_steps = [blank_row, blank_row\<lparr>sr_step_name := ''b'', sr_started_at := Some 1\<rparr>],
     db_checks = []\<rparr>"
  have "\<forall>r\<in>set (db_steps ?st). sr_started_at r \<noteq> None" by (simp add: blank_row_def)
  then have "get_steps_postgres ?st ''r1'' = get_steps ?st ''r1''"
    using backends_list_steps [of ?st "''r1''"] by blast
  also have "\<dots> = [blank_row\<lparr>sr_step_name := ''b'', sr_started_at := Some 1\<rparr>, blank_row]"
    by (simp add: get_steps_def order_by_nullable_def blank_row_def)
  finally show ?thesis .
qed

end
