(* ===== verification/Jev_Types.thy ===== *)
theory Jev_Types
  imports Go_Values
begin

text \<open>
  Jev connections, decisions and questions (\<open>pkg/jev/types.go\<close>): the records of the YAML
  file and their validation. A question
  list arrives as a value that the code sends through JSON into \<open>map[string]Question\<close>.
\<close>

record connection =
  cn_type :: string
  cn_base_url :: string
  cn_model :: string
  cn_api_key_env :: string
  cn_api_key_file :: string
  cn_timeout :: int
  cn_concurrency :: int

record question =
  q_type :: string
  q_instructions :: val
  q_criteria :: val

record decision =
  dc_connection :: string
  dc_type :: string
  dc_instructions :: val
  dc_criteria :: val
  dc_version :: string

definition decision_question :: "decision \<Rightarrow> question" where
  "decision_question d =
     \<lparr>q_type = dc_type d, q_instructions = dc_instructions d, q_criteria = dc_criteria d\<rparr>"

definition connection_validate :: "golib \<Rightarrow> connection \<Rightarrow> string option" where
  "connection_validate G c =
     (let bad = ''base_url must be an HTTP(S) URL without credentials, query, or fragment'' in
      case url_parse G (cn_base_url c) of
        None \<Rightarrow> Some bad
      | Some u \<Rightarrow>
          if u_host u = [] \<or> (u_scheme u \<noteq> ''http'' \<and> u_scheme u \<noteq> ''https'') \<or> u_has_user u
             \<or> u_raw_query u \<noteq> [] \<or> u_fragment u \<noteq> [] then Some bad
          else if cn_type c \<noteq> ''jev'' then Some ''connection type must be jev''
          else if cn_api_key_env c \<noteq> [] \<and> cn_api_key_file c \<noteq> []
            then Some ''choose api_key_env or api_key_file''
          else if cn_timeout c < 0 \<or> cn_concurrency c < 0
            then Some ''timeout and concurrency cannot be negative''
          else None)"

definition question_validate :: "question \<Rightarrow> string option" where
  "question_validate q =
     (if q_type q = ''noul'' then
        (case q_criteria q of
           VNil \<Rightarrow> None
         | VMap m \<Rightarrow>
             if length m \<noteq> 2 then Some ''noul criteria must contain true and false''
             else if mget m ''true'' = None then Some ''noul criteria missing true''
             else if mget m ''false'' = None then Some ''noul criteria missing false''
             else None
         | _ \<Rightarrow> Some ''noul criteria must contain true and false'')
      else if q_type q = ''choice'' then
        (case q_criteria q of
           VMap m \<Rightarrow>
             if m = [] \<or> length m > 255 then Some (''choice requires 1'' @ [CHR 0xE2, CHR 0x80, CHR 0x93] @ ''255 criteria'')
             else if list_ex (\<lambda>e. trim_space (fst e) = []) m
               then Some ''choice criteria keys cannot be empty''
             else None
         | _ \<Rightarrow> Some (''choice requires 1'' @ [CHR 0xE2, CHR 0x80, CHR 0x93] @ ''255 criteria''))
      else if q_type q = ''score'' then
        (case q_criteria q of
           VList (x # xs) \<Rightarrow> None
         | _ \<Rightarrow> Some ''score requires a nonempty criteria list'')
      else Some (''unknown question type '' @ quoted (q_type q)))"

text \<open>
  One question out of its decoded JSON object: null leaves the zero value, field names match
  in any case, an unknown field or a \<open>type\<close> that is not a string is an error.
\<close>

definition empty_question :: question where
  "empty_question = \<lparr>q_type = [], q_instructions = VNil, q_criteria = VNil\<rparr>"

fun question_fields :: "(string \<times> val) list \<Rightarrow> question \<Rightarrow> question option" where
  "question_fields [] q = Some q"
| "question_fields ((k, v) # es) q =
     (if to_lower k = ''type'' then
        (case v of VStr s \<Rightarrow> question_fields es (q\<lparr>q_type := s\<rparr>)
         | VNil \<Rightarrow> question_fields es q
         | _ \<Rightarrow> None)
      else if to_lower k = ''instructions'' then question_fields es (q\<lparr>q_instructions := v\<rparr>)
      else if to_lower k = ''criteria'' then question_fields es (q\<lparr>q_criteria := v\<rparr>)
      else None)"

fun question_of :: "val \<Rightarrow> question option" where
  "question_of VNil = Some empty_question"
| "question_of (VMap m) = question_fields m empty_question"
| "question_of (VSMap m) = question_fields (map (\<lambda>e. (fst e, VStr (snd e))) m) empty_question"
| "question_of _ = None"

definition questions :: "val \<Rightarrow> string + (string \<times> question) list" where
  "questions raw =
     (let entries = (case raw of VMap m \<Rightarrow> Some m | VNil \<Rightarrow> Some [] | VSMap [] \<Rightarrow> Some [] | _ \<Rightarrow> None) in
      case entries of
        None \<Rightarrow> Inl ''questions: cannot decode''
      | Some m \<Rightarrow>
          (case map_try (\<lambda>e. case question_of (snd e) of
                    None \<Rightarrow> Inl ''questions: cannot decode''
                  | Some q \<Rightarrow> Inr (fst e, q)) m of
             Inl e \<Rightarrow> Inl e
           | Inr qs \<Rightarrow>
               if qs = [] then Inl ''questions cannot be empty''
               else (case check_all (\<lambda>(name, q).
                        if name = [] then Some ''question name cannot be empty''
                        else map_option (\<lambda>e. ''question '' @ quoted name @ '': '' @ e)
                               (question_validate q)) qs of
                       Some e \<Rightarrow> Inl e
                     | None \<Rightarrow> Inr qs)))"

text \<open>The criteria a question type demands, as one predicate.\<close>

definition criteria_ok :: "question \<Rightarrow> bool" where
  "criteria_ok q \<longleftrightarrow>
     (q_type q = ''noul'' \<and>
        (q_criteria q = VNil \<or>
         (\<exists>m. q_criteria q = VMap m \<and> length m = 2 \<and> {''true'', ''false''} \<subseteq> dom (mget m)))) \<or>
     (q_type q = ''choice'' \<and>
        (\<exists>m. q_criteria q = VMap m \<and> 1 \<le> length m \<and> length m \<le> 255 \<and>
             (\<forall>k\<in>fst ` set m. trim_space k \<noteq> []))) \<or>
     (q_type q = ''score'' \<and> (\<exists>xs. q_criteria q = VList xs \<and> xs \<noteq> []))"

lemma question_validate_iff: "question_validate q = None \<longleftrightarrow> criteria_ok q"
proof -
  consider "q_type q = ''noul''" | "q_type q = ''choice''" | "q_type q = ''score''"
    | "q_type q \<notin> {''noul'', ''choice'', ''score''}" by blast
  then show ?thesis
  proof cases
    case 1
    then show ?thesis
      by (cases "q_criteria q") (auto simp: question_validate_def criteria_ok_def)
  next
    case 2
    then show ?thesis
      by (cases "q_criteria q")
         (auto simp: question_validate_def criteria_ok_def list_ex_iff Suc_le_eq)
  next
    case 3
    then show ?thesis
      by (cases "q_criteria q")
         (auto simp: question_validate_def criteria_ok_def split: list.splits)
  next
    case 4
    then show ?thesis by (simp add: question_validate_def criteria_ok_def)
  qed
qed

lemma questions_Inr:
  assumes "questions raw = Inr qs"
  shows "qs \<noteq> [] \<and> (\<forall>(name, q)\<in>set qs. name \<noteq> [] \<and> criteria_ok q)"
  using assms
  by (auto simp: questions_def Let_def check_all_None question_validate_iff
      split: option.splits sum.splits if_splits)

end
