(* ===== verification/Workflow_File.thy ===== *)
theory Workflow_File
  imports Jev_Types
begin

text \<open>
  The parsed workflow file (\<open>pkg/parser/types.go\<close>), its validation and the resolution of
  step types (\<open>pkg/parser/parser.go\<close>, \<open>pkg/parser/jev.go\<close>). \<open>validate\<close> is the code's
  chain of checks with its error texts; \<open>valid_file\<close> says declaratively what a file that
  passes looks like, and \<open>validate_iff\<close> that the two agree.
\<close>

subsection \<open>Data\<close>

record artifact =
  ar_path :: string
  ar_format :: string
  ar_source :: string
  ar_optional :: bool

record step =
  st_name :: string
  st_description :: string
  st_type :: string
  st_params :: gomap
  st_when :: string
  st_register :: string
  st_timeout :: int
  st_for_each :: string
  st_for_each_key :: string
  st_for_each_sort :: string
  st_for_each_when :: string
  st_as :: string
  st_concurrency :: int
  st_workflow :: string
  st_workflow_names :: "string list"
  st_vars :: gomap
  st_artifacts :: "(string \<times> artifact) list"
  st_that :: "string list"
  st_msg :: string
  st_rules :: "string list"
  st_facts :: gomap
  st_ignore_errors :: bool
  st_failed_when :: string

record workflow =
  wf_name :: string
  wf_description :: string
  wf_vars :: gomap
  wf_steps :: "step list"
  wf_rescue :: "step list"
  wf_always :: "step list"

record rule =
  ru_name :: string
  ru_file :: string
  ru_description :: string
  ru_salience :: int
  ru_when :: string
  ru_action :: string
  ru_set_fact :: gomap

record step_type =
  ty_base :: string
  ty_description :: string
  ty_defaults :: gomap
  ty_job :: gomap
  ty_params :: gomap

record workflow_file =
  fi_connections :: "(string \<times> connection) list"
  fi_decisions :: "(string \<times> decision) list"
  fi_entrypoint :: string
  fi_namespace :: string
  fi_forks :: int
  fi_vars :: gomap
  fi_rules :: "rule list"
  fi_step_types :: "(string \<times> step_type) list"
  fi_workflows :: "workflow list"
  fi_script_dir :: string

subsection \<open>Lookups\<close>

definition primitives :: "string list" where
  "primitives =
     [''jev'', ''k8s_job'', ''k8s_job_wait'', ''http_request'', ''llm_invoke'', ''shell_exec'',
      ''script_exec'', ''write_file'', ''claude'', ''ansible'', ''ansible_playbook'', ''prompt'',
      ''gate'', ''load_artifact'', ''set_fact'', ''assert'']"

definition is_primitive :: "string \<Rightarrow> bool" where
  "is_primitive t = List.member primitives t"

definition primitive_names :: "string list" where
  "primitive_names = sort primitives"

fun get_workflow :: "workflow list \<Rightarrow> string \<Rightarrow> workflow option" where
  "get_workflow [] name = None"
| "get_workflow (w # ws) name = (if wf_name w = name then Some w else get_workflow ws name)"

fun has_workflow :: "workflow list \<Rightarrow> string \<Rightarrow> bool" where
  "has_workflow [] name = False"
| "has_workflow (w # ws) name = (wf_name w = name \<or> has_workflow ws name)"

fun get_rule :: "rule list \<Rightarrow> string \<Rightarrow> rule option" where
  "get_rule [] name = None"
| "get_rule (r # rs) name = (if ru_name r = name then Some r else get_rule rs name)"

lemma has_workflow_iff: "has_workflow ws name \<longleftrightarrow> get_workflow ws name \<noteq> None"
  by (induction ws) auto

lemma get_workflow_Some: "get_workflow ws name = Some w \<Longrightarrow> w \<in> set ws \<and> wf_name w = name"
  by (induction ws) (auto split: if_splits)

lemma get_workflow_None: "get_workflow ws name = None \<longleftrightarrow> name \<notin> wf_name ` set ws"
  by (induction ws) auto

lemma get_rule_Some: "get_rule rs name = Some r \<Longrightarrow> r \<in> set rs \<and> ru_name r = name"
  by (induction rs) (auto split: if_splits)

lemma get_rule_None: "get_rule rs name = None \<longleftrightarrow> name \<notin> ru_name ` set rs"
  by (induction rs) auto

definition is_templated :: "string \<Rightarrow> bool" where
  "is_templated s = (contains s ''{{'' \<or> contains s ''{%'')"

subsection \<open>Step types\<close>

fun map_any :: "val option \<Rightarrow> gomap option" where
  "map_any (Some (VMap m)) = Some m"
| "map_any (Some (VSMap m)) = Some (map (\<lambda>e. (fst e, VStr (snd e))) m)"
| "map_any _ = None"

definition merge_headers :: "gomap list \<Rightarrow> gomap" where
  "merge_headers layers =
     fold (\<lambda>layer hs. case map_any (mget layer ''headers'') of
               None \<Rightarrow> hs | Some h \<Rightarrow> mcopy h hs) layers []"

definition merge_header_params :: "gomap \<Rightarrow> gomap list \<Rightarrow> gomap" where
  "merge_header_params merged layers =
     (let headers = merge_headers layers
      in if headers \<noteq> [] then mput ''headers'' (VMap headers) merged else merged)"

definition resolve_step_type :: "(string \<times> step_type) list \<Rightarrow> step \<Rightarrow> string \<times> gomap" where
  "resolve_step_type types s =
     (if is_primitive (st_type s) then (st_type s, st_params s)
      else (case mget types (st_type s) of
        None \<Rightarrow> (st_type s, st_params s)
      | Some ty \<Rightarrow>
          (let merged = mcopy (st_params s) (mcopy (ty_params ty) (mcopy (ty_defaults ty)
                          (mcopy (ty_job ty) [])))
           in (ty_base ty,
               merge_header_params merged [ty_job ty, ty_defaults ty, ty_params ty, st_params s]))))"

definition resolve_type :: "workflow_file \<Rightarrow> string \<Rightarrow> string option" where
  "resolve_type f t =
     (if is_primitive t then None
      else if mget (fi_step_types f) t \<noteq> None then None
      else Some (''unknown type '' @ quoted t @ '' (not a primitive or step_type)''))"

subsection \<open>Jev references of a step\<close>

definition validate_jev :: "golib \<Rightarrow> workflow_file \<Rightarrow> string option" where
  "validate_jev G f =
     (case check_all (\<lambda>(name, c).
          if name = [] then Some ''connection name cannot be empty''
          else map_option (\<lambda>e. ''connection '' @ quoted name @ '': '' @ e) (connection_validate G c))
        (fi_connections f) of
        Some e \<Rightarrow> Some e
      | None \<Rightarrow> check_all (\<lambda>(name, d).
          if name = [] then Some ''decision name cannot be empty''
          else if mget (fi_connections f) (dc_connection d) = None
            then Some (''decision '' @ quoted name @ '': unknown connection '' @ quoted (dc_connection d))
          else map_option (\<lambda>e. ''decision '' @ quoted name @ '': '' @ e)
                 (question_validate (decision_question d)))
        (fi_decisions f))"

text \<open>The select field of a decision fact: the answer's own field, or one of the two
  probability fields that every type but noul has.\<close>

definition select_ok :: "val \<Rightarrow> string \<Rightarrow> bool" where
  "select_ok sel ty \<longleftrightarrow>
     sel = VStr ty \<or> (ty \<noteq> ''noul'' \<and> (sel = VStr ''confidence'' \<or> sel = VStr ''probabilities''))"

definition validate_fact :: "golib \<Rightarrow> workflow_file \<Rightarrow> string \<times> val \<Rightarrow> string option" where
  "validate_fact G f entry =
     (let name = fst entry in
      case snd entry of
        VMap spec \<Rightarrow>
          (case mget spec ''decision'' of
             None \<Rightarrow> None
           | Some (VStr dn) \<Rightarrow>
               (case mget (fi_decisions f) dn of
                  None \<Rightarrow> Some (''fact '' @ quoted name @ '': unknown decision '' @ quoted dn)
                | Some d \<Rightarrow>
                    (case check_all (\<lambda>k. if k \<notin> set [''decision'', ''state'', ''select'', ''refresh'']
                          then Some (''fact '' @ quoted name @ '': unknown decision field '' @ quoted k)
                          else None) (mkeys spec) of
                       Some e \<Rightarrow> Some e
                     | None \<Rightarrow>
                         if mget_nil spec ''state'' = VNil
                         then Some (''fact '' @ quoted name @ '': state is required'')
                         else (case mget spec ''select'' of
                             None \<Rightarrow> None
                           | Some sel \<Rightarrow>
                               if select_ok sel (dc_type d) then None
                               else Some (''fact '' @ quoted name @ '': invalid select '' @ sprint G sel
                                          @ '' for '' @ dc_type d))))
           | Some _ \<Rightarrow> Some (''fact '' @ quoted name @ '': decision must be a name''))
      | _ \<Rightarrow> None)"

definition validate_jev_step :: "golib \<Rightarrow> workflow_file \<Rightarrow> step \<Rightarrow> string option" where
  "validate_jev_step G f s =
     (let (base, params) = resolve_step_type (fi_step_types f) s in
      if base = ''jev'' then
        (case check_all (\<lambda>k. if k \<notin> set [''connection'', ''state'', ''questions'']
              then Some (''jev: unknown param '' @ quoted k) else None) (mkeys params) of
           Some e \<Rightarrow> Some e
         | None \<Rightarrow>
             let conn = str_or_empty params ''connection'' in
             if mget (fi_connections f) conn = None
             then Some (''jev: unknown connection '' @ quoted conn)
             else if mget_nil params ''state'' = VNil then Some ''jev: state is required''
             else (case questions (mget_nil params ''questions'') of Inl e \<Rightarrow> Some e | Inr _ \<Rightarrow> None))
      else if base = ''gate'' then check_all (validate_fact G f) (st_facts s)
      else None)"

subsection \<open>Steps, workflows, files\<close>

definition in_step :: "string \<Rightarrow> step \<Rightarrow> string \<Rightarrow> string" where
  "in_step wname s e = ''workflow '' @ quoted wname @ '', step '' @ quoted (st_name s) @ '': '' @ e"

text \<open>The checks of one step, in the code's order, after its name was found fresh.\<close>

definition validate_step_refs :: "workflow_file \<Rightarrow> step \<Rightarrow> string option" where
  "validate_step_refs f s =
     (if st_workflow_names s \<noteq> [] \<and> \<not> is_templated (st_workflow s)
      then Some ''workflow_names needs a templated workflow (one with {{ }}) to choose between them''
      else (case check_all (\<lambda>n. if has_workflow (fi_workflows f) n then None
                 else Some (''workflow_names lists unknown workflow '' @ quoted n))
                 (st_workflow_names s) of
        Some e \<Rightarrow> Some e
      | None \<Rightarrow>
          if st_workflow s \<noteq> [] \<and> \<not> is_templated (st_workflow s)
             \<and> \<not> has_workflow (fi_workflows f) (st_workflow s)
          then Some (''references unknown workflow '' @ quoted (st_workflow s))
          else if st_workflow s = [] \<and> st_type s = [] then Some ''must have type or workflow''
          else if st_failed_when s \<noteq> [] \<and> st_workflow s \<noteq> []
            then Some ''failed_when applies to step types, not sub-workflows''
          else if st_for_each_when s \<noteq> [] \<and> st_for_each s = []
            then Some ''for_each_when requires for_each''
          else if st_for_each s \<noteq> [] \<and> st_as s = [] then Some ''for_each requires as''
          else None))"

definition validate_step_kind :: "golib \<Rightarrow> workflow_file \<Rightarrow> step \<Rightarrow> string option" where
  "validate_step_kind G f s =
     (case (if st_type s = [] then None else resolve_type f (st_type s)) of
        Some e \<Rightarrow> Some e
      | None \<Rightarrow>
          (case validate_jev_step G f s of
             Some e \<Rightarrow> Some e
           | None \<Rightarrow>
               if st_type s = ''gate'' then
                 (if st_rules s = [] then Some ''gate must reference at least one rule''
                  else check_all (\<lambda>rn. if get_rule (fi_rules f) rn = None
                          then Some (''references unknown rule '' @ quoted rn) else None) (st_rules s))
               else None))"

definition validate_step ::
  "golib \<Rightarrow> workflow_file \<Rightarrow> string \<Rightarrow> string \<Rightarrow> step \<Rightarrow> string list \<Rightarrow> string + string list" where
  "validate_step G f wname section s seen =
     (if has_prefix (st_name s) ''__jev__/'' then Inl ''step name prefix __jev__/ is reserved''
      else if st_name s = []
        then Inl (''workflow '' @ quoted wname @ '', '' @ section @ '': step missing name'')
      else if List.member seen (st_name s)
        then Inl (''workflow '' @ quoted wname @ '': duplicate step name '' @ quoted (st_name s)
                  @ '' across steps, rescue, and always'')
      else (case validate_step_refs f s of
          Some e \<Rightarrow> Inl (in_step wname s e)
        | None \<Rightarrow> (case validate_step_kind G f s of
              Some e \<Rightarrow> Inl (in_step wname s e)
            | None \<Rightarrow> Inr (st_name s # seen))))"

fun validate_steps ::
  "golib \<Rightarrow> workflow_file \<Rightarrow> string \<Rightarrow> string \<Rightarrow> step list \<Rightarrow> string list \<Rightarrow> string + string list" where
  "validate_steps G f wname section [] seen = Inr seen"
| "validate_steps G f wname section (s # ss) seen =
     (case validate_step G f wname section s seen of
        Inl e \<Rightarrow> Inl e
      | Inr seen' \<Rightarrow> validate_steps G f wname section ss seen')"

definition validate_workflow_steps :: "golib \<Rightarrow> workflow_file \<Rightarrow> workflow \<Rightarrow> string option" where
  "validate_workflow_steps G f w =
     (case try_then (validate_steps G f (wf_name w) ''steps'' (wf_steps w) []) (\<lambda>seen.
           try_then (validate_steps G f (wf_name w) ''rescue'' (wf_rescue w) seen) (\<lambda>seen'.
           validate_steps G f (wf_name w) ''always'' (wf_always w) seen')) of
        Inl e \<Rightarrow> Some e
      | Inr _ \<Rightarrow> None)"

fun validate_rules :: "rule list \<Rightarrow> string list \<Rightarrow> string option" where
  "validate_rules [] seen = None"
| "validate_rules (r # rs) seen =
     (if ru_name r = [] then Some ''rule missing name''
      else if List.member seen (ru_name r) then Some (''duplicate rule name '' @ quoted (ru_name r))
      else validate_rules rs (ru_name r # seen))"

fun validate_workflows :: "golib \<Rightarrow> workflow_file \<Rightarrow> workflow list \<Rightarrow> string list \<Rightarrow> string option" where
  "validate_workflows G f [] seen = None"
| "validate_workflows G f (w # ws) seen =
     (if wf_name w = [] then Some ''workflow missing name''
      else if List.member seen (wf_name w)
        then Some (''duplicate workflow name '' @ quoted (wf_name w))
      else (case validate_workflow_steps G f w of
          Some e \<Rightarrow> Some e
        | None \<Rightarrow> validate_workflows G f ws (wf_name w # seen)))"

definition validate :: "golib \<Rightarrow> workflow_file \<Rightarrow> string + workflow_file" where
  "validate G f =
     (case validate_jev G f of
        Some e \<Rightarrow> Inl e
      | None \<Rightarrow>
          let f = f\<lparr>fi_forks := if fi_forks f \<le> 0 then 5 else fi_forks f\<rparr> in
          if fi_workflows f = [] then Inl ''no workflows defined''
          else if fi_entrypoint f = [] then Inl ''entrypoint is required''
          else if \<not> has_workflow (fi_workflows f) (fi_entrypoint f)
            then Inl (''entrypoint '' @ quoted (fi_entrypoint f) @ '' not found in workflows'')
          else (case validate_rules (fi_rules f) [] of
              Some e \<Rightarrow> Inl e
            | None \<Rightarrow> (case validate_workflows G f (fi_workflows f) [] of
                  Some e \<Rightarrow> Inl e
                | None \<Rightarrow> Inr f)))"

subsection \<open>What a valid file looks like\<close>

definition workflow_names :: "workflow_file \<Rightarrow> string set" where
  "workflow_names f = wf_name ` set (fi_workflows f)"

definition rule_names :: "workflow_file \<Rightarrow> string set" where
  "rule_names f = ru_name ` set (fi_rules f)"

definition step_refs_valid :: "workflow_file \<Rightarrow> step \<Rightarrow> bool" where
  "step_refs_valid f s \<longleftrightarrow>
     (st_workflow_names s \<noteq> [] \<longrightarrow> is_templated (st_workflow s)) \<and>
     set (st_workflow_names s) \<subseteq> workflow_names f \<and>
     (st_workflow s \<noteq> [] \<and> \<not> is_templated (st_workflow s) \<longrightarrow> st_workflow s \<in> workflow_names f) \<and>
     (st_workflow s = [] \<longrightarrow> st_type s \<noteq> []) \<and>
     (st_failed_when s \<noteq> [] \<longrightarrow> st_workflow s = []) \<and>
     (st_for_each_when s \<noteq> [] \<longrightarrow> st_for_each s \<noteq> []) \<and>
     (st_for_each s \<noteq> [] \<longrightarrow> st_as s \<noteq> [])"

text \<open>A connection, a decision, a decision fact and a list of questions as the format asks for them. How a question is decoded
  is \<open>question_of\<close>.\<close>

definition connection_valid :: "golib \<Rightarrow> connection \<Rightarrow> bool" where
  "connection_valid G c \<longleftrightarrow>
     (\<exists>u. url_parse G (cn_base_url c) = Some u \<and> u_host u \<noteq> [] \<and> u_scheme u \<in> {''http'', ''https''} \<and>
        \<not> u_has_user u \<and> u_raw_query u = [] \<and> u_fragment u = []) \<and>
     cn_type c = ''jev'' \<and> (cn_api_key_env c = [] \<or> cn_api_key_file c = []) \<and> 0 \<le> cn_timeout c \<and> 0 \<le> cn_concurrency c"

definition jev_valid :: "golib \<Rightarrow> workflow_file \<Rightarrow> bool" where
  "jev_valid G f \<longleftrightarrow>
     (\<forall>e\<in>set (fi_connections f). fst e \<noteq> [] \<and> connection_valid G (snd e)) \<and>
     (\<forall>e\<in>set (fi_decisions f). fst e \<noteq> [] \<and> dc_connection (snd e) \<in> dom (mget (fi_connections f)) \<and>
        criteria_ok (decision_question (snd e)))"

definition fact_valid :: "workflow_file \<Rightarrow> val \<Rightarrow> bool" where
  "fact_valid f v \<longleftrightarrow> (\<forall>spec w. v = VMap spec \<and> mget spec ''decision'' = Some w \<longrightarrow>
     (\<exists>dn d. w = VStr dn \<and> mget (fi_decisions f) dn = Some d \<and>
        fst ` set spec \<subseteq> {''decision'', ''state'', ''select'', ''refresh''} \<and> mget_nil spec ''state'' \<noteq> VNil \<and>
        (\<forall>sel. mget spec ''select'' = Some sel \<longrightarrow>
           sel = VStr (dc_type d) \<or> dc_type d \<noteq> ''noul'' \<and> sel \<in> {VStr ''confidence'', VStr ''probabilities''})))"

definition questions_valid :: "val \<Rightarrow> bool" where
  "questions_valid v \<longleftrightarrow> (\<exists>m. v = VMap m \<and> m \<noteq> [] \<and>
     (\<forall>e\<in>set m. fst e \<noteq> [] \<and> (\<exists>q. question_of (snd e) = Some q \<and> criteria_ok q)))"

definition jev_params_valid :: "workflow_file \<Rightarrow> gomap \<Rightarrow> bool" where
  "jev_params_valid f params \<longleftrightarrow>
     fst ` set params \<subseteq> {''connection'', ''state'', ''questions''} \<and>
     str_or_empty params ''connection'' \<in> dom (mget (fi_connections f)) \<and>
     mget_nil params ''state'' \<noteq> VNil \<and> questions_valid (mget_nil params ''questions'')"

definition jev_step_valid :: "workflow_file \<Rightarrow> step \<Rightarrow> bool" where
  "jev_step_valid f s \<longleftrightarrow>
     (fst (resolve_step_type (fi_step_types f) s) = ''jev'' \<longrightarrow>
        jev_params_valid f (snd (resolve_step_type (fi_step_types f) s))) \<and>
     (fst (resolve_step_type (fi_step_types f) s) = ''gate'' \<longrightarrow> (\<forall>e\<in>set (st_facts s). fact_valid f (snd e)))"

definition step_kind_valid :: "workflow_file \<Rightarrow> step \<Rightarrow> bool" where
  "step_kind_valid f s \<longleftrightarrow>
     (st_type s \<noteq> [] \<longrightarrow> st_type s \<in> set primitives \<or> st_type s \<in> dom (mget (fi_step_types f))) \<and>
     jev_step_valid f s \<and>
     (st_type s = ''gate'' \<longrightarrow> st_rules s \<noteq> [] \<and> set (st_rules s) \<subseteq> rule_names f)"

definition step_valid :: "workflow_file \<Rightarrow> step \<Rightarrow> bool" where
  "step_valid f s \<longleftrightarrow>
     st_name s \<noteq> [] \<and> \<not> has_prefix (st_name s) ''__jev__/'' \<and>
     step_refs_valid f s \<and> step_kind_valid f s"

definition all_steps :: "workflow \<Rightarrow> step list" where
  "all_steps w = wf_steps w @ wf_rescue w @ wf_always w"

definition workflow_valid :: "workflow_file \<Rightarrow> workflow \<Rightarrow> bool" where
  "workflow_valid f w \<longleftrightarrow>
     distinct (map st_name (all_steps w)) \<and> (\<forall>s\<in>set (all_steps w). step_valid f s)"

definition valid_file :: "golib \<Rightarrow> workflow_file \<Rightarrow> bool" where
  "valid_file G f \<longleftrightarrow>
     jev_valid G f \<and> fi_entrypoint f \<noteq> [] \<and> fi_entrypoint f \<in> workflow_names f \<and>
     distinct (map ru_name (fi_rules f)) \<and> [] \<notin> rule_names f \<and>
     distinct (map wf_name (fi_workflows f)) \<and> [] \<notin> workflow_names f \<and>
     (\<forall>w\<in>set (fi_workflows f). workflow_valid f w)"

lemma has_workflow_names: "has_workflow (fi_workflows f) n \<longleftrightarrow> n \<in> workflow_names f"
  by (simp add: has_workflow_iff get_workflow_None workflow_names_def)

lemma validate_step_refs_iff: "validate_step_refs f s = None \<longleftrightarrow> step_refs_valid f s"
proof -
  let ?c = "check_all (\<lambda>n. if has_workflow (fi_workflows f) n then None
                 else Some (''workflow_names lists unknown workflow '' @ quoted n))
                 (st_workflow_names s)"
  have c: "?c = None \<longleftrightarrow> set (st_workflow_names s) \<subseteq> workflow_names f"
    by (auto simp: check_all_None has_workflow_names)
  show ?thesis
  proof (cases ?c)
    case None
    with c have "set (st_workflow_names s) \<subseteq> workflow_names f" by simp
    with None show ?thesis
      unfolding validate_step_refs_def step_refs_valid_def has_workflow_names
      by (simp del: not_None_eq)
  next
    case (Some e)
    with c have "\<not> set (st_workflow_names s) \<subseteq> workflow_names f" by simp
    with Some show ?thesis
      unfolding validate_step_refs_def step_refs_valid_def by simp
  qed
qed

lemma resolve_type_None:
  "resolve_type f t = None \<longleftrightarrow> t \<in> set primitives \<or> t \<in> dom (mget (fi_step_types f))"
  by (auto simp: resolve_type_def is_primitive_def)

lemma connection_validate_iff: "connection_validate G c = None \<longleftrightarrow> connection_valid G c"
  by (auto simp: connection_validate_def connection_valid_def Let_def not_less split: option.splits if_splits)

lemma validate_jev_iff: "validate_jev G f = None \<longleftrightarrow> jev_valid G f"
proof -
  let ?c = "check_all (\<lambda>(name, c).
          if name = [] then Some ''connection name cannot be empty''
          else map_option (\<lambda>e. ''connection '' @ quoted name @ '': '' @ e) (connection_validate G c)) (fi_connections f)"
  have c: "?c = None \<longleftrightarrow> (\<forall>e\<in>set (fi_connections f). fst e \<noteq> [] \<and> connection_valid G (snd e))"
    unfolding check_all_None by (rule ball_cong) (auto simp: connection_validate_iff split: if_splits)
  show ?thesis
  proof (cases ?c)
    case None
    with c have "\<forall>e\<in>set (fi_connections f). fst e \<noteq> [] \<and> connection_valid G (snd e)" by blast
    moreover have "validate_jev G f = None \<longleftrightarrow>
        (\<forall>e\<in>set (fi_decisions f). fst e \<noteq> [] \<and> dc_connection (snd e) \<in> dom (mget (fi_connections f)) \<and>
          criteria_ok (decision_question (snd e)))"
      unfolding validate_jev_def None option.case check_all_None
      by (rule ball_cong) (auto simp: question_validate_iff split: if_splits)
    ultimately show ?thesis unfolding jev_valid_def by blast
  next
    case (Some e)
    with c have "\<not> (\<forall>e\<in>set (fi_connections f). fst e \<noteq> [] \<and> connection_valid G (snd e))" by (metis option.distinct(1))
    then show ?thesis using Some unfolding validate_jev_def jev_valid_def by (simp only: option.case) simp
  qed
qed

lemma validate_fact_iff: "validate_fact G f e = None \<longleftrightarrow> fact_valid f (snd e)"
proof (cases "\<exists>spec w. snd e = VMap spec \<and> mget spec ''decision'' = Some w")
  case True
  then obtain spec w where w: "snd e = VMap spec" "mget spec ''decision'' = Some w" by blast
  show ?thesis
  proof (cases "\<exists>dn d. w = VStr dn \<and> mget (fi_decisions f) dn = Some d")
    case True
    then obtain dn d where d: "w = VStr dn" "mget (fi_decisions f) dn = Some d" by blast
    let ?k = "check_all (\<lambda>k. if k \<notin> set [''decision'', ''state'', ''select'', ''refresh'']
        then Some (''fact '' @ quoted (fst e) @ '': unknown decision field '' @ quoted k) else None) (mkeys spec)"
    have k: "?k = None \<longleftrightarrow> fst ` set spec \<subseteq> {''decision'', ''state'', ''select'', ''refresh''}"
      by (auto simp: check_all_None mkeys_def split: if_splits)
    show ?thesis
    proof (cases ?k)
      case None
      with k have "fst ` set spec \<subseteq> {''decision'', ''state'', ''select'', ''refresh''}" by blast
      then show ?thesis using w d None by (simp add: validate_fact_def fact_valid_def Let_def select_ok_def split: option.split)
    next
      case (Some x)
      with k have "\<not> fst ` set spec \<subseteq> {''decision'', ''state'', ''select'', ''refresh''}" by (metis option.distinct(1))
      then show ?thesis using w d Some by (simp add: validate_fact_def fact_valid_def Let_def)
    qed
  next
    case False
    then show ?thesis using w by (auto simp: validate_fact_def fact_valid_def Let_def split: val.splits option.splits)
  qed
next
  case False
  then show ?thesis by (auto simp: validate_fact_def fact_valid_def Let_def split: val.splits option.splits)
qed

lemma checked_Inr:
  "(\<exists>x. (case r of Inl e \<Rightarrow> Inl e | Inr qs \<Rightarrow> if qs = [] then Inl a
       else (case c qs of Some e \<Rightarrow> Inl e | None \<Rightarrow> Inr qs)) = Inr x) \<longleftrightarrow> (\<exists>qs. r = Inr qs \<and> qs \<noteq> [] \<and> c qs = None)"
  by (auto split: sum.splits option.splits if_splits)

lemma questions_valid_iff: "(\<exists>qs. questions v = Inr qs) \<longleftrightarrow> questions_valid v"
proof (cases "\<exists>m. v = VMap m")
  case True
  then obtain m where v: "v = VMap m" by blast
  let ?f = "\<lambda>e. case question_of (snd e) of None \<Rightarrow> Inl ''questions: cannot decode'' | Some q \<Rightarrow> Inr (fst e, q)"
  let ?c = "check_all (\<lambda>(name, q). if name = [] then Some ''question name cannot be empty''
      else map_option (\<lambda>e. ''question '' @ quoted name @ '': '' @ e) (question_validate q))"
  have c: "?c qs = None \<longleftrightarrow> (\<forall>p\<in>set qs. fst p \<noteq> [] \<and> criteria_ok (snd p))" for qs
    unfolding check_all_None by (rule ball_cong) (auto simp: question_validate_iff split: if_splits)
  have r: "map_try ?f m = Inr qs \<longleftrightarrow> list_all2 (\<lambda>e p. fst p = fst e \<and> question_of (snd e) = Some (snd p)) m qs" for qs
    unfolding map_try_Inr by (rule arg_cong [where f = "\<lambda>P. list_all2 P m qs"]) (auto simp: fun_eq_iff split: option.splits)
  have "(\<exists>qs. questions v = Inr qs) \<longleftrightarrow> (\<exists>qs. map_try ?f m = Inr qs \<and> qs \<noteq> [] \<and> ?c qs = None)"
    unfolding v questions_def Let_def val.case option.case by (rule checked_Inr)
  also have "\<dots> \<longleftrightarrow> questions_valid v"
    unfolding r c v questions_valid_def
  proof (intro iffI; elim exE conjE)
    fix qs assume qs: "list_all2 (\<lambda>e p. fst p = fst e \<and> question_of (snd e) = Some (snd p)) m qs" "qs \<noteq> []"
      "\<forall>p\<in>set qs. fst p \<noteq> [] \<and> criteria_ok (snd p)"
    then have "m \<noteq> []" by auto
    moreover have "fst e \<noteq> [] \<and> (\<exists>q. question_of (snd e) = Some q \<and> criteria_ok q)" if "e \<in> set m" for e
    proof -
      from that obtain i where i: "i < length m" "e = m ! i" by (auto simp: in_set_conv_nth)
      then have "fst (qs ! i) = fst e" "question_of (snd e) = Some (snd (qs ! i))" "qs ! i \<in> set qs"
        using list_all2_nthD [OF qs(1) i(1)] list_all2_lengthD [OF qs(1)] by simp_all
      with qs(3) show ?thesis by metis
    qed
    ultimately show "\<exists>n. VMap m = VMap n \<and> n \<noteq> [] \<and>
        (\<forall>e\<in>set n. fst e \<noteq> [] \<and> (\<exists>q. question_of (snd e) = Some q \<and> criteria_ok q))" by blast
  next
    fix n assume n: "VMap m = VMap n" "n \<noteq> []"
      "\<forall>e\<in>set n. fst e \<noteq> [] \<and> (\<exists>q. question_of (snd e) = Some q \<and> criteria_ok q)"
    let ?qs = "map (\<lambda>e. (fst e, the (question_of (snd e)))) m"
    have "list_all2 (\<lambda>e p. fst p = fst e \<and> question_of (snd e) = Some (snd p)) m ?qs"
      using n by (auto simp: list_all2_conv_all_nth dest!: nth_mem)
    moreover have "?qs \<noteq> []" "\<forall>p\<in>set ?qs. fst p \<noteq> [] \<and> criteria_ok (snd p)" using n by force+
    ultimately show "\<exists>qs. list_all2 (\<lambda>e p. fst p = fst e \<and> question_of (snd e) = Some (snd p)) m qs \<and> qs \<noteq> [] \<and>
        (\<forall>p\<in>set qs. fst p \<noteq> [] \<and> criteria_ok (snd p))" by blast
  qed
  finally show ?thesis .
next
  case False
  then show ?thesis by (auto simp: questions_def questions_valid_def Let_def split: val.splits list.splits)
qed

lemma validate_jev_step_iff: "validate_jev_step G f s = None \<longleftrightarrow> jev_step_valid f s"
proof -
  obtain base params where r: "resolve_step_type (fi_step_types f) s = (base, params)" by (cases "resolve_step_type (fi_step_types f) s")
  let ?k = "check_all (\<lambda>k. if k \<notin> set [''connection'', ''state'', ''questions'']
      then Some (''jev: unknown param '' @ quoted k) else None) (mkeys params)"
  have k: "?k = None \<longleftrightarrow> fst ` set params \<subseteq> {''connection'', ''state'', ''questions''}"
    by (auto simp: check_all_None mkeys_def split: if_splits)
  have q: "(case questions v of Inl e \<Rightarrow> Some e | Inr _ \<Rightarrow> None) = None \<longleftrightarrow> questions_valid v" for v
    using questions_valid_iff [of v] by (auto split: sum.splits)
  show ?thesis
  proof (cases "base = ''jev''")
    case True
    show ?thesis
    proof (cases ?k)
      case None
      with k have "fst ` set params \<subseteq> {''connection'', ''state'', ''questions''}" by blast
      then show ?thesis using r True None
        by (auto simp: validate_jev_step_def jev_step_valid_def jev_params_valid_def Let_def q simp del: not_None_eq)
    next
      case (Some e)
      with k have "\<not> fst ` set params \<subseteq> {''connection'', ''state'', ''questions''}" by (metis option.distinct(1))
      then show ?thesis using r True Some by (simp add: validate_jev_step_def jev_step_valid_def jev_params_valid_def)
    qed
  next
    case False
    then show ?thesis using r
      by (auto simp: validate_jev_step_def jev_step_valid_def check_all_None validate_fact_iff)
  qed
qed

lemma validate_step_kind_iff: "validate_step_kind G f s = None \<longleftrightarrow> step_kind_valid f s"
proof -
  let ?t = "if st_type s = [] then None else resolve_type f (st_type s)"
  have t: "?t = None \<longleftrightarrow>
      (st_type s \<noteq> [] \<longrightarrow> st_type s \<in> set primitives \<or> st_type s \<in> dom (mget (fi_step_types f)))"
    by (simp only: resolve_type_None split: if_split) simp
  have rules: "check_all (\<lambda>rn. if get_rule (fi_rules f) rn = None
        then Some (''references unknown rule '' @ quoted rn) else None) (st_rules s) = None
      \<longleftrightarrow> set (st_rules s) \<subseteq> rule_names f"
    by (auto simp: check_all_None get_rule_None rule_names_def)
  show ?thesis
  proof (cases ?t)
    case None
    show ?thesis
    proof (cases "validate_jev_step G f s")
      case jev: None
      then have "jev_step_valid f s" by (simp only: validate_jev_step_iff)
      then show ?thesis
        unfolding validate_step_kind_def step_kind_valid_def t [symmetric]
        by (simp only: None jev option.case simp_thms rules split: if_split) simp
    next
      case (Some e)
      moreover from Some have "\<not> jev_step_valid f s" by (simp add: validate_jev_step_iff [of G, symmetric])
      ultimately show ?thesis
        unfolding validate_step_kind_def step_kind_valid_def by (simp only: None option.case) simp
    qed
  next
    case (Some e)
    then show ?thesis
      unfolding validate_step_kind_def step_kind_valid_def t [symmetric] by (simp only: option.case) simp
  qed
qed

lemma validate_step_Inr:
  "validate_step G f wn sec s seen = Inr seen' \<longleftrightarrow>
     seen' = st_name s # seen \<and> st_name s \<notin> set seen \<and> step_valid f s"
  unfolding validate_step_def step_valid_def
  by (auto simp: validate_step_refs_iff [symmetric] validate_step_kind_iff [of G, symmetric]
      split: option.splits)

lemma validate_steps_Inr:
  "validate_steps G f wn sec ss seen = Inr seen' \<longleftrightarrow>
     seen' = rev (map st_name ss) @ seen \<and> distinct (map st_name ss) \<and>
     st_name ` set ss \<inter> set seen = {} \<and> (\<forall>s\<in>set ss. step_valid f s)"
proof (induction ss arbitrary: seen)
  case Nil
  then show ?case by auto
next
  case (Cons s ss)
  show ?case
  proof (cases "validate_step G f wn sec s seen")
    case (Inl e)
    with validate_step_Inr [of G f wn sec s seen "st_name s # seen"]
    have "st_name s \<in> set seen \<or> \<not> step_valid f s" by auto
    with Inl show ?thesis by auto
  next
    case (Inr seen1)
    with validate_step_Inr [of G f wn sec s seen seen1]
    have "seen1 = st_name s # seen" "st_name s \<notin> set seen" "step_valid f s" by auto
    with Inr Cons.IH [of seen1] show ?thesis by auto
  qed
qed

lemma validate_workflow_steps_iff:
  "validate_workflow_steps G f w = None \<longleftrightarrow> workflow_valid f w"
proof -
  have "validate_workflow_steps G f w = None \<longleftrightarrow>
    (\<exists>r. try_then (validate_steps G f (wf_name w) ''steps'' (wf_steps w) []) (\<lambda>seen.
           try_then (validate_steps G f (wf_name w) ''rescue'' (wf_rescue w) seen) (\<lambda>seen'.
           validate_steps G f (wf_name w) ''always'' (wf_always w) seen')) = Inr r)"
    by (simp add: validate_workflow_steps_def split: sum.splits)
  also have "\<dots> \<longleftrightarrow> workflow_valid f w"
    unfolding try_then_Inr validate_steps_Inr workflow_valid_def all_steps_def
    by (auto simp: ball_Un)
  finally show ?thesis .
qed

lemma validate_rules_iff:
  "validate_rules rs seen = None \<longleftrightarrow>
     distinct (map ru_name rs) \<and> [] \<notin> ru_name ` set rs \<and> ru_name ` set rs \<inter> set seen = {}"
  by (induction rs arbitrary: seen) (auto simp: image_iff)

lemma validate_workflows_iff:
  "validate_workflows G f ws seen = None \<longleftrightarrow>
     distinct (map wf_name ws) \<and> [] \<notin> wf_name ` set ws \<and> wf_name ` set ws \<inter> set seen = {} \<and>
     (\<forall>w\<in>set ws. workflow_valid f w)"
proof (induction ws arbitrary: seen)
  case Nil
  then show ?case by simp
next
  case (Cons w ws)
  show ?case
  proof (cases "validate_workflow_steps G f w")
    case None
    moreover from None have "workflow_valid f w" by (simp add: validate_workflow_steps_iff)
    ultimately show ?thesis using Cons.IH [of "wf_name w # seen"] by auto
  next
    case (Some e)
    then have "\<not> workflow_valid f w" by (simp add: validate_workflow_steps_iff [of G, symmetric])
    with Some show ?thesis by auto
  qed
qed

definition default_forks :: "workflow_file \<Rightarrow> workflow_file" where
  "default_forks f = f\<lparr>fi_forks := if fi_forks f \<le> 0 then 5 else fi_forks f\<rparr>"

lemma default_forks_simps [simp]:
  "fi_connections (default_forks f) = fi_connections f"
  "fi_decisions (default_forks f) = fi_decisions f"
  "fi_entrypoint (default_forks f) = fi_entrypoint f"
  "fi_rules (default_forks f) = fi_rules f"
  "fi_step_types (default_forks f) = fi_step_types f"
  "fi_workflows (default_forks f) = fi_workflows f"
  by (simp_all add: default_forks_def)

lemma validate_jev_forks: "validate_jev G (default_forks f) = validate_jev G f"
  unfolding validate_jev_def default_forks_simps ..

lemma validate_iff:
  "validate G f = Inr f' \<longleftrightarrow> f' = default_forks f \<and> valid_file G f'"
proof -
  let ?f = "default_forks f"
  have "validate G f =
     (if validate_jev G ?f \<noteq> None then Inl (the (validate_jev G ?f))
      else if fi_workflows ?f = [] then Inl ''no workflows defined''
      else if fi_entrypoint ?f = [] then Inl ''entrypoint is required''
      else if fi_entrypoint ?f \<notin> workflow_names ?f
        then Inl (''entrypoint '' @ quoted (fi_entrypoint f) @ '' not found in workflows'')
      else if validate_rules (fi_rules ?f) [] \<noteq> None
        then Inl (the (validate_rules (fi_rules ?f) []))
      else if validate_workflows G ?f (fi_workflows ?f) [] \<noteq> None
        then Inl (the (validate_workflows G ?f (fi_workflows ?f) []))
      else Inr ?f)"
    unfolding validate_jev_forks has_workflow_names [symmetric]
    by (simp add: validate_def Let_def default_forks_def [symmetric] del: not_None_eq
        split: option.split)
  moreover have "valid_file G ?f \<longleftrightarrow>
      validate_jev G ?f = None \<and> fi_workflows ?f \<noteq> [] \<and> fi_entrypoint ?f \<noteq> [] \<and>
      fi_entrypoint ?f \<in> workflow_names ?f \<and> validate_rules (fi_rules ?f) [] = None \<and>
      validate_workflows G ?f (fi_workflows ?f) [] = None"
    by (auto simp: valid_file_def validate_jev_iff validate_rules_iff validate_workflows_iff workflow_names_def
        rule_names_def)
  ultimately show ?thesis by (auto simp del: not_None_eq)
qed

subsection \<open>Properties\<close>

text \<open>Two documented rules that the validator does not check: a custom type is based on a primitive, and a step with a
  workflow has no type.\<close>

definition primitive_bases :: "workflow_file \<Rightarrow> bool" where
  "primitive_bases f \<longleftrightarrow> (\<forall>t ty. mget (fi_step_types f) t = Some ty \<longrightarrow> ty_base ty \<in> set primitives)"

definition calls_have_no_type :: "workflow_file \<Rightarrow> bool" where
  "calls_have_no_type f \<longleftrightarrow> (\<forall>w\<in>set (fi_workflows f). \<forall>s\<in>set (all_steps w). st_workflow s \<noteq> [] \<longrightarrow> st_type s = [])"

definition documented_file :: "golib \<Rightarrow> workflow_file \<Rightarrow> bool" where
  "documented_file G f \<longleftrightarrow> valid_file G f \<and> primitive_bases f \<and> calls_have_no_type f"


lemma valid_file_step:
  assumes "valid_file G f" "w \<in> set (fi_workflows f)" "s \<in> set (all_steps w)"
  shows "step_refs_valid f s" "step_kind_valid f s" "st_name s \<noteq> []"
    "\<not> has_prefix (st_name s) ''__jev__/''"
  using assms by (auto simp: valid_file_def workflow_valid_def step_valid_def)

lemma step_jev_refs:
  assumes "jev_step_valid f s"
  shows "fst (resolve_step_type (fi_step_types f) s) = ''jev'' \<Longrightarrow>
      mget (fi_connections f) (str_or_empty (snd (resolve_step_type (fi_step_types f) s)) ''connection'') \<noteq> None"
    "fst (resolve_step_type (fi_step_types f) s) = ''gate'' \<Longrightarrow> (n, VMap spec) \<in> set (st_facts s) \<Longrightarrow>
      mget spec ''decision'' = Some (VStr dn) \<Longrightarrow> mget (fi_decisions f) dn \<noteq> None"
  using assms by (auto simp: jev_step_valid_def jev_params_valid_def fact_valid_def simp del: not_None_eq) fastforce+

text \<open>C18. These references of a validated file resolve: the entrypoint; the type of a step, to a primitive or a type of the
  file; a step's fixed workflow name and each allowed name of a templated one; the rules of a step of type \<open>gate\<close>; the connection of
  a decision and of a Jev step; the decision of a gate's fact. Each step has a type or a workflow. The base of a custom
  type is not among them, nor are the rules of a step whose custom type is based on \<open>gate\<close>.\<close>

theorem validated_references_resolve:
  assumes "validate G f = Inr f'" "w \<in> set (fi_workflows f')" "s \<in> set (all_steps w)"
  shows "get_workflow (fi_workflows f') (fi_entrypoint f') \<noteq> None \<and>
         (st_type s \<noteq> [] \<longrightarrow> st_type s \<in> set primitives \<or> mget (fi_step_types f') (st_type s) \<noteq> None) \<and>
         (st_workflow s \<noteq> [] \<and> \<not> is_templated (st_workflow s) \<longrightarrow>
           get_workflow (fi_workflows f') (st_workflow s) \<noteq> None) \<and>
         (\<forall>n\<in>set (st_workflow_names s). get_workflow (fi_workflows f') n \<noteq> None) \<and>
         (st_type s = ''gate'' \<longrightarrow> (\<forall>rn\<in>set (st_rules s). get_rule (fi_rules f') rn \<noteq> None)) \<and>
         (\<forall>(n, d)\<in>set (fi_decisions f'). mget (fi_connections f') (dc_connection d) \<noteq> None) \<and>
         (fst (resolve_step_type (fi_step_types f') s) = ''jev'' \<longrightarrow>
           mget (fi_connections f') (str_or_empty (snd (resolve_step_type (fi_step_types f') s)) ''connection'') \<noteq> None) \<and>
         (fst (resolve_step_type (fi_step_types f') s) = ''gate'' \<longrightarrow>
           (\<forall>n spec dn. (n, VMap spec) \<in> set (st_facts s) \<and> mget spec ''decision'' = Some (VStr dn) \<longrightarrow>
             mget (fi_decisions f') dn \<noteq> None)) \<and>
         (st_type s \<noteq> [] \<or> st_workflow s \<noteq> [])"
proof -
  have v: "valid_file G f'" using validate_iff [of G f f'] assms(1) by blast
  note facts = valid_file_step [OF v assms(2,3)]
  have jev: "jev_step_valid f' s" using facts(2) by (simp add: step_kind_valid_def)
  have decisions: "\<forall>(n, d)\<in>set (fi_decisions f'). mget (fi_connections f') (dc_connection d) \<noteq> None"
    "get_workflow (fi_workflows f') (fi_entrypoint f') \<noteq> None"
    using v by (auto simp: valid_file_def jev_valid_def workflow_names_def get_workflow_None simp del: not_None_eq)
  show ?thesis
    using facts(1,2) decisions step_jev_refs [OF jev]
    by (simp add: step_refs_valid_def step_kind_valid_def workflow_names_def rule_names_def
        get_workflow_None get_rule_None subset_iff domIff del: not_None_eq) blast
qed

definition blank_step :: step where
  "blank_step = \<lparr>st_name = [], st_description = [], st_type = [], st_params = [], st_when = [],
     st_register = [], st_timeout = 0, st_for_each = [], st_for_each_key = [], st_for_each_sort = [],
     st_for_each_when = [], st_as = [], st_concurrency = 0, st_workflow = [], st_workflow_names = [],
     st_vars = [], st_artifacts = [], st_that = [], st_msg = [], st_rules = [], st_facts = [],
     st_ignore_errors = False, st_failed_when = []\<rparr>"

definition blank_file :: workflow_file where
  "blank_file = \<lparr>fi_connections = [], fi_decisions = [], fi_entrypoint = [], fi_namespace = [],
     fi_forks = 0, fi_vars = [], fi_rules = [], fi_step_types = [], fi_workflows = [],
     fi_script_dir = []\<rparr>"

text \<open>A file with a gate, a shell step and a sub-workflow call, for the witnesses.\<close>

definition sample_rule :: rule where
  "sample_rule = \<lparr>ru_name = ''ready'', ru_file = [], ru_description = [], ru_salience = 1,
     ru_when = ''ok'', ru_action = [], ru_set_fact = []\<rparr>"

definition sample_gate :: step where
  "sample_gate = blank_step\<lparr>st_name := ''check'', st_type := ''gate'', st_rules := [''ready'']\<rparr>"

definition sample_call :: step where
  "sample_call = blank_step\<lparr>st_name := ''call'', st_workflow := ''child''\<rparr>"

definition sample_shell :: step where
  "sample_shell = blank_step\<lparr>st_name := ''run'', st_type := ''shell_exec'',
     st_params := [(''command'', VStr ''ls'')]\<rparr>"

definition sample_main :: workflow where
  "sample_main = \<lparr>wf_name = ''main'', wf_description = [], wf_vars = [],
     wf_steps = [sample_gate, sample_call], wf_rescue = [], wf_always = []\<rparr>"

definition sample_child :: workflow where
  "sample_child = \<lparr>wf_name = ''child'', wf_description = [], wf_vars = [],
     wf_steps = [sample_shell], wf_rescue = [], wf_always = []\<rparr>"

definition sample_file :: workflow_file where
  "sample_file = blank_file\<lparr>fi_entrypoint := ''main'', fi_rules := [sample_rule],
     fi_workflows := [sample_main, sample_child]\<rparr>"

lemmas sample_defs = sample_file_def sample_main_def sample_child_def sample_gate_def
  sample_call_def sample_shell_def sample_rule_def blank_step_def blank_file_def sample_golib_def

lemma sample_file_validates:
  "validate sample_golib sample_file = Inr (sample_file\<lparr>fi_forks := 5\<rparr>)"
  by code_simp

theorem validated_references_resolve_witness:
  "get_workflow (fi_workflows (sample_file\<lparr>fi_forks := 5\<rparr>)) ''child'' \<noteq> None \<and>
   get_rule (fi_rules (sample_file\<lparr>fi_forks := 5\<rparr>)) ''ready'' \<noteq> None"
proof -
  have w: "sample_main \<in> set (fi_workflows (sample_file\<lparr>fi_forks := 5\<rparr>))"
    by (simp add: sample_file_def)
  have c: "sample_call \<in> set (all_steps sample_main)" "sample_gate \<in> set (all_steps sample_main)"
    by (simp_all add: all_steps_def sample_main_def)
  have t: "\<not> is_templated ''child''" by code_simp
  note r = validated_references_resolve [OF sample_file_validates w]
  show ?thesis
    using r [OF c(1)] r [OF c(2)] t
    by (simp add: sample_call_def sample_gate_def blank_step_def)
qed

subsection \<open>Parameter precedence of a custom type\<close>

lemma mget_merge_header_params:
  assumes "mwf merged" "k \<noteq> ''headers''"
  shows "mget (merge_header_params merged layers) k = mget merged k"
  using assms by (simp add: merge_header_params_def Let_def mget_mput)

lemma mwf_map_any: "map_any v = Some m \<Longrightarrow> (\<forall>x. v = Some x \<longrightarrow> vwf x) \<Longrightarrow> mwf m"
  by (cases v rule: map_any.cases) (auto simp: mwf_def comp_def)

text \<open>The parameters of a step of a custom type: every parameter but \<open>headers\<close> comes from
  the first layer that sets it, in the order step params, type params, defaults, job; the
  step keeps the type's base.\<close>

theorem resolve_step_type_precedence:
  assumes "\<not> is_primitive (st_type s)" "mget types (st_type s) = Some ty"
    and "mwf (ty_job ty)" "mwf (ty_defaults ty)" "mwf (ty_params ty)" "mwf (st_params s)"
    and "k \<noteq> ''headers''"
  shows "fst (resolve_step_type types s) = ty_base ty \<and>
    mget (snd (resolve_step_type types s)) k =
      (mget (ty_job ty) ++ mget (ty_defaults ty) ++ mget (ty_params ty) ++ mget (st_params s)) k"
  using assms
  by (simp_all add: resolve_step_type_def Let_def mget_merge_header_params map_facts map_add_assoc)
     (simp add: mget_def map_add_def)

theorem resolve_step_type_precedence_witness:
  "mget (snd (resolve_step_type [(''http'', \<lparr>ty_base = ''http_request'', ty_description = [],
       ty_defaults = [(''method'', VStr ''GET''), (''url'', VStr ''a'')], ty_job = [],
       ty_params = [(''url'', VStr ''b'')]\<rparr>)]
     (blank_step\<lparr>st_type := ''http'', st_params := [(''body'', VInt 1)]\<rparr>))) ''url'' = Some (VStr ''b'')"
proof -
  let ?ty = "\<lparr>ty_base = ''http_request'', ty_description = [],
       ty_defaults = [(''method'', VStr ''GET''), (''url'', VStr ''a'')], ty_job = [],
       ty_params = [(''url'', VStr ''b'')]\<rparr>"
  let ?s = "blank_step\<lparr>st_type := ''http'', st_params := [(''body'', VInt 1)]\<rparr>"
  have a: "\<not> is_primitive (st_type ?s)" by code_simp
  have b: "mwf (ty_job ?ty)" "mwf (ty_defaults ?ty)" "mwf (ty_params ?ty)" "mwf (st_params ?s)"
    by code_simp+
  have c: "mget [(''http'', ?ty)] (st_type ?s) = Some ?ty" by (simp add: blank_step_def)
  show ?thesis
    using resolve_step_type_precedence [OF a c b, of "''url''"] by (simp add: mget_def)
qed

end
