(* ===== verification/Json.thy ===== *)
theory Json
  imports Go_Values
begin

text \<open>
  JSON as the engine uses it: \<open>json.Marshal\<close> of workflow values, the decoder, and
  \<open>decodeState\<close> and \<open>normalizeNumbers\<close> of \<open>pkg/engine/engine.go\<close>. A document is first
  a \<open>jv\<close> that keeps the lexemes of its numbers, so that both readings of a number (whole
  numbers as int, or every number as a float) start from the same parse. Texts are assumed to be
  valid UTF-8, and the decoder's nesting limit of 10000 is not modelled. The parser spends one
  unit of fuel per value and per separator; \<open>parse_json\<close> gives it twice the length of the text,
  and \<open>pval_fuel\<close> shows that more changes nothing. A nil slice and a nil map print as null;
  of the values here only an empty \<open>VStrs\<close> and an empty \<open>VMaps\<close> stand for nil slices.
\<close>

datatype jv =
    JNull
  | JBool bool
  | JNum string
  | JStr string
  | JArr "jv list"
  | JObj "(string \<times> jv) list"

subsection \<open>Printing\<close>

definition hex_digit :: "nat \<Rightarrow> char" where
  "hex_digit n = (if n < 10 then char_of (48 + n) else char_of (87 + n))"

definition byte_escape :: "char \<Rightarrow> string" where
  "byte_escape c = backslash # ''u00'' @ [hex_digit (of_char c div 16), hex_digit (of_char c mod 16)]"

definition line_sep :: string where
  "line_sep = [CHR 0xE2, CHR 0x80, CHR 0xA8]"

definition para_sep :: string where
  "para_sep = [CHR 0xE2, CHR 0x80, CHR 0xA9]"

definition escape_char :: "char \<Rightarrow> string" where
  "escape_char c =
     (if c = dquote \<or> c = backslash then [backslash, c]
      else if c = CHR 0x08 then [backslash, CHR ''b'']
      else if c = CHR 0x0C then [backslash, CHR ''f'']
      else if c = CHR 0x0A then [backslash, CHR ''n'']
      else if c = CHR 0x0D then [backslash, CHR ''r'']
      else if c = CHR 0x09 then [backslash, CHR ''t'']
      else if of_char c < (32 :: nat) \<or> c = CHR ''<'' \<or> c = CHR ''>'' \<or> c = CHR ''&''
        then byte_escape c
      else [c])"

fun escape :: "string \<Rightarrow> string" where
  "escape [] = []"
| "escape (c # s) =
     (if has_prefix (c # s) line_sep then backslash # ''u2028'' @ escape (drop 2 s)
      else if has_prefix (c # s) para_sep then backslash # ''u2029'' @ escape (drop 2 s)
      else escape_char c @ escape s)"

definition jstr :: "string \<Rightarrow> string" where
  "jstr s = dquote # escape s @ [dquote]"

fun jtext :: "jv \<Rightarrow> string" where
  "jtext JNull = ''null''"
| "jtext (JBool b) = (if b then ''true'' else ''false'')"
| "jtext (JNum s) = s"
| "jtext (JStr s) = jstr s"
| "jtext (JArr js) = ''['' @ join '','' (map jtext js) @ '']''"
| "jtext (JObj es) = ''{'' @ join '','' (map (\<lambda>e. jstr (fst e) @ '':'' @ jtext (snd e)) es) @ ''}''"

text \<open>NaN and the infinities have no JSON form: the whole Marshal fails.\<close>

definition sequence :: "'a option list \<Rightarrow> 'a list option" where
  "sequence xs = (if list_ex (\<lambda>x. x = None) xs then None else Some (map the xs))"

fun jv_of :: "golib \<Rightarrow> val \<Rightarrow> jv option" where
  "jv_of G VNil = Some JNull"
| "jv_of G (VBool b) = Some (JBool b)"
| "jv_of G (VInt i) = Some (JNum (int_text i))"
| "jv_of G (VFloat f) = (if f64_is_nan f \<or> f64_is_inf f then None else Some (JNum (json_float G f)))"
| "jv_of G (VStr s) = Some (JStr s)"
| "jv_of G (VList vs) = map_option JArr (sequence (map (jv_of G) vs))"
| "jv_of G (VMap m) = map_option JObj (sequence (map (\<lambda>e. map_option (Pair (fst e)) (jv_of G (snd e))) m))"
| "jv_of G (VStrs ss) = Some (if ss = [] then JNull else JArr (map JStr ss))"
| "jv_of G (VMaps ms) = (if ms = [] then Some JNull else map_option JArr (sequence (map (\<lambda>m.
     map_option JObj (sequence (map (\<lambda>e. map_option (Pair (fst e)) (jv_of G (snd e))) m))) ms)))"
| "jv_of G (VSMap m) = Some (JObj (map (\<lambda>e. (fst e, JStr (snd e))) m))"

definition marshal :: "golib \<Rightarrow> val \<Rightarrow> string option" where
  "marshal G v = map_option jtext (jv_of G v)"

text \<open>The error of \<open>json.Marshal\<close> names the first float that is no number.\<close>

fun float_leaves :: "val \<Rightarrow> f64 list" where
  "float_leaves (VFloat x) = [x]"
| "float_leaves (VList vs) = concat (map float_leaves vs)"
| "float_leaves (VMap m) = concat (map (\<lambda>(k, v). float_leaves v) m)"
| "float_leaves (VMaps ms) = concat (map (\<lambda>m. concat (map (\<lambda>(k, v). float_leaves v) m)) ms)"
| "float_leaves v = []"

definition marshal_error :: "golib \<Rightarrow> val \<Rightarrow> string" where
  "marshal_error G v = (case filter (\<lambda>x. f64_is_nan x \<or> f64_is_inf x) (float_leaves v) of
     [] \<Rightarrow> [] | x # xs \<Rightarrow> ''json: unsupported value: '' @ fmt_float G x)"

text \<open>\<open>data, _ := json.Marshal(v); string(data)\<close>\<close>

definition marshal_text :: "golib \<Rightarrow> val \<Rightarrow> string" where
  "marshal_text G v = (case marshal G v of Some s \<Rightarrow> s | None \<Rightarrow> [])"

subsection \<open>Parsing\<close>

definition is_ws :: "char \<Rightarrow> bool" where
  "is_ws c = (c = CHR '' '' \<or> c = CHR 0x09 \<or> c = CHR 0x0A \<or> c = CHR 0x0D)"

definition skip_ws :: "string \<Rightarrow> string" where
  "skip_ws s = dropWhile is_ws s"

definition hex_val :: "char \<Rightarrow> nat option" where
  "hex_val c =
     (if is_digit c then Some (of_char c - 48)
      else if CHR ''a'' \<le> c \<and> c \<le> CHR ''f'' then Some (of_char c - 87)
      else if CHR ''A'' \<le> c \<and> c \<le> CHR ''F'' then Some (of_char c - 55)
      else None)"

fun hex4 :: "string \<Rightarrow> nat option" where
  "hex4 (a # b # c # d # s) =
     (case (hex_val a, hex_val b, hex_val c, hex_val d) of
        (Some w, Some x, Some y, Some z) \<Rightarrow> Some (((w * 16 + x) * 16 + y) * 16 + z)
      | _ \<Rightarrow> None)"
| "hex4 _ = None"

definition utf8 :: "nat \<Rightarrow> string" where
  "utf8 n =
     (if n < 0x80 then [char_of n]
      else if n < 0x800 then [char_of (0xC0 + n div 64), char_of (0x80 + n mod 64)]
      else if n < 0x10000 then
        [char_of (0xE0 + n div 4096), char_of (0x80 + n div 64 mod 64), char_of (0x80 + n mod 64)]
      else [char_of (0xF0 + n div 262144), char_of (0x80 + n div 4096 mod 64),
            char_of (0x80 + n div 64 mod 64), char_of (0x80 + n mod 64)])"

definition replacement :: nat where "replacement = 0xFFFD"

text \<open>The text of one escape after its backslash, and how many bytes it takes.\<close>

definition unescape :: "string \<Rightarrow> (string \<times> nat) option" where
  "unescape s = (case s of
     [] \<Rightarrow> None
   | e # t \<Rightarrow>
       if e = dquote \<or> e = backslash \<or> e = CHR ''/'' then Some ([e], 1)
       else if e = CHR ''b'' then Some ([CHR 0x08], 1)
       else if e = CHR ''f'' then Some ([CHR 0x0C], 1)
       else if e = CHR ''n'' then Some ([CHR 0x0A], 1)
       else if e = CHR ''r'' then Some ([CHR 0x0D], 1)
       else if e = CHR ''t'' then Some ([CHR 0x09], 1)
       else if e = CHR ''u'' then
         (case hex4 t of
            None \<Rightarrow> None
          | Some n \<Rightarrow>
              if 0xD800 \<le> n \<and> n < 0xE000 then
                (case (if has_prefix (drop 4 t) (backslash # ''u'') then hex4 (drop 6 t) else None) of
                   Some l \<Rightarrow>
                     if n < 0xDC00 \<and> 0xDC00 \<le> l \<and> l < 0xE000
                     then Some (utf8 (0x10000 + (n - 0xD800) * 1024 + (l - 0xDC00)), 11)
                     else Some (utf8 replacement, 5)
                 | None \<Rightarrow> Some (utf8 replacement, 5))
              else Some (utf8 n, 5))
       else None)"

function parse_str :: "string \<Rightarrow> (string \<times> string) option" where
  "parse_str s = (case s of
     [] \<Rightarrow> None
   | c # t \<Rightarrow>
       if c = dquote then Some ([], t)
       else if c = backslash then
         (case unescape t of
            None \<Rightarrow> None
          | Some (x, n) \<Rightarrow> map_option (\<lambda>p. (x @ fst p, snd p)) (parse_str (drop n t)))
       else if of_char c < (32 :: nat) then None
       else map_option (\<lambda>p. (c # fst p, snd p)) (parse_str t))"
  by pat_completeness auto
termination
  by (relation "measure length") auto

declare parse_str.simps [simp del]

fun scan_digits :: "string \<Rightarrow> string \<times> string" where
  "scan_digits [] = ([], [])"
| "scan_digits (c # s) =
     (if is_digit c then (let p = scan_digits s in (c # fst p, snd p)) else ([], c # s))"

definition scan_int :: "string \<Rightarrow> (string \<times> string) option" where
  "scan_int s = (case s of
     [] \<Rightarrow> None
   | c # t \<Rightarrow> if c = CHR ''0'' then Some ([c], t)
              else if is_digit c then Some (scan_digits s) else None)"

definition scan_frac :: "string \<Rightarrow> (string \<times> string) option" where
  "scan_frac s = (case s of
     [] \<Rightarrow> Some ([], [])
   | c # t \<Rightarrow> if c = CHR ''.'' then
                (let p = scan_digits t in if fst p = [] then None else Some (c # fst p, snd p))
              else Some ([], s))"

definition scan_exp :: "string \<Rightarrow> (string \<times> string) option" where
  "scan_exp s = (case s of
     [] \<Rightarrow> Some ([], [])
   | c # t \<Rightarrow> if c = CHR ''e'' \<or> c = CHR ''E'' then
                (let sg = (if t \<noteq> [] \<and> (hd t = CHR ''+'' \<or> hd t = CHR ''-'') then [hd t] else []);
                     p = scan_digits (drop (length sg) t)
                 in if fst p = [] then None else Some (c # sg @ fst p, snd p))
              else Some ([], s))"

definition minus_sign :: "string \<Rightarrow> string" where
  "minus_sign s = (if s \<noteq> [] \<and> hd s = CHR ''-'' then [hd s] else [])"

definition scan_number :: "string \<Rightarrow> (string \<times> string) option" where
  "scan_number s =
     (case scan_int (drop (length (minus_sign s)) s) of
        None \<Rightarrow> None
      | Some (i, r) \<Rightarrow> (case scan_frac r of
            None \<Rightarrow> None
          | Some (f, r') \<Rightarrow> (case scan_exp r' of
                None \<Rightarrow> None
              | Some (x, r'') \<Rightarrow> Some (minus_sign s @ i @ f @ x, r''))))"

fun pval :: "nat \<Rightarrow> string \<Rightarrow> (jv \<times> string) option"
  and parr :: "nat \<Rightarrow> string \<Rightarrow> (jv list \<times> string) option"
  and pobj :: "nat \<Rightarrow> string \<Rightarrow> ((string \<times> jv) list \<times> string) option" where
  "pval 0 s = None"
| "pval (Suc n) s = (case skip_ws s of
     [] \<Rightarrow> None
   | c # t \<Rightarrow>
       if c = CHR ''{'' then
         (if skip_ws t \<noteq> [] \<and> hd (skip_ws t) = CHR ''}'' then Some (JObj [], tl (skip_ws t))
          else map_option (\<lambda>p. (JObj (fst p), snd p)) (pobj n t))
       else if c = CHR ''['' then
         (if skip_ws t \<noteq> [] \<and> hd (skip_ws t) = CHR '']'' then Some (JArr [], tl (skip_ws t))
          else map_option (\<lambda>p. (JArr (fst p), snd p)) (parr n t))
       else if c = dquote then map_option (\<lambda>p. (JStr (fst p), snd p)) (parse_str t)
       else if has_prefix (c # t) ''true'' then Some (JBool True, drop 3 t)
       else if has_prefix (c # t) ''false'' then Some (JBool False, drop 4 t)
       else if has_prefix (c # t) ''null'' then Some (JNull, drop 3 t)
       else map_option (\<lambda>p. (JNum (fst p), snd p)) (scan_number (c # t)))"
| "parr 0 s = None"
| "parr (Suc n) s = (case pval n s of
     None \<Rightarrow> None
   | Some p \<Rightarrow> (case skip_ws (snd p) of
         [] \<Rightarrow> None
       | c # t \<Rightarrow>
           if c = CHR '']'' then Some ([fst p], t)
           else if c = CHR '','' then map_option (\<lambda>q. (fst p # fst q, snd q)) (parr n t)
           else None))"
| "pobj 0 s = None"
| "pobj (Suc n) s = (case skip_ws s of
     [] \<Rightarrow> None
   | d # u \<Rightarrow> if d \<noteq> dquote then None else (case parse_str u of
       None \<Rightarrow> None
     | Some k \<Rightarrow> (case skip_ws (snd k) of
         [] \<Rightarrow> None
       | c # t \<Rightarrow> if c \<noteq> CHR '':'' then None else (case pval n t of
           None \<Rightarrow> None
         | Some p \<Rightarrow> (case skip_ws (snd p) of
             [] \<Rightarrow> None
           | e # r \<Rightarrow>
               if e = CHR ''}'' then Some ([(fst k, fst p)], r)
               else if e = CHR '','' then
                 map_option (\<lambda>q. ((fst k, fst p) # fst q, snd q)) (pobj n r)
               else None)))))"

text \<open>The first value of a text and what follows it.\<close>

definition parse_json :: "string \<Rightarrow> (jv \<times> string) option" where
  "parse_json s = pval (2 * length s + 1) s"

subsection \<open>Values of a document\<close>

definition f64_inf :: "bool \<Rightarrow> f64" where
  "f64_inf neg = (if neg then 0xFFF0000000000000 else 0x7FF0000000000000)"

text \<open>\<open>normalizeNumbers\<close>: whole numbers that fit are ints. A number out of the range of a float
  is an infinity, its error being ignored.\<close>

definition json_number :: "golib \<Rightarrow> string \<Rightarrow> val" where
  "json_number G s = (case parse_int s of
     Some i \<Rightarrow> VInt i
   | None \<Rightarrow> VFloat (case parse_float G s of
       Some f \<Rightarrow> f
     | None \<Rightarrow> f64_inf (s \<noteq> [] \<and> hd s = CHR ''-'')))"

fun int_value :: "golib \<Rightarrow> jv \<Rightarrow> val" where
  "int_value G JNull = VNil"
| "int_value G (JBool b) = VBool b"
| "int_value G (JNum s) = json_number G s"
| "int_value G (JStr s) = VStr s"
| "int_value G (JArr js) = VList (map (int_value G) js)"
| "int_value G (JObj es) = VMap (mcopy (map (\<lambda>e. (fst e, int_value G (snd e))) es) [])"

text \<open>Plain \<open>json.Unmarshal\<close> into \<open>any\<close>: every number a float, out of range an error.\<close>

fun float_value :: "golib \<Rightarrow> jv \<Rightarrow> val option" where
  "float_value G JNull = Some VNil"
| "float_value G (JBool b) = Some (VBool b)"
| "float_value G (JNum s) = map_option VFloat (parse_float G s)"
| "float_value G (JStr s) = Some (VStr s)"
| "float_value G (JArr js) = map_option VList (sequence (map (float_value G) js))"
| "float_value G (JObj es) = map_option (\<lambda>m. VMap (mcopy m []))
     (sequence (map (\<lambda>e. map_option (Pair (fst e)) (float_value G (snd e))) es))"

definition unmarshal :: "golib \<Rightarrow> string \<Rightarrow> val option" where
  "unmarshal G s = (case parse_json s of
     None \<Rightarrow> None
   | Some p \<Rightarrow> if skip_ws (snd p) = [] then float_value G (fst p) else None)"

definition decode_state :: "golib \<Rightarrow> string \<Rightarrow> gomap" where
  "decode_state G s = (case parse_json s of
     Some (JObj es, r) \<Rightarrow> (case int_value G (JObj es) of VMap m \<Rightarrow> m | _ \<Rightarrow> [])
   | _ \<Rightarrow> [])"

subsection \<open>Strings read back\<close>

lemma hex_val_digit: "n < 16 \<Longrightarrow> hex_val (hex_digit n) = Some n"
proof -
  have "\<forall>n<16. hex_val (hex_digit n) = Some n" by code_simp
  then show "n < 16 \<Longrightarrow> hex_val (hex_digit n) = Some n" by blast
qed

lemma char_of_parts: "char_of ((of_char c div 16) * 16 + of_char c mod 16 :: nat) = c"
  by (simp add: div_mult_mod_eq)

lemma unescape_u: "hex4 t = Some n \<Longrightarrow> n < 0xD800 \<Longrightarrow> unescape (CHR ''u'' # t) = Some (utf8 n, 5)"
  by (simp add: unescape_def dquote_def backslash_def)

lemma unescape_short:
  "e = dquote \<or> e = backslash \<Longrightarrow> unescape (e # t) = Some ([e], 1)"
  "unescape (CHR ''b'' # t) = Some ([CHR 0x08], 1)"
  "unescape (CHR ''f'' # t) = Some ([CHR 0x0C], 1)"
  "unescape (CHR ''n'' # t) = Some ([CHR 0x0A], 1)"
  "unescape (CHR ''r'' # t) = Some ([CHR 0x0D], 1)"
  "unescape (CHR ''t'' # t) = Some ([CHR 0x09], 1)"
  by (auto simp add: unescape_def dquote_def backslash_def)

lemma hex_val_simps:
  "hex_val (CHR ''0'') = Some 0" "hex_val (CHR ''2'') = Some 2"
  "hex_val (CHR ''8'') = Some 8" "hex_val (CHR ''9'') = Some 9"
  by code_simp+

lemma unescape_byte:
  assumes "of_char c < (128 :: nat)"
  shows "unescape (CHR ''u'' # CHR ''0'' # CHR ''0'' # hex_digit (of_char c div 16)
    # hex_digit (of_char c mod 16) # t) = Some ([c], 5)"
proof -
  define n :: nat where "n = of_char c"
  have n: "n < 128" using assms by (simp add: n_def)
  have h: "hex_val (hex_digit (n div 16)) = Some (n div 16)"
    "hex_val (hex_digit (n mod 16)) = Some (n mod 16)"
    using n by (auto intro!: hex_val_digit)
  have "hex4 (CHR ''0'' # CHR ''0'' # hex_digit (n div 16) # hex_digit (n mod 16) # t) = Some n"
    by (simp add: hex_val_simps h div_mult_mod_eq)
  from unescape_u [OF this] n have "unescape (CHR ''u'' # CHR ''0'' # CHR ''0'' # hex_digit (n div 16)
      # hex_digit (n mod 16) # t) = Some (utf8 n, 5)" by simp
  moreover have "utf8 n = [c]" using n by (simp add: utf8_def n_def)
  ultimately show ?thesis by (simp add: n_def)
qed

lemma unescape_seps:
  "unescape (CHR ''u'' # CHR ''2'' # CHR ''0'' # CHR ''2'' # CHR ''8'' # t) = Some (line_sep, 5)"
  "unescape (CHR ''u'' # CHR ''2'' # CHR ''0'' # CHR ''2'' # CHR ''9'' # t) = Some (para_sep, 5)"
proof -
  have u: "utf8 8232 = line_sep" "utf8 8233 = para_sep"
    using char_of_char [of "CHR 0xE2", where ?'a = nat] char_of_char [of "CHR 0x80", where ?'a = nat]
      char_of_char [of "CHR 0xA8", where ?'a = nat] char_of_char [of "CHR 0xA9", where ?'a = nat]
    by (simp_all add: utf8_def line_sep_def para_sep_def)
  have "hex4 (CHR ''2'' # CHR ''0'' # CHR ''2'' # CHR ''8'' # t) = Some 8232"
    "hex4 (CHR ''2'' # CHR ''0'' # CHR ''2'' # CHR ''9'' # t) = Some 8233"
    by (simp_all add: hex_val_simps)
  from unescape_u [OF this(1)] unescape_u [OF this(2)] show
    "unescape (CHR ''u'' # CHR ''2'' # CHR ''0'' # CHR ''2'' # CHR ''8'' # t) = Some (line_sep, 5)"
    "unescape (CHR ''u'' # CHR ''2'' # CHR ''0'' # CHR ''2'' # CHR ''9'' # t) = Some (para_sep, 5)"
    by (simp_all add: u)
qed

lemma parse_str_escaped:
  "unescape (x @ t) = Some (y, length x) \<Longrightarrow>
     parse_str (backslash # x @ t) = map_option (\<lambda>p. (y @ fst p, snd p)) (parse_str t)"
  by (subst parse_str.simps) (simp add: dquote_def backslash_def)

lemma parse_str_short:
  "unescape (e # t) = Some ([c], 1) \<Longrightarrow>
     parse_str (backslash # e # t) = map_option (\<lambda>p. (c # fst p, snd p)) (parse_str t)"
  using parse_str_escaped [of "[e]" t "[c]"] by simp

lemma parse_str_byte:
  "of_char c < (128 :: nat) \<Longrightarrow>
     parse_str (byte_escape c @ t) = map_option (\<lambda>p. (c # fst p, snd p)) (parse_str t)"
  using parse_str_escaped [of "[CHR ''u'', CHR ''0'', CHR ''0'', hex_digit (of_char c div 16),
      hex_digit (of_char c mod 16)]" t "[c]"] unescape_byte [of c t]
  by (simp add: byte_escape_def)

lemma parse_str_plain:
  "c \<noteq> dquote \<Longrightarrow> c \<noteq> backslash \<Longrightarrow> \<not> of_char c < (32 :: nat) \<Longrightarrow>
     parse_str (c # t) = map_option (\<lambda>p. (c # fst p, snd p)) (parse_str t)"
  by (subst parse_str.simps) simp

lemma parse_str_escape_char:
  "parse_str (escape_char c @ t) = map_option (\<lambda>p. (c # fst p, snd p)) (parse_str t)"
proof -
  consider "c = dquote \<or> c = backslash"
    | "c \<notin> {dquote, backslash}" "c \<in> {CHR 0x08, CHR 0x0C, CHR 0x0A, CHR 0x0D, CHR 0x09}"
    | "c \<notin> {dquote, backslash, CHR 0x08, CHR 0x0C, CHR 0x0A, CHR 0x0D, CHR 0x09}" by blast
  then show ?thesis
  proof cases
    case 1
    then have e: "escape_char c = [backslash, c]" by (simp add: escape_char_def)
    from 1 show ?thesis
      unfolding e by (simp add: parse_str_short unescape_short(1))
  next
    case 2
    then consider "escape_char c = [backslash, CHR ''b'']" "c = CHR 0x08"
      | "escape_char c = [backslash, CHR ''f'']" "c = CHR 0x0C"
      | "escape_char c = [backslash, CHR ''n'']" "c = CHR 0x0A"
      | "escape_char c = [backslash, CHR ''r'']" "c = CHR 0x0D"
      | "escape_char c = [backslash, CHR ''t'']" "c = CHR 0x09"
      by (auto simp: escape_char_def)
    then show ?thesis
      by cases (simp_all add: parse_str_short unescape_short)
  next
    case 3
    show ?thesis
    proof (cases "of_char c < (32 :: nat) \<or> c = CHR ''<'' \<or> c = CHR ''>'' \<or> c = CHR ''&''")
      case True
      then have "of_char c < (128 :: nat)" by auto
      moreover have "escape_char c = byte_escape c"
        using True 3 by (simp add: escape_char_def)
      ultimately show ?thesis by (simp add: parse_str_byte)
    next
      case False
      then have "escape_char c = [c]" using 3 by (simp add: escape_char_def)
      with 3 False show ?thesis by (simp add: parse_str_plain)
    qed
  qed
qed

lemma has_prefix_sep:
  "has_prefix (c # s) line_sep \<Longrightarrow> line_sep @ drop 2 s = c # s"
  "has_prefix (c # s) para_sep \<Longrightarrow> para_sep @ drop 2 s = c # s"
  by (auto simp: has_prefix_iff line_sep_def para_sep_def)

lemma parse_str_sep:
  "parse_str (backslash # ''u2028'' @ t) = map_option (\<lambda>p. (line_sep @ fst p, snd p)) (parse_str t)"
  "parse_str (backslash # ''u2029'' @ t) = map_option (\<lambda>p. (para_sep @ fst p, snd p)) (parse_str t)"
  using parse_str_escaped [of "''u2028''" t line_sep] parse_str_escaped [of "''u2029''" t para_sep]
  by (simp_all add: unescape_seps)

lemma parse_str_escape: "parse_str (escape s @ dquote # r) = Some (s, r)"
proof (induction s rule: escape.induct)
  case 1
  show ?case by (subst parse_str.simps) simp
next
  case (2 c s)
  consider "has_prefix (c # s) line_sep" | "\<not> has_prefix (c # s) line_sep" "has_prefix (c # s) para_sep"
    | "\<not> has_prefix (c # s) line_sep" "\<not> has_prefix (c # s) para_sep" by blast
  then show ?case
  proof cases
    case 1
    then have "escape (c # s) @ dquote # r = backslash # ''u2028'' @ (escape (drop 2 s) @ dquote # r)"
      by simp
    then show ?thesis
      using 1 "2.IH"(1) by (simp only: parse_str_sep) (simp add: has_prefix_sep)
  next
    case b: 2
    then have "escape (c # s) @ dquote # r = backslash # ''u2029'' @ (escape (drop 2 s) @ dquote # r)"
      by simp
    then show ?thesis
      using b "2.IH"(2) by (simp only: parse_str_sep) (simp add: has_prefix_sep)
  next
    case 3
    with "2.IH"(3) show ?thesis by (simp add: parse_str_escape_char)
  qed
qed

lemma parse_jstr: "jstr s @ r = dquote # escape s @ dquote # r"
  by (simp add: jstr_def)

subsection \<open>Numbers read back\<close>

definition num_end :: "string \<Rightarrow> bool" where
  "num_end r = (r = [] \<or> (\<not> is_digit (hd r) \<and> hd r \<notin> {CHR ''.'', CHR ''e'', CHR ''E''}))"

lemma scan_digits_append:
  "scan_digits s = (a, b) \<Longrightarrow> num_end r \<Longrightarrow> scan_digits (s @ r) = (a, b @ r)"
proof (induction s arbitrary: a b)
  case Nil
  then show ?case by (cases r) (auto simp: num_end_def)
next
  case (Cons c s)
  then show ?case by (cases "scan_digits s") (auto simp: Let_def split: if_splits)
qed

lemma scan_int_append:
  "scan_int s = Some (a, b) \<Longrightarrow> num_end r \<Longrightarrow> scan_int (s @ r) = Some (a, b @ r)"
  using scan_digits_append [of s a b r]
  by (auto simp: scan_int_def split: list.splits if_splits)

lemma scan_frac_append:
  "scan_frac s = Some (a, b) \<Longrightarrow> num_end r \<Longrightarrow> scan_frac (s @ r) = Some (a, b @ r)"
proof (cases s)
  case Nil
  assume "scan_frac s = Some (a, b)" "num_end r"
  with Nil show ?thesis by (cases r) (auto simp: scan_frac_def num_end_def)
next
  case (Cons c t)
  assume "scan_frac s = Some (a, b)" "num_end r"
  with Cons show ?thesis
    by (cases "scan_digits t") (auto simp: scan_frac_def Let_def scan_digits_append split: if_splits)
qed

lemma scan_exp_append:
  "scan_exp s = Some (a, b) \<Longrightarrow> num_end r \<Longrightarrow> scan_exp (s @ r) = Some (a, b @ r)"
proof (cases s)
  case Nil
  assume "scan_exp s = Some (a, b)" "num_end r"
  with Nil show ?thesis by (cases r) (auto simp: scan_exp_def num_end_def)
next
  case (Cons c t)
  assume ab: "scan_exp s = Some (a, b)" and r: "num_end r"
  show ?thesis
  proof (cases "c = CHR ''e'' \<or> c = CHR ''E''")
    case False
    with Cons ab show ?thesis by (auto simp: scan_exp_def)
  next
    case True
    then have t: "t \<noteq> []" using Cons ab by (auto simp: scan_exp_def Let_def)
    define sg where "sg = (if hd t = CHR ''+'' \<or> hd t = CHR ''-'' then [hd t] else [])"
    obtain x y where xy: "scan_digits (drop (length sg) t) = (x, y)" by fastforce
    have d: "drop (length sg) (t @ r) = drop (length sg) t @ r"
      using t by (cases t) (auto simp: sg_def)
    have x: "x \<noteq> []" "a = c # sg @ x" "b = y"
      using True Cons ab t xy by (auto simp: scan_exp_def Let_def sg_def split: if_splits)
    have "scan_digits (drop (length sg) (t @ r)) = (x, y @ r)"
      using scan_digits_append [OF xy r] d by simp
    then show ?thesis
      using True Cons t x by (auto simp: scan_exp_def Let_def sg_def split: if_splits)
  qed
qed

lemma scan_number_append:
  assumes "scan_number s = Some (a, b)" "num_end r"
  shows "scan_number (s @ r) = Some (a, b @ r)"
proof -
  have s: "s \<noteq> []" using assms by (auto simp: scan_number_def scan_int_def minus_sign_def)
  have sg: "minus_sign (s @ r) = minus_sign s" using s by (simp add: minus_sign_def)
  have d: "drop (length (minus_sign s)) (s @ r) = drop (length (minus_sign s)) s @ r"
    using s by (cases s) (auto simp: minus_sign_def)
  from assms(1) obtain i r1 f r2 x where
    p: "scan_int (drop (length (minus_sign s)) s) = Some (i, r1)" "scan_frac r1 = Some (f, r2)"
      "scan_exp r2 = Some (x, b)" "a = minus_sign s @ i @ f @ x"
    unfolding scan_number_def by (auto split: option.splits)
  have q: "scan_int (drop (length (minus_sign s)) s @ r) = Some (i, r1 @ r)"
    "scan_frac (r1 @ r) = Some (f, r2 @ r)" "scan_exp (r2 @ r) = Some (x, b @ r)"
    using p assms(2) by (simp_all add: scan_int_append scan_frac_append scan_exp_append)
  show ?thesis
    unfolding scan_number_def sg d q(1) by (simp add: q p(4))
qed

lemma scan_digits_all: "list_all is_digit s \<Longrightarrow> scan_digits s = (s, [])"
  by (induction s) auto

lemma nat_text_zero: "n \<noteq> 0 \<Longrightarrow> hd (nat_text n) \<noteq> CHR ''0''"
proof (induction n rule: nat_text.induct)
  case (1 n)
  show ?case
  proof (cases "n < 10")
    case True
    have "digit_char 0 = CHR ''0''" by code_simp
    then have "digit_char n = CHR ''0'' \<Longrightarrow> n = 0"
      using digit_val_char [of n] digit_val_char [of 0] True by fastforce
    then show ?thesis using True 1 by (subst nat_text.simps) auto
  next
    case False
    with 1 show ?thesis by (subst nat_text.simps) auto
  qed
qed

lemma scan_int_nat_text: "scan_int (nat_text n) = Some (nat_text n, [])"
proof (cases "n = 0")
  case True
  have "nat_text 0 = [CHR ''0'']" by code_simp
  with True show ?thesis by (simp add: scan_int_def)
next
  case False
  obtain c t where ct: "nat_text n = c # t" by (cases "nat_text n") auto
  have "list_all is_digit (nat_text n)" by (simp add: list_all_iff nat_text_digits)
  then have "scan_digits (c # t) = (c # t, [])" "is_digit c"
    using scan_digits_all ct by auto
  then show ?thesis
    using nat_text_zero [OF False] by (simp add: scan_int_def ct)
qed

lemma scan_number_int_text: "scan_number (int_text i) = Some (int_text i, [])"
proof -
  have "hd (nat_text n) \<noteq> CHR ''-''" for n
    using nat_text_no_char [of "CHR ''-''" n] hd_in_set [of "nat_text n"]
    by (auto simp: is_digit_def less_eq_char_def simp del: hd_in_set)
  then show ?thesis
    by (simp add: scan_number_def minus_sign_def int_text.simps scan_int_nat_text scan_frac_def scan_exp_def)
qed

lemma scan_number_hd:
  assumes "scan_number s = Some p"
  shows "s \<noteq> [] \<and> (is_digit (hd s) \<or> hd s = CHR ''-'')"
proof -
  have "is_digit (CHR ''0'')" by (simp add: is_digit_def)
  with assms show ?thesis
    by (auto simp: scan_number_def minus_sign_def scan_int_def split: option.splits list.splits if_splits)
qed

subsection \<open>Documents read back\<close>

fun jv_ok :: "jv \<Rightarrow> bool" where
  "jv_ok (JNum s) = (scan_number s = Some (s, []))"
| "jv_ok (JArr js) = list_all jv_ok js"
| "jv_ok (JObj es) = list_all (\<lambda>e. jv_ok (snd e)) es"
| "jv_ok _ = True"

lemma skip_ws_Cons [simp]: "\<not> is_ws c \<Longrightarrow> skip_ws (c # t) = c # t"
  by (simp add: skip_ws_def)

lemma not_ws [simp]:
  "\<not> is_ws (CHR '','')" "\<not> is_ws (CHR '']'')" "\<not> is_ws (CHR ''}'')" "\<not> is_ws (CHR ''['')"
  "\<not> is_ws (CHR ''{'')" "\<not> is_ws (CHR '':'')" "\<not> is_ws dquote" "\<not> is_ws (CHR ''t'')"
  "\<not> is_ws (CHR ''f'')" "\<not> is_ws (CHR ''n'')" "\<not> is_ws (CHR ''-'')"
  by (simp_all add: is_ws_def dquote_def)

lemma digit_not_special:
  assumes "is_digit c"
  shows "\<not> is_ws c" "c \<notin> {CHR ''{'', CHR ''['', dquote, CHR ''t'', CHR ''f'', CHR ''n'', CHR '']'', CHR ''}''}"
  using assms by (auto simp: is_digit_def is_ws_def dquote_def less_eq_char_def)

lemma num_end_sep [simp]: "num_end (CHR '','' # r)" "num_end (CHR '']'' # r)" "num_end (CHR ''}'' # r)"
  by (simp_all add: num_end_def is_digit_def less_eq_char_def)

lemma num_end_Nil [simp]: "num_end []"
  by (simp add: num_end_def)

text \<open>The first byte of a printed document.\<close>

lemma jtext_start:
  assumes "jv_ok j"
  shows "\<exists>c t. jtext j = c # t \<and> \<not> is_ws c \<and> c \<noteq> CHR '']''"
proof (cases j)
  case (JNum s)
  with assms have "s \<noteq> [] \<and> (is_digit (hd s) \<or> hd s = CHR ''-'')"
    using scan_number_hd by auto
  with JNum show ?thesis by (cases s) (auto dest: digit_not_special)
next
  case (JStr s)
  then show ?thesis by (simp add: jstr_def dquote_def is_ws_def)
qed auto

lemma pval_string: "pval (Suc n) (jstr s @ r) = Some (JStr s, r)"
  by (simp add: parse_jstr parse_str_escape) (simp add: dquote_def)

lemma pval_number:
  assumes "scan_number s = Some (s, [])" "num_end r"
  shows "pval (Suc n) (s @ r) = Some (JNum s, r)"
proof -
  obtain c t where s: "s = c # t" and c: "is_digit c \<or> c = CHR ''-''"
    using scan_number_hd [OF assms(1)] by (cases s) auto
  have ws: "\<not> is_ws c" using c digit_not_special by auto
  have sp: "c \<notin> {CHR ''{'', CHR ''['', dquote, CHR ''t'', CHR ''f'', CHR ''n''}"
    using c digit_not_special by (auto simp: dquote_def)
  show ?thesis
    using scan_number_append [OF assms] s ws sp by auto
qed

lemma parr_jtext:
  assumes "js \<noteq> []"
    and "\<forall>j\<in>set js. \<forall>r n. num_end r \<longrightarrow> length (jtext j) < n \<longrightarrow> pval n (jtext j @ r) = Some (j, r)"
    and "length (join '','' (map jtext js)) + 1 < n"
  shows "parr n (join '','' (map jtext js) @ CHR '']'' # r) = Some (js, r)"
  using assms
proof (induction js arbitrary: n)
  case Nil
  then show ?case by simp
next
  case (Cons j js)
  then obtain m where n: "n = Suc m" by (cases n) auto
  show ?case
  proof (cases js)
    case Nil
    with Cons.prems n show ?thesis by simp
  next
    case (Cons k ks)
    have "parr m (join '','' (map jtext js) @ CHR '']'' # r) = Some (js, r)"
      using Cons.prems n Cons by (intro Cons.IH) auto
    moreover have "pval m (jtext j @ CHR '','' # s) = Some (j, CHR '','' # s)" for s
      using Cons.prems n Cons by simp
    ultimately show ?thesis
      using n Cons by simp
  qed
qed

definition member_text :: "string \<times> jv \<Rightarrow> string" where
  "member_text e = jstr (fst e) @ '':'' @ jtext (snd e)"

lemma pobj_last:
  "pval m (jtext (snd e) @ CHR ''}'' # r) = Some (snd e, CHR ''}'' # r) \<Longrightarrow>
     pobj (Suc m) (member_text e @ CHR ''}'' # r) = Some ([e], r)"
  by (simp add: member_text_def parse_jstr parse_str_escape)

lemma pobj_more:
  "pval m (jtext (snd e) @ CHR '','' # s) = Some (snd e, CHR '','' # s) \<Longrightarrow>
     pobj m s = Some (es, r) \<Longrightarrow> pobj (Suc m) (member_text e @ CHR '','' # s) = Some (e # es, r)"
  by (simp add: member_text_def parse_jstr parse_str_escape)

lemma member_text_length: "length (jtext (snd e)) < length (member_text e)"
  by (simp add: member_text_def)

lemma pobj_jtext:
  assumes "es \<noteq> []"
    and "\<forall>e\<in>set es. \<forall>r n. num_end r \<longrightarrow> length (jtext (snd e)) < n \<longrightarrow>
           pval n (jtext (snd e) @ r) = Some (snd e, r)"
    and "length (join '','' (map member_text es)) + 1 < n"
  shows "pobj n (join '','' (map member_text es) @ CHR ''}'' # r) = Some (es, r)"
  using assms
proof (induction es arbitrary: n)
  case Nil
  then show ?case by simp
next
  case (Cons e es)
  then obtain m where n: "n = Suc m" by (cases n) auto
  show ?case
  proof (cases es)
    case Nil
    with Cons.prems n member_text_length [of e]
    have "pval m (jtext (snd e) @ CHR ''}'' # r) = Some (snd e, CHR ''}'' # r)" by simp
    from pobj_last [OF this] show ?thesis using Nil n by (simp del: pobj.simps)
  next
    case (Cons f fs)
    have "pobj m (join '','' (map member_text es) @ CHR ''}'' # r) = Some (es, r)"
      using Cons.prems n Cons by (intro Cons.IH) auto
    moreover have "pval m (jtext (snd e) @ CHR '','' # s) = Some (snd e, CHR '','' # s)" for s
      using Cons.prems n Cons member_text_length [of e] by simp
    ultimately show ?thesis
      using n Cons pobj_more [of m e] by (simp del: pobj.simps)
  qed
qed

lemma jobj_text: "jtext (JObj es) = ''{'' @ join '','' (map member_text es) @ ''}''"
  by (simp add: member_text_def [abs_def])

lemma member_start:
  assumes "es \<noteq> []"
  shows "\<exists>t. join '','' (map member_text es) = dquote # t"
proof -
  obtain e fs where "es = e # fs" using assms by (cases es) auto
  then show ?thesis by (cases fs) (auto simp: member_text_def jstr_def)
qed

lemma array_start:
  assumes "js \<noteq> []" "list_all jv_ok js"
  shows "\<exists>c t. join '','' (map jtext js) = c # t \<and> \<not> is_ws c \<and> c \<noteq> CHR '']''"
proof -
  obtain j ks where js: "js = j # ks" using assms by (cases js) auto
  then obtain c t where "jtext j = c # t" "\<not> is_ws c" "c \<noteq> CHR '']''"
    using jtext_start [of j] assms by auto
  then show ?thesis using js by (cases ks) auto
qed

lemma pval_jtext:
  "jv_ok j \<Longrightarrow> num_end r \<Longrightarrow> length (jtext j) < n \<Longrightarrow> pval n (jtext j @ r) = Some (j, r)"
proof (induction j arbitrary: r n)
  case JNull
  then show ?case by (cases n) (auto simp: dquote_def)
next
  case (JBool b)
  then show ?case by (cases n) (auto simp: dquote_def)
next
  case (JNum s)
  then show ?case using pval_number by (cases n) auto
next
  case (JStr s)
  then show ?case using pval_string by (cases n) auto
next
  case (JArr js)
  then obtain m where n: "n = Suc m" by (cases n) auto
  show ?case
  proof (cases "js = []")
    case True
    with n show ?thesis by simp
  next
    case False
    then obtain c t where ct: "join '','' (map jtext js) = c # t" "\<not> is_ws c" "c \<noteq> CHR '']''"
      using array_start [of js] JArr.prems by auto
    have "parr m (join '','' (map jtext js) @ CHR '']'' # r) = Some (js, r)"
      using JArr n False by (intro parr_jtext) (auto simp: list_all_iff)
    then show ?thesis using n ct by simp
  qed
next
  case (JObj es)
  then obtain m where n: "n = Suc m" by (cases n) auto
  show ?case
  proof (cases "es = []")
    case True
    with n show ?thesis by simp
  next
    case False
    then obtain t where t: "join '','' (map member_text es) = dquote # t"
      using member_start [of es] by blast
    have "pobj m (join '','' (map member_text es) @ CHR ''}'' # r) = Some (es, r)"
      using JObj.prems n False
      by (intro pobj_jtext) (auto simp: list_all_iff jobj_text simp del: jtext.simps intro!: JObj.IH)
    moreover have "dquote \<noteq> CHR ''}''" by (simp add: dquote_def)
    ultimately show ?thesis
      unfolding jobj_text using n t by simp
  qed
qed

lemma parse_json_jtext: "jv_ok j \<Longrightarrow> parse_json (jtext j) = Some (j, [])"
  unfolding parse_json_def using pval_jtext [of j "[]" "2 * length (jtext j) + 1"] by simp

subsection \<open>Fuel\<close>

lemma skip_ws_length: "skip_ws s = c # t \<Longrightarrow> length t < length s"
  using length_dropWhile_le [of is_ws s] by (simp add: skip_ws_def)

lemma parse_str_length: "parse_str s = Some p \<Longrightarrow> length (snd p) < length s"
proof (induction s arbitrary: p rule: parse_str.induct)
  case (1 s)
  show ?case
  proof (cases s)
    case Nil
    with 1 show ?thesis by (simp add: parse_str.simps)
  next
    case (Cons c t)
    show ?thesis
    proof (cases "c \<noteq> dquote \<and> c = backslash")
      case True
      with 1 Cons show ?thesis
        by (subst (asm) (3) parse_str.simps) (fastforce split: option.splits)
    next
      case False
      with 1 Cons show ?thesis
        by (subst (asm) (3) parse_str.simps) (fastforce split: if_splits)
    qed
  qed
qed

lemma scan_digits_length: "length (snd (scan_digits s)) + length (fst (scan_digits s)) = length s"
  by (induction s) (auto simp: Let_def)

lemma scan_int_length: "scan_int s = Some (a, b) \<Longrightarrow> length b < length s"
proof (cases s)
  case (Cons c t)
  assume "scan_int s = Some (a, b)"
  with Cons scan_digits_length [of t] show ?thesis
    by (auto simp: scan_int_def Let_def split: if_splits)
qed (simp add: scan_int_def)

lemma scan_frac_length: "scan_frac s = Some (a, b) \<Longrightarrow> length b \<le> length s"
proof (cases s)
  case (Cons c t)
  assume "scan_frac s = Some (a, b)"
  with Cons scan_digits_length [of t] show ?thesis
    by (auto simp: scan_frac_def Let_def split: if_splits)
qed (simp add: scan_frac_def)

lemma scan_exp_length: "scan_exp s = Some (a, b) \<Longrightarrow> length b \<le> length s"
proof (cases s)
  case (Cons c t)
  assume ab: "scan_exp s = Some (a, b)"
  define u where "u = drop (length (if t \<noteq> [] \<and> (hd t = CHR ''+'' \<or> hd t = CHR ''-'') then [hd t] else [])) t"
  have "length u \<le> length t" by (simp add: u_def)
  with ab Cons scan_digits_length [of u] show ?thesis
    by (auto simp: scan_exp_def Let_def u_def [symmetric] simp del: length_drop split: if_splits)
qed (simp add: scan_exp_def)

lemma scan_number_length:
  assumes "scan_number s = Some (a, b)"
  shows "length b < length s"
proof -
  from assms obtain i r1 f r2 x where
    p: "scan_int (drop (length (minus_sign s)) s) = Some (i, r1)" "scan_frac r1 = Some (f, r2)"
      "scan_exp r2 = Some (x, b)"
    unfolding scan_number_def by (auto split: option.splits)
  then show ?thesis
    using scan_int_length [OF p(1)] scan_frac_length [OF p(2)] scan_exp_length [OF p(3)] by simp
qed

lemma pval_shrinks:
  assumes "\<And>s q. parr n s = Some q \<Longrightarrow> length (snd q) < length s"
    and "\<And>s q. pobj n s = Some q \<Longrightarrow> length (snd q) < length s"
    and "pval (Suc n) s = Some p"
  shows "length (snd p) < length s"
proof -
  obtain c t where ct: "skip_ws s = c # t" using assms(3) by (cases "skip_ws s") auto
  note l = skip_ws_length [OF ct]
  have w: "length (tl (skip_ws t)) \<le> length t"
    using length_dropWhile_le [of is_ws t] by (simp add: skip_ws_def)
  have num: "scan_number (c # t) = Some q \<Longrightarrow> length (snd q) < Suc (length t)" for q
    using scan_number_length [of "c # t" "fst q" "snd q"] by simp
  show ?thesis
    using assms(3) l w assms(1,2) [of t] parse_str_length [of t] num
    by (auto simp: ct split: if_splits)
qed

lemma parse_shrinks:
  "(\<forall>s p. pval n s = Some p \<longrightarrow> length (snd p) < length s) \<and>
   (\<forall>s p. parr n s = Some p \<longrightarrow> length (snd p) < length s) \<and>
   (\<forall>s p. pobj n s = Some p \<longrightarrow> length (snd p) < length s)"
proof (induction n)
  case 0
  then show ?case by simp
next
  case (Suc n)
  have a: "length (snd p) < length s" if arr: "parr (Suc n) s = Some p" for s p
  proof -
    from arr obtain v c t where v: "pval n s = Some v" "skip_ws (snd v) = c # t"
      by (auto split: option.splits list.splits)
    then have l: "length t < length (snd v)" "length (snd v) < length s"
      using skip_ws_length Suc by blast+
    have "snd p = t \<or> (\<exists>q. parr n t = Some q \<and> snd p = snd q)"
      using arr v by (auto split: if_splits)
    then show ?thesis
      using l Suc by (metis less_trans)
  qed
  have o: "length (snd p) < length s" if obj: "pobj (Suc n) s = Some p" for s p
  proof -
    from obj obtain d u k c t v e r where v: "skip_ws s = d # u" "parse_str u = Some k"
      "skip_ws (snd k) = c # t" "pval n t = Some v" "skip_ws (snd v) = e # r"
      by (auto split: option.splits list.splits if_splits)
    then have l: "length u < length s" "length (snd k) < length u" "length t < length (snd k)"
      "length (snd v) < length t" "length r < length (snd v)"
      using skip_ws_length parse_str_length Suc by blast+
    have "snd p = r \<or> (\<exists>q. pobj n r = Some q \<and> snd p = snd q)"
      using obj unfolding pobj.simps(2) [of n s] v(1) using v by (auto split: if_splits)
    then show ?thesis
      using l Suc by (metis less_trans)
  qed
  show ?case
    using a o pval_shrinks [of n] Suc by (auto simp del: pval.simps parr.simps pobj.simps)
qed

text \<open>One more unit of fuel changes nothing once there is twice the length of the text.\<close>

text \<open>One more unit of fuel changes nothing in each of the three parsers, when it changes nothing in what they call.\<close>

lemma pval_fuel_above:
  assumes "\<And>t. 2 * length t + 2 \<le> n \<Longrightarrow> parr (Suc n) t = parr n t" "\<And>t. 2 * length t + 2 \<le> n \<Longrightarrow> pobj (Suc n) t = pobj n t"
    "2 * length s + 1 \<le> Suc n"
  shows "pval (Suc (Suc n)) s = pval (Suc n) s"
proof (cases "skip_ws s")
  case Nil
  then show ?thesis by simp
next
  case (Cons c t)
  have "2 * length t + 2 \<le> n" using skip_ws_length [OF Cons] assms(3) by simp
  then have "parr (Suc n) t = parr n t" "pobj (Suc n) t = pobj n t" using assms(1,2) by blast+
  then show ?thesis
    unfolding pval.simps(2) [of "Suc n" s] pval.simps(2) [of n s] Cons
    by (simp del: parr.simps pobj.simps pval.simps)
qed

lemma parr_fuel_above:
  assumes "\<And>t. 2 * length t + 1 \<le> n \<Longrightarrow> pval (Suc n) t = pval n t" "\<And>t. 2 * length t + 2 \<le> n \<Longrightarrow> parr (Suc n) t = parr n t"
    "2 * length s + 2 \<le> Suc n"
  shows "parr (Suc (Suc n)) s = parr (Suc n) s"
proof -
  have p: "pval (Suc n) s = pval n s" using assms(1,3) by simp
  have "parr (Suc n) t = parr n t" if "pval n s = Some v" "skip_ws (snd v) = c # t" for v c t
  proof -
    have "length t < length (snd v)" "length (snd v) < length s"
      using that skip_ws_length parse_shrinks by blast+
    then show ?thesis using assms(2,3) by simp
  qed
  then show ?thesis
    unfolding parr.simps(2) [of "Suc n" s] parr.simps(2) [of n s] p
    by (cases "pval n s") (auto split: list.splits simp del: parr.simps pval.simps)
qed

lemma pobj_fuel_above:
  assumes "\<And>t. 2 * length t + 1 \<le> n \<Longrightarrow> pval (Suc n) t = pval n t" "\<And>t. 2 * length t + 2 \<le> n \<Longrightarrow> pobj (Suc n) t = pobj n t"
    "2 * length s + 2 \<le> Suc n"
  shows "pobj (Suc (Suc n)) s = pobj (Suc n) s"
proof (cases "skip_ws s")
  case Nil
  then show ?thesis by simp
next
  case (Cons d u)
  have p: "pval (Suc n) t = pval n t"
    if "parse_str u = Some k" "skip_ws (snd k) = c # t" for k c t
  proof -
    have "length u < length s" "length (snd k) < length u" "length t < length (snd k)"
      using that Cons skip_ws_length parse_str_length by blast+
    then show ?thesis using assms(1,3) by simp
  qed
  have q: "pobj (Suc n) r = pobj n r"
    if "parse_str u = Some k" "skip_ws (snd k) = c # t" "pval n t = Some v"
      "skip_ws (snd v) = e # r" for k c t v e r
  proof -
    have "length u < length s" "length (snd k) < length u" "length t < length (snd k)"
      "length (snd v) < length t" "length r < length (snd v)"
      using that Cons skip_ws_length parse_str_length parse_shrinks by blast+
    then show ?thesis using assms(2,3) by simp
  qed
  note unfold = pobj.simps(2) [of "Suc n" s] pobj.simps(2) [of n s] Cons list.case
  consider (a) "parse_str u = None"
    | (b) k where "parse_str u = Some k" "skip_ws (snd k) = []"
    | (c) k c t where "parse_str u = Some k" "skip_ws (snd k) = c # t" "pval n t = None"
    | (d) k c t v where "parse_str u = Some k" "skip_ws (snd k) = c # t" "pval n t = Some v"
        "skip_ws (snd v) = []"
    | (e) k c t v e r where "parse_str u = Some k" "skip_ws (snd k) = c # t" "pval n t = Some v"
        "skip_ws (snd v) = e # r"
    by (metis neq_Nil_conv not_None_eq)
  then show ?thesis
  proof cases
    case e
    show ?thesis
      unfolding unfold e(1) option.case e(2) list.case p [OF e(1,2)] e(3) e(4)
        q [OF e(1-4)] ..
  next
    case d
    show ?thesis
      unfolding unfold d(1) option.case d(2) list.case p [OF d(1,2)] d(3) d(4) by simp
  next
    case c
    show ?thesis
      unfolding unfold c(1) option.case c(2) list.case p [OF c(1,2)] c(3) by simp
  qed (simp_all add: unfold del: pobj.simps)
qed

lemma pval_fuel_step:
  "(\<forall>s. 2 * length s + 1 \<le> n \<longrightarrow> pval (Suc n) s = pval n s) \<and>
   (\<forall>s. 2 * length s + 2 \<le> n \<longrightarrow> parr (Suc n) s = parr n s) \<and>
   (\<forall>s. 2 * length s + 2 \<le> n \<longrightarrow> pobj (Suc n) s = pobj n s)"
proof (induction n)
  case 0
  then show ?case by simp
next
  case (Suc n)
  then have "pval (Suc n) t = pval n t" if "2 * length t + 1 \<le> n" for t using that by blast
  moreover have "parr (Suc n) t = parr n t" "pobj (Suc n) t = pobj n t" if "2 * length t + 2 \<le> n" for t using Suc that by blast+
  ultimately show ?case using pval_fuel_above parr_fuel_above pobj_fuel_above by blast
qed

lemma pval_fuel:
  assumes "2 * length s < n"
  shows "pval n s = parse_json s"
proof -
  have "pval (k + (2 * length s + 1)) s = pval (2 * length s + 1) s" for k
  proof (induction k)
    case 0
    then show ?case by simp
  next
    case (Suc k)
    then show ?case using pval_fuel_step [of "k + (2 * length s + 1)"] by simp
  qed
  from this [of "n - (2 * length s + 1)"] show ?thesis
    using assms by (simp add: parse_json_def del: pval.simps)
qed

subsection \<open>Values through the store\<close>

fun float_free :: "val \<Rightarrow> bool" where
  "float_free (VFloat f) = False"
| "float_free (VList vs) = list_all float_free vs"
| "float_free (VMap m) = list_all (\<lambda>e. float_free (snd e)) m"
| "float_free (VMaps ms) = list_all (\<lambda>m. list_all (\<lambda>e. float_free (snd e)) m) ms"
| "float_free _ = True"

text \<open>What a value is after it was saved and read: typed slices and maps become generic ones.\<close>

fun canon :: "val \<Rightarrow> val" where
  "canon (VList vs) = VList (map canon vs)"
| "canon (VMap m) = VMap (map (\<lambda>e. (fst e, canon (snd e))) m)"
| "canon (VStrs ss) = (if ss = [] then VNil else VList (map VStr ss))"
| "canon (VMaps ms) =
     (if ms = [] then VNil else VList (map (\<lambda>m. VMap (map (\<lambda>e. (fst e, canon (snd e))) m)) ms))"
| "canon (VSMap m) = VMap (map (\<lambda>e. (fst e, VStr (snd e))) m)"
| "canon v = v"

fun native :: "val \<Rightarrow> bool" where
  "native (VFloat f) = False"
| "native (VList vs) = list_all native vs"
| "native (VMap m) = list_all (\<lambda>e. native (snd e)) m"
| "native (VStrs ss) = False"
| "native (VMaps ms) = False"
| "native (VSMap m) = False"
| "native _ = True"

lemma sequence_map:
  assumes "\<And>x. x \<in> set xs \<Longrightarrow> f x = Some (g x)"
  shows "sequence (map f xs) = Some (map g xs)"
  using assms by (auto simp: sequence_def list_ex_iff)

lemma mcopy_map_values: "mwf m \<Longrightarrow> mcopy (map (\<lambda>e. (fst e, f (snd e))) m) [] = map (\<lambda>e. (fst e, f (snd e))) m"
  by (rule mcopy_into_empty) (simp add: mwf_def comp_def)

lemma native_float_free: "native v \<Longrightarrow> float_free v"
  by (induction v rule: native.induct) (auto simp: list_all_iff)

lemma canon_native: "native v \<Longrightarrow> canon v = v"
  by (induction v rule: native.induct) (auto simp: list_all_iff map_idI)

text \<open>A value without floats prints as a document, and the decoder reads \<open>canon\<close> of it.\<close>

definition stored_as :: "golib \<Rightarrow> val \<Rightarrow> jv \<Rightarrow> bool" where
  "stored_as G v j \<longleftrightarrow> jv_of G v = Some j \<and> jv_ok j \<and> int_value G j = canon v"

lemma stored_list:
  assumes "\<And>v. v \<in> set vs \<Longrightarrow> \<exists>j. stored_as G v j"
  shows "\<exists>j. stored_as G (VList vs) j"
proof -
  from assms obtain f where f: "\<And>v. v \<in> set vs \<Longrightarrow> stored_as G v (f v)" by metis
  then have "sequence (map (jv_of G) vs) = Some (map f vs)"
    by (intro sequence_map) (auto simp: stored_as_def)
  then show ?thesis
    using f by (intro exI [of _ "JArr (map f vs)"]) (auto simp: stored_as_def list_all_iff)
qed

lemma stored_entries:
  assumes "mwf m" "\<And>e. e \<in> set m \<Longrightarrow> \<exists>j. stored_as G (snd e) j"
  shows "\<exists>es. sequence (map (\<lambda>e. map_option (Pair (fst e)) (jv_of G (snd e))) m) = Some es \<and>
    jv_ok (JObj es) \<and> int_value G (JObj es) = VMap (map (\<lambda>e. (fst e, canon (snd e))) m)"
proof -
  from assms(2) obtain f where f: "\<And>e. e \<in> set m \<Longrightarrow> stored_as G (snd e) (f e)" by metis
  let ?es = "map (\<lambda>e. (fst e, f e)) m"
  have "sequence (map (\<lambda>e. map_option (Pair (fst e)) (jv_of G (snd e))) m) = Some ?es"
    using f by (intro sequence_map) (auto simp: stored_as_def)
  moreover have "jv_ok (JObj ?es)" using f by (auto simp: stored_as_def list_all_iff)
  moreover have "map (\<lambda>e. (fst e, int_value G (snd e))) ?es = map (\<lambda>e. (fst e, canon (snd e))) m"
    using f by (auto simp: stored_as_def)
  ultimately show ?thesis
    using mcopy_map_values [OF assms(1), of canon]
    by (intro exI [of _ ?es]) (simp del: map_map)
qed

lemma stored_map:
  assumes "mwf m" "\<And>e. e \<in> set m \<Longrightarrow> \<exists>j. stored_as G (snd e) j"
  shows "\<exists>j. stored_as G (VMap m) j"
  using stored_entries [OF assms] by (auto simp: stored_as_def simp del: jv_ok.simps int_value.simps)

lemma stored_maps:
  assumes "\<And>m e. m \<in> set ms \<Longrightarrow> e \<in> set m \<Longrightarrow> \<exists>j. stored_as G (snd e) j" "\<And>m. m \<in> set ms \<Longrightarrow> mwf m"
  shows "\<exists>j. stored_as G (VMaps ms) j"
proof (cases "ms = []")
  case True
  then show ?thesis by (intro exI [of _ JNull]) (simp add: stored_as_def)
next
  case False
  have "\<exists>j. stored_as G (VList (map VMap ms)) j"
    using assms by (intro stored_list) (auto intro!: stored_map)
  with False show ?thesis by (simp add: stored_as_def comp_def)
qed

lemma stored_ex: "float_free v \<Longrightarrow> vwf v \<Longrightarrow> \<exists>j. stored_as G v j"
proof (induction v)
  case (VInt i)
  then have "parse_int (int_text i) = Some i" by (simp add: parse_int_int_text)
  then show ?case
    by (intro exI [of _ "JNum (int_text i)"])
       (simp add: stored_as_def scan_number_int_text json_number_def)
next
  case (VList vs)
  then show ?case by (intro stored_list) (auto simp: list_all_iff)
next
  case (VMap m)
  have "\<exists>j. stored_as G (snd e) j" if "e \<in> set m" for e
  proof -
    have "float_free (snd e)" "vwf (snd e)" using VMap.prems that by (simp_all add: list_all_iff)
    then show ?thesis using VMap.IH [OF that, of "snd e"] by (cases e) simp
  qed
  then show ?case using VMap.prems by (intro stored_map) auto
next
  case (VStrs ss)
  show ?case
    by (intro exI [of _ "if ss = [] then JNull else JArr (map JStr ss)"])
       (simp add: stored_as_def list_all_iff)
next
  case (VMaps ms)
  have "\<exists>j. stored_as G (snd e) j" if "m \<in> set ms" "e \<in> set m" for m e
  proof -
    have "float_free (snd e)" "vwf (snd e)" using VMaps.prems that by (simp_all add: list_all_iff)
    then show ?thesis using VMaps.IH [OF that, of "snd e"] by (cases e) simp
  qed
  then show ?case using VMaps.prems by (intro stored_maps) (auto simp: list_all_iff)
next
  case (VSMap m)
  have "mcopy (map (\<lambda>e. (fst e, VStr (snd e))) m) [] = map (\<lambda>e. (fst e, VStr (snd e))) m"
    using VSMap by (intro mcopy_into_empty) (simp add: mwf_def comp_def)
  then show ?case
    by (intro exI [of _ "JObj (map (\<lambda>e. (fst e, JStr (snd e))) m)"])
       (simp add: stored_as_def list_all_iff comp_def)
qed (auto simp: stored_as_def intro: exI [of _ JNull] exI [of _ "JBool _"] exI [of _ "JStr _"])

lemma decode_marshal:
  assumes "float_free (VMap m)" "vwf (VMap m)"
  shows "decode_state G (marshal_text G (VMap m)) = map (\<lambda>e. (fst e, canon (snd e))) m"
proof -
  obtain j where j: "stored_as G (VMap m) j" using stored_ex assms by blast
  then obtain es where es: "j = JObj es" by (auto simp: stored_as_def)
  have "marshal_text G (VMap m) = jtext j"
    using j by (simp add: stored_as_def marshal_text_def marshal_def del: jv_of.simps)
  moreover have "parse_json (jtext j) = Some (JObj es, [])"
    using j es parse_json_jtext [of j] by (simp add: stored_as_def)
  moreover have "int_value G (JObj es) = VMap (map (\<lambda>e. (fst e, canon (snd e))) m)"
    using j es by (simp add: stored_as_def del: int_value.simps)
  ultimately show ?thesis by (simp add: decode_state_def del: int_value.simps)
qed

lemma marshal_text_VMap_not_Nil:
  assumes "float_free (VMap m)" "vwf (VMap m)"
  shows "marshal_text G (VMap m) \<noteq> []"
proof -
  obtain j where j: "stored_as G (VMap m) j" using stored_ex assms by blast
  then obtain es where "j = JObj es" by (auto simp: stored_as_def)
  then show ?thesis
    using j by (simp add: stored_as_def marshal_text_def marshal_def del: jv_of.simps)
qed

text \<open>C16. A context without floats, with ints of 64 bits, that is marshalled into the state store and read back by
  \<open>decodeState\<close> comes back with every typed slice or map as the generic one; when it has none of those (\<open>native\<close>) it
  is the same context. Floats are left out: a whole one comes back as an int.\<close>

theorem decode_state_marshal:
  assumes "float_free (VMap m)" "vwf (VMap m)"
  shows "decode_state G (marshal_text G (VMap m)) = map (\<lambda>e. (fst e, canon (snd e))) m \<and>
    (native (VMap m) \<longrightarrow> decode_state G (marshal_text G (VMap m)) = m)"
proof -
  have "native (VMap m) \<Longrightarrow> map (\<lambda>e. (fst e, canon (snd e))) m = m"
    using canon_native [of "VMap m"] by simp
  then show ?thesis using decode_marshal [OF assms] by simp
qed

theorem decode_state_marshal_witness:
  "decode_state sample_golib (marshal_text sample_golib (VMap [(''a'', VInt (- 12)), (''b'', VList [VStr [dquote, CHR 0x0A], VNil])]))
     = [(''a'', VInt (- 12)), (''b'', VList [VStr [dquote, CHR 0x0A], VNil])]"
proof -
  let ?m = "[(''a'', VInt (- 12)), (''b'', VList [VStr [dquote, CHR 0x0A], VNil])]"
  have "float_free (VMap ?m)" "native (VMap ?m)" by simp_all
  moreover have "vwf (VMap ?m)" by code_simp
  ultimately show ?thesis using decode_state_marshal [of ?m sample_golib] by blast
qed

subsection \<open>Values that were decoded\<close>

text \<open>What \<open>json.Unmarshal\<close> leaves in an \<open>any\<close>: nil, booleans, finite floats, texts, generic slices and maps.\<close>

fun json_read :: "val \<Rightarrow> bool" where
  "json_read VNil = True"
| "json_read (VBool b) = True"
| "json_read (VFloat x) = (\<not> f64_is_nan x \<and> \<not> f64_is_inf x)"
| "json_read (VStr s) = True"
| "json_read (VList vs) = list_all json_read vs"
| "json_read (VMap m) = (mwf m \<and> list_all (\<lambda>e. json_read (snd e)) m)"
| "json_read _ = False"

text \<open>Such values and ints of 64 bits among them, which are read back as floats.\<close>

fun json_data :: "val \<Rightarrow> bool" where
  "json_data VNil = True"
| "json_data (VBool b) = True"
| "json_data (VInt i) = in_int64 i"
| "json_data (VFloat x) = (\<not> f64_is_nan x \<and> \<not> f64_is_inf x)"
| "json_data (VStr s) = True"
| "json_data (VList vs) = list_all json_data vs"
| "json_data (VMap m) = (mwf m \<and> list_all (\<lambda>e. json_data (snd e)) m)"
| "json_data _ = False"

fun reread :: "golib \<Rightarrow> val \<Rightarrow> val" where
  "reread G (VInt i) = VFloat (case parse_float G (int_text i) of None \<Rightarrow> 0 | Some x \<Rightarrow> x)"
| "reread G (VList vs) = VList (map (reread G) vs)"
| "reread G (VMap m) = VMap (map (\<lambda>e. (fst e, reread G (snd e))) m)"
| "reread G v = v"

lemma json_read_data: "json_read v \<Longrightarrow> json_data v"
  by (induction v) (auto simp: list_all_iff)

lemma reread_read: "json_read v \<Longrightarrow> reread G v = v"
  by (induction v rule: json_read.induct) (auto simp: list_all_iff map_idI)

text \<open>What \<open>encoding/json\<close> and \<open>strconv\<close> document of floats: the text of a finite one is a number that parses to it, and the
  digits of an int of 64 bits parse to a float.\<close>

definition reads_floats :: "golib \<Rightarrow> bool" where
  "reads_floats G \<longleftrightarrow> (\<forall>x. \<not> f64_is_nan x \<and> \<not> f64_is_inf x \<longrightarrow>
      scan_number (json_float G x) = Some (json_float G x, []) \<and> parse_float G (json_float G x) = Some x) \<and>
     (\<forall>i. in_int64 i \<longrightarrow> parse_float G (int_text i) \<noteq> None)"

definition read_as :: "golib \<Rightarrow> val \<Rightarrow> jv \<Rightarrow> bool" where
  "read_as G v j \<longleftrightarrow> jv_of G v = Some j \<and> jv_ok j \<and> float_value G j = Some (reread G v)"

lemma read_as_ex:
  assumes "reads_floats G"
  shows "json_data v \<Longrightarrow> \<exists>j. read_as G v j"
proof (induction v)
  case (VInt i)
  then obtain x where "parse_float G (int_text i) = Some x" using assms by (auto simp: reads_floats_def)
  then show ?case by (intro exI [of _ "JNum (int_text i)"]) (simp add: read_as_def scan_number_int_text)
next
  case (VFloat x)
  then show ?case using assms by (intro exI [of _ "JNum (json_float G x)"]) (simp add: reads_floats_def read_as_def)
next
  case (VList vs)
  then have "\<forall>v\<in>set vs. \<exists>j. read_as G v j" by (auto simp: list_all_iff)
  then obtain f where f: "\<And>v. v \<in> set vs \<Longrightarrow> read_as G v (f v)" by metis
  then have "sequence (map (jv_of G) vs) = Some (map f vs)" by (intro sequence_map) (auto simp: read_as_def)
  moreover have "sequence (map (float_value G \<circ> f) vs) = Some (map (reread G) vs)"
    using f by (intro sequence_map) (auto simp: read_as_def)
  ultimately show ?case using f
    by (intro exI [of _ "JArr (map f vs)"]) (auto simp: read_as_def list_all_iff)
next
  case (VMap m)
  have "\<exists>j. read_as G (snd e) j" if "e \<in> set m" for e
  proof -
    have "json_data (snd e)" using VMap.prems that by (simp add: list_all_iff)
    then show ?thesis using VMap.IH [OF that, of "snd e"] by (cases e) simp
  qed
  then obtain f where f: "\<And>e. e \<in> set m \<Longrightarrow> read_as G (snd e) (f e)" by metis
  let ?es = "map (\<lambda>e. (fst e, f e)) m" and ?m = "map (\<lambda>e. (fst e, reread G (snd e))) m"
  have "sequence (map (\<lambda>e. map_option (Pair (fst e)) (jv_of G (snd e))) m) = Some ?es"
    using f by (intro sequence_map) (auto simp: read_as_def)
  moreover have "sequence (map ((\<lambda>e. map_option (Pair (fst e)) (float_value G (snd e))) \<circ> (\<lambda>e. (fst e, f e))) m) = Some ?m"
    using f by (intro sequence_map) (auto simp: read_as_def)
  moreover have "mcopy ?m [] = ?m" using VMap.prems by (intro mcopy_map_values) simp
  ultimately show ?case using f
    by (intro exI [of _ "JObj ?es"]) (auto simp: read_as_def list_all_iff)
qed (auto simp: read_as_def intro: exI [of _ JNull] exI [of _ "JBool _"] exI [of _ "JStr _"])

lemma unmarshal_marshal:
  assumes "reads_floats G" "json_data v" "marshal G v = Some t"
  shows "unmarshal G t = Some (reread G v)"
proof -
  obtain j where j: "read_as G v j" using read_as_ex assms(1,2) by blast
  then have "t = jtext j" "parse_json t = Some (j, [])"
    using assms(3) parse_json_jtext [of j] by (simp_all add: marshal_def read_as_def)
  then show ?thesis using j by (simp add: unmarshal_def read_as_def skip_ws_def)
qed

lemma mget_map_values: "mget (map (\<lambda>e. (fst e, f (snd e))) m) k = map_option f (mget m k)"
  by (induction m) auto

text \<open>A library whose floats print as the integer of their bits, for the witnesses.\<close>

definition bits_golib :: golib where
  "bits_golib = sample_golib\<lparr>json_float := \<lambda>x. int_text (sint x), parse_float := \<lambda>s. map_option word_of_int (parse_int s)\<rparr>"

lemma bits_golib_reads: "reads_floats bits_golib"
proof -
  have "in_int64 (sint x)" for x :: f64
    using sint_greater_eq [of x] sint_less [of x] by (simp add: in_int64_def)
  then show ?thesis by (simp add: reads_floats_def bits_golib_def scan_number_int_text parse_int_int_text)
qed

end
