(* ===== verification/Template_Values.thy ===== *)
theory Template_Values
  imports Json
begin

text \<open>
  Rendering (\<open>pkg/template/template.go\<close>): which strings are templates, what an exact
  \<open>{{ expression }}\<close> gives, rendering of nested values, conditions, and the filters that the
  package registers. The template engine pongo2 is third-party and a parameter: whether a text
  parses, and what executing it gives, its output and the values that passed the capture filter
  with their tokens. \<open>pg_seq\<close> is the counter that makes the token of a call. Entries of a map are
  rendered in key order; which of two failing entries is reported is Go's choice. The texts of
  JSON errors are not modelled.
\<close>

record pongo =
  pg_parse :: "string \<Rightarrow> string option"
  pg_exec :: "string \<Rightarrow> gomap \<Rightarrow> string + (string \<times> (string \<times> val) list)"
  pg_string :: "val \<Rightarrow> string"
  pg_seq :: nat

definition render :: "pongo \<Rightarrow> string \<Rightarrow> gomap \<Rightarrow> string + string" where
  "render P tmpl ctx = (case pg_parse P tmpl of
     Some e \<Rightarrow> Inl (''parsing template: '' @ e)
   | None \<Rightarrow> (case pg_exec P tmpl ctx of
       Inl e \<Rightarrow> Inl (''executing template: '' @ e)
     | Inr (out, caps) \<Rightarrow> Inr out))"

definition eval_bool :: "pongo \<Rightarrow> string \<Rightarrow> gomap \<Rightarrow> string + bool" where
  "eval_bool P expr ctx =
     (let wrapped = ''{% if '' @ expr @ '' %}true{% endif %}'' in
      case pg_parse P wrapped of
        Some e \<Rightarrow> Inl (''parsing expression '' @ quoted expr @ '': '' @ e)
      | None \<Rightarrow> (case pg_exec P wrapped ctx of
          Inl e \<Rightarrow> Inl (''evaluating expression '' @ quoted expr @ '': '' @ e)
        | Inr (out, caps) \<Rightarrow> Inr (trim_space out = ''true'')))"

subsection \<open>Native evaluation\<close>

definition capture_filter :: string where
  "capture_filter = ''markov_native_capture''"

definition capture_template :: "string \<Rightarrow> string \<Rightarrow> string" where
  "capture_template expr token =
     ''{% with markov_native_value='' @ expr @ '' %}{{ markov_native_value|'' @ capture_filter
     @ '':'' @ [dquote] @ token @ [dquote] @ '' }}{% endwith %}''"

text \<open>The stored value of a token is the last one captured under it; undefined and nil count as
  not captured.\<close>

definition captured :: "string \<Rightarrow> (string \<times> val) list \<Rightarrow> val option" where
  "captured token caps = (case map_of (rev caps) token of Some VNil \<Rightarrow> None | r \<Rightarrow> r)"

definition eval_native :: "pongo \<Rightarrow> string \<Rightarrow> gomap \<Rightarrow> string + val option" where
  "eval_native P expr ctx =
     (let token = nat_text (Suc (pg_seq P)); tmpl = capture_template expr token in
      case pg_parse P tmpl of
        Some e \<Rightarrow> Inl (''parsing template: '' @ e)
      | None \<Rightarrow> (case pg_exec P tmpl ctx of
          Inl e \<Rightarrow> Inl (''executing template: '' @ e)
        | Inr (out, caps) \<Rightarrow> Inr (captured token caps)))"

definition eval :: "pongo \<Rightarrow> string \<Rightarrow> gomap \<Rightarrow> string + val" where
  "eval P expr ctx = (case eval_native P expr ctx of
     Inl e \<Rightarrow> Inl e
   | Inr None \<Rightarrow> Inr VNil
   | Inr (Some v) \<Rightarrow> Inr v)"

subsection \<open>Exact expressions and paths\<close>

definition exact_expression :: "string \<Rightarrow> string option" where
  "exact_expression tmpl =
     (let s = trim_space tmpl in
      if \<not> has_prefix s ''{{'' \<or> \<not> has_suffix s ''}}'' then None
      else let inner = trim_space (take (length s - 4) (drop 2 s)) in
        if inner = [] \<or> contains inner ''{'' \<or> contains inner ''}'' then None else Some inner)"

fun lookup_parts :: "val \<Rightarrow> string list \<Rightarrow> val option" where
  "lookup_parts v [] = Some v"
| "lookup_parts v (p # ps) =
     (if trim_space p = [] then None
      else (case v of
          VMap m \<Rightarrow> (case mget m (trim_space p) of None \<Rightarrow> None | Some w \<Rightarrow> lookup_parts w ps)
        | _ \<Rightarrow> None))"

definition lookup_path :: "gomap \<Rightarrow> string \<Rightarrow> val option" where
  "lookup_path ctx path = lookup_parts (VMap ctx) (split_on (CHR ''.'') path)"

definition parse_json_value :: "golib \<Rightarrow> val \<Rightarrow> string + val" where
  "parse_json_value G v = (case v of
     VStr s \<Rightarrow> (case unmarshal G (trim_space s) of None \<Rightarrow> Inl ''invalid JSON'' | Some w \<Rightarrow> Inr w)
   | _ \<Rightarrow> Inr v)"

definition parse_json_object_or_array :: "golib \<Rightarrow> val \<Rightarrow> string + val" where
  "parse_json_object_or_array G v = (case v of
     VStr s \<Rightarrow>
       (let t = trim_space s in
        if t = [] \<or> (hd t \<noteq> CHR ''{'' \<and> hd t \<noteq> CHR ''['')
        then Inl ''value is not a JSON object or array''
        else parse_json_value G (VStr t))
   | _ \<Rightarrow> Inr v)"

text \<open>The filters the engine applies itself; \<open>Inr None\<close> leaves the expression to pongo2.\<close>

fun native_filters :: "golib \<Rightarrow> string list \<Rightarrow> val \<Rightarrow> string + val option" where
  "native_filters G [] v = Inr (Some v)"
| "native_filters G (raw # fs) v =
     (let f = trim_space raw in
      if f = ''fromjson'' \<or> f = ''from_json'' then
        (case parse_json_value G v of
           Inl e \<Rightarrow> Inl (''from_json: '' @ e)
         | Inr w \<Rightarrow> native_filters G fs w)
      else if f = ''tojson'' \<or> f = ''to_json'' then
        (case marshal G v of
           None \<Rightarrow> Inl ''to_json: unsupported value''
         | Some s \<Rightarrow> native_filters G fs (VStr s))
      else Inr None)"

definition render_native :: "golib \<Rightarrow> string \<Rightarrow> gomap \<Rightarrow> string + val option" where
  "render_native G tmpl ctx = (case exact_expression tmpl of
     None \<Rightarrow> Inr None
   | Some expr \<Rightarrow>
       (let parts = split_on (CHR ''|'') expr; path = trim_space (hd parts) in
        if path = [] then Inr None
        else (case lookup_path ctx path of
            None \<Rightarrow> Inr None
          | Some v \<Rightarrow> (case native_filters G (tl parts) v of
                Inl e \<Rightarrow> Inl e
              | Inr None \<Rightarrow> Inr None
              | Inr (Some w) \<Rightarrow>
                  if length parts = 1 then
                    (case parse_json_object_or_array G w of
                       Inr x \<Rightarrow> Inr (Some x)
                     | Inl e \<Rightarrow> Inr (Some w))
                  else Inr (Some w)))))"

subsection \<open>Rendering values\<close>

definition has_template :: "string \<Rightarrow> bool" where
  "has_template s = (contains s ''{{'' \<or> contains s ''{%'')"

definition render_string :: "golib \<Rightarrow> pongo \<Rightarrow> string \<Rightarrow> gomap \<Rightarrow> string + val" where
  "render_string G P s ctx =
     (if \<not> has_template s then Inr (VStr s)
      else (case render_native G s ctx of
          Inl e \<Rightarrow> Inl e
        | Inr (Some v) \<Rightarrow> Inr v
        | Inr None \<Rightarrow>
            (case (case exact_expression s of
                     None \<Rightarrow> Inr None
                   | Some expr \<Rightarrow> eval_native P expr ctx) of
               Inl e \<Rightarrow> Inl e
             | Inr (Some v) \<Rightarrow> Inr v
             | Inr None \<Rightarrow> map_sum id VStr (render P s ctx))))"

definition in_param :: "string \<Rightarrow> string \<Rightarrow> string" where
  "in_param k e = ''rendering param '' @ quoted k @ '': '' @ e"

fun render_value :: "golib \<Rightarrow> pongo \<Rightarrow> gomap \<Rightarrow> val \<Rightarrow> string + val" where
  "render_value G P ctx (VStr s) = render_string G P s ctx"
| "render_value G P ctx (VMap m) =
     map_sum id VMap (map_try (\<lambda>e. map_sum (in_param (fst e)) (Pair (fst e)) (render_value G P ctx (snd e))) m)"
| "render_value G P ctx (VList vs) = map_sum id VList (map_try (render_value G P ctx) vs)"
| "render_value G P ctx v = Inr v"

definition render_map :: "golib \<Rightarrow> pongo \<Rightarrow> gomap \<Rightarrow> gomap \<Rightarrow> string + gomap" where
  "render_map G P params ctx =
     map_try (\<lambda>e. map_sum (in_param (fst e)) (Pair (fst e)) (render_value G P ctx (snd e))) params"

subsection \<open>The registered filters\<close>

definition filter_from_json :: "golib \<Rightarrow> pongo \<Rightarrow> val \<Rightarrow> string + val" where
  "filter_from_json G P v =
     (case unmarshal G (pg_string P v) of None \<Rightarrow> Inl ''filter:fromjson'' | Some w \<Rightarrow> Inr w)"

definition filter_trim :: "pongo \<Rightarrow> val \<Rightarrow> string" where
  "filter_trim P v = trim_space (pg_string P v)"

definition filter_to_json :: "golib \<Rightarrow> val \<Rightarrow> string + string" where
  "filter_to_json G v = (case marshal G v of None \<Rightarrow> Inl ''filter:to_json'' | Some s \<Rightarrow> Inr s)"

definition filter_csv :: "pongo \<Rightarrow> val \<Rightarrow> val list" where
  "filter_csv P v =
     map VStr (filter (\<lambda>i. i \<noteq> []) (map trim_space (split_on (CHR '','') (pg_string P v))))"

text \<open>\<open>int(f)\<close>: the float cut to a whole number.\<close>

definition f64_trunc :: "f64 \<Rightarrow> int" where
  "f64_trunc b =
     (let m = f64_magnitude b; ex = m div 2 ^ 52; frac = m mod 2 ^ 52;
          sig = (if ex = 0 then frac else 2 ^ 52 + frac);
          n = (if ex \<ge> 1075 then sig * 2 ^ (ex - 1075) else sig div 2 ^ (1075 - ex))
      in if f64_negative b then - int n else int n)"

definition seq_count :: "pongo \<Rightarrow> val \<Rightarrow> string + int" where
  "seq_count P v = (case v of
     VInt i \<Rightarrow> Inr i
   | VFloat f \<Rightarrow> Inr (f64_trunc f)
   | _ \<Rightarrow>
       (let s = trim_space (pg_string P v) in
        if s = [] then Inr 0
        else (case parse_int s of
            None \<Rightarrow> Inl (''not a count: '' @ quoted (pg_string P v))
          | Some i \<Rightarrow> Inr i)))"

definition filter_seq :: "pongo \<Rightarrow> val \<Rightarrow> string + val list" where
  "filter_seq P v = map_sum id (\<lambda>n. map (\<lambda>i. VInt (int i)) [1..<Suc (nat n)]) (seq_count P v)"

text \<open>The items of any slice.\<close>

fun slice_items :: "val \<Rightarrow> val list option" where
  "slice_items (VList vs) = Some vs"
| "slice_items (VStrs ss) = Some (map VStr ss)"
| "slice_items (VMaps ms) = Some (map VMap ms)"
| "slice_items _ = None"

lemma slice_items_size: "slice_items v = Some vs \<Longrightarrow> x \<in> set vs \<Longrightarrow> slice_items x \<noteq> None \<Longrightarrow> size x < size v"
proof (cases v)
  case (VList ws)
  then show "slice_items v = Some vs \<Longrightarrow> x \<in> set vs \<Longrightarrow> size x < size v"
    by (auto dest: size_list_estimation' [where f = size, of x vs "size x"])
qed auto

function flatten :: "val \<Rightarrow> int \<Rightarrow> val list" where
  "flatten v depth = (case slice_items v of
     None \<Rightarrow> []
   | Some vs \<Rightarrow>
       concat (map (\<lambda>x. if depth \<noteq> 0 \<and> slice_items x \<noteq> None then flatten x (depth - 1) else [x]) vs))"
  by pat_completeness auto
termination
  by (relation "measure (\<lambda>(v, d). size v)") (auto dest: slice_items_size)

declare flatten.simps [simp del]

definition filter_flatten :: "val \<Rightarrow> int option \<Rightarrow> val list" where
  "filter_flatten v param = flatten v (case param of None \<Rightarrow> - 1 | Some d \<Rightarrow> d)"

fun pluck_path :: "val \<Rightarrow> string list \<Rightarrow> val" where
  "pluck_path v [] = v"
| "pluck_path v (k # ks) = (case v of VMap m \<Rightarrow> pluck_path (mget_nil m k) ks | _ \<Rightarrow> VNil)"

definition filter_pluck :: "val \<Rightarrow> string \<Rightarrow> string + val list" where
  "filter_pluck v path = (case slice_items v of
     None \<Rightarrow> Inl ''pluck needs a list''
   | Some vs \<Rightarrow> Inr (map (\<lambda>x. pluck_path x (split_on (CHR ''.'') path)) vs))"

subsection \<open>What rendering keeps\<close>

fun template_free :: "val \<Rightarrow> bool" where
  "template_free (VStr s) = (\<not> has_template s)"
| "template_free (VMap m) = list_all (\<lambda>e. template_free (snd e)) m"
| "template_free (VList vs) = list_all template_free vs"
| "template_free v = True"

lemma map_try_id: "(\<And>x. x \<in> set xs \<Longrightarrow> f x = Inr x) \<Longrightarrow> map_try f xs = Inr xs"
  by (induction xs) auto

lemma render_value_plain: "template_free v \<Longrightarrow> render_value G P ctx v = Inr v"
proof (induction v)
  case (VStr s)
  then show ?case by (simp add: render_string_def)
next
  case (VList vs)
  then have "map_try (render_value G P ctx) vs = Inr vs"
    by (intro map_try_id) (simp add: list_all_iff)
  then show ?case by simp
next
  case (VMap m)
  have "map_sum (in_param (fst e)) (Pair (fst e)) (render_value G P ctx (snd e)) = Inr e"
    if e: "e \<in> set m" for e
  proof -
    have "template_free (snd e)" using VMap.prems e by (simp add: list_all_iff)
    then have "render_value G P ctx (snd e) = Inr (snd e)"
      using VMap.IH [OF e, of "snd e"] by (cases e) simp
    then show ?thesis by simp
  qed
  then have "map_try (\<lambda>e. map_sum (in_param (fst e)) (Pair (fst e)) (render_value G P ctx (snd e))) m = Inr m"
    by (rule map_try_id)
  then show ?case by simp
qed simp_all

lemma render_map_plain: "template_free (VMap m) \<Longrightarrow> render_map G P m ctx = Inr m"
  using render_value_plain [of "VMap m" G P ctx]
  by (auto simp: render_map_def split: sum.splits)
     (cases "map_try (\<lambda>e. map_sum (in_param (fst e)) (Pair (fst e)) (render_value G P ctx (snd e))) m", auto)

lemma mkeys_render_map: "render_map G P m ctx = Inr r \<Longrightarrow> mkeys r = mkeys m"
  unfolding render_map_def map_try_Inr mkeys_def
proof (induction rule: list_all2_induct)
  case Nil
  then show ?case by simp
next
  case (Cons x xs y ys)
  then show ?case by (cases "render_value G P ctx (snd x)") auto
qed

lemma mwf_render_map: "mwf m \<Longrightarrow> render_map G P m ctx = Inr r \<Longrightarrow> mwf r"
  using mkeys_render_map [of G P m ctx r] by (simp add: mwf_def mkeys_def)

lemma trim_fn_id: "s = [] \<or> (\<not> F (hd s) \<and> \<not> F (last s)) \<Longrightarrow> trim_fn F s = s"
proof (cases s rule: rev_cases)
  case Nil
  then show ?thesis by (simp add: trim_fn_def trim_left_fn_def trim_right_fn_def)
next
  case (snoc t c)
  assume a: "s = [] \<or> (\<not> F (hd s) \<and> \<not> F (last s))"
  then have "dropWhile F s = s" using snoc by (metis dropWhile_eq_self_iff)
  with a snoc show ?thesis by (simp add: trim_fn_def trim_left_fn_def trim_right_fn_def)
qed

lemma trim_space_pad: "trim_space (CHR '' '' # s @ '' '') = trim_space s"
proof -
  have sp: "is_space (CHR '' '')" by (simp add: is_space_def)
  have "trim_right_fn is_space (dropWhile is_space (s @ '' '')) = trim_right_fn is_space (dropWhile is_space s)"
  proof (cases "dropWhile is_space s = []")
    case True
    then have "\<forall>c\<in>set s. is_space c" by (simp add: dropWhile_eq_Nil_conv)
    then have "dropWhile is_space (s @ '' '') = []" using sp by (simp add: dropWhile_eq_Nil_conv)
    with True show ?thesis by (simp only:)
  next
    case False
    then have "dropWhile is_space (s @ '' '') = dropWhile is_space s @ '' ''"
      by (metis dropWhile_append1 dropWhile_eq_Nil_conv)
    with sp show ?thesis by (simp add: trim_right_fn_def)
  qed
  with sp show ?thesis by (simp add: trim_space_def trim_fn_def trim_left_fn_def)
qed

text \<open>A path that an exact expression can name: no braces, bars or outer spaces.\<close>

definition plain_path :: "string \<Rightarrow> bool" where
  "plain_path p \<longleftrightarrow> p \<noteq> [] \<and> trim_space p = p \<and> set p \<inter> {CHR ''{'', CHR ''}'', CHR ''|''} = {}"

lemma contains_single: "contains s [c] \<longleftrightarrow> c \<in> set s"
  by (auto simp: contains_iff in_set_conv_decomp)

lemma split_on_absent: "c \<notin> set s \<Longrightarrow> split_on c s = [s]"
  by (induction s) auto

lemma exact_expression_path:
  assumes "plain_path p"
  shows "exact_expression (''{{ '' @ p @ '' }}'') = Some p"
proof -
  let ?s = "''{{ '' @ p @ '' }}''"
  have "trim_space ?s = ?s"
    unfolding trim_space_def by (rule trim_fn_id) (simp add: is_space_def)
  moreover have "has_prefix ?s ''{{''" by simp
  moreover have "has_suffix ?s ''}}''" by (simp add: has_suffix_iff)
  moreover have "take (length ?s - 4) (drop 2 ?s) = CHR '' '' # p @ '' ''" by simp
  ultimately show ?thesis
    using assms trim_space_pad [of p]
    by (auto simp: exact_expression_def plain_path_def contains_single Let_def)
qed

lemma has_template_braces: "has_template (''{{'' @ s)"
  using contains_iff [of "''{{'' @ s" "''{{''"] by (auto simp: has_template_def)

lemma render_exact_path:
  assumes "plain_path p" "lookup_path ctx p = Some v"
  shows "render_value G P ctx (VStr (''{{ '' @ p @ '' }}'')) =
    Inr (case parse_json_object_or_array G v of Inr w \<Rightarrow> w | Inl e \<Rightarrow> v)"
proof -
  have "split_on (CHR ''|'') p = [p]"
    using assms(1) by (intro split_on_absent) (auto simp: plain_path_def)
  then have "render_native G (''{{ '' @ p @ '' }}'') ctx =
      Inr (Some (case parse_json_object_or_array G v of Inr w \<Rightarrow> w | Inl e \<Rightarrow> v))"
    using assms unfolding render_native_def exact_expression_path [OF assms(1)]
    by (auto simp: plain_path_def Let_def split: sum.splits)
  moreover have "has_template (''{{ '' @ p @ '' }}'')"
    using has_template_braces [of "CHR '' '' # p @ '' }}''"] by simp
  ultimately show ?thesis by (simp add: render_string_def)
qed

text \<open>C24. Rendering keeps types: a value without templates is unchanged at any depth, and an exact
  \<open>{{ path }}\<close> whose path resolves to something other than a string is that native value,
  without the template engine being asked.\<close>

theorem render_value_native:
  "(template_free v \<longrightarrow> render_value G P ctx v = Inr v) \<and>
   (plain_path p \<and> lookup_path ctx p = Some w \<and> as_string w = None \<longrightarrow>
      render_value G P ctx (VStr (''{{ '' @ p @ '' }}'')) = Inr w)"
proof -
  have "as_string w = None \<Longrightarrow> parse_json_object_or_array G w = Inr w"
    by (cases w) (simp_all add: parse_json_object_or_array_def)
  then show ?thesis
    using render_value_plain [of v G P ctx] render_exact_path [of p ctx w G P] by simp
qed

theorem render_value_native_witness:
  "render_value sample_golib \<lparr>pg_parse = (\<lambda>_. None), pg_exec = (\<lambda>_ _. Inl []), pg_string = (\<lambda>_. []), pg_seq = 0\<rparr>
     [(''run'', VMap [(''n'', VInt 3)])] (VStr ''{{ run.n }}'') = Inr (VInt 3)"
proof -
  have "plain_path ''run.n''" by code_simp
  moreover have "lookup_path [(''run'', VMap [(''n'', VInt 3)])] ''run.n'' = Some (VInt 3)"
    by code_simp
  moreover have "as_string (VInt 3) = None" by simp
  ultimately show ?thesis
    using render_value_native [of VNil sample_golib
        "\<lparr>pg_parse = (\<lambda>_. None), pg_exec = (\<lambda>_ _. Inl []), pg_string = (\<lambda>_. []), pg_seq = 0\<rparr>"
        "[(''run'', VMap [(''n'', VInt 3)])]" "''run.n''" "VInt 3"]
    by simp
qed

subsection \<open>Filters\<close>

lemma flatten_no_slices: "depth < 0 \<Longrightarrow> x \<in> set (flatten v depth) \<Longrightarrow> slice_items x = None"
proof (induction v depth rule: flatten.induct)
  case (1 v depth)
  show ?case
  proof (cases "slice_items v")
    case None
    with "1.prems" show ?thesis unfolding flatten.simps [of v depth] by simp
  next
    case (Some vs)
    from "1.prems"(2) obtain y where y: "y \<in> set vs"
        "x \<in> set (if depth \<noteq> 0 \<and> slice_items y \<noteq> None then flatten y (depth - 1) else [y])"
      unfolding flatten.simps [of v depth] Some option.case set_concat set_map by blast
    then show ?thesis
      using "1.IH" [OF Some y(1)] "1.prems"(1) by (cases "slice_items y = None") auto
  qed
qed

lemma flatten_flat:
  assumes "slice_items v = Some vs" "\<And>x. x \<in> set vs \<Longrightarrow> slice_items x = None"
  shows "flatten v depth = vs"
proof -
  have "concat (map (\<lambda>x. if depth \<noteq> 0 \<and> slice_items x \<noteq> None then flatten x (depth - 1) else [x]) vs)
      = concat (map (\<lambda>x. [x]) vs)"
    using assms(2) by (intro arg_cong [where f = concat] map_cong) auto
  also have "\<dots> = vs" by (induction vs) auto
  finally show ?thesis using assms(1) unfolding flatten.simps [of v depth] by simp
qed

lemma flatten_zero: "slice_items v = Some vs \<Longrightarrow> flatten v 0 = vs"
proof -
  assume "slice_items v = Some vs"
  then show ?thesis by (subst flatten.simps) (simp add: concat_map_singleton [of id, simplified])
qed

lemma flatten_idem: "flatten (VList (flatten v (- 1))) (- 1) = flatten v (- 1)"
  by (rule flatten_flat) (use flatten_no_slices [of "- 1"] in auto)

lemma filter_csv_items:
  assumes "VStr i \<in> set (filter_csv P v)"
  shows "i \<noteq> [] \<and> \<not> is_space (hd i) \<and> CHR '','' \<notin> set i"
proof -
  from assms obtain r where r: "r \<in> set (split_on (CHR '','') (pg_string P v))" "i = trim_space r" "i \<noteq> []"
    by (auto simp: filter_csv_def)
  then show ?thesis
    using split_on_no_sep [OF r(1)] set_trim_fn [of is_space r] trim_fn_hd [of is_space r]
    by (auto simp: trim_space_def)
qed

end
