(* ===== verification/Fact_Store.thy ===== *)
theory Fact_Store
  imports Template_Values
begin

text \<open>
  Facts (\<open>pkg/engine/factstore.go\<close>, \<open>facts.go\<close>, and the context helpers of
  \<open>engine.go\<close>): the store that GRL expressions call, the coercion of texts to native values,
  and the evaluation of \<open>set_fact\<close> entries. \<open>evalFacts\<close> ranges over a Go map while it writes
  the run context, so the entries come as a list, in the order the range visits them.
\<close>

subsection \<open>Floats of whole numbers\<close>

fun bit_length :: "nat \<Rightarrow> nat" where
  "bit_length n = (if n = 0 then 0 else Suc (bit_length (n div 2)))"

declare bit_length.simps [simp del]

text \<open>\<open>float64(n)\<close>: exact up to 53 bits, then rounded to the nearest even.\<close>

definition f64_of_nat :: "nat \<Rightarrow> nat" where
  "f64_of_nat n =
     (if n = 0 then 0
      else let k = bit_length n;
             q = (if k \<le> 53 then n * 2 ^ (53 - k)
                  else let sh = k - 53; q = n div 2 ^ sh; r = n mod 2 ^ sh in
                    if r > 2 ^ (sh - 1) \<or> (r = 2 ^ (sh - 1) \<and> odd q) then q + 1 else q)
           in (k + 1022) * 2 ^ 52 + q - 2 ^ 52)"

definition f64_of_int :: "int \<Rightarrow> f64" where
  "f64_of_int i = word_of_nat (f64_of_nat (nat \<bar>i\<bar>) + (if i < 0 then 2 ^ 63 else 0))"

subsection \<open>The fact store of a rule evaluation\<close>

record fact_store =
  fs_data :: gomap
  fs_fired :: "string list"

definition new_fact_store :: "gomap \<Rightarrow> fact_store" where
  "new_fact_store data = \<lparr>fs_data = data, fs_fired = []\<rparr>"

definition fs_get :: "fact_store \<Rightarrow> string \<Rightarrow> val" where
  "fs_get f k = mget_nil (fs_data f) k"

definition fs_get_str :: "golib \<Rightarrow> fact_store \<Rightarrow> string \<Rightarrow> string" where
  "fs_get_str G f k = (case mget (fs_data f) k of
     None \<Rightarrow> []
   | Some v \<Rightarrow> if v = VNil then [] else sprint G v)"

definition fs_get_num :: "golib \<Rightarrow> fact_store \<Rightarrow> string \<Rightarrow> f64" where
  "fs_get_num G f k = (case mget (fs_data f) k of
     Some (VFloat n) \<Rightarrow> n
   | Some (VInt n) \<Rightarrow> f64_of_int n
   | Some (VStr s) \<Rightarrow> (case parse_float G s of Some n \<Rightarrow> n | None \<Rightarrow> 0)
   | _ \<Rightarrow> 0)"

definition fs_is_true :: "fact_store \<Rightarrow> string \<Rightarrow> bool" where
  "fs_is_true f k = (case mget (fs_data f) k of
     None \<Rightarrow> False
   | Some v \<Rightarrow> (case v of
       VBool b \<Rightarrow> b
     | VNil \<Rightarrow> False
     | VStr s \<Rightarrow> s \<noteq> []
     | VInt n \<Rightarrow> n \<noteq> 0
     | VFloat n \<Rightarrow> \<not> f64_zero n
     | _ \<Rightarrow> True))"

definition fs_is_nil :: "fact_store \<Rightarrow> string \<Rightarrow> bool" where
  "fs_is_nil f k = (case mget (fs_data f) k of None \<Rightarrow> True | Some v \<Rightarrow> v = VNil)"

definition fs_set :: "string \<Rightarrow> val \<Rightarrow> fact_store \<Rightarrow> fact_store" where
  "fs_set k v f = f\<lparr>fs_data := mput k v (fs_data f)\<rparr>"

definition mark_fired :: "string \<Rightarrow> fact_store \<Rightarrow> fact_store" where
  "mark_fired r f = f\<lparr>fs_fired := r # fs_fired f\<rparr>"

definition has_fired :: "fact_store \<Rightarrow> string \<Rightarrow> bool" where
  "has_fired f r = List.member (fs_fired f) r"

subsection \<open>Paths and fields\<close>

fun resolve_parts :: "val \<Rightarrow> string list \<Rightarrow> val" where
  "resolve_parts v [] = v"
| "resolve_parts v (p # ps) = (case v of
     VMap m \<Rightarrow> (case mget m p of None \<Rightarrow> VNil | Some w \<Rightarrow> resolve_parts w ps)
   | _ \<Rightarrow> VNil)"

definition resolve_context_path :: "string \<Rightarrow> gomap \<Rightarrow> val" where
  "resolve_context_path path ctx = resolve_parts (VMap ctx) (split_on (CHR ''.'') path)"

definition extract_item_field :: "val \<Rightarrow> string \<Rightarrow> val" where
  "extract_item_field item k = (case item of VMap m \<Rightarrow> mget_nil m k | _ \<Rightarrow> VNil)"

subsection \<open>Texts as native values\<close>

definition coerce_string :: "golib \<Rightarrow> string \<Rightarrow> val" where
  "coerce_string G s0 =
     (let s = trim_space s0 in
      if s = ''True'' \<or> s = ''true'' then VBool True
      else if s = ''False'' \<or> s = ''false'' then VBool False
      else if s = ''None'' \<or> s = [] then VStr s
      else (case parse_int s of
          Some i \<Rightarrow> VInt i
        | None \<Rightarrow> (case parse_float G s of
            Some f \<Rightarrow> VFloat f
          | None \<Rightarrow>
              if hd s = CHR ''['' \<or> hd s = CHR ''{'' then
                (case unmarshal G s of Some v \<Rightarrow> v | None \<Rightarrow> VStr s)
              else VStr s)))"

definition extract_from_json_expr :: "string \<Rightarrow> string option" where
  "extract_from_json_expr tmpl =
     (let s = trim_space tmpl in
      if \<not> has_prefix s ''{{'' \<or> \<not> has_suffix s ''}}'' then None
      else
        let inner = trim_space (take (length s - 4) (drop 2 s));
            n = (if has_suffix inner ''| from_json'' then length ''| from_json''
                 else if has_suffix inner ''| fromjson'' then length ''| fromjson'' else 0);
            path = trim_space (take (length inner - n) inner)
        in if n = 0 \<or> path = [] then None else Some path)"

subsection \<open>Evaluating facts\<close>

definition render_template_value :: "golib \<Rightarrow> pongo \<Rightarrow> val \<Rightarrow> gomap \<Rightarrow> string + val" where
  "render_template_value G P v ctx =
     map_sum id (\<lambda>m. mget_nil m ''v'') (render_map G P [(''v'', v)] ctx)"

text \<open>The criteria of a lookup, rendered.\<close>

definition match_values :: "golib \<Rightarrow> pongo \<Rightarrow> gomap \<Rightarrow> gomap \<Rightarrow> string + (string \<times> string) list" where
  "match_values G P spec ctx = map_try (\<lambda>(k, v).
     let vs = sprint G v in
     if contains vs ''{{'' then
       map_sum (\<lambda>e. ''lookup match '' @ quoted k @ '': '' @ e) (Pair k) (render P vs ctx)
     else Inr (k, vs)) spec"

fun first_match :: "golib \<Rightarrow> (string \<times> string) list \<Rightarrow> val list \<Rightarrow> gomap option" where
  "first_match G want [] = None"
| "first_match G want (item # items) = (case item of
     VMap row \<Rightarrow>
       if list_all (\<lambda>(k, v). sprint G (mget_nil row k) = v) want then Some row
       else first_match G want items
   | _ \<Rightarrow> first_match G want items)"

definition lookup_fact :: "golib \<Rightarrow> pongo \<Rightarrow> string \<Rightarrow> gomap \<Rightarrow> gomap \<Rightarrow> string + val" where
  "lookup_fact G P from_path spec ctx =
     (let source = resolve_context_path from_path ctx in
      if source = VNil then Inr (mget_nil spec ''default'')
      else (case (case source of VList vs \<Rightarrow> Some vs | VMaps ms \<Rightarrow> Some (map VMap ms) | _ \<Rightarrow> None) of
          None \<Rightarrow> Inl (''lookup: '' @ quoted from_path @ '' is not a list'')
        | Some rows \<Rightarrow> (case mget spec ''match'' of
            Some (VMap crit) \<Rightarrow> (case match_values G P crit ctx of
                Inl e \<Rightarrow> Inl e
              | Inr want \<Rightarrow> (case first_match G want rows of
                  None \<Rightarrow> Inr (mget_nil spec ''default'')
                | Some row \<Rightarrow> (case mget spec ''field'' of
                    Some (VStr field) \<Rightarrow> Inr (mget_nil row field)
                  | _ \<Rightarrow> Inr (VMap row))))
          | _ \<Rightarrow> Inl ''lookup: match criteria required'')))"

definition eval_fact :: "golib \<Rightarrow> pongo \<Rightarrow> val \<Rightarrow> gomap \<Rightarrow> string + val" where
  "eval_fact G P v ctx = (case v of
     VStr s \<Rightarrow>
       if has_template s then
         (case map_option (\<lambda>path. resolve_context_path path ctx) (extract_from_json_expr s) of
            Some (VStr raw) \<Rightarrow> (case unmarshal G (trim_space raw) of
                None \<Rightarrow> Inl ''fromjson: invalid JSON''
              | Some w \<Rightarrow> Inr w)
          | _ \<Rightarrow> (case render_template_value G P (VStr s) ctx of
                Inl e \<Rightarrow> Inl (''rendering template: '' @ e)
              | Inr (VStr text) \<Rightarrow> Inr (coerce_string G text)
              | Inr w \<Rightarrow> Inr w))
       else map_sum (\<lambda>e. ''evaluating expression: '' @ e) VBool (eval_bool P s ctx)
   | VMap spec \<Rightarrow> (case mget spec ''from'' of
         Some (VStr from_path) \<Rightarrow> lookup_fact G P from_path spec ctx
       | _ \<Rightarrow> render_template_value G P v ctx)
   | VList vs \<Rightarrow> render_template_value G P v ctx
   | _ \<Rightarrow> Inr v)"

text \<open>The run context is written entry by entry, also when a later entry fails: the result is
  the context afterwards and the facts or the error.\<close>

fun eval_facts :: "golib \<Rightarrow> pongo \<Rightarrow> gomap \<Rightarrow> gomap \<Rightarrow> gomap \<Rightarrow> gomap \<times> (string + gomap)" where
  "eval_facts G P [] ctx res = (ctx, Inr res)"
| "eval_facts G P ((k, v) # es) ctx res = (case eval_fact G P v ctx of
     Inl e \<Rightarrow> (ctx, Inl (''fact '' @ quoted k @ '': '' @ e))
   | Inr w \<Rightarrow> eval_facts G P es (mput k w ctx) (mput k w res))"

subsection \<open>Properties\<close>

lemma coerce_int_text: "in_int64 i \<Longrightarrow> coerce_string G (int_text i) = VInt i"
proof -
  assume i: "in_int64 i"
  have ok: "is_digit c \<or> c = CHR ''-''" if "c \<in> set (int_text i)" for c
    using that nat_text_digits by (auto simp: int_text.simps split: if_splits)
  have sp: "\<not> is_space c" if "c \<in> set (int_text i)" for c
    using ok [OF that] by (auto simp: is_digit_def is_space_def less_eq_char_def)
  have "trim_space (int_text i) = int_text i"
    unfolding trim_space_def by (rule trim_fn_id) (simp add: sp)
  moreover have "int_text i \<noteq> CHR ''T'' # t" "int_text i \<noteq> CHR ''t'' # t" "int_text i \<noteq> CHR ''F'' # t"
    "int_text i \<noteq> CHR ''f'' # t" "int_text i \<noteq> CHR ''N'' # t" for t
    using ok [of "hd (int_text i)"] by (auto simp: is_digit_def less_eq_char_def)
  ultimately show ?thesis
    using parse_int_int_text [OF i] by (simp add: coerce_string_def Let_def)
qed

lemma fs_get_set: "mwf (fs_data f) \<Longrightarrow> fs_get (fs_set k v f) j = (if j = k then v else fs_get f j)"
  by (simp add: fs_get_def fs_set_def mget_nil_def mget_mput)

lemma has_fired_mark [simp]: "has_fired (mark_fired r f) q \<longleftrightarrow> q = r \<or> has_fired f q"
  by (auto simp: has_fired_def mark_fired_def)

definition row_matches :: "golib \<Rightarrow> (string \<times> string) list \<Rightarrow> gomap \<Rightarrow> bool" where
  "row_matches G want row = list_all (\<lambda>(k, v). sprint G (mget_nil row k) = v) want"

lemma first_match_hit:
  "row_matches G want row \<Longrightarrow> first_match G want (VMap row # items) = Some row"
  by (simp add: row_matches_def)

lemma first_match_miss:
  "(\<And>r. item = VMap r \<Longrightarrow> \<not> row_matches G want r) \<Longrightarrow>
     first_match G want (item # items) = first_match G want items"
  by (cases item) (simp_all add: row_matches_def)

lemma first_match_Some:
  "first_match G want items = Some row \<Longrightarrow> VMap row \<in> set items \<and> row_matches G want row"
proof (induction items)
  case (Cons item items)
  show ?case
  proof (cases "\<exists>r. item = VMap r \<and> row_matches G want r")
    case True
    then show ?thesis using Cons.prems first_match_hit by fastforce
  next
    case False
    then show ?thesis using Cons first_match_miss [of item G want items] by auto
  qed
qed simp

lemma first_match_None:
  "first_match G want items = None \<Longrightarrow> VMap row \<in> set items \<Longrightarrow> \<not> row_matches G want row"
proof (induction items)
  case (Cons item items)
  show ?case
  proof (cases "\<exists>r. item = VMap r \<and> row_matches G want r")
    case True
    then show ?thesis using Cons.prems(1) first_match_hit [of G want _ items] by auto
  next
    case False
    then show ?thesis using Cons first_match_miss [of item G want items] by auto
  qed
qed simp

lemma eval_facts_result:
  assumes "eval_facts G P es ctx res = (ctx', Inr r)" "mwf ctx" "mwf res"
  shows "mwf ctx' \<and> mwf r \<and> (\<forall>k. k \<in> fst ` set es \<longrightarrow> mget r k \<noteq> None \<and> mget ctx' k = mget r k) \<and>
    (\<forall>k. k \<notin> fst ` set es \<longrightarrow> mget ctx' k = mget ctx k \<and> mget r k = mget res k)"
  using assms
proof (induction G P es ctx res rule: eval_facts.induct)
  case (1 G P ctx res)
  then show ?case by simp
next
  case (2 G P k v es ctx res)
  then obtain w where w: "eval_fact G P v ctx = Inr w"
    by (cases "eval_fact G P v ctx") auto
  let ?ctx = "mput k w ctx" and ?res = "mput k w res"
  have rec: "eval_facts G P es ?ctx ?res = (ctx', Inr r)" using 2 w by simp
  have ih: "mwf ctx' \<and> mwf r \<and> (\<forall>k. k \<in> fst ` set es \<longrightarrow> mget r k \<noteq> None \<and> mget ctx' k = mget r k) \<and>
    (\<forall>k. k \<notin> fst ` set es \<longrightarrow> mget ctx' k = mget ?ctx k \<and> mget r k = mget ?res k)"
    using "2.IH" [OF w rec] "2.prems" by (simp add: mwf_mput)
  have at: "mget ?ctx j = (if j = k then Some w else mget ctx j)"
    "mget ?res j = (if j = k then Some w else mget res j)" for j
    using "2.prems" by (simp_all add: mget_mput)
  show ?case
  proof (intro conjI allI impI)
    fix j assume j: "j \<in> fst ` set ((k, v) # es)"
    show "mget r j \<noteq> None" "mget ctx' j = mget r j"
    proof -
      have "mget r j \<noteq> None \<and> mget ctx' j = mget r j"
      proof (cases "j \<in> fst ` set es")
        case True
        with ih show ?thesis by blast
      next
        case False
        with j have "j = k" by simp
        with False ih at [of j] show ?thesis by simp
      qed
      then show "mget r j \<noteq> None" "mget ctx' j = mget r j" by simp_all
    qed
  next
    fix j assume j: "j \<notin> fst ` set ((k, v) # es)"
    then have "j \<notin> fst ` set es" "j \<noteq> k" by auto
    with ih at [of j] show "mget ctx' j = mget ctx j" "mget r j = mget res j" by simp_all
  qed (use ih in simp_all)
qed

lemma eval_facts_copied:
  assumes "eval_facts G P es ctx [] = (ctx', Inr r)" "mwf ctx"
  shows "mwf r \<and> fst ` set r = fst ` set es \<and> ctx' = mcopy r ctx"
proof -
  note res = eval_facts_result [OF assms mwf_Nil]
  have dom: "mget r k \<noteq> None \<longleftrightarrow> k \<in> fst ` set es" for k
    using res by (cases "k \<in> fst ` set es") auto
  have "mget r k \<noteq> None \<longleftrightarrow> k \<in> fst ` set r" for k
    by (simp add: mget_def map_of_eq_None_iff)
  with dom have "fst ` set r = fst ` set es" by blast
  moreover have "ctx' = mcopy r ctx"
  proof (rule mget_ext)
    show "mget ctx' = mget (mcopy r ctx)"
    proof
      fix k
      show "mget ctx' k = mget (mcopy r ctx) k"
        using res dom [of k] assms(2)
        by (cases "k \<in> fst ` set es") (auto simp: mget_mcopy map_add_def)
    qed
  qed (use res assms(2) in \<open>auto simp: mwf_mcopy\<close>)
  ultimately show ?thesis using res by blast
qed

text \<open>Evaluating facts writes exactly the facts: on success the result holds a value for every
  entry and for nothing else, and the run context is the old one with those entries put over it.\<close>

theorem eval_facts_context:
  assumes "eval_facts G P es ctx [] = (ctx', Inr r)" "mwf ctx"
  shows "fst ` set r = fst ` set es \<and> ctx' = mcopy r ctx"
  using eval_facts_copied [OF assms] by blast

definition sample_pongo :: pongo where
  "sample_pongo = \<lparr>pg_parse = (\<lambda>_. None), pg_exec = (\<lambda>_ _. Inr ([], [])), pg_string = (\<lambda>_. []), pg_seq = 0\<rparr>"

theorem eval_facts_context_witness:
  "fst ` set [(''a'', VInt 1), (''b'', VInt 1)] = {''a'', ''b''} \<and>
   [(''a'', VInt 1), (''b'', VInt 1), (''x'', VInt 1)] = mcopy [(''a'', VInt 1), (''b'', VInt 1)] [(''x'', VInt 1)]"
proof -
  have "eval_facts sample_golib sample_pongo [(''a'', VStr ''{{ x }}''), (''b'', VStr ''{{ a }}'')]
      [(''x'', VInt 1)] [] =
      ([(''a'', VInt 1), (''b'', VInt 1), (''x'', VInt 1)], Inr [(''a'', VInt 1), (''b'', VInt 1)])"
    by code_simp
  from eval_facts_context [OF this] show ?thesis by (simp add: mwf_def)
qed

text \<open>The order of the range shows: with these two entries and a context that has both names, the
  second fact is 1 or 0 depending on which is evaluated first.\<close>

lemma eval_facts_order_matters:
  "snd (eval_facts sample_golib sample_pongo [(''a'', VStr ''{{ x }}''), (''b'', VStr ''{{ a }}'')]
     [(''a'', VInt 0), (''x'', VInt 1)] []) = Inr [(''a'', VInt 1), (''b'', VInt 1)] \<and>
   snd (eval_facts sample_golib sample_pongo [(''b'', VStr ''{{ a }}''), (''a'', VStr ''{{ x }}'')]
     [(''a'', VInt 0), (''x'', VInt 1)] []) = Inr [(''a'', VInt 1), (''b'', VInt 0)]"
  by code_simp

end
