(* ===== verification/Rule_Translate.thy ===== *)
theory Rule_Translate
  imports Workflow_File Fact_Store
begin

text \<open>
  From a rule's condition to GRL (\<open>pkg/engine/grltranslate.go\<close>): the tokenizer, the
  translation of the tokens and the text of a rule. The code looks at single bytes, so a byte
  is a letter when the Latin-1 character of that number is. Errors name positions and kinds by
  number, as the code does. \<open>compile_rule\<close> takes the set_fact entries in the order the range
  over the map visits them.
\<close>

datatype token_kind =
    TokIdent | TokNumber | TokString | TokOp | TokAnd | TokOr | TokNot | TokNone
  | TokTrue | TokFalse | TokLParen | TokRParen

type_synonym token = "token_kind \<times> string"

fun kind_number :: "token_kind \<Rightarrow> nat" where
  "kind_number TokIdent = 0" | "kind_number TokNumber = 1" | "kind_number TokString = 2"
| "kind_number TokOp = 3" | "kind_number TokAnd = 4" | "kind_number TokOr = 5"
| "kind_number TokNot = 6" | "kind_number TokNone = 7" | "kind_number TokTrue = 8"
| "kind_number TokFalse = 9" | "kind_number TokLParen = 10" | "kind_number TokRParen = 11"

subsection \<open>Tokens\<close>

definition is_letter :: "char \<Rightarrow> bool" where
  "is_letter c = (is_upper c \<or> is_lower c \<or> c \<in> set [CHR 0xAA, CHR 0xB5, CHR 0xBA]
     \<or> (CHR 0xC0 \<le> c \<and> c \<noteq> CHR 0xD7 \<and> c \<noteq> CHR 0xF7))"

definition word_char :: "char \<Rightarrow> bool" where
  "word_char c = (is_letter c \<or> is_digit c \<or> c = CHR ''_'')"

definition number_char :: "char \<Rightarrow> bool" where
  "number_char c = (is_digit c \<or> c = CHR ''.'')"

definition blank :: "char \<Rightarrow> bool" where
  "blank c = (c = CHR '' '' \<or> c = CHR 0x09 \<or> c = CHR 0x0A \<or> c = CHR 0x0D)"

definition squote :: char where "squote = CHR 0x27"

definition word_token :: "string \<Rightarrow> token" where
  "word_token w =
     (if w = ''and'' then (TokAnd, ''and'')
      else if w = ''or'' then (TokOr, ''or'')
      else if w = ''not'' then (TokNot, ''not'')
      else if w = ''None'' then (TokNone, ''None'')
      else if w = ''true'' \<or> w = ''True'' then (TokTrue, ''true'')
      else if w = ''false'' \<or> w = ''False'' then (TokFalse, ''false'')
      else (TokIdent, w))"

text \<open>The token at the head of a text, with the bytes it takes; none for a byte that is skipped.\<close>

definition next_token :: "char \<Rightarrow> string \<Rightarrow> token option \<times> nat" where
  "next_token c t =
     (if blank c then (None, 1)
      else if c = squote \<or> c = dquote then
        (let body = takeWhile (\<lambda>d. d \<noteq> c) t in (Some (TokString, body), length body + 2))
      else if c \<in> set [CHR ''='', CHR ''!'', CHR ''<'', CHR ''>''] \<and> t \<noteq> [] \<and> hd t = CHR ''=''
        then (Some (TokOp, [c, CHR ''='']), 2)
      else if c = CHR ''<'' \<or> c = CHR ''>'' then (Some (TokOp, [c]), 1)
      else if c = CHR ''('' then (Some (TokLParen, [c]), 1)
      else if c = CHR '')'' then (Some (TokRParen, [c]), 1)
      else if is_digit c \<or> (c = CHR ''-'' \<and> t \<noteq> [] \<and> is_digit (hd t)) then
        (let body = c # takeWhile number_char t in (Some (TokNumber, body), length body))
      else if is_letter c \<or> c = CHR ''_'' then
        (let w = c # takeWhile word_char t in (Some (word_token w), length w))
      else (None, 1))"

lemma next_token_pos: "snd (next_token c t) > 0"
  by (simp add: next_token_def Let_def)

lemma next_token_eq:
  "(r, n) = next_token c t \<Longrightarrow> 0 < n"
  using next_token_pos [of c t] by (metis snd_conv)

function tokenize :: "string \<Rightarrow> token list" where
  "tokenize [] = []"
| "tokenize (c # t) =
     (case next_token c t of
        (None, n) \<Rightarrow> tokenize (drop n (c # t))
      | (Some tok, n) \<Rightarrow> tok # tokenize (drop n (c # t)))"
  by pat_completeness auto
termination
proof (relation "measure length")
  show "wf (measure (length :: string \<Rightarrow> nat))" by simp
qed (auto simp: next_token_eq)

declare tokenize.simps(2) [simp del]

subsection \<open>Translation\<close>

definition followed_by_op :: "token list \<Rightarrow> bool" where
  "followed_by_op ts = (ts \<noteq> [] \<and> fst (hd ts) = TokOp)"

definition facts_call :: "string \<Rightarrow> string \<Rightarrow> string" where
  "facts_call meth name = ''Facts.'' @ meth @ ''('' @ [dquote] @ name @ [dquote] @ '')''"

definition ordering_op :: "string \<Rightarrow> bool" where
  "ordering_op op = (op \<in> set [''<'', ''>'', ''<='', ''>=''])"

text \<open>The comparison of an identifier with the token after the operator.\<close>

definition translate_comparison :: "string \<Rightarrow> string \<Rightarrow> token \<Rightarrow> string + string" where
  "translate_comparison ident op rhs = (case fst rhs of
     TokNone \<Rightarrow> Inr ((if op = ''=='' then [] else ''!'') @ facts_call ''IsNil'' ident)
   | TokTrue \<Rightarrow> Inr ((if op = ''=='' then [] else ''!'') @ facts_call ''IsTrue'' ident)
   | TokFalse \<Rightarrow> Inr ((if op = ''=='' then ''!'' else []) @ facts_call ''IsTrue'' ident)
   | TokString \<Rightarrow> Inr (facts_call ''GetStr'' ident @ '' '' @ op @ '' '' @ [dquote] @ snd rhs @ [dquote])
   | TokNumber \<Rightarrow> Inr (facts_call ''GetNum'' ident @ '' '' @ op @ '' '' @ snd rhs)
   | TokIdent \<Rightarrow>
       (let m = (if ordering_op op then ''GetNum'' else ''GetStr'') in
        Inr (facts_call m ident @ '' '' @ op @ '' '' @ facts_call m (snd rhs)))
   | k \<Rightarrow> Inl (''unexpected token after operator: kind='' @ nat_text (kind_number k)
               @ '' val='' @ quoted (snd rhs)))"

definition translate_ident :: "nat \<Rightarrow> string \<Rightarrow> token list \<Rightarrow> string + (nat \<times> string)" where
  "translate_ident pos ident rest =
     (if \<not> followed_by_op rest then Inr (1, facts_call ''IsTrue'' ident)
      else (case tl rest of
          [] \<Rightarrow> Inl (''unexpected end after operator at position '' @ nat_text (pos + 1))
        | rhs # _ \<Rightarrow> map_sum id (Pair 3) (translate_comparison ident (snd (hd rest)) rhs)))"

function translate_parts :: "nat \<Rightarrow> token list \<Rightarrow> string + string list" where
  "translate_parts i [] = Inr []"
| "translate_parts i ((k, v) # ts) =
     (let emit = (\<lambda>n s. map_sum id (Cons s) (translate_parts (i + Suc n) (drop n ts))) in
      case k of
        TokAnd \<Rightarrow> emit 0 ''&&''
      | TokOr \<Rightarrow> emit 0 ''||''
      | TokLParen \<Rightarrow> emit 0 ''(''
      | TokRParen \<Rightarrow> emit 0 '')''
      | TokNot \<Rightarrow>
          if ts \<noteq> [] \<and> fst (hd ts) = TokIdent \<and> \<not> followed_by_op (tl ts)
          then emit 1 (''!'' @ facts_call ''IsTrue'' (snd (hd ts)))
          else emit 0 ''!''
      | TokIdent \<Rightarrow> (case translate_ident i v ts of
            Inl e \<Rightarrow> Inl e
          | Inr (n, s) \<Rightarrow> emit (n - 1) s)
      | _ \<Rightarrow> Inl (''unexpected token at position '' @ nat_text i @ '': kind='' @ nat_text (kind_number k)
                 @ '' val='' @ quoted v))"
  by pat_completeness auto
termination
  by (relation "measure (\<lambda>(i, ts). length ts)") auto

definition translate_tokens :: "token list \<Rightarrow> string + string" where
  "translate_tokens ts = map_sum id (join '' '') (translate_parts 0 ts)"

definition translate_condition :: "string \<Rightarrow> string + string" where
  "translate_condition expr = translate_tokens (tokenize expr)"

subsection \<open>Rules\<close>

definition escape_quotes :: "string \<Rightarrow> string" where
  "escape_quotes s = replace_all [dquote] [backslash, dquote] s"

definition compile_set_fact :: "golib \<Rightarrow> string \<times> val \<Rightarrow> string" where
  "compile_set_fact G e =
     (let call = (\<lambda>meth arg. ''Facts.'' @ meth @ ''('' @ [dquote] @ fst e @ [dquote] @ '', '' @ arg @ '');'') in
      case snd e of
        VBool b \<Rightarrow> call ''SetBool'' (if b then ''true'' else ''false'')
      | VStr s \<Rightarrow> call ''SetStr'' ([dquote] @ escape_quotes s @ [dquote])
      | VInt i \<Rightarrow> call ''SetNum'' (int_text (f64_trunc (f64_of_int i)) @ ''.0'')
      | VFloat f \<Rightarrow> call ''SetNum'' (fmt_float G f)
      | v \<Rightarrow> call ''SetStr'' ([dquote] @ escape_quotes (sprint G v) @ [dquote]))"

definition newline :: string where "newline = [CHR 0x0A]"

definition rule_calls :: "golib \<Rightarrow> rule \<Rightarrow> gomap \<Rightarrow> string list" where
  "rule_calls G r entries = map (compile_set_fact G) entries @
     [''Facts.MarkFired('' @ [dquote] @ ru_name r @ [dquote] @ '');'',
      ''Changed('' @ [dquote] @ ''Facts'' @ [dquote] @ '');'',
      ''Retract('' @ [dquote] @ ru_name r @ [dquote] @ '');'']"

definition compile_rule :: "golib \<Rightarrow> (gomap \<Rightarrow> gomap) \<Rightarrow> rule \<Rightarrow> string + string" where
  "compile_rule G range_order r = (case translate_condition (ru_when r) of
     Inl e \<Rightarrow> Inl (''translating condition for rule '' @ quoted (ru_name r) @ '': '' @ e)
   | Inr condition \<Rightarrow>
       let desc = escape_quotes (if ru_description r = [] then ru_name r else ru_description r) in
       Inr (''rule '' @ ru_name r @ '' '' @ [dquote] @ desc @ [dquote] @ '' salience ''
            @ int_text (ru_salience r) @ '' {'' @ newline @ ''    when'' @ newline @ ''        ''
            @ condition @ newline @ ''    then'' @ newline @ ''        ''
            @ join (newline @ ''        '') (rule_calls G r (range_order (ru_set_fact r)))
            @ newline @ ''}''))"

subsection \<open>Tokens read back\<close>

definition word_ok :: "string \<Rightarrow> bool" where
  "word_ok w = (w \<noteq> [] \<and> (is_letter (hd w) \<or> hd w = CHR ''_'') \<and> list_all word_char w)"

definition reserved_words :: "string list" where
  "reserved_words = [''and'', ''or'', ''not'', ''None'', ''true'', ''True'', ''false'', ''False'']"

definition number_ok :: "string \<Rightarrow> bool" where
  "number_ok s = (let body = (if s \<noteq> [] \<and> hd s = CHR ''-'' then tl s else s) in
     body \<noteq> [] \<and> is_digit (hd body) \<and> list_all number_char body)"

definition token_ok :: "token \<Rightarrow> bool" where
  "token_ok tok = (case fst tok of
     TokIdent \<Rightarrow> word_ok (snd tok) \<and> \<not> List.member reserved_words (snd tok)
   | TokNumber \<Rightarrow> number_ok (snd tok)
   | TokString \<Rightarrow> dquote \<notin> set (snd tok)
   | TokOp \<Rightarrow> snd tok \<in> set [''=='', ''!='', ''<='', ''>='', ''<'', ''>'']
   | TokAnd \<Rightarrow> snd tok = ''and''
   | TokOr \<Rightarrow> snd tok = ''or''
   | TokNot \<Rightarrow> snd tok = ''not''
   | TokNone \<Rightarrow> snd tok = ''None''
   | TokTrue \<Rightarrow> snd tok = ''true''
   | TokFalse \<Rightarrow> snd tok = ''false''
   | TokLParen \<Rightarrow> snd tok = ''(''
   | TokRParen \<Rightarrow> snd tok = '')'')"

definition token_text :: "token \<Rightarrow> string" where
  "token_text tok = (if fst tok = TokString then dquote # snd tok @ [dquote] else snd tok)"

definition ends :: "string \<Rightarrow> bool" where
  "ends r = (r = [] \<or> hd r = CHR '' '')"

lemma takeWhile_ends: "list_all F s \<Longrightarrow> ends r \<Longrightarrow> \<not> F (CHR '' '') \<Longrightarrow> takeWhile F (s @ r) = s"
  by (induction s) (cases r, auto simp: ends_def)

lemma space_class: "\<not> word_char (CHR '' '')" "\<not> number_char (CHR '' '')" "blank (CHR '' '')"
  by (simp_all add: word_char_def number_char_def blank_def is_letter_def is_upper_def is_lower_def
      is_digit_def less_eq_char_def)

text \<open>The classes of the first byte do not overlap.\<close>

lemma letter_class:
  assumes "is_letter c \<or> c = CHR ''_''"
  shows "\<not> blank c \<and> c \<notin> {squote, dquote, CHR ''='', CHR ''!'', CHR ''<'', CHR ''>'', CHR ''('', CHR '')'', CHR ''-''}
    \<and> \<not> is_digit c"
  using assms
  by (auto simp: is_letter_def is_upper_def is_lower_def blank_def is_digit_def less_eq_char_def
      squote_def dquote_def)

lemma digit_class:
  assumes "is_digit c \<or> c = CHR ''-''"
  shows "\<not> blank c \<and> c \<notin> {squote, dquote, CHR ''='', CHR ''!'', CHR ''<'', CHR ''>'', CHR ''('', CHR '')''}"
  using assms
  by (auto simp: blank_def is_digit_def less_eq_char_def squote_def dquote_def)

lemma next_token_word:
  assumes "word_ok (c # w)" "ends r"
  shows "next_token c (w @ r) = (Some (word_token (c # w)), Suc (length w))"
proof -
  have c: "is_letter c \<or> c = CHR ''_''" using assms(1) by (simp add: word_ok_def)
  have "takeWhile word_char (w @ r) = w"
    using assms space_class by (intro takeWhile_ends) (simp_all add: word_ok_def)
  then show ?thesis
    using c letter_class [OF c] by (simp add: next_token_def Let_def)
qed

lemma next_token_number:
  assumes "number_ok (c # w)" "ends r"
  shows "next_token c (w @ r) = (Some (TokNumber, c # w), Suc (length w))"
proof -
  have c: "is_digit c \<or> c = CHR ''-''" and w: "list_all number_char w"
    and d: "c = CHR ''-'' \<Longrightarrow> w \<noteq> [] \<and> is_digit (hd w)"
    using assms(1) by (auto simp: number_ok_def Let_def split: if_splits)
  have "takeWhile number_char (w @ r) = w"
    using w assms(2) space_class by (intro takeWhile_ends)
  moreover have "is_digit c \<or> (c = CHR ''-'' \<and> w @ r \<noteq> [] \<and> is_digit (hd (w @ r)))"
    using c d by auto
  ultimately show ?thesis
    using digit_class [OF c] by (simp add: next_token_def Let_def)
qed

lemma next_token_string:
  "dquote \<notin> set s \<Longrightarrow> next_token dquote (s @ dquote # r) = (Some (TokString, s), length s + 2)"
proof -
  assume s: "dquote \<notin> set s"
  have "takeWhile (\<lambda>d. d \<noteq> dquote) (s @ dquote # r) = s"
    using s by (induction s) auto
  moreover have "\<not> blank dquote" by (simp add: blank_def dquote_def)
  ultimately show ?thesis by (simp add: next_token_def Let_def)
qed

lemma keyword_ok: "List.member reserved_words w \<Longrightarrow> word_ok w"
proof -
  have "list_all word_ok reserved_words" by code_simp
  then show "List.member reserved_words w \<Longrightarrow> word_ok w" by (simp add: list_all_iff)
qed

lemma word_token_ident: "\<not> List.member reserved_words w \<Longrightarrow> word_token w = (TokIdent, w)"
  by (simp add: reserved_words_def word_token_def)

lemma word_token_ok:
  assumes "token_ok (k, w)" "k \<in> {TokIdent, TokAnd, TokOr, TokNot, TokNone, TokTrue, TokFalse}"
  shows "word_ok w \<and> word_token w = (k, w)"
proof (cases "k = TokIdent")
  case True
  with assms show ?thesis by (simp add: token_ok_def word_token_ident)
next
  case False
  then consider "k = TokAnd" "w = ''and''" | "k = TokOr" "w = ''or''" | "k = TokNot" "w = ''not''"
    | "k = TokNone" "w = ''None''" | "k = TokTrue" "w = ''true''" | "k = TokFalse" "w = ''false''"
    using assms by (cases k) (simp_all add: token_ok_def)
  then have "List.member reserved_words w \<and> word_token w = (k, w)"
    by cases (simp_all add: reserved_words_def word_token_def)
  then show ?thesis using keyword_ok by blast
qed

lemma next_token_op:
  assumes "w \<in> set [''=='', ''!='', ''<='', ''>='', ''<'', ''>'']" "ends r"
  shows "\<exists>c t. w @ r = c # t \<and> next_token c t = (Some (TokOp, w), length w)"
proof -
  have two: "next_token c (CHR ''='' # r) = (Some (TokOp, [c, CHR ''='']), 2)"
    if "c \<in> {CHR ''='', CHR ''!'', CHR ''<'', CHR ''>''}" for c
    using that by (auto simp: next_token_def blank_def squote_def dquote_def)
  have one: "next_token c r = (Some (TokOp, [c]), 1)" if "c \<in> {CHR ''<'', CHR ''>''}" for c
    using that assms(2) by (cases r) (auto simp: next_token_def blank_def squote_def dquote_def ends_def)
  from assms(1) consider c where "w = [c, CHR ''='']" "c \<in> {CHR ''='', CHR ''!'', CHR ''<'', CHR ''>''}"
    | c where "w = [c]" "c \<in> {CHR ''<'', CHR ''>''}" by auto
  then show ?thesis by cases (simp_all add: two one)
qed

lemma next_token_paren:
  "next_token (CHR ''('') r = (Some (TokLParen, ''(''), 1)"
  "next_token (CHR '')'') r = (Some (TokRParen, '')''), 1)"
  by (simp_all add: next_token_def blank_def squote_def dquote_def)

lemma next_token_ok:
  assumes "token_ok tok" "ends r"
  shows "\<exists>c t. token_text tok @ r = c # t \<and> next_token c t = (Some tok, length (token_text tok))"
proof -
  obtain k w where tok: "tok = (k, w)" by (cases tok)
  consider "k \<in> {TokIdent, TokAnd, TokOr, TokNot, TokNone, TokTrue, TokFalse}" | "k = TokNumber"
    | "k = TokString" | "k = TokOp" | "k = TokLParen \<or> k = TokRParen"
    by (cases k) auto
  then show ?thesis
  proof cases
    case 1
    then have "word_ok w" "word_token w = (k, w)" using assms(1) word_token_ok tok by blast+
    moreover from this obtain c u where "w = c # u" by (cases w) (auto simp: word_ok_def)
    ultimately show ?thesis
      using next_token_word [of c u r] assms(2) tok 1 by (auto simp: token_text_def)
  next
    case 2
    then have "number_ok w" using assms(1) tok by (simp add: token_ok_def)
    moreover from this obtain c u where "w = c # u" by (cases w) (auto simp: number_ok_def)
    ultimately show ?thesis
      using next_token_number [of c u r] assms(2) tok 2 by (auto simp: token_text_def)
  next
    case 3
    then show ?thesis
      using assms(1) tok next_token_string [of w r] by (simp add: token_ok_def token_text_def)
  next
    case 4
    then have "w \<in> set [''=='', ''!='', ''<='', ''>='', ''<'', ''>'']"
      using assms(1) tok by (simp add: token_ok_def)
    then show ?thesis
      using 4 tok next_token_op [of w r] assms(2) by (simp add: token_text_def)
  next
    case 5
    then show ?thesis
      using assms(1) tok by (auto simp: token_ok_def token_text_def next_token_paren)
  qed
qed

lemma tokenize_token:
  assumes "token_ok tok" "ends r"
  shows "tokenize (token_text tok @ r) = tok # tokenize r"
proof -
  obtain c t where "token_text tok @ r = c # t" "next_token c t = (Some tok, length (token_text tok))"
    using next_token_ok [OF assms] by blast
  moreover from this(1) have "drop (length (token_text tok)) (c # t) = r"
    by (metis append_eq_conv_conj)
  ultimately show ?thesis by (simp add: tokenize.simps(2) del: drop.simps)
qed

lemma tokenize_space: "tokenize (CHR '' '' # s) = tokenize s"
  using space_class(3) by (simp add: tokenize.simps(2) next_token_def)

text \<open>The tokenizer reads back what is written: any list of tokens, printed with single spaces
  between them and its strings in double quotes, is tokenized to that list.\<close>

theorem tokenize_token_texts:
  assumes "list_all token_ok toks"
  shows "tokenize (join '' '' (map token_text toks)) = toks"
  using assms
proof (induction toks)
  case Nil
  then show ?case by simp
next
  case (Cons tok toks)
  show ?case
  proof (cases toks)
    case Nil
    then show ?thesis
      using Cons.prems tokenize_token [of tok "[]"] by (simp add: ends_def)
  next
    case (Cons u us)
    then have "tokenize (token_text tok @ CHR '' '' # join '' '' (map token_text toks)) =
        tok # tokenize (CHR '' '' # join '' '' (map token_text toks))"
      using \<open>list_all token_ok (tok # toks)\<close> by (intro tokenize_token) (simp_all add: ends_def)
    with Cons \<open>list_all token_ok (tok # toks)\<close> Cons.IH show ?thesis
      by (simp add: tokenize_space)
  qed
qed

theorem tokenize_token_texts_witness:
  "tokenize (''x >= -3 and name == '' @ [dquote] @ ''a b'' @ [dquote]) =
     [(TokIdent, ''x''), (TokOp, ''>=''), (TokNumber, ''-3''), (TokAnd, ''and''),
      (TokIdent, ''name''), (TokOp, ''==''), (TokString, ''a b'')]"
proof -
  have "list_all token_ok [(TokIdent, ''x''), (TokOp, ''>=''), (TokNumber, ''-3''), (TokAnd, ''and''),
      (TokIdent, ''name''), (TokOp, ''==''), (TokString, ''a b'')]"
    by code_simp
  from tokenize_token_texts [OF this] show ?thesis by (simp add: token_text_def)
qed

end
