(* ===== verification/Gate_Eval.thy ===== *)
theory Gate_Eval
  imports Rule_Translate
begin

text \<open>
  Gate evaluation (\<open>pkg/engine/gate.go\<close>). The Grule engine is third-party: \<open>run_grule\<close> stands for
  building a GRL source and executing it over a fact store, and gives the store afterwards or an
  error. What the code does around it is here: resolving the rules, the evaluation context, the
  GRL source, which rules fired, the action of the gate and the facts it hands back.
\<close>

record gate_result =
  ga_action :: string
  ga_fired :: "string list"
  ga_facts :: gomap

record gate_acc =
  ac_fired :: "string list"
  ac_action :: string
  ac_salience :: int
  ac_set :: gomap

definition gate_rules :: "workflow_file \<Rightarrow> string list \<Rightarrow> string + rule list" where
  "gate_rules f names = map_try (\<lambda>n. case get_rule (fi_rules f) n of
     None \<Rightarrow> Inl (''rule '' @ quoted n @ '' not found'') | Some r \<Rightarrow> Inr r) names"

definition gate_source :: "golib \<Rightarrow> (gomap \<Rightarrow> gomap) \<Rightarrow> rule list \<Rightarrow> string + string" where
  "gate_source G range_order rs =
     map_sum id (join (newline @ newline)) (map_try (\<lambda>r.
       map_sum (\<lambda>e. ''compiling rule '' @ quoted (ru_name r) @ '': '' @ e) id
         (compile_rule G range_order r)) rs)"

definition rule_action :: "rule \<Rightarrow> string" where
  "rule_action r = (if ru_action r = [] then ''continue'' else ru_action r)"

definition gate_start :: gate_acc where
  "gate_start = \<lparr>ac_fired = [], ac_action = ''continue'', ac_salience = - 1, ac_set = []\<rparr>"

text \<open>One rule of the loop that collects the results.\<close>

definition gate_collect :: "fact_store \<Rightarrow> rule \<Rightarrow> gate_acc \<Rightarrow> gate_acc" where
  "gate_collect facts r acc =
     (if \<not> has_fired facts (ru_name r) then acc
      else \<lparr>ac_fired = ac_fired acc @ [ru_name r],
            ac_action = (if ru_salience r > ac_salience acc then rule_action r else ac_action acc),
            ac_salience = (if ru_salience r > ac_salience acc then ru_salience r else ac_salience acc),
            ac_set = fold (\<lambda>k. mput k (fs_get facts k)) (mkeys (ru_set_fact r)) (ac_set acc)\<rparr>)"

definition gate_eval ::
  "golib \<Rightarrow> (string \<Rightarrow> fact_store \<Rightarrow> string + fact_store) \<Rightarrow> (gomap \<Rightarrow> gomap) \<Rightarrow> workflow_file
     \<Rightarrow> string list \<Rightarrow> gomap \<Rightarrow> gomap \<Rightarrow> string + (gate_result \<times> gomap)" where
  "gate_eval G run_grule range_order f names gate_facts ctx =
     try_then (gate_rules f names) (\<lambda>rs.
     try_then (gate_source G range_order rs) (\<lambda>src.
     try_then (run_grule src (new_fact_store (mcopy gate_facts (mcopy ctx [])))) (\<lambda>facts.
       let acc = fold (gate_collect facts) rs gate_start;
           kept = filter (\<lambda>e. mget (ac_set acc) (fst e) = None) gate_facts;
           out = mcopy kept (ac_set acc)
       in Inr (\<lparr>ga_action = ac_action acc, ga_fired = ac_fired acc, ga_facts = out\<rparr>,
               mcopy kept (mcopy (ac_set acc) ctx)))))"

subsection \<open>The action of the gate\<close>

definition fired_rules :: "fact_store \<Rightarrow> rule list \<Rightarrow> rule list" where
  "fired_rules facts rs = filter (\<lambda>r. has_fired facts (ru_name r)) rs"

lemma gate_collect_skip: "\<not> has_fired facts (ru_name r) \<Longrightarrow> gate_collect facts r acc = acc"
  by (simp add: gate_collect_def)

lemma fold_gate_collect: "fold (gate_collect facts) rs acc = fold (gate_collect facts) (fired_rules facts rs) acc"
  by (induction rs arbitrary: acc) (auto simp: fired_rules_def gate_collect_skip)

text \<open>The first rule of a list whose salience is above a bound and not below any other.\<close>

fun leading_rule :: "int \<Rightarrow> rule list \<Rightarrow> rule option" where
  "leading_rule b [] = None"
| "leading_rule b (r # rs) =
     (if ru_salience r > b
      then (case leading_rule (ru_salience r) rs of None \<Rightarrow> Some r | Some q \<Rightarrow> Some q)
      else leading_rule b rs)"

lemma gate_collect_fired:
  assumes "\<forall>r\<in>set rs. has_fired facts (ru_name r)"
  shows "ac_fired (fold (gate_collect facts) rs acc) = ac_fired acc @ map ru_name rs \<and>
    ac_action (fold (gate_collect facts) rs acc) =
      (case leading_rule (ac_salience acc) rs of None \<Rightarrow> ac_action acc | Some r \<Rightarrow> rule_action r)"
  using assms
proof (induction rs arbitrary: acc)
  case Nil
  then show ?case by simp
next
  case (Cons r rs)
  let ?acc = "gate_collect facts r acc"
  have f: "has_fired facts (ru_name r)" using Cons.prems by simp
  have "ac_fired ?acc = ac_fired acc @ [ru_name r]"
    "ac_action ?acc = (if ru_salience r > ac_salience acc then rule_action r else ac_action acc)"
    "ac_salience ?acc = (if ru_salience r > ac_salience acc then ru_salience r else ac_salience acc)"
    using f by (simp_all add: gate_collect_def)
  then show ?case
    using Cons.IH [of ?acc] Cons.prems by (auto split: option.splits)
qed

lemma leading_rule_None: "leading_rule b rs = None \<longleftrightarrow> (\<forall>r\<in>set rs. ru_salience r \<le> b)"
  by (induction b rs rule: leading_rule.induct) (auto split: option.splits)

lemma leading_rule_Some:
  "leading_rule b rs = Some r \<Longrightarrow>
     r \<in> set rs \<and> b < ru_salience r \<and> (\<forall>q\<in>set rs. ru_salience q \<le> ru_salience r)"
proof (induction b rs arbitrary: r rule: leading_rule.induct)
  case (1 b)
  then show ?case by simp
next
  case (2 b q rs)
  show ?case
  proof (cases "ru_salience q > b")
    case True
    show ?thesis
    proof (cases "leading_rule (ru_salience q) rs")
      case None
      then have "\<forall>p\<in>set rs. ru_salience p \<le> ru_salience q" by (simp add: leading_rule_None)
      moreover have "r = q" using 2 True None by simp
      ultimately show ?thesis using True by simp
    next
      case (Some p)
      then have "r = p" using 2 True by simp
      with "2.IH"(1) [OF True, of p] Some True show ?thesis by auto
    qed
  next
    case False
    then have "leading_rule b rs = Some r" using 2 by simp
    with "2.IH"(2) [OF False, of r] False show ?thesis by auto
  qed
qed

lemma leading_rule_first:
  "leading_rule b rs = Some r \<Longrightarrow> \<exists>before after. rs = before @ r # after \<and>
     (\<forall>q\<in>set before. ru_salience q < ru_salience r) \<and> (\<forall>q\<in>set after. ru_salience q \<le> ru_salience r)"
proof (induction b rs arbitrary: r rule: leading_rule.induct)
  case (2 b q rs)
  show ?case
  proof (cases "ru_salience q > b \<and> leading_rule (ru_salience q) rs = None")
    case True
    then have "r = q" using "2.prems" by simp
    moreover from True have "\<forall>p\<in>set rs. ru_salience p \<le> ru_salience q" by (simp add: leading_rule_None)
    ultimately show ?thesis by (intro exI [of _ "[]"] exI [of _ rs]) simp
  next
    case False
    then obtain c where c: "leading_rule c rs = Some r" "ru_salience q \<le> c"
      "\<And>p. leading_rule c rs = Some p \<Longrightarrow> \<exists>before after. rs = before @ p # after \<and>
         (\<forall>q\<in>set before. ru_salience q < ru_salience p) \<and> (\<forall>q\<in>set after. ru_salience q \<le> ru_salience p)"
      using "2.prems" "2.IH" by (cases "ru_salience q > b") (auto split: option.splits)
    from c(3) [OF c(1)] obtain before after where "rs = before @ r # after"
      "\<forall>q\<in>set before. ru_salience q < ru_salience r" "\<forall>q\<in>set after. ru_salience q \<le> ru_salience r" by blast
    moreover have "ru_salience q < ru_salience r" using leading_rule_Some [OF c(1)] c(2) by simp
    ultimately show ?thesis by (intro exI [of _ "q # before"] exI [of _ after]) simp
  qed
qed simp

text \<open>What one successful evaluation gives, with its intermediate results named.\<close>

lemma gate_eval_Inr:
  assumes "gate_eval G run_grule ro f names gate_facts ctx = Inr (res, ctx')"
  obtains rs src facts where "gate_rules f names = Inr rs" "gate_source G ro rs = Inr src"
    "run_grule src (new_fact_store (mcopy gate_facts (mcopy ctx []))) = Inr facts"
    "ga_action res = ac_action (fold (gate_collect facts) rs gate_start)"
    "ga_fired res = ac_fired (fold (gate_collect facts) rs gate_start)"
    "ga_facts res = mcopy (filter (\<lambda>e. mget (ac_set (fold (gate_collect facts) rs gate_start)) (fst e) = None)
        gate_facts) (ac_set (fold (gate_collect facts) rs gate_start))"
    "ctx' = mcopy (filter (\<lambda>e. mget (ac_set (fold (gate_collect facts) rs gate_start)) (fst e) = None)
        gate_facts) (mcopy (ac_set (fold (gate_collect facts) rs gate_start)) ctx)"
  using assms by (auto simp: gate_eval_def Let_def go_err)

lemma gate_start_sel [simp]:
  "ac_fired gate_start = []" "ac_action gate_start = ''continue''" "ac_salience gate_start = - 1"
  "ac_set gate_start = []"
  by (simp_all add: gate_start_def)

lemma gate_rules_names: "gate_rules f names = Inr rs \<Longrightarrow> map ru_name rs = names"
  unfolding gate_rules_def map_try_Inr
proof (induction rule: list_all2_induct)
  case Nil
  then show ?case by simp
next
  case (Cons n ns r rs)
  then show ?case by (auto split: option.splits dest: get_rule_Some)
qed

text \<open>C22. The action of a gate, by the facts the rule engine ends with: the fired rules are those of the step's rules that it
  marked as fired, reported by name in the order the step lists them. When one of them has a salience of 0 or more,
  the action is that of the first fired rule of the highest salience; when none has fired it is to continue. Fired rules of
  negative salience do not count (\<open>negative_salience_ignored\<close>), where the documentation has no such exception.\<close>

theorem gate_action_highest:
  assumes "gate_eval G run_grule ro f names gate_facts ctx = Inr (res, ctx')"
    and "gate_rules f names = Inr rs" "gate_source G ro rs = Inr src"
    and "run_grule src (new_fact_store (mcopy gate_facts (mcopy ctx []))) = Inr facts"
  shows "map ru_name rs = names \<and> set rs \<subseteq> set (fi_rules f) \<and> ga_fired res = filter (has_fired facts) names \<and>
    (ga_fired res = [] \<longrightarrow> ga_action res = ''continue'') \<and>
    (\<forall>p\<in>set rs. has_fired facts (ru_name p) \<and> 0 \<le> ru_salience p \<longrightarrow>
      (\<exists>before r after. filter (\<lambda>q. has_fired facts (ru_name q)) rs = before @ r # after \<and> ga_action res = rule_action r \<and>
         (\<forall>q\<in>set before. ru_salience q < ru_salience r) \<and> (\<forall>q\<in>set after. ru_salience q \<le> ru_salience r)))"
proof -
  have r: "ga_action res = ac_action (fold (gate_collect facts) rs gate_start)"
    "ga_fired res = ac_fired (fold (gate_collect facts) rs gate_start)"
    using assms by (auto simp: gate_eval_def Let_def)
  let ?fired = "fired_rules facts rs"
  have sub: "set rs \<subseteq> set (fi_rules f)"
    using assms(2) unfolding gate_rules_def map_try_Inr list_all2_conv_all_nth
    by (fastforce simp: in_set_conv_nth split: option.splits dest: get_rule_Some)
  have "\<forall>r\<in>set ?fired. has_fired facts (ru_name r)" by (simp add: fired_rules_def)
  from gate_collect_fired [OF this, of gate_start, unfolded gate_start_sel]
  have res: "ga_fired res = map ru_name ?fired"
    "ga_action res = (case leading_rule (- 1) ?fired of None \<Rightarrow> ''continue'' | Some r \<Rightarrow> rule_action r)"
    unfolding r fold_gate_collect [of facts rs] by simp_all
  have "ga_fired res = filter (has_fired facts) names"
    using res(1) gate_rules_names [OF assms(2)] by (auto simp: fired_rules_def filter_map comp_def)
  moreover have "ga_action res = ''continue''" if "ga_fired res = []" using that res by simp
  moreover have "\<exists>before r after. ?fired = before @ r # after \<and> ga_action res = rule_action r \<and>
      (\<forall>q\<in>set before. ru_salience q < ru_salience r) \<and> (\<forall>q\<in>set after. ru_salience q \<le> ru_salience r)"
    if p: "p \<in> set rs" "has_fired facts (ru_name p)" "0 \<le> ru_salience p" for p
  proof -
    have "p \<in> set ?fired" using p by (simp add: fired_rules_def)
    then have "\<not> (\<forall>r\<in>set ?fired. ru_salience r \<le> - 1)" using p(3) by force
    then have "leading_rule (- 1) ?fired \<noteq> None" by (simp only: leading_rule_None simp_thms)
    then obtain r where "leading_rule (- 1) ?fired = Some r" by blast
    with leading_rule_first [OF this] res(2) show ?thesis by auto
  qed
  ultimately show ?thesis using sub gate_rules_names [OF assms(2)] unfolding fired_rules_def by blast
qed

text \<open>A fired rule with a negative salience never decides.\<close>

lemma negative_salience_ignored:
  assumes "\<forall>r\<in>set rs. has_fired facts (ru_name r) \<longrightarrow> ru_salience r < 0"
  shows "ac_action (fold (gate_collect facts) rs gate_start) = ''continue''"
proof -
  have "leading_rule (- 1) (fired_rules facts rs) = None" using assms by (force simp: leading_rule_None fired_rules_def)
  then show ?thesis
    using gate_collect_fired [of "fired_rules facts rs" facts gate_start]
    by (simp add: fold_gate_collect [of facts rs]) (simp add: fired_rules_def)
qed

subsection \<open>The facts of the gate\<close>

lemma ac_set_facts:
  assumes "mwf (ac_set acc)"
  shows "mwf (ac_set (gate_collect facts r acc))"
proof -
  have "mwf m \<Longrightarrow> mwf (fold (\<lambda>k. mput k (h k)) ks m)" for ks m and h :: "string \<Rightarrow> val"
    by (induction ks arbitrary: m) (auto simp: mwf_mput)
  with assms show ?thesis by (simp add: gate_collect_def)
qed

lemma ac_set_fold: "mwf (ac_set acc) \<Longrightarrow> mwf (ac_set (fold (gate_collect facts) rs acc))"
  by (induction rs arbitrary: acc) (auto simp: ac_set_facts)

lemma mwf_filter: "mwf m \<Longrightarrow> mwf (filter F m)"
  by (induction m) (auto simp: mwf_Cons)

lemma mget_filter: "mget (filter (\<lambda>e. F (fst e)) m) k = (if F k then mget m k else None)"
  by (induction m) auto

lemma mcopy_assoc: "mwf a \<Longrightarrow> mwf b \<Longrightarrow> mwf c \<Longrightarrow> mcopy a (mcopy b c) = mcopy (mcopy a b) c"
  by (rule mget_ext) (simp_all add: mwf_mcopy mget_mcopy map_add_assoc)

text \<open>Copying the entries of one map that another does not have.\<close>

lemma mget_keep:
  assumes "mwf s" "mwf m"
  shows "mget (mcopy (filter (\<lambda>e. mget s (fst e) = None) m) s) k =
    (case mget s k of None \<Rightarrow> mget m k | Some v \<Rightarrow> Some v)"
  using assms mget_filter [of "\<lambda>k. mget s k = None" m k]
  by (cases "mget s k"; cases "mget m k") (simp_all add: mget_mcopy mwf_filter map_add_def)

text \<open>The facts of a gate: the result holds every input fact of the step, under its own value
  unless a fired rule assigned it, and the run context afterwards is the old context with the
  facts of the result put over it.\<close>

theorem gate_facts_context:
  assumes "gate_eval G run_grule ro f names gate_facts ctx = Inr (res, ctx')"
    and "mwf gate_facts" "mwf ctx"
  shows "(\<forall>k. mget gate_facts k \<noteq> None \<longrightarrow> mget (ga_facts res) k \<noteq> None) \<and> ctx' = mcopy (ga_facts res) ctx"
proof -
  from assms(1) obtain rs facts where r:
    "ga_facts res = mcopy (filter (\<lambda>e. mget (ac_set (fold (gate_collect facts) rs gate_start)) (fst e) = None)
        gate_facts) (ac_set (fold (gate_collect facts) rs gate_start))"
    "ctx' = mcopy (filter (\<lambda>e. mget (ac_set (fold (gate_collect facts) rs gate_start)) (fst e) = None)
        gate_facts) (mcopy (ac_set (fold (gate_collect facts) rs gate_start)) ctx)"
    by (rule gate_eval_Inr)
  let ?set = "ac_set (fold (gate_collect facts) rs gate_start)"
  let ?kept = "filter (\<lambda>e. mget ?set (fst e) = None) gate_facts"
  have ok: "mwf ?set" "mwf ?kept"
    using assms(2) by (auto intro!: ac_set_fold mwf_filter)
  have "mget (ga_facts res) k \<noteq> None" if "mget gate_facts k \<noteq> None" for k
    unfolding r(1) mget_keep [OF ok(1) assms(2)] using that by (auto split: option.splits)
  moreover have "ctx' = mcopy (ga_facts res) ctx"
    unfolding r using mcopy_assoc ok assms(3) by blast
  ultimately show ?thesis by blast
qed

text \<open>A gate with one rule, fired by a stand-in engine that fires what its source names.\<close>

definition sample_grule :: "string \<Rightarrow> fact_store \<Rightarrow> string + fact_store" where
  "sample_grule src f =
     Inr (if fs_is_true f ''ok'' then mark_fired ''hold'' f else f)"

definition sample_hold :: rule where
  "sample_hold = \<lparr>ru_name = ''hold'', ru_file = [], ru_description = [], ru_salience = 5,
     ru_when = ''ok == true'', ru_action = ''pause'', ru_set_fact = [(''held'', VBool True)]\<rparr>"

definition sample_gate_file :: workflow_file where
  "sample_gate_file = blank_file\<lparr>fi_rules := [sample_hold]\<rparr>"

lemma sample_gate_eval:
  "gate_eval sample_golib sample_grule id sample_gate_file [''hold''] [(''ok'', VBool True)] [(''x'', VInt 1)] =
     Inr (\<lparr>ga_action = ''pause'', ga_fired = [''hold''], ga_facts = [(''held'', VNil), (''ok'', VBool True)]\<rparr>,
          [(''held'', VNil), (''ok'', VBool True), (''x'', VInt 1)])"
  by code_simp

theorem gate_action_highest_witness:
  "\<exists>facts. filter (has_fired facts) [''hold''] = [''hold''] \<and> rule_action sample_hold = ''pause''"
proof (rule gate_eval_Inr [OF sample_gate_eval])
  fix rs src facts
  assume g: "gate_rules sample_gate_file [''hold''] = Inr rs" "gate_source sample_golib id rs = Inr src"
    "sample_grule src (new_fact_store (mcopy [(''ok'', VBool True)] (mcopy [(''x'', VInt 1)] []))) = Inr facts"
  from gate_action_highest [OF sample_gate_eval g] have "filter (has_fired facts) [''hold''] = [''hold'']"
    unfolding gate_result.simps by (elim conjE) (rule sym)
  moreover have "rule_action sample_hold = ''pause''" by code_simp
  ultimately show ?thesis by blast
qed

theorem gate_facts_context_witness:
  "mcopy [(''held'', VNil), (''ok'', VBool True)] [(''x'', VInt 1)] =
     [(''held'', VNil), (''ok'', VBool True), (''x'', VInt 1)]"
  using gate_facts_context [OF sample_gate_eval] by (simp add: mwf_def)

end
