(* ===== verification/Names.thy ===== *)
theory Names
  imports Json
begin

unbundle bit_operations_syntax

text \<open>
  Names and fingerprints: SHA-256 of \<open>crypto/sha256\<close> on 32-bit words (the code uses it for job
  names, definition hashes, decision keys and source digests), and the Kubernetes name and label
  rules of \<open>pkg/engine/engine.go\<close> (\<open>sanitizeK8sName\<close>, \<open>sanitizeK8sLabel\<close>, \<open>injectJobMeta\<close>).
\<close>

subsection \<open>SHA-256\<close>

type_synonym w32 = "32 word"

text \<open>The first 32 bits of the fractional parts of the cube roots of the first 64 primes, in decimal.\<close>

definition sha_k :: "w32 list" where
  "sha_k =
    [1116352408, 1899447441, 3049323471, 3921009573, 961987163, 1508970993, 2453635748, 2870763221,
     3624381080, 310598401, 607225278, 1426881987, 1925078388, 2162078206, 2614888103, 3248222580,
     3835390401, 4022224774, 264347078, 604807628, 770255983, 1249150122, 1555081692, 1996064986,
     2554220882, 2821834349, 2952996808, 3210313671, 3336571891, 3584528711, 113926993, 338241895,
     666307205, 773529912, 1294757372, 1396182291, 1695183700, 1986661051, 2177026350, 2456956037,
     2730485921, 2820302411, 3259730800, 3345764771, 3516065817, 3600352804, 4094571909, 275423344,
     430227734, 506948616, 659060556, 883997877, 958139571, 1322822218, 1537002063, 1747873779,
     1955562222, 2024104815, 2227730452, 2361852424, 2428436474, 2756734187, 3204031479, 3329325298]"

definition rotr :: "nat \<Rightarrow> w32 \<Rightarrow> w32" where
  "rotr n w = drop_bit n w OR push_bit (32 - n) w"

record sha_state =
  sh_a :: w32
  sh_b :: w32
  sh_c :: w32
  sh_d :: w32
  sh_e :: w32
  sh_f :: w32
  sh_g :: w32
  sh_h :: w32

definition sha_start :: sha_state where
  "sha_start = \<lparr>sh_a = 0x6a09e667, sh_b = 0xbb67ae85, sh_c = 0x3c6ef372, sh_d = 0xa54ff53a,
     sh_e = 0x510e527f, sh_f = 0x9b05688c, sh_g = 0x1f83d9ab, sh_h = 0x5be0cd19\<rparr>"

definition sha_round :: "w32 \<times> w32 \<Rightarrow> sha_state \<Rightarrow> sha_state" where
  "sha_round kw s =
     (let s1 = rotr 6 (sh_e s) XOR rotr 11 (sh_e s) XOR rotr 25 (sh_e s);
          ch = (sh_e s AND sh_f s) XOR (NOT (sh_e s) AND sh_g s);
          t1 = sh_h s + s1 + ch + fst kw + snd kw;
          s0 = rotr 2 (sh_a s) XOR rotr 13 (sh_a s) XOR rotr 22 (sh_a s);
          maj = (sh_a s AND sh_b s) XOR (sh_a s AND sh_c s) XOR (sh_b s AND sh_c s)
      in \<lparr>sh_a = t1 + s0 + maj, sh_b = sh_a s, sh_c = sh_b s, sh_d = sh_c s, sh_e = sh_d s + t1,
          sh_f = sh_e s, sh_g = sh_f s, sh_h = sh_g s\<rparr>)"

definition sha_add :: "sha_state \<Rightarrow> sha_state \<Rightarrow> sha_state" where
  "sha_add s t = \<lparr>sh_a = sh_a s + sh_a t, sh_b = sh_b s + sh_b t, sh_c = sh_c s + sh_c t,
     sh_d = sh_d s + sh_d t, sh_e = sh_e s + sh_e t, sh_f = sh_f s + sh_f t, sh_g = sh_g s + sh_g t,
     sh_h = sh_h s + sh_h t\<rparr>"

text \<open>The message schedule, newest word first.\<close>

fun sha_extend :: "nat \<Rightarrow> w32 list \<Rightarrow> w32 list" where
  "sha_extend 0 ws = ws"
| "sha_extend (Suc n) ws =
     (let a = ws ! 14; b = ws ! 1;
          s0 = rotr 7 a XOR rotr 18 a XOR drop_bit 3 a;
          s1 = rotr 17 b XOR rotr 19 b XOR drop_bit 10 b
      in sha_extend n ((s1 + ws ! 6 + s0 + ws ! 15) # ws))"

definition sha_block :: "w32 list \<Rightarrow> sha_state \<Rightarrow> sha_state" where
  "sha_block ws s = sha_add s (fold sha_round (zip sha_k (rev (sha_extend 48 (rev ws)))) s)"

fun bytes_words :: "nat list \<Rightarrow> w32 list" where
  "bytes_words (a # b # c # d # bs) =
     word_of_nat (((a * 256 + b) * 256 + c) * 256 + d) # bytes_words bs"
| "bytes_words _ = []"

definition sha_pad :: "nat list \<Rightarrow> nat list" where
  "sha_pad bs =
     (let n = length bs; zeros = (119 - n mod 64) mod 64 in
      bs @ [128] @ replicate zeros 0
         @ map (\<lambda>i. (8 * n) div 256 ^ (7 - i) mod 256) [0..<8])"

function sha_blocks :: "w32 list \<Rightarrow> sha_state \<Rightarrow> sha_state" where
  "sha_blocks ws s = (if ws = [] then s else sha_blocks (drop 16 ws) (sha_block (take 16 ws) s))"
  by pat_completeness auto
termination
  by (relation "measure (\<lambda>(ws, s). length ws)") auto

declare sha_blocks.simps [simp del]

definition sha256 :: "string \<Rightarrow> w32 list" where
  "sha256 msg =
     (let s = sha_blocks (bytes_words (sha_pad (map of_char msg))) sha_start
      in [sh_a s, sh_b s, sh_c s, sh_d s, sh_e s, sh_f s, sh_g s, sh_h s])"

definition word_hex :: "w32 \<Rightarrow> string" where
  "word_hex w = map (\<lambda>i. hex_digit (unat (drop_bit (4 * (7 - i)) w) mod 16)) [0..<8]"

text \<open>\<open>hex.EncodeToString(sum[:])\<close>\<close>

definition sha_hex :: "string \<Rightarrow> string" where
  "sha_hex msg = concat (map word_hex (sha256 msg))"

definition lower_hex :: "char \<Rightarrow> bool" where
  "lower_hex c = (is_digit c \<or> (CHR ''a'' \<le> c \<and> c \<le> CHR ''f''))"

lemma hex_digit_lower: "n < 16 \<Longrightarrow> lower_hex (hex_digit n)"
proof -
  have "\<forall>n<16. lower_hex (hex_digit n)" by code_simp
  then show "n < 16 \<Longrightarrow> lower_hex (hex_digit n)" by blast
qed

lemma length_sha_hex: "length (sha_hex msg) = 64"
  by (simp add: sha_hex_def sha256_def word_hex_def Let_def)

lemma sha_hex_lower: "c \<in> set (sha_hex msg) \<Longrightarrow> lower_hex c"
  by (auto simp: sha_hex_def word_hex_def intro: hex_digit_lower)

subsection \<open>Kubernetes names\<close>

definition k8s_name_char :: "char \<Rightarrow> bool" where
  "k8s_name_char c = (is_lower c \<or> is_digit c \<or> c = CHR ''-'' \<or> c = CHR ''.'')"

definition dash :: char where "dash = CHR ''-''"

text \<open>\<open>for strings.Contains(s, "--")\<close>: replacing pairs until there are none.\<close>

lemma replace_all_hit:
  "has_prefix s old \<Longrightarrow> s \<noteq> [] \<Longrightarrow> old \<noteq> [] \<Longrightarrow>
     replace_all old new s = new @ replace_all old new (drop (length old) s)"
  by (subst replace_all.simps) simp

lemma replace_all_miss:
  "\<not> has_prefix (c # t) old \<Longrightarrow> replace_all old new (c # t) = c # replace_all old new t"
  by (subst replace_all.simps) auto

lemma replace_dashes_cases:
  obtains "s = []" | t where "s = dash # dash # t" "replace_all [dash, dash] [dash] s = dash # replace_all [dash, dash] [dash] t"
  | c t where "s = c # t" "\<not> has_prefix (c # t) [dash, dash]"
      "replace_all [dash, dash] [dash] s = c # replace_all [dash, dash] [dash] t"
proof (cases s)
  case Nil
  then show ?thesis using that by blast
next
  case (Cons c t)
  show ?thesis
  proof (cases "has_prefix (c # t) [dash, dash]")
    case True
    then obtain u where "s = dash # dash # u" using Cons by (auto simp: has_prefix_iff)
    then show ?thesis using that(2) [of u] replace_all_hit [of s "[dash, dash]" "[dash]"] by simp
  next
    case False
    then show ?thesis using that(3) [of c t] replace_all_miss Cons by blast
  qed
qed

lemma length_replace_dashes: "length (replace_all [dash, dash] [dash] s) \<le> length s"
proof (induction s rule: length_induct)
  case (1 s)
  show ?case
  proof (rule replace_dashes_cases [of s])
    fix t assume a: "s = dash # dash # t" "replace_all [dash, dash] [dash] s = dash # replace_all [dash, dash] [dash] t"
    then have "length (replace_all [dash, dash] [dash] t) \<le> length t" using 1 by simp
    with a show ?thesis by simp
  qed (use 1 in auto)
qed

lemma length_replace_dashes_less:
  "contains s [dash, dash] \<Longrightarrow> length (replace_all [dash, dash] [dash] s) < length s"
proof (induction s rule: length_induct)
  case (1 s)
  show ?case
  proof (rule replace_dashes_cases [of s])
    assume "s = []"
    then show ?thesis using "1.prems" by simp
  next
    fix t assume "s = dash # dash # t" "replace_all [dash, dash] [dash] s = dash # replace_all [dash, dash] [dash] t"
    then show ?thesis using length_replace_dashes [of t] by simp
  next
    fix c t assume a: "s = c # t" "\<not> has_prefix (c # t) [dash, dash]"
      "replace_all [dash, dash] [dash] s = c # replace_all [dash, dash] [dash] t"
    then have "contains t [dash, dash]" using "1.prems" unfolding a(1) contains.simps by blast
    with a "1.IH" show ?thesis by simp
  qed
qed

function collapse_dashes :: "string \<Rightarrow> string" where
  "collapse_dashes s =
     (if contains s [dash, dash] then collapse_dashes (replace_all [dash, dash] [dash] s) else s)"
  by pat_completeness auto
termination
  by (relation "measure length") (auto intro: length_replace_dashes_less)

declare collapse_dashes.simps [simp del]

definition k8s_char :: "char \<Rightarrow> char" where
  "k8s_char c = (let l = lower_char c in
     if l = CHR ''_'' \<or> l = CHR '' '' then dash else if k8s_name_char l then l else dash)"

definition dash_dot :: "char \<Rightarrow> bool" where
  "dash_dot c = (c = dash \<or> c = CHR ''.'')"

definition sanitize_k8s_name :: "string \<Rightarrow> nat \<Rightarrow> string" where
  "sanitize_k8s_name s0 max_len =
     (let s = trim_fn dash_dot (collapse_dashes (map k8s_char s0)) in
      if length s > max_len then
        (let suffix = take 8 (sha_hex s) in
         trim_right_fn dash_dot (take (max_len - length suffix - 1) s @ [dash] @ suffix))
      else s)"

definition label_trim :: "char \<Rightarrow> bool" where
  "label_trim c = (c = dash \<or> c = CHR ''.'' \<or> c = CHR ''_'')"

definition label_char :: "char \<Rightarrow> char" where
  "label_char c = (if c = CHR ''_'' \<or> c = CHR '' '' then dash else c)"

definition sanitize_k8s_label :: "string \<Rightarrow> nat \<Rightarrow> string" where
  "sanitize_k8s_label s0 max_len = trim_fn label_trim (take max_len (map label_char s0))"

definition inject_job_meta :: "gomap \<Rightarrow> string \<Rightarrow> string \<Rightarrow> string \<Rightarrow> gomap" where
  "inject_job_meta params run wname sname =
     (let prefix = (if str_or_empty params ''name_prefix'' \<noteq> [] then str_or_empty params ''name_prefix'' else ''markov'');
          named = (if mget params ''_job_name'' \<noteq> None then params
             else mput ''_job_name'' (VStr (sanitize_k8s_name (prefix @ ''-'' @ run @ ''-'' @ sname) 63)) params);
          labels = (case mget named ''_labels'' of Some (VSMap m) \<Rightarrow> m | _ \<Rightarrow> [])
      in mput ''_labels'' (VSMap (mput ''markov/step'' (sanitize_k8s_label sname 63)
           (mput ''markov/workflow'' (sanitize_k8s_label wname 63)
           (mput ''markov/run-id'' (sanitize_k8s_label run 63) (mput ''app'' ''markov'' labels))))) named)"

subsection \<open>What a sanitized name looks like\<close>

lemma k8s_char_ok: "k8s_name_char (k8s_char c)"
  by (simp add: k8s_char_def Let_def) (simp add: k8s_name_char_def dash_def)

lemma set_replace_dashes: "set (replace_all [dash, dash] [dash] s) \<subseteq> set s"
proof (induction s rule: length_induct)
  case (1 s)
  show ?case
  proof (rule replace_dashes_cases [of s])
    fix t assume a: "s = dash # dash # t" "replace_all [dash, dash] [dash] s = dash # replace_all [dash, dash] [dash] t"
    then have "set (replace_all [dash, dash] [dash] t) \<subseteq> set t" using "1.IH" by simp
    with a show ?thesis by auto
  next
    fix c t assume a: "s = c # t" "replace_all [dash, dash] [dash] s = c # replace_all [dash, dash] [dash] t"
    then have "set (replace_all [dash, dash] [dash] t) \<subseteq> set t" using "1.IH" by simp
    with a show ?thesis by auto
  qed simp
qed

lemma collapse_dashes_result:
  "\<not> contains (collapse_dashes s) [dash, dash] \<and> set (collapse_dashes s) \<subseteq> set s"
proof (induction s rule: collapse_dashes.induct)
  case (1 s)
  show ?case
  proof (cases "contains s [dash, dash]")
    case True
    with 1 set_replace_dashes [of s] show ?thesis
      by (subst (1 2) collapse_dashes.simps) auto
  next
    case False
    then show ?thesis by (subst (1 2) collapse_dashes.simps) simp
  qed
qed

lemma lower_hex_name: "lower_hex c \<Longrightarrow> k8s_name_char c \<and> \<not> dash_dot c"
  by (auto simp: lower_hex_def k8s_name_char_def is_lower_def is_digit_def dash_dot_def dash_def
      less_eq_char_def)

lemma trim_right_last_ok: "s \<noteq> [] \<Longrightarrow> \<not> F (last s) \<Longrightarrow> trim_right_fn F s = s"
  by (cases s rule: rev_cases) (simp_all add: trim_right_fn_def)

text \<open>A sanitized job name fits the limit, its characters are lower-case letters, digits,
  dashes and dots, and unless it is empty it starts and ends with a letter or digit.\<close>

lemma sanitize_k8s_name_ok:
  assumes "10 \<le> max_len"
  shows "length (sanitize_k8s_name s max_len) \<le> max_len \<and>
    (\<forall>c\<in>set (sanitize_k8s_name s max_len). k8s_name_char c) \<and>
    (sanitize_k8s_name s max_len \<noteq> [] \<longrightarrow>
       \<not> dash_dot (hd (sanitize_k8s_name s max_len)) \<and> \<not> dash_dot (last (sanitize_k8s_name s max_len)))"
proof -
  define t where "t = trim_fn dash_dot (collapse_dashes (map k8s_char s))"
  have chars: "\<forall>c\<in>set t. k8s_name_char c"
    using set_trim_fn [of dash_dot "collapse_dashes (map k8s_char s)"]
      collapse_dashes_result [of "map k8s_char s"]
    by (auto simp: t_def k8s_char_ok)
  have hd: "t \<noteq> [] \<Longrightarrow> \<not> dash_dot (hd t)" and last: "t \<noteq> [] \<Longrightarrow> \<not> dash_dot (last t)"
    using trim_fn_hd [of dash_dot] trim_right_fn_last [of dash_dot] by (auto simp: t_def trim_fn_def)
  show ?thesis
  proof (cases "length t > max_len")
    case False
    then have "sanitize_k8s_name s max_len = t"
      by (simp add: sanitize_k8s_name_def Let_def t_def)
    with False chars hd last show ?thesis by simp
  next
    case True
    define x where "x = take (max_len - 9) t @ [dash] @ take 8 (sha_hex t)"
    have l8: "length (take 8 (sha_hex t)) = 8" by (simp add: length_sha_hex)
    have hex: "c \<in> set (take 8 (sha_hex t)) \<Longrightarrow> k8s_name_char c \<and> \<not> dash_dot c" for c
      using in_set_takeD [of c 8 "sha_hex t"] sha_hex_lower lower_hex_name by blast
    have ne: "take 8 (sha_hex t) \<noteq> []" using l8 by (metis length_0_conv zero_neq_numeral)
    have lastx: "\<not> dash_dot (last x)"
      using hex [of "last (take 8 (sha_hex t))"] ne by (simp add: x_def)
    have "trim_right_fn dash_dot x = x"
      using lastx by (intro trim_right_last_ok) (simp_all add: x_def)
    then have res: "sanitize_k8s_name s max_len = x"
      using True l8 by (simp add: sanitize_k8s_name_def Let_def t_def [symmetric] x_def)
    have take: "take (max_len - 9) t \<noteq> []" "hd (take (max_len - 9) t) = hd t"
      using True assms by auto
    then have hdx: "hd x = hd t" by (simp add: x_def)
    have "length x \<le> max_len" using True assms l8 by (simp add: x_def)
    moreover have "\<forall>c\<in>set x. k8s_name_char c"
      using chars hex by (auto simp: x_def k8s_name_char_def dash_def dest: in_set_takeD)
    ultimately show ?thesis
      unfolding res hdx using hd lastx take by auto
  qed
qed

lemma sanitize_k8s_name_ok_witness:
  "length (sanitize_k8s_name ''My_Step 1'' 63) \<le> 63"
  using sanitize_k8s_name_ok [of 63 "''My_Step 1''"] by simp

text \<open>Dots are kept where they are, so a name can have an empty part between two dots, which
  Kubernetes refuses.\<close>

lemma sanitize_k8s_name_dots: "sanitize_k8s_name ''a..b'' 63 = ''a..b''"
  by code_simp

text \<open>Labels are cut but not cleaned: a slash, which no label value may hold, stays.\<close>

lemma sanitize_k8s_label_slash: "sanitize_k8s_label ''a/b'' 63 = ''a/b''"
  by code_simp

end
