(* ===== verification/Artifacts_Md.thy ===== *)
theory Artifacts_Md
  imports Workflow_File Fact_Store
begin

text \<open>
  Artifacts (\<open>pkg/engine/artifacts.go\<close>): loading files into the context as text, YAML, markdown
  with front matter, or a markdown table. Reading a file, locally or through a pod, and the YAML
  library are parameters. A read fails as missing (what \<open>os.IsNotExist\<close> accepts) or with a
  text. Lines are assumed to be shorter than the 64 KB of \<open>bufio.Scanner\<close>. Artifacts are loaded
  in key order; which of two failing ones is reported is Go's choice.
\<close>

datatype read_error = Missing string | ReadError string

fun read_error_text :: "read_error \<Rightarrow> string" where
  "read_error_text (Missing e) = e"
| "read_error_text (ReadError e) = e"

record artifact_io =
  ai_read_file :: "string \<Rightarrow> read_error + string"
  ai_read_k8s :: "string \<Rightarrow> string + string"
  ai_has_k8s :: bool
  ai_yaml :: "string \<Rightarrow> string + gomap"

definition read_artifact :: "artifact_io \<Rightarrow> string \<Rightarrow> string \<Rightarrow> string \<Rightarrow> read_error + string" where
  "read_artifact A namespace path source =
     (if source = ''local'' then ai_read_file A path
      else if source = ''k8s'' then
        (if \<not> ai_has_k8s A \<or> namespace = [] then Inl (ReadError ''k8s client not available for source: k8s'')
         else map_sum ReadError id (ai_read_k8s A path))
      else if ai_has_k8s A \<and> namespace \<noteq> [] then map_sum ReadError id (ai_read_k8s A path)
      else ai_read_file A path)"

subsection \<open>Markdown\<close>

text \<open>The lines a scanner gives: a final line without a newline counts, an empty one does not,
  and a carriage return at the end of a line is dropped.\<close>

definition drop_cr :: "string \<Rightarrow> string" where
  "drop_cr s = (if s \<noteq> [] \<and> last s = CHR 0x0D then butlast s else s)"

definition scan_lines :: "string \<Rightarrow> string list" where
  "scan_lines s =
     (let ps = split_on (CHR 0x0A) s in
      map drop_cr (if last ps = [] then butlast ps else ps))"

definition is_fence :: "string \<Rightarrow> bool" where
  "is_fence l = (trim_space l = ''---'')"

definition nl :: string where "nl = [CHR 0x0A]"

definition parse_markdown :: "(string \<Rightarrow> string + gomap) \<Rightarrow> string \<Rightarrow> gomap option \<times> string" where
  "parse_markdown yaml raw = (case scan_lines raw of
     [] \<Rightarrow> (None, raw)
   | l # ls \<Rightarrow>
       if \<not> is_fence l then (None, raw)
       else (case yaml (join nl (takeWhile (\<lambda>x. \<not> is_fence x) ls)) of
           Inl e \<Rightarrow> (None, raw)
         | Inr fm \<Rightarrow> (Some fm, join nl (drop 1 (dropWhile (\<lambda>x. \<not> is_fence x) ls)))))"

definition snake_case :: "string \<Rightarrow> string" where
  "snake_case s =
     map (\<lambda>c. if c = CHR '' '' \<or> c = CHR ''-'' then CHR ''_'' else c) (to_lower (trim_space s))"

definition split_table_row :: "string \<Rightarrow> string list" where
  "split_table_row line = map trim_space (split_on (CHR ''|'') (trim_fn (\<lambda>c. c = CHR ''|'') line))"

definition is_rule_row :: "string list \<Rightarrow> bool" where
  "is_rule_row cells = (cells \<noteq> [] \<and> trim_fn (\<lambda>c. c = CHR ''-'' \<or> c = CHR '' '') (hd cells) = [])"

definition table_row :: "string list \<Rightarrow> string list \<Rightarrow> gomap" where
  "table_row headers cells = fold (\<lambda>(h, c). mput h (VStr c)) (zip headers cells) []"

fun table_lines :: "string list \<Rightarrow> string list option \<Rightarrow> gomap list \<Rightarrow> string list \<times> gomap list" where
  "table_lines [] hs rows = (case hs of None \<Rightarrow> ([], rows) | Some h \<Rightarrow> (h, rows))"
| "table_lines (l # ls) hs rows =
     (let line = trim_space l; cells = split_table_row line in
      if \<not> has_prefix line ''|'' then table_lines ls hs rows
      else (case hs of
          None \<Rightarrow> table_lines ls (Some (map snake_case cells)) rows
        | Some h \<Rightarrow>
            if is_rule_row cells then table_lines ls hs rows
            else table_lines ls hs (rows @ [table_row h cells])))"

definition table_column :: "gomap list \<Rightarrow> string \<Rightarrow> string" where
  "table_column rows h = join '','' (concat (map (\<lambda>r. case mget r h of Some (VStr v) \<Rightarrow> [v] | _ \<Rightarrow> []) rows))"

definition parse_markdown_table :: "string \<Rightarrow> gomap" where
  "parse_markdown_table raw =
     (let (headers, rows) = table_lines (split_on (CHR 0x0A) raw) None [] in
      fold (\<lambda>h. mput h (VStr (table_column rows h))) headers [(''rows'', VMaps rows)])"

subsection \<open>Loading\<close>

definition frontmatter_value :: "gomap option \<times> string \<Rightarrow> val" where
  "frontmatter_value p = VMap [(''content'', VStr (snd p)),
     (''frontmatter'', case fst p of None \<Rightarrow> VMap [] | Some m \<Rightarrow> VMap m)]"

definition artifact_value :: "artifact_io \<Rightarrow> string \<Rightarrow> string \<Rightarrow> string \<Rightarrow> string + val" where
  "artifact_value A name fmt data =
     (if fmt = ''yaml'' then
        map_sum (\<lambda>e. ''artifact '' @ quoted name @ '': parsing YAML: '' @ e) VMap (ai_yaml A data)
      else if fmt = ''markdown'' then Inr (frontmatter_value (parse_markdown (ai_yaml A) data))
      else if fmt = ''markdown_table'' then Inr (VMap (parse_markdown_table data))
      else Inr (VStr data))"

definition load_artifact :: "artifact_io \<Rightarrow> pongo \<Rightarrow> string \<Rightarrow> gomap \<Rightarrow> string \<times> artifact \<Rightarrow> string + string \<times> val" where
  "load_artifact A P namespace ctx na = (case na of (name, art) \<Rightarrow>
     (case render P (ar_path art) ctx of
        Inl e \<Rightarrow> Inl (''artifact '' @ quoted name @ '': rendering path: '' @ e)
      | Inr path \<Rightarrow> (case read_artifact A namespace path (ar_source art) of
          Inl err \<Rightarrow>
            if ar_optional art \<and> ((case err of Missing _ \<Rightarrow> True | _ \<Rightarrow> False)
                 \<or> contains (read_error_text err) ''not found'')
            then Inr (name, VNil)
            else Inl (''artifact '' @ quoted name @ '': reading '' @ path @ '': '' @ read_error_text err)
        | Inr data \<Rightarrow> map_sum id (Pair name) (artifact_value A name (ar_format art) data))))"

definition load_artifacts ::
  "artifact_io \<Rightarrow> pongo \<Rightarrow> string \<Rightarrow> (string \<times> artifact) list \<Rightarrow> gomap \<Rightarrow> string + gomap" where
  "load_artifacts A P namespace arts ctx = map_try (load_artifact A P namespace ctx) arts"

subsection \<open>Properties\<close>

lemma load_artifacts_keys: "load_artifacts A P ns arts ctx = Inr m \<Longrightarrow> mkeys m = mkeys arts"
  unfolding load_artifacts_def map_try_Inr mkeys_def
proof (induction rule: list_all2_induct)
  case Nil
  then show ?case by simp
next
  case (Cons x xs y ys)
  obtain name art where x: "x = (name, art)" by (cases x)
  have "fst y = name"
    using Cons(1) unfolding x load_artifact_def prod.case
    by (auto split: sum.splits if_splits) (metis Pair_inject fst_conv map_sum.simps obj_sumE old.sum.inject(2) sum.distinct(1))
  with Cons x show ?case by simp
qed

text \<open>Front matter read back: text between two fences, and what follows the second.\<close>

definition plain_line :: "string \<Rightarrow> bool" where
  "plain_line l \<longleftrightarrow> CHR 0x0A \<notin> set l \<and> CHR 0x0D \<notin> set l"

lemma drop_cr_plain: "plain_line l \<Longrightarrow> drop_cr l = l"
  by (auto simp: drop_cr_def plain_line_def dest: last_in_set)

lemma scan_lines_join:
  assumes "\<forall>l\<in>set ls. plain_line l" "ls \<noteq> []" "last ls \<noteq> []"
  shows "scan_lines (join nl ls) = ls"
proof -
  have "split_on (CHR 0x0A) (join nl ls) = ls"
    unfolding nl_def using assms by (intro split_on_join) (auto simp: plain_line_def)
  moreover have "map drop_cr ls = ls"
    using assms(1) drop_cr_plain by (simp add: map_idI)
  ultimately show ?thesis using assms(3) by (simp add: scan_lines_def Let_def)
qed

text \<open>A markdown document written as a fence, front matter lines without a fence, a second
  fence and content lines is parsed into the YAML of those front matter lines and that content.\<close>

theorem parse_markdown_document:
  assumes "\<forall>l\<in>set (fm @ content). plain_line l" "\<forall>l\<in>set fm. \<not> is_fence l"
    and "yaml (join nl fm) = Inr m" "content \<noteq> []" "last content \<noteq> []"
  shows "parse_markdown yaml (join nl (''---'' # fm @ ''---'' # content)) = (Some m, join nl content)"
proof -
  let ?ls = "''---'' # fm @ ''---'' # content"
  have fence: "is_fence ''---''" by code_simp
  have "\<forall>l\<in>set ?ls. plain_line l" using assms(1) by (auto simp: plain_line_def)
  then have "scan_lines (join nl ?ls) = ?ls"
    using assms(4,5) by (intro scan_lines_join) auto
  moreover have "takeWhile (\<lambda>x. \<not> is_fence x) (fm @ ''---'' # content) = fm"
    "dropWhile (\<lambda>x. \<not> is_fence x) (fm @ ''---'' # content) = ''---'' # content"
    using assms(2) fence by (induction fm) auto
  ultimately show ?thesis
    using assms(3) fence by (simp add: parse_markdown_def)
qed

theorem parse_markdown_document_witness:
  "parse_markdown (\<lambda>s. Inr [(''text'', VStr s)]) (join nl [''---'', ''a: 1'', ''---'', ''Hello''])
     = (Some [(''text'', VStr ''a: 1'')], ''Hello'')"
proof -
  have a: "\<forall>l\<in>set ([''a: 1''] @ [''Hello'']). plain_line l" by (simp add: plain_line_def)
  have b: "\<forall>l\<in>set [''a: 1'']. \<not> is_fence l" by code_simp
  show ?thesis
    using parse_markdown_document [OF a b, of "\<lambda>s. Inr [(''text'', VStr s)]" "[(''text'', VStr ''a: 1'')]"]
    by simp
qed

end
