(* ===== verification/Engine_Base.thy ===== *)
theory Engine_Base
  imports State_Store Gate_Eval Names Artifacts_Md
begin

text \<open>
  What every part of the engine shares: errors, callback events (\<open>pkg/callback/callback.go\<close>),
  the engine's parameters and state, the names of step rows, definition hashes and the store
  wrapper that stamps them (\<open>pkg/engine/rewind.go\<close>), and \<open>failStep\<close>.

  The state is the store, the list of events fired so far, a clock that every \<open>time.Now\<close>
  advances, and an external world of any type that executors and the debugger hook act on.
  Parameters are: the library functions that are not modelled, the template engine, the parsed
  file, the order of ranges over maps, the rule engine, artifact input, the conditions with Jev
  functions (a program that may ask for decisions), the executors and the debugger. Errors keep
  what \<open>errors.As\<close> can see: a pause inside wrapped and joined errors. Timestamps and durations of
  events, log lines and failing callbacks (which the engine only logs) are not modelled, nor are
  failures of the database. Executors and callbacks run without concurrency here;
  \<open>Fan_Out\<close> has the interleavings of a for_each loop.
\<close>

subsection \<open>Errors\<close>

record pause_info =
  pi_workflow :: string
  pi_step :: string
  pi_fired :: "string list"
  pi_facts :: gomap

datatype gerr =
    Msg string
  | PauseErr pause_info
  | Wrap string gerr
  | Joined "gerr list"

fun err_text :: "gerr \<Rightarrow> string" where
  "err_text (Msg s) = s"
| "err_text (PauseErr p) = ''paused by gate step '' @ quoted (pi_step p)"
| "err_text (Wrap s e) = s @ err_text e"
| "err_text (Joined es) = join nl (map err_text es)"

text \<open>\<open>errors.As\<close>: the first pause found depth first.\<close>

fun pause_error :: "gerr \<Rightarrow> pause_info option" where
  "pause_error (Msg s) = None"
| "pause_error (PauseErr p) = Some p"
| "pause_error (Wrap s e) = pause_error e"
| "pause_error (Joined es) =
     (case dropWhile (\<lambda>r. r = None) (map pause_error es) of [] \<Rightarrow> None | r # _ \<Rightarrow> r)"

definition is_paused :: "gerr option \<Rightarrow> bool" where
  "is_paused e = (case e of None \<Rightarrow> False | Some e \<Rightarrow> pause_error e \<noteq> None)"

text \<open>\<open>errors.Join\<close> of non-nil errors: nil when there are none.\<close>

definition join_errors :: "gerr list \<Rightarrow> gerr option" where
  "join_errors es = (if es = [] then None else Some (Joined es))"

subsection \<open>Events\<close>

datatype event =
    RunStarted string string string string gomap int string
  | RunCompletedEv string string
  | RunFailedEv string string string
  | RunPausedEv string string pause_info
  | RunResumed string string int int string string string bool "(string \<times> string \<times> string) list" bool
  | StepStarted string string string string string gomap
  | StepCompletedEv string string string string "gomap option"
  | StepFailedEv string string string string string
  | StepSkippedEv string string string string
  | JobCreated string string string string string string
  | StepProgress string string string string string gomap
  | DebugEv string string string string gomap
  | GateEvaluated string string string string "string list" gomap
  | SubRunStarted string string string string string
  | SubRunCompleted string string string string string
  | SubRunFailed string string string string string string

subsection \<open>Parameters and state\<close>

datatype notice = Progress string gomap | JobMade string string

record exec_out =
  xo_output :: "gomap option"
  xo_error :: "string option"
  xo_notices :: "notice list"

text \<open>A condition with Jev functions: it ends with a verdict, or calls \<open>kind(name, state, refresh)\<close>
  and goes on with the answer.\<close>

datatype cond_prog =
    CondDone "string + bool"
  | CondAsk string string val "val list" "string + val \<Rightarrow> cond_prog"

record debug_point =
  dp_run :: string
  dp_workflow :: string
  dp_step :: string
  dp_type :: string
  dp_section :: string
  dp_iteration :: string
  dp_phase :: string

record 'w ext =
  x_lib :: golib
  x_pongo :: pongo
  x_file :: workflow_file
  x_order :: "gomap \<Rightarrow> gomap"
  x_grule :: "string \<Rightarrow> fact_store \<Rightarrow> string + fact_store"
  x_cond :: "string \<Rightarrow> gomap \<Rightarrow> cond_prog"
  x_artifacts :: artifact_io
  x_exec :: "(string \<times> (gomap \<Rightarrow> int \<Rightarrow> 'w \<Rightarrow> exec_out \<times> 'w)) list"
  x_debug :: "(debug_point \<Rightarrow> gomap \<Rightarrow> gomap option \<Rightarrow> 'w \<Rightarrow> string option \<times> 'w) option"
  x_forks :: int
  x_source_path :: string
  x_source_digest :: string

record 'w eng =
  en_store :: store
  en_events :: "event list"
  en_clock :: int
  en_world :: 'w

definition now :: "'w eng \<Rightarrow> int \<times> 'w eng" where
  "now s = (en_clock s, s\<lparr>en_clock := en_clock s + 1\<rparr>)"

definition fire :: "event \<Rightarrow> 'w eng \<Rightarrow> 'w eng" where
  "fire e s = s\<lparr>en_events := en_events s @ [e]\<rparr>"

definition with_store :: "(store \<Rightarrow> store) \<Rightarrow> 'w eng \<Rightarrow> 'w eng" where
  "with_store f s = s\<lparr>en_store := f (en_store s)\<rparr>"

definition set_world :: "'w \<Rightarrow> 'w eng \<Rightarrow> 'w eng" where
  "set_world w s = s\<lparr>en_world := w\<rparr>"

subsection \<open>Steps by the name of their row\<close>

definition section_steps :: "workflow \<Rightarrow> string \<Rightarrow> step list" where
  "section_steps w section =
     (if section = ''rescue'' then wf_rescue w
      else if section = ''always'' then wf_always w else wf_steps w)"

definition names_row :: "string \<Rightarrow> step \<Rightarrow> bool" where
  "names_row rest s = (rest = st_name s \<or> (has_prefix rest (st_name s @ ''['') \<and> has_suffix rest '']''))"

definition better :: "string \<Rightarrow> string \<Rightarrow> step \<Rightarrow> (step \<times> string) option \<Rightarrow> (step \<times> string) option" where
  "better section rest s best =
     (if names_row rest s \<and> (case best of None \<Rightarrow> True | Some (b, _) \<Rightarrow> length (st_name s) > length (st_name b))
      then Some (s, section) else best)"

definition find_in_section :: "workflow \<Rightarrow> string \<Rightarrow> string \<Rightarrow> (step \<times> string) option \<Rightarrow> (step \<times> string) option" where
  "find_in_section w state_name section best =
     (if section = ''steps'' then fold (better section state_name) (wf_steps w) best
      else if has_prefix state_name (section @ ''/'')
      then fold (better section (trim_prefix state_name (section @ ''/''))) (section_steps w section) best
      else best)"

definition find_step :: "workflow_file \<Rightarrow> string \<Rightarrow> string \<Rightarrow> (step \<times> string) option" where
  "find_step f wname state_name = (case get_workflow (fi_workflows f) wname of
     None \<Rightarrow> None
   | Some w \<Rightarrow>
       if has_prefix state_name ''__jev__/'' then None
       else fold (find_in_section w state_name) [''steps'', ''rescue'', ''always''] None)"

subsection \<open>Definition hashes\<close>

text \<open>The JSON of a step struct: its Go field names in order. A nil map or slice prints as null;
  the model does not tell nil from empty, so an empty one counts as nil, as the YAML decoder
  leaves it for an absent field.\<close>

definition jmap :: "golib \<Rightarrow> gomap \<Rightarrow> jv option" where
  "jmap G m = (if m = [] then Some JNull else jv_of G (VMap m))"

definition jstrs :: "string list \<Rightarrow> jv" where
  "jstrs ss = (if ss = [] then JNull else JArr (map JStr ss))"

definition jartifact :: "artifact \<Rightarrow> jv" where
  "jartifact a = JObj [(''Path'', JStr (ar_path a)), (''Format'', JStr (ar_format a)),
     (''Source'', JStr (ar_source a)), (''Optional'', JBool (ar_optional a))]"

definition jstep :: "golib \<Rightarrow> step \<Rightarrow> jv option" where
  "jstep G s = (case (jmap G (st_params s), jmap G (st_vars s), jmap G (st_facts s)) of
     (Some ps, Some vs, Some fs) \<Rightarrow> Some (JObj
       [(''Name'', JStr (st_name s)), (''Description'', JStr (st_description s)),
        (''Type'', JStr (st_type s)), (''Params'', ps), (''When'', JStr (st_when s)),
        (''Register'', JStr (st_register s)), (''Timeout'', JNum (int_text (st_timeout s))),
        (''ForEach'', JStr (st_for_each s)), (''ForEachKey'', JStr (st_for_each_key s)),
        (''ForEachSort'', JStr (st_for_each_sort s)), (''ForEachWhen'', JStr (st_for_each_when s)),
        (''As'', JStr (st_as s)), (''Concurrency'', JNum (int_text (st_concurrency s))),
        (''Workflow'', JStr (st_workflow s)), (''WorkflowNames'', jstrs (st_workflow_names s)),
        (''Vars'', vs),
        (''Artifacts'', if st_artifacts s = [] then JNull
           else JObj (map (\<lambda>e. (fst e, jartifact (snd e))) (st_artifacts s))),
        (''That'', jstrs (st_that s)), (''Msg'', JStr (st_msg s)), (''Rules'', jstrs (st_rules s)),
        (''Facts'', fs), (''IgnoreErrors'', JBool (st_ignore_errors s)),
        (''FailedWhen'', JStr (st_failed_when s))])
   | _ \<Rightarrow> None)"

definition jstep_type :: "golib \<Rightarrow> step_type \<Rightarrow> jv option" where
  "jstep_type G t = (case (jmap G (ty_defaults t), jmap G (ty_job t), jmap G (ty_params t)) of
     (Some d, Some j, Some p) \<Rightarrow> Some (JObj
       [(''Base'', JStr (ty_base t)), (''Description'', JStr (ty_description t)), (''Defaults'', d),
        (''Job'', j), (''Params'', p)])
   | _ \<Rightarrow> None)"

definition definition_hash :: "golib \<Rightarrow> workflow_file \<Rightarrow> step \<Rightarrow> string" where
  "definition_hash G f s =
     (let ty = (case mget (fi_step_types f) (st_type s) of None \<Rightarrow> Some JNull | Some t \<Rightarrow> jstep_type G t) in
      case (jstep G (s\<lparr>st_description := []\<rparr>), ty) of
        (Some js, Some jt) \<Rightarrow> take 16 (sha_hex (jtext (JObj [(''Step'', js), (''Type'', jt)])))
      | _ \<Rightarrow> [])"

text \<open>The store wrapper: every saved row gets the hash of its definition.\<close>

definition stamp_row :: "golib \<Rightarrow> workflow_file \<Rightarrow> step_row \<Rightarrow> step_row" where
  "stamp_row G f r =
     (if sr_definition_hash r = [] then
        (case find_step f (sr_workflow_name r) (sr_step_name r) of
           None \<Rightarrow> r
         | Some (s, section) \<Rightarrow> r\<lparr>sr_definition_hash := definition_hash G f s\<rparr>)
      else r)"

definition save_row :: "'w ext \<Rightarrow> step_row \<Rightarrow> 'w eng \<Rightarrow> 'w eng" where
  "save_row X r s = with_store (save_step (stamp_row (x_lib X) (x_file X) r)) s"

text \<open>A row as \<open>SaveStep\<close> gets it from the engine.\<close>

definition new_row :: "string \<Rightarrow> string \<Rightarrow> string \<Rightarrow> step_status \<Rightarrow> int \<Rightarrow> int option \<Rightarrow> step_row" where
  "new_row run wname sname status started completed =
     \<lparr>sr_run_id = run, sr_workflow_name = wname, sr_step_name = sname, sr_status = status,
      sr_output_json = [], sr_artifacts_json = [], sr_error = [], sr_started_at = Some started,
      sr_completed_at = completed, sr_definition_hash = []\<rparr>"

definition fail_step ::
  "'w ext \<Rightarrow> string \<Rightarrow> string \<Rightarrow> string \<Rightarrow> string \<Rightarrow> int \<Rightarrow> gerr \<Rightarrow> 'w eng \<Rightarrow> gerr option \<times> 'w eng" where
  "fail_step X run wname sname stype started err s =
     (let (t, s) = now s;
          s = save_row X ((new_row run wname sname StepFailed started (Some t))\<lparr>sr_error := err_text err\<rparr>) s;
          s = fire (StepFailedEv run wname sname stype (err_text err)) s
      in (Some err, s))"

text \<open>Looking a row up, and the store update of a run.\<close>

definition row_of :: "'w eng \<Rightarrow> string \<Rightarrow> string \<Rightarrow> string \<Rightarrow> step_row option" where
  "row_of s run wname sname = get_step (en_store s) run wname sname"

text \<open>\<open>e.store.CreateRun(ctx, subRun)\<close> with its error ignored.\<close>

definition create_run_ignored :: "run_row \<Rightarrow> 'w eng \<Rightarrow> 'w eng" where
  "create_run_ignored r s =
     with_store (\<lambda>st. case create_run r st of Inl e \<Rightarrow> st | Inr st' \<Rightarrow> st') s"

subsection \<open>The record fields the operations touch\<close>

lemma eng_frame [simp]:
  "en_store (fire e s) = en_store s" "en_world (fire e s) = en_world s" "en_clock (fire e s) = en_clock s"
  "en_events (fire e s) = en_events s @ [e]"
  "en_events (with_store f s) = en_events s" "en_world (with_store f s) = en_world s"
  "en_clock (with_store f s) = en_clock s" "en_store (with_store f s) = f (en_store s)"
  "en_store (set_world w s) = en_store s" "en_events (set_world w s) = en_events s"
  "en_store (snd (now s)) = en_store s" "en_events (snd (now s)) = en_events s"
  "en_world (snd (now s)) = en_world s" "fst (now s) = en_clock s"
  by (simp_all add: fire_def with_store_def set_world_def now_def)

lemma stamp_row_frame [simp]:
  "sr_run_id (stamp_row G f r) = sr_run_id r" "sr_workflow_name (stamp_row G f r) = sr_workflow_name r"
  "sr_step_name (stamp_row G f r) = sr_step_name r" "sr_status (stamp_row G f r) = sr_status r"
  "sr_output_json (stamp_row G f r) = sr_output_json r" "sr_artifacts_json (stamp_row G f r) = sr_artifacts_json r"
  "sr_error (stamp_row G f r) = sr_error r" "sr_completed_at (stamp_row G f r) = sr_completed_at r"
  "sr_started_at (stamp_row G f r) = sr_started_at r"
  by (simp_all add: stamp_row_def split: option.splits)

lemma step_key_stamp [simp]: "step_key (stamp_row G f r) = step_key r"
  by (simp add: step_key_def)

lemma new_row_sel [simp]:
  "sr_run_id (new_row run wname sname st a b) = run"
  "sr_workflow_name (new_row run wname sname st a b) = wname"
  "sr_step_name (new_row run wname sname st a b) = sname"
  "sr_status (new_row run wname sname st a b) = st"
  "sr_error (new_row run wname sname st a b) = []"
  by (simp_all add: new_row_def)

lemma row_of_save_row:
  "row_of (save_row X r s) run wname sname =
     (if step_key r = (run, wname, sname) then Some (stamp_row (x_lib X) (x_file X) r)
      else row_of s run wname sname)"
  by (simp add: row_of_def save_row_def get_step_save_step)

lemma row_of_frame [simp]:
  "row_of (fire e s) = row_of s" "row_of (set_world w s) = row_of s" "row_of (snd (now s)) = row_of s"
  by (simp_all add: row_of_def [abs_def])

lemma en_events_save_row [simp]: "en_events (save_row X r s) = en_events s"
  by (simp add: save_row_def)

lemma fail_step_err: "fst (fail_step X run wname sname ty t0 err s) = Some err"
  by (simp add: fail_step_def Let_def split: prod.splits)

lemma fail_step_row:
  "\<exists>r. row_of (snd (fail_step X run wname sname ty t0 err s)) run wname sname = Some r \<and>
     sr_status r = StepFailed \<and> sr_error r = err_text err"
  by (simp add: fail_step_def Let_def row_of_save_row step_key_def split: prod.splits)

lemma is_paused_simps [simp]:
  "is_paused None = False" "is_paused (Some e) = (pause_error e \<noteq> None)"
  by (simp_all add: is_paused_def)

lemma pause_error_Joined: "pause_error (Joined es) = None \<longleftrightarrow> (\<forall>e\<in>set es. pause_error e = None)"
  by (induction es) (auto split: list.splits)

subsection \<open>Finding the step of a row\<close>

lemma names_row_self [simp]: "names_row (st_name s) s"
  by (simp add: names_row_def)

lemma names_row_iteration [simp]: "names_row (st_name s @ ''['' @ k @ '']'') s"
  using has_suffix_append [of "st_name s @ ''['' @ k" "'']''"] has_prefix_append [of "st_name s @ ''[''"]
  by (simp add: names_row_def)

lemma fold_better:
  assumes "fold (better section rest) ss best = Some (s, sec)"
  shows "(best = Some (s, sec) \<or> (s \<in> set ss \<and> sec = section \<and> names_row rest s)) \<and>
    (\<forall>b c. best = Some (b, c) \<longrightarrow> length (st_name b) \<le> length (st_name s)) \<and>
    (\<forall>q\<in>set ss. names_row rest q \<longrightarrow> length (st_name q) \<le> length (st_name s))"
  using assms
proof (induction ss arbitrary: best)
  case Nil
  then show ?case by simp
next
  case (Cons q ss)
  let ?best = "better section rest q best"
  from Cons.prems have "fold (better section rest) ss ?best = Some (s, sec)" by simp
  note ih = Cons.IH [OF this]
  show ?case
  proof (cases "names_row rest q \<and> (case best of None \<Rightarrow> True | Some (b, _) \<Rightarrow> length (st_name q) > length (st_name b))")
    case True
    then have b: "?best = Some (q, section)" by (simp add: better_def)
    then have "length (st_name q) \<le> length (st_name s)" using ih by blast
    with ih b True show ?thesis by (auto split: option.splits)
  next
    case False
    then have b: "?best = best" by (simp only: better_def if_False)
    have "names_row rest q \<Longrightarrow> length (st_name q) \<le> length (st_name s)"
    proof -
      assume "names_row rest q"
      with False obtain b c where "best = Some (b, c)" "length (st_name q) \<le> length (st_name b)"
        by (auto split: option.splits)
      with ih b show ?thesis by (meson le_trans)
    qed
    with ih b show ?thesis by auto
  qed
qed

lemma fold_better_None:
  "fold (better section rest) ss best = None \<longleftrightarrow> best = None \<and> (\<forall>q\<in>set ss. \<not> names_row rest q)"
  by (induction ss arbitrary: best) (auto simp: better_def split: option.splits if_splits)

end
