(* ===== verification/Jev_Decisions.thy ===== *)
theory Jev_Decisions
  imports Engine_Base
begin

text \<open>
  Decisions (\<open>pkg/engine/jev.go\<close>): a decision is a durable child operation of a step. Its row is
  named by a hash of the step, the decision and its connection, the state it is asked about and a
  refresh token; a completed row is read instead of asking again. Decisions are asked by the
  facts of a gate and by conditions.
\<close>

definition omit_empty :: "(string \<times> jv) list \<Rightarrow> (string \<times> jv) list" where
  "omit_empty es = filter (\<lambda>e. snd e \<notin> {JStr [], JNum ''0''}) es"

definition jconnection :: "connection \<Rightarrow> jv" where
  "jconnection c = JObj ([(''type'', JStr (cn_type c)), (''base_url'', JStr (cn_base_url c)),
     (''model'', JStr (cn_model c))] @ omit_empty [(''api_key_env'', JStr (cn_api_key_env c)),
     (''api_key_file'', JStr (cn_api_key_file c)), (''timeout'', JNum (int_text (cn_timeout c))),
     (''concurrency'', JNum (int_text (cn_concurrency c)))])"

text \<open>An \<open>any\<close> field with omitempty: left out when nil.\<close>

definition jfield :: "golib \<Rightarrow> string \<Rightarrow> val \<Rightarrow> (string \<times> jv) list option" where
  "jfield G k v = (if v = VNil then Some [] else map_option (\<lambda>j. [(k, j)]) (jv_of G v))"

definition jdecision :: "golib \<Rightarrow> decision \<Rightarrow> jv option" where
  "jdecision G d = (case (jfield G ''instructions'' (dc_instructions d), jfield G ''criteria'' (dc_criteria d)) of
     (Some i, Some c) \<Rightarrow> Some (JObj ([(''connection'', JStr (dc_connection d)), (''type'', JStr (dc_type d))]
        @ i @ c @ omit_empty [(''version'', JStr (dc_version d))]))
   | _ \<Rightarrow> None)"

definition decision_identity :: "golib \<Rightarrow> string \<Rightarrow> string \<Rightarrow> decision \<Rightarrow> connection \<Rightarrow> val \<Rightarrow> val \<Rightarrow> string option" where
  "decision_identity G sname name d c input refresh =
     (case (jdecision G d, jv_of G input, jv_of G refresh) of
        (Some jd, Some ji, Some jr) \<Rightarrow> Some (jtext (JObj
          [(''connection'', jconnection c), (''definition'', jd), (''name'', JStr name), (''refresh'', jr),
           (''state'', ji), (''step'', JStr sname)]))
      | _ \<Rightarrow> None)"

definition decision_key :: "string \<Rightarrow> string \<Rightarrow> string" where
  "decision_key sname identity = ''__jev__/'' @ sname @ ''/'' @ sha_hex identity"

definition decision_answer :: "gomap \<Rightarrow> string + gomap" where
  "decision_answer out = (case mget out ''answers'' of
     Some (VMap answers) \<Rightarrow> (case mget answers ''result'' of
         Some (VMap answer) \<Rightarrow> Inr answer
       | _ \<Rightarrow> Inl ''decision receipt missing result'')
   | _ \<Rightarrow> Inl ''decision receipt missing answers'')"

text \<open>The question map as the client decodes it from JSON.\<close>

definition question_value :: "question \<Rightarrow> val" where
  "question_value q = VMap ((if q_criteria q = VNil then [] else [(''criteria'', q_criteria q)]) @
     (if q_instructions q = VNil then [] else [(''instructions'', q_instructions q)]) @
     [(''type'', VStr (q_type q))])"

definition decision_seconds :: "int \<Rightarrow> int" where
  "decision_seconds n = (if n \<le> 0 then 120 else n)"

definition read_receipt :: "golib \<Rightarrow> string \<Rightarrow> string + gomap" where
  "read_receipt G text = (case unmarshal G text of
     Some (VMap out) \<Rightarrow> decision_answer out
   | Some VNil \<Rightarrow> decision_answer []
   | _ \<Rightarrow> Inl ''reading decision receipt: invalid JSON'')"

definition receipt_row :: "string \<Rightarrow> string \<Rightarrow> string \<Rightarrow> step_status \<Rightarrow> string \<Rightarrow> int \<Rightarrow> int option \<Rightarrow> step_row" where
  "receipt_row run wname key status out started completed =
     (new_row run wname key status started completed)\<lparr>sr_output_json := out\<rparr>"

text \<open>Asking: the running row, the executor, and the completed row with the answer.\<close>

definition ask_decision ::
  "'w ext \<Rightarrow> string \<Rightarrow> string \<Rightarrow> string \<Rightarrow> string \<Rightarrow> decision \<Rightarrow> val \<Rightarrow> string \<Rightarrow> string \<Rightarrow> int
     \<Rightarrow> 'w eng \<Rightarrow> (gerr + gomap) \<times> 'w eng" where
  "ask_decision X run wname sname name d input key hash timeout s =
     (let (t0, s) = now s;
          s = save_row X (receipt_row run wname key StepRunning [] t0 None) s;
          s = fire (StepStarted run wname key ''jev'' ''jev'' []) s
      in case map_of (x_exec X) ''jev'' of
        None \<Rightarrow> (Inl (Msg ''Jev executor not registered''), s)
      | Some exec \<Rightarrow>
          let (res, w) = exec [(''connection'', VStr (dc_connection d)),
                (''questions'', VMap [(''result'', question_value (decision_question d))]), (''state'', input)]
                (decision_seconds timeout) (en_world s);
              s = set_world w s;
              out = (case xo_output res of None \<Rightarrow> [] | Some m \<Rightarrow> m);
              failed = (\<lambda>e. let (r, s) = fail_step X run wname key ''jev'' t0 (Msg e) s in (Inl (Msg e), s))
          in case xo_error res of
               Some e \<Rightarrow> failed e
             | None \<Rightarrow> (case decision_answer out of
                 Inl e \<Rightarrow> failed e
               | Inr answer \<Rightarrow>
                   let out = mput ''decision'' (VMap [(''fingerprint'', VStr hash), (''name'', VStr name),
                         (''parent_step'', VStr sname), (''version'', VStr (dc_version d))]) out
                   in case marshal (x_lib X) (VMap out) of
                        None \<Rightarrow> (Inl (Msg ''json: unsupported value''), s)
                      | Some text \<Rightarrow>
                          let (t1, s) = now s;
                              s = save_row X (receipt_row run wname key StepCompleted text t0 (Some t1)) s;
                              s = fire (StepCompletedEv run wname key ''jev'' (Some out)) s
                          in (map_sum Msg id (decision_answer out), s)))"

definition decision ::
  "'w ext \<Rightarrow> string \<Rightarrow> string \<Rightarrow> string \<Rightarrow> string \<Rightarrow> val \<Rightarrow> val \<Rightarrow> int \<Rightarrow> 'w eng \<Rightarrow> (gerr + gomap) \<times> 'w eng" where
  "decision X run wname sname name input refresh timeout s =
     (case mget (fi_decisions (x_file X)) name of
        None \<Rightarrow> (Inl (Msg (''unknown Jev decision '' @ quoted name)), s)
      | Some d \<Rightarrow>
          if input = VNil then (Inl (Msg (''decision '' @ quoted name @ '': state is required'')), s)
          else (case mget (fi_connections (x_file X)) (dc_connection d) of
              None \<Rightarrow> (Inl (Msg (''unknown Jev connection '' @ quoted (dc_connection d))), s)
            | Some c \<Rightarrow> (case decision_identity (x_lib X) sname name d c input refresh of
                None \<Rightarrow> (Inl (Msg ''json: unsupported value''), s)
              | Some identity \<Rightarrow>
                  let key = decision_key sname identity in
                  (case row_of s run wname key of
                     Some saved \<Rightarrow>
                       if sr_status saved = StepCompleted
                       then (map_sum Msg id (read_receipt (x_lib X) (sr_output_json saved)), s)
                       else ask_decision X run wname sname name d input key (sha_hex identity) timeout s
                   | None \<Rightarrow> ask_decision X run wname sname name d input key (sha_hex identity) timeout s))))"

subsection \<open>Facts and conditions\<close>

fun decision_facts ::
  "'w ext \<Rightarrow> string \<Rightarrow> string \<Rightarrow> string \<Rightarrow> int \<Rightarrow> string list \<Rightarrow> gomap \<Rightarrow> 'w eng \<Rightarrow> (gerr + gomap) \<times> 'w eng" where
  "decision_facts X run wname sname timeout [] facts s = (Inr facts, s)"
| "decision_facts X run wname sname timeout (n # ns) facts s =
     (case mget facts n of
        Some (VMap spec) \<Rightarrow> (case mget spec ''decision'' of
            None \<Rightarrow> decision_facts X run wname sname timeout ns facts s
          | Some (VStr dn) \<Rightarrow>
              (case decision X run wname sname dn (mget_nil spec ''state'') (mget_nil spec ''refresh'') timeout s of
                 (Inl e, s) \<Rightarrow> (Inl (Wrap (''fact '' @ quoted n @ '': '') e), s)
               | (Inr answer, s) \<Rightarrow>
                   let sel = (if str_or_empty spec ''select'' \<noteq> [] then str_or_empty spec ''select''
                        else case mget (fi_decisions (x_file X)) dn of None \<Rightarrow> [] | Some d \<Rightarrow> dc_type d)
                   in (case mget answer sel of
                        None \<Rightarrow> (Inl (Msg (''decision '' @ quoted dn @ '' has no field '' @ quoted sel)), s)
                      | Some v \<Rightarrow> decision_facts X run wname sname timeout ns (mput n v facts) s))
          | Some _ \<Rightarrow> (Inl (Msg (''fact '' @ quoted n @ '': invalid decision name'')), s))
      | _ \<Rightarrow> decision_facts X run wname sname timeout ns facts s)"

definition resolve_decision_facts ::
  "'w ext \<Rightarrow> string \<Rightarrow> string \<Rightarrow> string \<Rightarrow> gomap \<Rightarrow> gomap \<Rightarrow> int \<Rightarrow> 'w eng \<Rightarrow> (gerr + gomap) \<times> 'w eng" where
  "resolve_decision_facts X run wname sname facts ctx timeout s =
     (case render_map (x_lib X) (x_pongo X) facts ctx of
        Inl e \<Rightarrow> (Inl (Msg e), s)
      | Inr rendered \<Rightarrow> decision_facts X run wname sname timeout (sort (mkeys rendered)) rendered s)"

definition answer_kind ::
  "'w ext \<Rightarrow> string \<Rightarrow> string \<Rightarrow> string \<Rightarrow> int \<Rightarrow> string \<Rightarrow> string \<Rightarrow> val \<Rightarrow> val list \<Rightarrow> 'w eng
     \<Rightarrow> (string + val) \<times> 'w eng" where
  "answer_kind X run wname sname timeout kind name input refresh s =
     (case mget (fi_decisions (x_file X)) name of
        None \<Rightarrow> (Inl (''unknown Jev decision '' @ quoted name), s)
      | Some d \<Rightarrow>
          if dc_type d \<noteq> kind then (Inl (''decision '' @ quoted name @ '' is '' @ dc_type d @ '', not '' @ kind), s)
          else if length refresh > 1 then (Inl ''decision takes at most one refresh token'', s)
          else (case decision X run wname sname name input (case refresh of [] \<Rightarrow> VNil | r # _ \<Rightarrow> r) timeout s of
              (Inl e, s) \<Rightarrow> (Inl (err_text e), s)
            | (Inr answer, s) \<Rightarrow> (Inr (mget_nil answer kind), s)))"

primrec run_cond ::
  "'w ext \<Rightarrow> string \<Rightarrow> string \<Rightarrow> string \<Rightarrow> int \<Rightarrow> cond_prog \<Rightarrow> 'w eng \<Rightarrow> (gerr + bool) \<times> 'w eng" where
  "run_cond X run wname sname timeout (CondDone r) s = (map_sum Msg id r, s)"
| "run_cond X run wname sname timeout (CondAsk kind name input refresh k) s =
     (let p = answer_kind X run wname sname timeout kind name input refresh s
      in run_cond X run wname sname timeout (k (fst p)) (snd p))"

definition eval_decision_bool ::
  "'w ext \<Rightarrow> string \<Rightarrow> string \<Rightarrow> string \<Rightarrow> string \<Rightarrow> gomap \<Rightarrow> int \<Rightarrow> 'w eng \<Rightarrow> (gerr + bool) \<times> 'w eng" where
  "eval_decision_bool X run wname sname expr ctx timeout s =
     run_cond X run wname sname timeout (x_cond X expr ctx) s"

subsection \<open>A decision is asked once\<close>

lemma decision_ask:
  assumes "mget (fi_decisions (x_file X)) name = Some d" "input \<noteq> VNil"
    "mget (fi_connections (x_file X)) (dc_connection d) = Some c"
    "decision_identity (x_lib X) sname name d c input refresh = Some identity"
  shows "decision X run wname sname name input refresh timeout s =
    (case row_of s run wname (decision_key sname identity) of
       Some saved \<Rightarrow>
         if sr_status saved = StepCompleted
         then (map_sum Msg id (read_receipt (x_lib X) (sr_output_json saved)), s)
         else ask_decision X run wname sname name d input (decision_key sname identity) (sha_hex identity) timeout s
     | None \<Rightarrow> ask_decision X run wname sname name d input (decision_key sname identity) (sha_hex identity) timeout s)"
  using assms by (simp add: decision_def Let_def)

lemma ask_decision_row:
  assumes "ask_decision X run wname sname name d input key hash timeout s = (Inr answer, s')"
  shows "\<exists>r. row_of s' run wname key = Some r \<and> sr_status r = StepCompleted"
  using assms
  by (auto simp: ask_decision_def Let_def row_of_save_row receipt_row_def step_key_def
      split: prod.splits option.splits sum.splits)

lemma decision_Inr:
  assumes "decision X run wname sname name input refresh timeout s = (Inr answer, s')"
  obtains d c identity where "mget (fi_decisions (x_file X)) name = Some d" "input \<noteq> VNil"
    "mget (fi_connections (x_file X)) (dc_connection d) = Some c"
    "decision_identity (x_lib X) sname name d c input refresh = Some identity"
    "\<exists>r. row_of s' run wname (decision_key sname identity) = Some r \<and> sr_status r = StepCompleted"
proof -
  from assms obtain d c identity where a: "mget (fi_decisions (x_file X)) name = Some d" "input \<noteq> VNil"
    "mget (fi_connections (x_file X)) (dc_connection d) = Some c"
    "decision_identity (x_lib X) sname name d c input refresh = Some identity"
    by (auto simp: decision_def split: option.splits if_splits)
  have "\<exists>r. row_of s' run wname (decision_key sname identity) = Some r \<and> sr_status r = StepCompleted"
    using assms unfolding decision_ask [OF a]
    by (auto split: option.splits if_splits dest: ask_decision_row)
  with a that show ?thesis by blast
qed

text \<open>What the executor of \<open>jev\<close> steps answers with: values decoded from the service's JSON, beside the numbers it counted
  itself.\<close>

definition decoded_answers :: "'w ext \<Rightarrow> bool" where
  "decoded_answers X \<longleftrightarrow> (\<forall>exec ps t w out. map_of (x_exec X) ''jev'' = Some exec \<and>
     xo_output (fst (exec ps t w)) = Some out \<longrightarrow> json_data (VMap out) \<and> json_read (mget_nil out ''answers''))"

lemma set_mput_subset: "set (mput k v m) \<subseteq> insert (k, v) (set m)"
  by (induction k v m rule: mput.induct) auto

lemma json_data_mput: "json_data (VMap m) \<Longrightarrow> json_data v \<Longrightarrow> json_data (VMap (mput k v m))"
  using set_mput_subset [of k v m] by (auto simp: list_all_iff mwf_mput)

text \<open>The answer in a receipt that was read again is the answer that was written.\<close>

lemma receipt_reread:
  assumes "reads_floats G" "json_data (VMap out)" "json_read (mget_nil out ''answers'')" "marshal G (VMap out) = Some t"
    "decision_answer out = Inr answer"
  shows "read_receipt G t = Inr answer"
proof -
  obtain answers where answers: "mget out ''answers'' = Some (VMap answers)" "mget answers ''result'' = Some (VMap answer)"
    using assms(5) by (auto simp: decision_answer_def split: option.splits val.splits)
  then have "json_read (VMap answers)" using assms(3) by (simp add: mget_nil_def)
  then have "reread G (VMap answers) = VMap answers" by (rule reread_read)
  then have "decision_answer (map (\<lambda>e. (fst e, reread G (snd e))) out) = Inr answer"
    using answers by (simp add: decision_answer_def mget_map_values del: reread.simps)
  then show ?thesis using unmarshal_marshal [OF assms(1,2,4)] by (simp add: read_receipt_def)
qed

lemma receipt_law:
  assumes "reads_floats (x_lib X)" "decoded_answers X" "map_of (x_exec X) ''jev'' = Some exec" "exec ps secs w = (res, w')"
    "xo_output res = Some out" "marshal (x_lib X) (VMap (mput ''decision'' (VMap [(''fingerprint'', VStr a), (''name'', VStr b),
       (''parent_step'', VStr c), (''version'', VStr d)]) out)) = Some t"
    "map_sum Msg id (decision_answer (mput ''decision'' (VMap [(''fingerprint'', VStr a), (''name'', VStr b),
       (''parent_step'', VStr c), (''version'', VStr d)]) out)) = Inr answer"
  shows "map_sum Msg id (read_receipt (x_lib X) t) = Inr answer"
proof -
  have out: "json_data (VMap out)" "json_read (mget_nil out ''answers'')"
    using assms(2-5) unfolding decoded_answers_def by (metis fst_conv)+
  have "json_data (VMap (mput ''decision'' (VMap [(''fingerprint'', VStr a), (''name'', VStr b), (''parent_step'', VStr c),
      (''version'', VStr d)]) out))"
    using out(1) by (rule json_data_mput) (simp add: mwf_def)
  moreover have "json_read (mget_nil (mput ''decision'' (VMap [(''fingerprint'', VStr a), (''name'', VStr b), (''parent_step'', VStr c),
      (''version'', VStr d)]) out) ''answers'')"
    using out by (simp add: mget_nil_def mget_mput)
  ultimately show ?thesis using receipt_reread [OF assms(1) _ _ assms(6)] assms(7) by (auto simp: map_sum_def split: sum.splits)
qed

lemma ask_decision_receipt:
  assumes "ask_decision X run wname sname name d input key hash timeout s = (Inr answer, s')"
    "reads_floats (x_lib X)" "decoded_answers X"
  shows "\<exists>r. row_of s' run wname key = Some r \<and> sr_status r = StepCompleted \<and>
    map_sum Msg id (read_receipt (x_lib X) (sr_output_json r)) = Inr answer"
proof -
  have none: "decision_answer [(''decision'', v)] = Inl ''decision receipt missing answers''" for v
    by (simp add: decision_answer_def)
  show ?thesis
    using assms(1) none receipt_law [OF assms(2,3)]
    by (auto simp: ask_decision_def Let_def row_of_save_row receipt_row_def step_key_def
      split: prod.splits option.splits sum.splits)
qed

text \<open>C11. A decision that has been answered is not asked again: after a successful decision, the same decision (same step,
  name, state and refresh token) changes neither store, events, clock nor the outside world, and gives the same
  answer, read from its receipt. That it is the same needs an executor that answers with decoded JSON and the documented
  reading of printed floats.\<close>

theorem decision_asked_once:
  assumes "decision X run wname sname name input refresh timeout s = (Inr answer, s')"
  shows "snd (decision X run wname sname name input refresh timeout' s') = s' \<and>
    (reads_floats (x_lib X) \<and> decoded_answers X \<longrightarrow>
       fst (decision X run wname sname name input refresh timeout' s') = Inr answer)"
proof (rule decision_Inr [OF assms])
  fix d c identity
  assume a: "mget (fi_decisions (x_file X)) name = Some d" "input \<noteq> VNil"
    "mget (fi_connections (x_file X)) (dc_connection d) = Some c"
    "decision_identity (x_lib X) sname name d c input refresh = Some identity"
    and r: "\<exists>r. row_of s' run wname (decision_key sname identity) = Some r \<and> sr_status r = StepCompleted"
  have "snd (decision X run wname sname name input refresh timeout' s') = s'"
    using r decision_ask [OF a, of run wname timeout' s'] by auto
  moreover have "fst (decision X run wname sname name input refresh timeout' s') = Inr answer"
    if laws: "reads_floats (x_lib X)" "decoded_answers X"
  proof -
    have "\<exists>r. row_of s' run wname (decision_key sname identity) = Some r \<and> sr_status r = StepCompleted \<and>
        map_sum Msg id (read_receipt (x_lib X) (sr_output_json r)) = Inr answer"
      using assms ask_decision_receipt [OF _ laws] unfolding decision_ask [OF a]
      by (auto split: option.splits if_splits)
    then show ?thesis using decision_ask [OF a, of run wname timeout' s'] by auto
  qed
  ultimately show ?thesis by blast
qed

definition sample_decision :: decision where
  "sample_decision = \<lparr>dc_connection = ''kev'', dc_type = ''noul'', dc_instructions = VStr ''ok?'',
     dc_criteria = VNil, dc_version = []\<rparr>"

definition sample_connection :: connection where
  "sample_connection = \<lparr>cn_type = ''jev'', cn_base_url = ''http://kev'', cn_model = ''m'',
     cn_api_key_env = [], cn_api_key_file = [], cn_timeout = 0, cn_concurrency = 0\<rparr>"

definition sample_answer :: gomap where
  "sample_answer = [(''answers'', VMap [(''result'', VMap [(''noul'', VBool True)])])]"

definition sample_artifacts :: artifact_io where
  "sample_artifacts = \<lparr>ai_read_file = (\<lambda>_. Inr ''text''), ai_read_k8s = (\<lambda>_. Inl []), ai_has_k8s = False,
     ai_yaml = (\<lambda>_. Inr [])\<rparr>"

text \<open>An engine whose world counts the calls of its executors.\<close>

definition sample_ext :: "workflow_file \<Rightarrow> nat ext" where
  "sample_ext f = \<lparr>x_lib = sample_golib, x_pongo = sample_pongo, x_file = f, x_order = id,
     x_grule = sample_grule,
     x_cond = (\<lambda>e ctx. CondDone (Inr (e = ''true''))),
     x_artifacts = sample_artifacts,
     x_exec = [(''jev'', \<lambda>ps t w. (\<lparr>xo_output = Some sample_answer, xo_error = None, xo_notices = []\<rparr>, Suc w)),
       (''shell_exec'', \<lambda>ps t w. (\<lparr>xo_output = Some [(''stdout'', VStr ''ok'')],
          xo_error = (if str_or_empty ps ''command'' = ''false'' then Some ''exit 1'' else None), xo_notices = []\<rparr>, Suc w))],
     x_debug = None, x_forks = 5, x_source_path = [], x_source_digest = []\<rparr>"

definition sample_eng :: "nat eng" where
  "sample_eng = \<lparr>en_store = empty_store, en_events = [], en_clock = 0, en_world = 0\<rparr>"

definition sample_jev_file :: workflow_file where
  "sample_jev_file = blank_file\<lparr>fi_connections := [(''kev'', sample_connection)],
     fi_decisions := [(''d'', sample_decision)]\<rparr>"

abbreviation sample_jev_ext :: "nat ext" where
  "sample_jev_ext \<equiv> sample_ext sample_jev_file\<lparr>x_lib := bits_golib\<rparr>"

lemma sample_decision_asked:
  "fst (decision sample_jev_ext ''r'' ''main'' ''s'' ''d'' (VInt 1) VNil 0 sample_eng) = Inr [(''noul'', VBool True)]"
proof -
  let ?X = "sample_jev_ext"
  obtain identity where i: "decision_identity (x_lib ?X) ''s'' ''d'' sample_decision sample_connection (VInt 1) VNil
      = Some identity"
    by (simp add: decision_identity_def jdecision_def jfield_def sample_decision_def)
  have none: "row_of sample_eng ''r'' ''main'' k = None" for k
    by (simp add: row_of_def get_step_def sample_eng_def empty_store_def)
  have d: "mget (fi_decisions (x_file ?X)) ''d'' = Some sample_decision"
    "mget (fi_connections (x_file ?X)) (dc_connection sample_decision) = Some sample_connection"
    by (simp_all add: sample_ext_def sample_jev_file_def sample_decision_def)
  have answer: "decision_answer sample_answer = Inr [(''noul'', VBool True)]"
    by (simp add: decision_answer_def sample_answer_def)
  have again: "decision_answer (mput ''decision'' v sample_answer) = Inr [(''noul'', VBool True)]" for v
    by (simp add: decision_answer_def sample_answer_def)
  have stored: "\<exists>t. marshal bits_golib (VMap (mput ''decision'' (VMap [(a, VStr b), (c, VStr e), (f, VStr g), (h, VStr i)])
      sample_answer)) = Some t" for a b c e f g h i
    by (simp add: marshal_def sample_answer_def sequence_def)
  have "decision ?X ''r'' ''main'' ''s'' ''d'' (VInt 1) VNil 0 sample_eng = ask_decision ?X ''r'' ''main'' ''s'' ''d''
      sample_decision (VInt 1) (decision_key ''s'' identity) (sha_hex identity) 0 sample_eng"
    using decision_ask [OF d(1) _ d(2) i, where run = "''r''" and wname = "''main''"] none by simp
  then show ?thesis
    using stored
    by (auto simp: ask_decision_def Let_def sample_ext_def answer again now_def split: option.splits)
qed

theorem decision_asked_once_witness:
  "\<exists>s'. decision sample_jev_ext ''r'' ''main'' ''s'' ''d'' (VInt 1) VNil 0 sample_eng = (Inr [(''noul'', VBool True)], s') \<and>
     decision sample_jev_ext ''r'' ''main'' ''s'' ''d'' (VInt 1) VNil 7 s' = (Inr [(''noul'', VBool True)], s')"
proof -
  obtain s' where s': "decision sample_jev_ext ''r'' ''main'' ''s'' ''d'' (VInt 1) VNil 0 sample_eng = (Inr [(''noul'', VBool True)], s')"
    using sample_decision_asked by (metis prod.collapse)
  have "reads_floats (x_lib sample_jev_ext)" by (simp add: sample_ext_def bits_golib_reads)
  moreover have "decoded_answers sample_jev_ext"
    by (simp add: decoded_answers_def sample_ext_def sample_answer_def mget_nil_def mwf_def)
  ultimately show ?thesis using decision_asked_once [OF s', of 7] s' by (auto simp: prod_eq_iff)
qed

end
