(* ===== verification/Step_Engine.thy ===== *)
theory Step_Engine
  imports Jev_Decisions
begin

text \<open>
  The step engine (\<open>pkg/engine/engine.go\<close>): one step from its guards to its row, sub-workflow
  calls, for_each loops, and a workflow with its rescue and always sections. A function returns the
  error, the run context afterwards (the code mutates it) and the state. Calling a workflow is
  a parameter \<open>run_wf\<close> of everything below a workflow; \<open>run_workflow\<close> closes the recursion with
  fuel for the depth of the calls, None meaning that the fuel ran out. A for_each loop runs its
  iterations one after the other, the schedule that every concurrency allows.
\<close>

type_synonym 'w outcome = "gerr option \<times> gomap \<times> 'w eng"

type_synonym 'w runner = "string \<Rightarrow> workflow \<Rightarrow> gomap \<Rightarrow> 'w eng \<Rightarrow> 'w outcome option"

subsection \<open>Results of a step\<close>

text \<open>The context a completed step's row restores.\<close>

definition replay_completed :: "'w ext \<Rightarrow> step \<Rightarrow> step_row \<Rightarrow> gomap \<Rightarrow> gomap" where
  "replay_completed X st r ctx =
     (if sr_output_json r = [] then ctx
      else let out = decode_state (x_lib X) (sr_output_json r) in
        if st_type st = ''set_fact'' then mcopy out ctx
        else if st_type st = ''gate'' then
          (case mget out ''facts'' of Some (VMap facts) \<Rightarrow> mcopy facts ctx | _ \<Rightarrow> ctx)
        else if st_register st \<noteq> [] then mput (st_register st) (VMap out) ctx
        else ctx)"

definition failed_with ::
  "'w ext \<Rightarrow> string \<Rightarrow> string \<Rightarrow> string \<Rightarrow> string \<Rightarrow> int \<Rightarrow> gerr \<Rightarrow> gomap \<Rightarrow> 'w eng \<Rightarrow> 'w outcome" where
  "failed_with X run wname sname base t0 err ctx s =
     (let (e, s) = fail_step X run wname sname base t0 err s in (e, ctx, s))"

text \<open>The completed row of a step, and its event.\<close>

definition finish_step ::
  "'w ext \<Rightarrow> string \<Rightarrow> string \<Rightarrow> step \<Rightarrow> string \<Rightarrow> int \<Rightarrow> string \<Rightarrow> string \<Rightarrow> gomap option \<Rightarrow> gomap \<Rightarrow> 'w eng \<Rightarrow> 'w outcome" where
  "finish_step X run wname st sname t0 out_json art_json output ctx s =
     (let (t1, s) = now s;
          s = save_row X ((new_row run wname sname StepCompleted t0 (Some t1))
                \<lparr>sr_output_json := out_json, sr_artifacts_json := art_json\<rparr>) s;
          s = fire (StepCompletedEv run wname (st_name st) (st_type st) output) s
      in (None, ctx, s))"

definition ignored_failure :: "gomap \<Rightarrow> gerr \<Rightarrow> gomap" where
  "ignored_failure output err =
     mput ''error'' (VStr (err_text err)) (mput ''failed'' (VBool True) (mcopy output []))"

subsection \<open>The types the engine runs itself\<close>

definition run_set_fact ::
  "'w ext \<Rightarrow> string \<Rightarrow> string \<Rightarrow> step \<Rightarrow> string \<Rightarrow> string \<Rightarrow> int \<Rightarrow> gomap \<Rightarrow> 'w eng \<Rightarrow> 'w outcome" where
  "run_set_fact X run wname st sname base t0 ctx s =
     (if st_vars st = [] then
        failed_with X run wname sname base t0 (Msg ''set_fact step has no vars defined'') ctx s
      else (case eval_facts (x_lib X) (x_pongo X) (x_order X (st_vars st)) ctx [] of
          (ctx, Inl e) \<Rightarrow> failed_with X run wname sname base t0 (Msg (''evaluating facts: '' @ e)) ctx s
        | (ctx, Inr facts) \<Rightarrow>
            finish_step X run wname st sname t0 (marshal_text (x_lib X) (VMap facts)) [] (Some facts)
              (mcopy facts ctx) s))"

text \<open>The first assertion that does not hold, as the error the step fails with.\<close>

fun check_assertions ::
  "'w ext \<Rightarrow> string \<Rightarrow> string \<Rightarrow> step \<Rightarrow> string \<Rightarrow> gomap \<Rightarrow> string list \<Rightarrow> 'w eng \<Rightarrow> gerr option \<times> 'w eng" where
  "check_assertions X run wname st sname ctx [] s = (None, s)"
| "check_assertions X run wname st sname ctx (expr # es) s =
     (case eval_decision_bool X run wname sname expr ctx (st_timeout st) s of
        (Inl e, s) \<Rightarrow> (Some (Wrap (''evaluating assertion '' @ quoted expr @ '': '') e), s)
      | (Inr ok, s) \<Rightarrow>
          if \<not> ok then (Some (Msg (if st_msg st = [] then ''assertion failed: '' @ expr else st_msg st)), s)
          else check_assertions X run wname st sname ctx es s)"

definition run_assert ::
  "'w ext \<Rightarrow> string \<Rightarrow> string \<Rightarrow> step \<Rightarrow> string \<Rightarrow> string \<Rightarrow> int \<Rightarrow> gomap \<Rightarrow> 'w eng \<Rightarrow> 'w outcome" where
  "run_assert X run wname st sname base t0 ctx s =
     (if st_that st = [] then
        failed_with X run wname sname base t0 (Msg ''assert step has no conditions defined'') ctx s
      else (case check_assertions X run wname st sname ctx (st_that st) s of
          (Some e, s) \<Rightarrow> failed_with X run wname sname base t0 e ctx s
        | (None, s) \<Rightarrow> finish_step X run wname st sname t0 [] [] None ctx s))"

definition gate_output :: "'w ext \<Rightarrow> gate_result \<Rightarrow> string" where
  "gate_output X res = marshal_text (x_lib X) (VMap [(''action'', VStr (ga_action res)),
     (''facts'', VMap (ga_facts res)), (''fired_rules'', VStrs (ga_fired res))])"

definition run_gate ::
  "'w ext \<Rightarrow> string \<Rightarrow> string \<Rightarrow> step \<Rightarrow> string \<Rightarrow> string \<Rightarrow> int \<Rightarrow> gomap \<Rightarrow> 'w eng \<Rightarrow> 'w outcome" where
  "run_gate X run wname st sname base t0 ctx s =
     (case resolve_decision_facts X run wname sname (st_facts st) ctx (st_timeout st) s of
        (Inl e, s) \<Rightarrow> failed_with X run wname sname base t0 e ctx s
      | (Inr facts, s) \<Rightarrow>
          (case gate_eval (x_lib X) (x_grule X) (x_order X) (x_file X) (st_rules st) facts ctx of
             Inl e \<Rightarrow> failed_with X run wname sname base t0 (Msg (''gate evaluation: '' @ e)) ctx s
           | Inr (res, ctx) \<Rightarrow>
               let s = fire (GateEvaluated run wname (st_name st) (ga_action res) (ga_fired res) (ga_facts res)) s
               in if ga_action res = ''pause'' then
                    let (t1, s) = now s;
                        s = save_row X ((new_row run wname sname StepPaused t0 (Some t1))
                              \<lparr>sr_output_json := gate_output X res\<rparr>) s
                    in (Some (PauseErr \<lparr>pi_workflow = wname, pi_step = st_name st, pi_fired = ga_fired res,
                                        pi_facts = ga_facts res\<rparr>), ctx, s)
                  else finish_step X run wname st sname t0 (gate_output X res) [] None ctx s))"

definition load_step_artifacts :: "'w ext \<Rightarrow> step \<Rightarrow> gomap \<Rightarrow> string + gomap" where
  "load_step_artifacts X st ctx =
     load_artifacts (x_artifacts X) (x_pongo X) (fi_namespace (x_file X)) (st_artifacts st) ctx"

definition run_load_artifact ::
  "'w ext \<Rightarrow> string \<Rightarrow> string \<Rightarrow> step \<Rightarrow> string \<Rightarrow> string \<Rightarrow> int \<Rightarrow> gomap \<Rightarrow> 'w eng \<Rightarrow> 'w outcome" where
  "run_load_artifact X run wname st sname base t0 ctx s =
     (if st_artifacts st = [] then
        failed_with X run wname sname base t0 (Msg ''load_artifact step has no artifacts defined'') ctx s
      else (case load_step_artifacts X st ctx of
          Inl e \<Rightarrow> failed_with X run wname sname base t0 (Msg (''loading artifacts: '' @ e)) ctx s
        | Inr arts \<Rightarrow> finish_step X run wname st sname t0 [] [] None
            (mput (st_name st) (VMap [(''artifacts'', VMap arts)]) ctx) s))"

subsection \<open>Executors\<close>

definition failed_when_context :: "step \<Rightarrow> gomap option \<Rightarrow> gerr option \<Rightarrow> gomap \<Rightarrow> gomap" where
  "failed_when_context st output err ctx =
     (let result = mcopy (case output of None \<Rightarrow> [] | Some m \<Rightarrow> m) [];
          result = (case err of None \<Rightarrow> result | Some e \<Rightarrow> mput ''error'' (VStr (err_text e)) result);
          scope = mput ''result'' (VMap result) (mcopy ctx [])
      in if st_register st \<noteq> [] then mput (st_register st) (VMap result) scope else scope)"

definition eval_failed_when :: "'w ext \<Rightarrow> step \<Rightarrow> gomap option \<Rightarrow> gerr option \<Rightarrow> gomap \<Rightarrow> gerr option" where
  "eval_failed_when X st output err ctx =
     (case eval_bool (x_pongo X) (st_failed_when st) (failed_when_context st output err ctx) of
        Inl e \<Rightarrow> Some (Msg (''evaluating failed_when: '' @ e))
      | Inr False \<Rightarrow> None
      | Inr True \<Rightarrow> (case err of
            Some e \<Rightarrow> Some (Wrap (''failed_when '' @ quoted (st_failed_when st) @ '' is true: '') e)
          | None \<Rightarrow> Some (Msg (''failed_when '' @ quoted (st_failed_when st) @ '' is true''))))"

definition fire_notice :: "string \<Rightarrow> string \<Rightarrow> step \<Rightarrow> notice \<Rightarrow> 'w eng \<Rightarrow> 'w eng" where
  "fire_notice run wname st n s = (case n of
     Progress kind data \<Rightarrow> fire (StepProgress run wname (st_name st) (st_type st) kind data) s
   | JobMade job ns \<Rightarrow> fire (JobCreated run wname (st_name st) (st_type st) job ns) s)"

definition announce_wait :: "'w ext \<Rightarrow> string \<Rightarrow> string \<Rightarrow> step \<Rightarrow> string \<Rightarrow> gomap \<Rightarrow> 'w eng \<Rightarrow> 'w eng" where
  "announce_wait X run wname st base params s =
     (if base = ''k8s_job_wait'' \<and> str_or_empty params ''job_name'' \<noteq> [] then
        fire (JobCreated run wname (st_name st) (st_type st) (str_or_empty params ''job_name'')
          (if str_or_empty params ''namespace'' = [] then fi_namespace (x_file X) else str_or_empty params ''namespace'')) s
      else s)"

text \<open>What follows the executor: the failure rules, the register variable, the artifacts and the
  completed row. A nil output that is registered reads as an empty map, and is \<open>null\<close> in the row's artifacts.\<close>

definition record_result ::
  "'w ext \<Rightarrow> string \<Rightarrow> string \<Rightarrow> step \<Rightarrow> string \<Rightarrow> string \<Rightarrow> int \<Rightarrow> gomap option \<Rightarrow> gomap \<Rightarrow> 'w eng \<Rightarrow> 'w outcome" where
  "record_result X run wname st sname base t0 output ctx s =
     (let out = (case output of None \<Rightarrow> [] | Some m \<Rightarrow> m);
          ctx = (if st_register st \<noteq> [] then mput (st_register st) (VMap out) ctx else ctx);
          nil_map = (output = None \<and> st_register st \<noteq> [] \<and> st_register st = st_name st \<and> st_artifacts st = []);
          done = (\<lambda>ctx. finish_step X run wname st sname t0
            (case output of None \<Rightarrow> ''null'' | Some m \<Rightarrow> marshal_text (x_lib X) (VMap m))
            (case mget ctx (st_name st) of
               None \<Rightarrow> []
             | Some v \<Rightarrow> if nil_map then ''null'' else marshal_text (x_lib X) v) output ctx s)
      in if st_artifacts st = [] then done ctx
         else (case load_step_artifacts X st ctx of
             Inl e \<Rightarrow> failed_with X run wname sname base t0 (Msg (''loading artifacts: '' @ e)) ctx s
           | Inr arts \<Rightarrow> done (mput (st_name st) (VMap (mcopy out [(''artifacts'', VMap arts)])) ctx)))"

definition step_params :: "'w ext \<Rightarrow> string \<Rightarrow> string \<Rightarrow> step \<Rightarrow> string \<Rightarrow> gomap \<Rightarrow> gomap" where
  "step_params X run wname st base params =
     (if base = ''script_exec'' then mput ''_script_dir'' (VStr (fi_script_dir (x_file X))) params
      else if base = ''k8s_job'' then inject_job_meta params run wname (st_name st)
      else params)"

definition run_executor ::
  "'w ext \<Rightarrow> string \<Rightarrow> string \<Rightarrow> step \<Rightarrow> string \<Rightarrow> string \<Rightarrow> gomap \<Rightarrow> int \<Rightarrow> gomap \<Rightarrow> 'w eng \<Rightarrow> 'w outcome" where
  "run_executor X run wname st sname base merged t0 ctx s =
     (let s = save_row X (new_row run wname sname StepRunning t0 None) s in
      case render_map (x_lib X) (x_pongo X) merged ctx of
        Inl e \<Rightarrow> failed_with X run wname sname base t0 (Msg (''rendering params: '' @ e)) ctx s
      | Inr rendered \<Rightarrow>
          let params = step_params X run wname st base rendered in
          (case map_of (x_exec X) base of
             None \<Rightarrow> failed_with X run wname sname base t0 (Msg (''no executor for type '' @ quoted base)) ctx s
           | Some exec \<Rightarrow>
               let s = announce_wait X run wname st base params s;
                   (res, w) = exec params (st_timeout st) (en_world s);
                   s = fold (fire_notice run wname st) (xo_notices res) (set_world w s);
                   output = xo_output res;
                   err = map_option Msg (xo_error res);
                   err = (if st_failed_when st \<noteq> [] then eval_failed_when X st output err ctx else err)
               in (case err of
                     None \<Rightarrow> record_result X run wname st sname base t0 output ctx s
                   | Some e \<Rightarrow>
                       if \<not> st_ignore_errors st then failed_with X run wname sname base t0 e ctx s
                       else record_result X run wname st sname base t0
                              (Some (ignored_failure (case output of None \<Rightarrow> [] | Some m \<Rightarrow> m) e)) ctx s)))"

text \<open>A step that has a type: resolve it, announce it, run it.\<close>

definition run_typed_step :: "'w ext \<Rightarrow> string \<Rightarrow> string \<Rightarrow> step \<Rightarrow> string \<Rightarrow> gomap \<Rightarrow> 'w eng \<Rightarrow> 'w outcome" where
  "run_typed_step X run wname st sname ctx s =
     (let (t0, s) = now s;
          (base, merged) = resolve_step_type (fi_step_types (x_file X)) st;
          s = fire (StepStarted run wname (st_name st) (st_type st) base merged) s
      in if base = ''set_fact'' then run_set_fact X run wname st sname base t0 ctx s
         else if base = ''assert'' then run_assert X run wname st sname base t0 ctx s
         else if base = ''gate'' then run_gate X run wname st sname base t0 ctx s
         else if base = ''load_artifact'' then run_load_artifact X run wname st sname base t0 ctx s
         else run_executor X run wname st sname base merged t0 ctx s)"

subsection \<open>Guards\<close>

definition split_state_name :: "string \<Rightarrow> string \<Rightarrow> string \<times> string" where
  "split_state_name state_name step_name =
     (let (section, rest) =
        (if has_prefix state_name ''rescue/'' then (''rescue'', trim_prefix state_name ''rescue/'')
         else if has_prefix state_name ''always/'' then (''always'', trim_prefix state_name ''always/'')
         else (''steps'', state_name))
      in (section,
          if has_prefix rest (step_name @ ''['') \<and> has_suffix rest '']''
          then take (length rest - length step_name - 2) (drop (length step_name + 1) rest) else []))"

definition debug_pause ::
  "'w ext \<Rightarrow> string \<Rightarrow> string \<Rightarrow> step \<Rightarrow> string \<Rightarrow> string \<Rightarrow> gomap \<Rightarrow> gomap option \<Rightarrow> 'w eng \<Rightarrow> gerr option \<times> 'w eng" where
  "debug_pause X run wname st sname phase ctx output s = (case x_debug X of
     None \<Rightarrow> (None, s)
   | Some hook \<Rightarrow>
       let (section, iteration) = split_state_name sname (st_name st);
           (e, w) = hook \<lparr>dp_run = run, dp_workflow = wname, dp_step = st_name st, dp_type = st_type st,
               dp_section = section, dp_iteration = iteration, dp_phase = phase\<rparr> ctx output (en_world s)
       in (map_option Msg e, set_world w s))"

definition skip_step :: "'w ext \<Rightarrow> string \<Rightarrow> string \<Rightarrow> step \<Rightarrow> string \<Rightarrow> 'w eng \<Rightarrow> 'w eng" where
  "skip_step X run wname st sname s =
     (let (t, s) = now s;
          s = save_row X (new_row run wname sname StepSkipped t (Some t)) s
      in fire (StepSkippedEv run wname (st_name st)
           (''when condition '' @ quoted (st_when st) @ '' evaluated to false'')) s)"

text \<open>The when condition: the error, or whether the step is to run.\<close>

definition check_when :: "'w ext \<Rightarrow> string \<Rightarrow> string \<Rightarrow> step \<Rightarrow> string \<Rightarrow> gomap \<Rightarrow> 'w eng \<Rightarrow> (gerr + bool) \<times> 'w eng" where
  "check_when X run wname st sname ctx s =
     (if st_when st = [] then (Inr True, s)
      else eval_decision_bool X run wname sname (st_when st) ctx (st_timeout st) s)"

text \<open>The start of \<open>executeStepCore\<close>: \<open>Inl\<close> when the step is over before it ran.\<close>

definition step_start ::
  "'w ext \<Rightarrow> string \<Rightarrow> string \<Rightarrow> step \<Rightarrow> string \<Rightarrow> gomap \<Rightarrow> 'w eng \<Rightarrow> 'w outcome + 'w eng" where
  "step_start X run wname st sname ctx s =
     (case check_when X run wname st sname ctx s of
        (Inl e, s) \<Rightarrow>
          let (t, s) = now s
          in Inl (failed_with X run wname sname (st_type st) t (Wrap ''evaluating when: '' e) ctx s)
      | (Inr ok, s) \<Rightarrow>
          if \<not> ok then Inl (None, ctx, skip_step X run wname st sname s)
          else (case debug_pause X run wname st sname ''before'' ctx None s of
              (Some e, s) \<Rightarrow>
                let (t, s) = now s in Inl (failed_with X run wname sname (st_type st) t e ctx s)
            | (None, s) \<Rightarrow> Inr s))"

definition step_guards ::
  "'w ext \<Rightarrow> string \<Rightarrow> string \<Rightarrow> step \<Rightarrow> string \<Rightarrow> bool \<Rightarrow> gomap \<Rightarrow> 'w eng \<Rightarrow> 'w outcome + 'w eng" where
  "step_guards X run wname st sname force ctx s =
     (case row_of s run wname sname of
        Some r \<Rightarrow>
          if \<not> force \<and> sr_status r = StepCompleted then Inl (None, replay_completed X st r ctx, s)
          else step_start X run wname st sname ctx s
      | None \<Rightarrow> step_start X run wname st sname ctx s)"

subsection \<open>Sub-workflows\<close>

definition resolve_sub_workflow :: "'w ext \<Rightarrow> step \<Rightarrow> gomap \<Rightarrow> string + workflow" where
  "resolve_sub_workflow X st ctx =
     (let find = (\<lambda>name. case get_workflow (fi_workflows (x_file X)) name of
            Some w \<Rightarrow> Inr w
          | None \<Rightarrow> Inl (if name \<noteq> st_workflow st
              then ''sub-workflow '' @ quoted name @ '' (from '' @ quoted (st_workflow st) @ '') not found''
              else ''sub-workflow '' @ quoted name @ '' not found''))
      in if \<not> is_templated (st_workflow st) then find (st_workflow st)
         else (case render (x_pongo X) (st_workflow st) ctx of
             Inl e \<Rightarrow> Inl (''rendering workflow name '' @ quoted (st_workflow st) @ '': '' @ e)
           | Inr rendered \<Rightarrow>
               let name = trim_space rendered in
               if st_workflow_names st \<noteq> [] \<and> \<not> List.member (st_workflow_names st) name
               then Inl (''workflow '' @ quoted (st_workflow st) @ '' resolved to '' @ quoted name
                      @ ''; expected one of '' @ join '', '' (st_workflow_names st) @ '' (workflow_names)'')
               else find name))"

definition check_sub_run :: "string \<Rightarrow> step \<Rightarrow> string \<Rightarrow> 'w eng \<Rightarrow> string option" where
  "check_sub_run sub st name s = (case get_run (en_store s) sub of
     Inl e \<Rightarrow> None
   | Inr prev \<Rightarrow>
       if rn_entrypoint prev = [] \<or> rn_entrypoint prev = name then None
       else Some (''sub-run '' @ sub @ '' ran workflow '' @ quoted (rn_entrypoint prev) @ '', but ''
         @ quoted (st_workflow st) @ '' now resolves to '' @ quoted name
         @ ''; it can't be resumed in place (start a new run, or rewind to before step '' @ quoted (st_name st) @ '')''))"

definition coerce_rendered :: "golib \<Rightarrow> gomap \<Rightarrow> gomap" where
  "coerce_rendered G m = map (\<lambda>e. (fst e, case snd e of VStr s \<Rightarrow> coerce_string G s | v \<Rightarrow> v)) m"

definition non_nil :: "gomap \<Rightarrow> gomap" where
  "non_nil m = filter (\<lambda>e. snd e \<noteq> VNil) m"

text \<open>The variables of a call: the caller's context, the workflow's defaults that are not nil, and
  the step's vars rendered in the caller's context.\<close>

definition call_vars :: "'w ext \<Rightarrow> step \<Rightarrow> workflow \<Rightarrow> gomap \<Rightarrow> string + gomap" where
  "call_vars X st w ctx =
     (let base = mcopy (non_nil (wf_vars w)) (mcopy ctx []) in
      map_sum (\<lambda>e. ''rendering sub-workflow vars: '' @ e)
        (\<lambda>vs. mcopy (coerce_rendered (x_lib X) vs) base)
        (render_map (x_lib X) (x_pongo X) (st_vars st) ctx))"

definition sub_run_row :: "'w ext \<Rightarrow> string \<Rightarrow> string \<Rightarrow> step \<Rightarrow> workflow \<Rightarrow> string \<Rightarrow> gomap \<Rightarrow> int \<Rightarrow> run_row" where
  "sub_run_row X sub run st w key vars t =
     \<lparr>rn_run_id = sub, rn_workflow_file = x_source_path X, rn_source_digest = x_source_digest X,
      rn_entrypoint = wf_name w, rn_status = RunRunning, rn_vars_json = marshal_text (x_lib X) (VMap vars),
      rn_parent_run_id = run, rn_parent_step = st_name st, rn_for_each_key = key, rn_started_at = t,
      rn_completed_at = None\<rparr>"

text \<open>How a finished run is recorded: its status, its completion time, and the event.\<close>

definition close_run :: "run_row \<Rightarrow> run_status \<Rightarrow> int option \<Rightarrow> 'w eng \<Rightarrow> 'w eng" where
  "close_run r status completed s =
     with_store (update_run (r\<lparr>rn_status := status, rn_completed_at := completed\<rparr>)) s"

text \<open>The run row of a sub-run, created and announced; an existing row of that id stays.\<close>

definition start_sub_run ::
  "'w ext \<Rightarrow> string \<Rightarrow> string \<Rightarrow> step \<Rightarrow> workflow \<Rightarrow> string \<Rightarrow> gomap \<Rightarrow> 'w eng \<Rightarrow> run_row \<times> 'w eng" where
  "start_sub_run X sub run st w key vars s =
     (let (t, s) = now s; row = sub_run_row X sub run st w key vars t
      in (row, fire (SubRunStarted sub run (st_name st) (wf_name w) key) (create_run_ignored row s)))"

text \<open>After the called workflow: the status of the sub-run, its event, and the register
  variable.\<close>

definition end_call :: "string \<Rightarrow> step \<Rightarrow> workflow \<Rightarrow> run_row \<Rightarrow> gomap \<Rightarrow> 'w outcome \<Rightarrow> 'w outcome" where
  "end_call run st w row ctx res = (case res of (err, vars, s) \<Rightarrow>
     let sub = rn_run_id row;
         register = (\<lambda>v. if st_register st \<noteq> [] then mput (st_register st) (VMap v) ctx else ctx);
         (t, s) = now s
     in (case err of
          None \<Rightarrow> (None, register vars,
            fire (SubRunCompleted sub run (st_name st) (wf_name w) []) (close_run row RunCompleted (Some t) s))
        | Some e \<Rightarrow> (case pause_error e of
            Some p \<Rightarrow> (Some e, ctx, fire (RunPausedEv sub (wf_name w) p) (close_run row RunPaused None s))
          | None \<Rightarrow>
              let s = fire (SubRunFailed sub run (st_name st) (wf_name w) [] (err_text e))
                        (close_run row RunFailed (Some t) s)
              in if \<not> st_ignore_errors st then (Some e, ctx, s)
                 else (None, register (ignored_failure vars e), s))))"

definition call_sub_workflow :: "'w ext \<Rightarrow> 'w runner \<Rightarrow> string \<Rightarrow> step \<Rightarrow> gomap \<Rightarrow> 'w eng \<Rightarrow> 'w outcome option" where
  "call_sub_workflow X run_wf run st ctx s =
     (case resolve_sub_workflow X st ctx of
        Inl e \<Rightarrow> Some (Some (Msg e), ctx, s)
      | Inr w \<Rightarrow> (case call_vars X st w ctx of
          Inl e \<Rightarrow> Some (Some (Msg e), ctx, s)
        | Inr vars \<Rightarrow>
            let sub = run @ ''-'' @ st_name st in
            (case check_sub_run sub st (wf_name w) s of
               Some e \<Rightarrow> Some (Some (Msg e), ctx, s)
             | None \<Rightarrow>
                 let p = start_sub_run X sub run st w [] vars s
                 in map_option (end_call run st w (fst p) ctx) (run_wf sub w vars (snd p)))))"

text \<open>A step with a workflow, between its started event and its completed or failed event; a
  pause passes through without one.\<close>

definition close_step_event ::
  "string \<Rightarrow> string \<Rightarrow> step \<Rightarrow> 'w outcome \<Rightarrow> 'w outcome" where
  "close_step_event run wname st res = (case res of (err, ctx, s) \<Rightarrow> (case err of
     None \<Rightarrow> (None, ctx, fire (StepCompletedEv run wname (st_name st) (st_type st) None) s)
   | Some e \<Rightarrow>
       if pause_error e \<noteq> None then (Some e, ctx, s)
       else (Some e, ctx, fire (StepFailedEv run wname (st_name st) (st_type st) (err_text e)) s)))"

definition run_call_step :: "'w ext \<Rightarrow> 'w runner \<Rightarrow> string \<Rightarrow> string \<Rightarrow> step \<Rightarrow> gomap \<Rightarrow> 'w eng \<Rightarrow> 'w outcome option" where
  "run_call_step X run_wf run wname st ctx s =
     map_option (close_step_event run wname st)
       (call_sub_workflow X run_wf run st ctx
         (fire (StepStarted run wname (st_name st) (st_type st) ''workflow'' []) s))"

text \<open>A step that is not a loop.\<close>

definition run_plain_step ::
  "'w ext \<Rightarrow> 'w runner \<Rightarrow> string \<Rightarrow> string \<Rightarrow> step \<Rightarrow> string \<Rightarrow> bool \<Rightarrow> gomap \<Rightarrow> 'w eng \<Rightarrow> 'w outcome option" where
  "run_plain_step X run_wf run wname st sname force ctx s =
     (case step_guards X run wname st sname force ctx s of
        Inl res \<Rightarrow> Some res
      | Inr s \<Rightarrow>
          if st_workflow st \<noteq> [] then run_call_step X run_wf run wname st ctx s
          else Some (run_typed_step X run wname st sname ctx s))"

text \<open>\<open>executeStepWithOptions\<close>: with a debugger attached, a pause after the step that this call
  completed.\<close>

definition pause_after ::
  "'w ext \<Rightarrow> string \<Rightarrow> string \<Rightarrow> step \<Rightarrow> string \<Rightarrow> step_row option \<Rightarrow> gomap \<Rightarrow> 'w eng \<Rightarrow> 'w outcome" where
  "pause_after X run wname st sname before ctx s =
     (case row_of s run wname sname of
        None \<Rightarrow> (None, ctx, s)
      | Some after \<Rightarrow>
          if sr_status after \<noteq> StepCompleted then (None, ctx, s)
          else if (case before of
               None \<Rightarrow> False
             | Some b \<Rightarrow> sr_status b = StepCompleted \<and> (case (sr_completed_at b, sr_completed_at after) of
                   (Some tb, Some ta) \<Rightarrow> \<not> ta > tb | _ \<Rightarrow> False))
            then (None, ctx, s)
          else
            let output = (case unmarshal (x_lib X) (sr_output_json after) of Some (VMap m) \<Rightarrow> Some m | _ \<Rightarrow> None);
                (e, s) = debug_pause X run wname st sname ''after'' ctx output s
            in (e, ctx, s))"

definition with_debugger ::
  "'w ext \<Rightarrow> string \<Rightarrow> string \<Rightarrow> step \<Rightarrow> string \<Rightarrow> ('w eng \<Rightarrow> 'w outcome option) \<Rightarrow> 'w eng \<Rightarrow> 'w outcome option" where
  "with_debugger X run wname st sname core s =
     (if x_debug X = None then core s
      else (case core s of
          None \<Rightarrow> None
        | Some (Some e, ctx, s') \<Rightarrow> Some (Some e, ctx, s')
        | Some (None, ctx, s') \<Rightarrow>
            Some (pause_after X run wname st sname (row_of s run wname sname) ctx s')))"

subsection \<open>Loops\<close>

definition resolve_for_each_list :: "'w ext \<Rightarrow> string \<Rightarrow> gomap \<Rightarrow> string + val list" where
  "resolve_for_each_list X expr ctx =
     (case resolve_context_path expr ctx of
        VList vs \<Rightarrow> Inr vs
      | VStrs ss \<Rightarrow> Inr (map VStr ss)
      | _ \<Rightarrow> (case eval (x_pongo X) expr ctx of
          Inl e \<Rightarrow> Inl e
        | Inr v \<Rightarrow> (case slice_items v of
            Some vs \<Rightarrow> Inr vs
          | None \<Rightarrow> (case render (x_pongo X) (''{{ '' @ expr @ '' }}'') ctx of
              Inl e \<Rightarrow> Inl e
            | Inr rendered \<Rightarrow> (case unmarshal (x_lib X) rendered of
                Some (VList vs) \<Rightarrow> Inr vs
              | Some VNil \<Rightarrow> Inr []
              | _ \<Rightarrow> Inl (''for_each expression '' @ quoted expr @ '' did not resolve to a list''))))))"

text \<open>The first index from \<open>i\<close> of an item without a field.\<close>

fun missing_field :: "string \<Rightarrow> nat \<Rightarrow> val list \<Rightarrow> nat option" where
  "missing_field k i [] = None"
| "missing_field k i (v # vs) =
     (if extract_item_field v k = VNil then Some i else missing_field k (Suc i) vs)"

definition sort_items :: "golib \<Rightarrow> string \<Rightarrow> val list \<Rightarrow> string + val list" where
  "sort_items G k items =
     (if k = [] then Inr items
      else (case missing_field k 0 items of
          Some i \<Rightarrow> Inl (''for_each_sort '' @ quoted k @ '' not found on item at index '' @ nat_text i)
        | None \<Rightarrow> Inr (sort_key (\<lambda>v. sprint G (extract_item_field v k)) items)))"

fun check_keys :: "golib \<Rightarrow> string \<Rightarrow> nat \<Rightarrow> (string \<times> nat) list \<Rightarrow> val list \<Rightarrow> string option" where
  "check_keys G k i seen [] = None"
| "check_keys G k i seen (v # vs) =
     (if extract_item_field v k = VNil
      then Some (''for_each_key '' @ quoted k @ '' not found on item at index '' @ nat_text i)
      else let key = sprint G (extract_item_field v k) in
        (case map_of seen key of
           Some prev \<Rightarrow> Some (''duplicate for_each_key '' @ quoted key @ '' at indices '' @ nat_text prev
                          @ '' and '' @ nat_text i)
         | None \<Rightarrow> check_keys G k (Suc i) ((key, i) # seen) vs))"

definition iteration_key :: "golib \<Rightarrow> step \<Rightarrow> nat \<Rightarrow> val \<Rightarrow> string" where
  "iteration_key G st i item =
     (if st_for_each_key st \<noteq> [] then sprint G (extract_item_field item (st_for_each_key st)) else nat_text i)"

text \<open>The slice is sorted in place: a list that came from the context is sorted there too.\<close>

fun put_path :: "string list \<Rightarrow> val \<Rightarrow> gomap \<Rightarrow> gomap" where
  "put_path [] v m = m"
| "put_path [k] v m = mput k v m"
| "put_path (k # j # ks) v m =
     (case mget m k of Some (VMap n) \<Rightarrow> mput k (VMap (put_path (j # ks) v n)) m | _ \<Rightarrow> m)"

definition sort_in_place :: "step \<Rightarrow> val list \<Rightarrow> gomap \<Rightarrow> gomap" where
  "sort_in_place st items ctx =
     (if st_for_each_sort st = [] then ctx
      else (case resolve_context_path (st_for_each st) ctx of
          VList _ \<Rightarrow> put_path (split_on (CHR ''.'') (st_for_each st)) (VList items) ctx
        | _ \<Rightarrow> ctx))"

text \<open>The outcome of one iteration: the error it stops the loop with, and what it adds to the
  results.\<close>

type_synonym 'w iteration = "gerr option \<times> gomap option \<times> 'w eng"

definition iteration_vars :: "'w ext \<Rightarrow> step \<Rightarrow> workflow \<Rightarrow> val \<Rightarrow> gomap \<Rightarrow> string + gomap" where
  "iteration_vars X st w item ctx =
     (let base = mput (st_as st) item (mcopy (wf_vars w) (mcopy ctx [])) in
      map_sum (\<lambda>e. ''rendering sub-workflow vars: '' @ e)
        (\<lambda>vs. mcopy (coerce_rendered (x_lib X) vs) base)
        (render_map (x_lib X) (x_pongo X) (st_vars st) (mput (st_as st) item (mcopy ctx []))))"

definition end_iteration :: "string \<Rightarrow> step \<Rightarrow> workflow \<Rightarrow> string \<Rightarrow> run_row \<Rightarrow> 'w outcome \<Rightarrow> 'w iteration" where
  "end_iteration run st w key row res = (case res of (err, vars, s) \<Rightarrow>
     let sub = rn_run_id row; (t, s) = now s
     in (case err of
          None \<Rightarrow> (None, Some vars,
            close_run row RunCompleted (Some t) (fire (SubRunCompleted sub run (st_name st) (wf_name w) key) s))
        | Some e \<Rightarrow> (case pause_error e of
            Some p \<Rightarrow> (Some e, Some vars, close_run row RunPaused None (fire (RunPausedEv sub (wf_name w) p) s))
          | None \<Rightarrow>
              (if st_ignore_errors st then None else Some e,
               Some (if st_ignore_errors st then ignored_failure vars e else vars),
               close_run row RunFailed (Some t)
                 (fire (SubRunFailed sub run (st_name st) (wf_name w) key (err_text e)) s)))))"

definition iterate_workflow ::
  "'w ext \<Rightarrow> 'w runner \<Rightarrow> string \<Rightarrow> step \<Rightarrow> nat \<Rightarrow> val \<Rightarrow> gomap \<Rightarrow> 'w eng \<Rightarrow> 'w iteration option" where
  "iterate_workflow X run_wf run st i item ctx s =
     (case resolve_sub_workflow X st (mput (st_as st) item (mcopy ctx [])) of
        Inl e \<Rightarrow> Some (Some (Msg e), None, s)
      | Inr w \<Rightarrow> (case iteration_vars X st w item ctx of
          Inl e \<Rightarrow> Some (Some (Msg e), None, s)
        | Inr vars \<Rightarrow>
            let key = iteration_key (x_lib X) st i item;
                sub = run @ ''-'' @ st_name st @ ''-'' @ key in
            (case check_sub_run sub st (wf_name w) s of
               Some e \<Rightarrow> Some (Some (Msg e), None, s)
             | None \<Rightarrow>
                 let p = start_sub_run X sub run st w key vars s
                 in map_option (end_iteration run st w key (fst p)) (run_wf sub w vars (snd p)))))"

definition iterate_step ::
  "'w ext \<Rightarrow> 'w runner \<Rightarrow> string \<Rightarrow> string \<Rightarrow> step \<Rightarrow> nat \<Rightarrow> val \<Rightarrow> gomap \<Rightarrow> 'w eng \<Rightarrow> 'w iteration option" where
  "iterate_step X run_wf run wname st i item ctx s =
     (let sub = st\<lparr>st_for_each := [], st_register := []\<rparr>;
          sname = st_name st @ ''['' @ iteration_key (x_lib X) st i item @ '']'';
          item_ctx = mput (st_as st) item (mcopy ctx [])
      in (case with_debugger X run wname sub sname
             (run_plain_step X run_wf run wname sub sname False item_ctx) s of
            None \<Rightarrow> None
          | Some (None, c, s) \<Rightarrow> Some (None, Some c, s)
          | Some (Some e, c, s) \<Rightarrow>
              Some (if \<not> st_ignore_errors st \<or> pause_error e \<noteq> None then (Some e, None, s)
                    else (None, Some (ignored_failure c e), s))))"

definition iterate ::
  "'w ext \<Rightarrow> 'w runner \<Rightarrow> string \<Rightarrow> string \<Rightarrow> step \<Rightarrow> nat \<Rightarrow> val \<Rightarrow> gomap \<Rightarrow> 'w eng \<Rightarrow> 'w iteration option" where
  "iterate X run_wf run wname st i item ctx s =
     (if st_workflow st \<noteq> [] then iterate_workflow X run_wf run st i item ctx s
      else iterate_step X run_wf run wname st i item ctx s)"

text \<open>for_each_when of one item.\<close>

definition item_wanted :: "'w ext \<Rightarrow> step \<Rightarrow> nat \<Rightarrow> val \<Rightarrow> gomap \<Rightarrow> string + bool" where
  "item_wanted X st i item ctx =
     (if st_for_each_when st = [] then Inr True
      else map_sum (\<lambda>e. ''evaluating for_each_when for item '' @ nat_text i @ '': '' @ e) id
        (eval_bool (x_pongo X) (st_for_each_when st) (mput (st_as st) item (mcopy ctx []))))"

fun for_each_loop ::
  "'w ext \<Rightarrow> 'w runner \<Rightarrow> string \<Rightarrow> string \<Rightarrow> step \<Rightarrow> nat \<Rightarrow> val list \<Rightarrow> gomap \<Rightarrow> gomap list \<Rightarrow> 'w eng
     \<Rightarrow> (gerr option \<times> gomap list \<times> 'w eng) option" where
  "for_each_loop X run_wf run wname st i [] ctx results s = Some (None, results, s)"
| "for_each_loop X run_wf run wname st i (item # items) ctx results s =
     (case item_wanted X st i item ctx of
        Inl e \<Rightarrow> Some (Some (Msg e), results, s)
      | Inr False \<Rightarrow> for_each_loop X run_wf run wname st (Suc i) items ctx results s
      | Inr True \<Rightarrow> (case iterate X run_wf run wname st i item ctx s of
            None \<Rightarrow> None
          | Some (err, res, s) \<Rightarrow>
              let results = results @ (case res of None \<Rightarrow> [] | Some r \<Rightarrow> [r]) in
              (case err of
                 Some e \<Rightarrow> Some (Some e, results, s)
               | None \<Rightarrow> for_each_loop X run_wf run wname st (Suc i) items ctx results s)))"

definition run_for_each ::
  "'w ext \<Rightarrow> 'w runner \<Rightarrow> string \<Rightarrow> string \<Rightarrow> step \<Rightarrow> gomap \<Rightarrow> 'w eng \<Rightarrow> 'w outcome option" where
  "run_for_each X run_wf run wname st ctx s =
     (case resolve_for_each_list X (st_for_each st) ctx of
        Inl e \<Rightarrow> Some (Some (Msg (''resolving for_each: '' @ e)), ctx, s)
      | Inr items \<Rightarrow> (case sort_items (x_lib X) (st_for_each_sort st) items of
          Inl e \<Rightarrow> Some (Some (Msg e), ctx, s)
        | Inr items \<Rightarrow>
            let ctx = sort_in_place st items ctx in
            (case (if st_for_each_key st = [] then None else check_keys (x_lib X) (st_for_each_key st) 0 [] items) of
               Some e \<Rightarrow> Some (Some (Msg e), ctx, s)
             | None \<Rightarrow>
                 map_option (\<lambda>(err, results, s).
                     (err, if st_register st \<noteq> [] then mput (st_register st) (VMaps results) ctx else ctx, s))
                   (for_each_loop X run_wf run wname st 0 items ctx [] s))))"

subsection \<open>Steps, sections, workflows\<close>

definition run_step_core ::
  "'w ext \<Rightarrow> 'w runner \<Rightarrow> string \<Rightarrow> string \<Rightarrow> step \<Rightarrow> string \<Rightarrow> bool \<Rightarrow> gomap \<Rightarrow> 'w eng \<Rightarrow> 'w outcome option" where
  "run_step_core X run_wf run wname st sname force ctx s =
     (if st_for_each st = [] then run_plain_step X run_wf run wname st sname force ctx s
      else (case step_guards X run wname st sname force ctx s of
          Inl res \<Rightarrow> Some res
        | Inr s \<Rightarrow>
            map_option (close_step_event run wname st)
              (run_for_each X run_wf run wname st ctx
                (fire (StepStarted run wname (st_name st) (st_type st) ''for_each'' []) s))))"

definition run_step ::
  "'w ext \<Rightarrow> 'w runner \<Rightarrow> string \<Rightarrow> string \<Rightarrow> step \<Rightarrow> string \<Rightarrow> bool \<Rightarrow> gomap \<Rightarrow> 'w eng \<Rightarrow> 'w outcome option" where
  "run_step X run_wf run wname st sname force ctx s =
     with_debugger X run wname st sname (run_step_core X run_wf run wname st sname force ctx) s"

fun run_steps :: "'w ext \<Rightarrow> 'w runner \<Rightarrow> string \<Rightarrow> string \<Rightarrow> step list \<Rightarrow> gomap \<Rightarrow> 'w eng \<Rightarrow> 'w outcome option" where
  "run_steps X run_wf run wname [] ctx s = Some (None, ctx, s)"
| "run_steps X run_wf run wname (st # sts) ctx s =
     (case run_step X run_wf run wname st (st_name st) False ctx s of
        None \<Rightarrow> None
      | Some (Some e, ctx, s) \<Rightarrow> Some (Some (Wrap (''step '' @ quoted (st_name st) @ '': '') e), ctx, s)
      | Some (None, ctx, s) \<Rightarrow> run_steps X run_wf run wname sts ctx s)"

definition terminal_error :: "string \<Rightarrow> step \<Rightarrow> gerr \<Rightarrow> gerr" where
  "terminal_error section st e =
     (if pause_error e \<noteq> None then Msg (section @ '' step '' @ quoted (st_name st) @ '' may not pause'')
      else Wrap (section @ '' step '' @ quoted (st_name st) @ '': '') e)"

fun run_terminal ::
  "'w ext \<Rightarrow> 'w runner \<Rightarrow> string \<Rightarrow> string \<Rightarrow> string \<Rightarrow> step list \<Rightarrow> gomap \<Rightarrow> 'w eng
     \<Rightarrow> (gerr list \<times> gomap \<times> 'w eng) option" where
  "run_terminal X run_wf run wname section [] ctx s = Some ([], ctx, s)"
| "run_terminal X run_wf run wname section (st # sts) ctx s =
     (case run_step X run_wf run wname st (section @ ''/'' @ st_name st) True ctx s of
        None \<Rightarrow> None
      | Some (err, ctx, s) \<Rightarrow>
          map_option (\<lambda>(es, ctx, s).
              ((case err of None \<Rightarrow> es | Some e \<Rightarrow> terminal_error section st e # es), ctx, s))
            (run_terminal X run_wf run wname section sts ctx s))"

definition execute_workflow :: "'w ext \<Rightarrow> 'w runner \<Rightarrow> 'w runner" where
  "execute_workflow X run_wf run w ctx s =
     (case run_steps X run_wf run (wf_name w) (wf_steps w) ctx s of
        None \<Rightarrow> None
      | Some (main, ctx, s) \<Rightarrow>
          if is_paused main then Some (main, ctx, s)
          else (case (case main of
                  None \<Rightarrow> Some ([], ctx, s)
                | Some e \<Rightarrow> map_option (\<lambda>(es, ctx, s). (e # es, ctx, s))
                    (run_terminal X run_wf run (wf_name w) ''rescue'' (wf_rescue w) ctx s)) of
              None \<Rightarrow> None
            | Some (errs, ctx, s) \<Rightarrow>
                map_option (\<lambda>(es, ctx, s). (join_errors (errs @ es), ctx, s))
                  (run_terminal X run_wf run (wf_name w) ''always'' (wf_always w) ctx s)))"

text \<open>Sub-workflow calls nested at most \<open>n\<close> deep.\<close>

primrec run_workflow :: "nat \<Rightarrow> 'w ext \<Rightarrow> 'w runner" where
  "run_workflow 0 X = (\<lambda>run w ctx s. None)"
| "run_workflow (Suc n) X = execute_workflow X (run_workflow n X)"

end
