(* ===== verification/Engine_Relations.thy ===== *)
theory Engine_Relations
  imports Step_Engine
begin

text \<open>
  What executing a workflow keeps. The locale \<open>step_relation\<close> lifts a relation that every primitive effect of one
  step respects to whole steps that call no workflow. The locale \<open>engine_relation\<close> is the interface between the
  engine and any property of its states: a reflexive and transitive relation, for a run id, that
  every primitive effect of the engine respects, and that holds for a run when it holds for a
  sub-run. Its lemmas lift the relation through the guards, the step types, the calls, the loops
  and the sections to \<open>run_workflow\<close>. The interpretations give the invariant of the store, the
  isolation of runs, the immutability of what a run row records, and that events and clock only
  grow.
\<close>

text \<open>The state in which a guard leaves the step.\<close>

fun guard_state :: "'w outcome + 'w eng \<Rightarrow> 'w eng" where
  "guard_state (Inl res) = snd (snd res)"
| "guard_state (Inr s) = s"

text \<open>The rows a step may write: its own and the receipts of its decisions.\<close>

definition row_of_step :: "string \<Rightarrow> string \<Rightarrow> bool" where
  "row_of_step sname n \<longleftrightarrow> n = sname \<or> (\<exists>identity. n = decision_key sname identity)"

lemma row_of_step_simps [simp]: "row_of_step sname sname" "row_of_step sname (decision_key sname identity)"
  by (auto simp: row_of_step_def)

text \<open>What one step of the engine does without calling a workflow: \<open>step_relation\<close> asks that a relation holds for each single
  operation of a step, on these rows only.\<close>

locale step_relation =
  fixes R :: "string \<Rightarrow> string \<Rightarrow> string \<Rightarrow> 'w eng \<Rightarrow> 'w eng \<Rightarrow> bool"
    and X :: "'w ext"
  assumes refl: "R run wname sname s s"
    and trans: "R run wname sname s t \<Longrightarrow> R run wname sname t u \<Longrightarrow> R run wname sname s u"
    and fires: "R run wname sname s (fire e s)"
    and ticks: "R run wname sname s (snd (now s))"
    and acts: "R run wname sname s (set_world w s)"
    and saves: "sr_run_id r = run \<Longrightarrow> sr_workflow_name r = wname \<Longrightarrow> row_of_step sname (sr_step_name r) \<Longrightarrow>
      R run wname sname s (save_row X r s)"
begin

lemma step_fire: "R run wname sname s t \<Longrightarrow> R run wname sname s (fire e t)"
  using fires trans by blast

lemma step_now: "R run wname sname s t \<Longrightarrow> R run wname sname s (snd (now t))"
  using ticks trans by blast

lemma step_world: "R run wname sname s t \<Longrightarrow> R run wname sname s (set_world w t)"
  using acts trans by blast

lemma step_save: "sr_run_id r = run \<Longrightarrow> sr_workflow_name r = wname \<Longrightarrow> row_of_step sname (sr_step_name r) \<Longrightarrow>
    R run wname sname s t \<Longrightarrow> R run wname sname s (save_row X r t)"
  using saves trans by blast

lemmas steps = refl step_fire step_now step_world step_save

lemma fail_step_rel: "row_of_step sname n \<Longrightarrow> R run wname sname s t \<Longrightarrow>
    R run wname sname s (snd (fail_step X run wname n ty t0 err t))"
  by (simp add: fail_step_def Let_def case_prod_beta steps)

lemma failed_with_rel: "R run wname sname s t \<Longrightarrow> R run wname sname s (snd (snd (failed_with X run wname sname b t0 err ctx t)))"
  by (simp add: failed_with_def case_prod_beta fail_step_rel)

lemma finish_step_rel:
  "R run wname sname s t \<Longrightarrow> R run wname sname s (snd (snd (finish_step X run wname st sname t0 a b out ctx t)))"
  by (simp add: finish_step_def Let_def case_prod_beta steps)

lemma ask_decision_rel:
  "row_of_step sname key \<Longrightarrow> R run wname sname s t \<Longrightarrow> R run wname sname s (snd (ask_decision X run wname sname name d input key hash timeout t))"
  by (simp add: ask_decision_def Let_def case_prod_beta steps receipt_row_def fail_step_rel
      split: option.split sum.split)

lemma decision_rel:
  "R run wname sname s t \<Longrightarrow> R run wname sname s (snd (decision X run wname sname name input refresh timeout t))"
  by (simp add: decision_def Let_def ask_decision_rel split: option.split)

lemma decision_facts_rel:
  "R run wname sname s t \<Longrightarrow> R run wname sname s (snd (decision_facts X run wname sname timeout ns facts t))"
proof (induction ns arbitrary: facts t)
  case Nil
  then show ?case by simp
next
  case (Cons n ns)
  then show ?case
    using decision_rel [of run wname sname s t]
    by (auto simp: Let_def split: option.split val.split prod.split sum.split) (metis snd_conv)+
qed

lemma resolve_decision_facts_rel:
  "R run wname sname s t \<Longrightarrow> R run wname sname s (snd (resolve_decision_facts X run wname sname facts ctx timeout t))"
  by (simp add: resolve_decision_facts_def decision_facts_rel split: sum.split)

lemma answer_kind_rel:
  "R run wname sname s t \<Longrightarrow> R run wname sname s (snd (answer_kind X run wname sname timeout kind name input refresh t))"
  using decision_rel [of run wname sname s t]
  by (auto simp: answer_kind_def split: option.split prod.split sum.split) (metis snd_conv)+

lemma run_cond_rel: "R run wname sname s t \<Longrightarrow> R run wname sname s (snd (run_cond X run wname sname timeout p t))"
  by (induction p arbitrary: t) (auto simp: Let_def answer_kind_rel)

lemma eval_decision_bool_rel:
  "R run wname sname s t \<Longrightarrow> R run wname sname s (snd (eval_decision_bool X run wname sname expr ctx timeout t))"
  by (simp add: eval_decision_bool_def run_cond_rel)

lemma eval_decision_bool_eq:
  "eval_decision_bool X run wname sname expr ctx timeout t = (r, u) \<Longrightarrow> R run wname sname s t \<Longrightarrow> R run wname sname s u"
  using eval_decision_bool_rel by (metis snd_conv)

lemma run_set_fact_rel:
  "R run wname sname s t \<Longrightarrow> R run wname sname s (snd (snd (run_set_fact X run wname st sname b t0 ctx t)))"
  by (auto simp: run_set_fact_def failed_with_rel finish_step_rel split: prod.split sum.split)

lemma check_assertions_rel:
  "R run wname sname s t \<Longrightarrow> R run wname sname s (snd (check_assertions X run wname st sname ctx es t))"
proof (induction es arbitrary: t)
  case Nil
  then show ?case by simp
next
  case (Cons e es)
  then show ?case
    using eval_decision_bool_eq by (auto split: prod.split sum.split)
qed

lemma run_assert_rel:
  "R run wname sname s t \<Longrightarrow> R run wname sname s (snd (snd (run_assert X run wname st sname b t0 ctx t)))"
  using check_assertions_rel [of run wname sname s t st ctx "st_that st"]
  by (auto simp: run_assert_def failed_with_rel finish_step_rel split: prod.split option.split)

lemma run_gate_rel:
  assumes "R run wname sname s t"
  shows "R run wname sname s (snd (snd (run_gate X run wname st sname b t0 ctx t)))"
proof -
  obtain r u where ru: "resolve_decision_facts X run wname sname (st_facts st) ctx (st_timeout st) t = (r, u)"
    by (rule prod.exhaust)
  then have u: "R run wname sname s u"
    using resolve_decision_facts_rel [OF assms, of "st_facts st" ctx "st_timeout st"] by simp
  show ?thesis
    using u unfolding run_gate_def ru prod.case
    by (simp add: Let_def case_prod_beta failed_with_rel finish_step_rel steps split: sum.split)
qed

lemma run_load_artifact_rel:
  "R run wname sname s t \<Longrightarrow> R run wname sname s (snd (snd (run_load_artifact X run wname st sname b t0 ctx t)))"
  by (auto simp: run_load_artifact_def failed_with_rel finish_step_rel split: sum.split)

lemma record_result_rel:
  "R run wname sname s t \<Longrightarrow> R run wname sname s (snd (snd (record_result X run wname st sname b t0 out ctx t)))"
  by (auto simp: record_result_def Let_def failed_with_rel finish_step_rel split: sum.split)

lemma fire_notices_rel: "R run wname sname s t \<Longrightarrow> R run wname sname s (fold (fire_notice run wname st) ns t)"
  by (induction ns arbitrary: t) (auto simp: fire_notice_def step_fire split: notice.split)

lemma announce_wait_rel: "R run wname sname s t \<Longrightarrow> R run wname sname s (announce_wait X run wname st b ps t)"
  by (simp add: announce_wait_def step_fire)

lemma run_executor_rel:
  "R run wname sname s t \<Longrightarrow> R run wname sname s (snd (snd (run_executor X run wname st sname b merged t0 ctx t)))"
  by (simp add: run_executor_def Let_def case_prod_beta failed_with_rel record_result_rel
      fire_notices_rel announce_wait_rel steps split: sum.split option.split)

lemma run_typed_step_rel:
  "R run wname sname s t \<Longrightarrow> R run wname sname s (snd (snd (run_typed_step X run wname st sname ctx t)))"
  by (simp add: run_typed_step_def Let_def case_prod_beta run_set_fact_rel run_assert_rel run_gate_rel
      run_load_artifact_rel run_executor_rel steps)

lemma debug_pause_rel:
  "R run wname sname s t \<Longrightarrow> R run wname sname s (snd (debug_pause X run wname st sname phase ctx out t))"
  by (simp add: debug_pause_def Let_def case_prod_beta steps split: option.split)

lemma skip_step_rel: "R run wname sname s t \<Longrightarrow> R run wname sname s (skip_step X run wname st sname t)"
  by (simp add: skip_step_def Let_def case_prod_beta steps)

lemma check_when_rel: "R run wname sname s t \<Longrightarrow> R run wname sname s (snd (check_when X run wname st sname ctx t))"
  by (simp add: check_when_def eval_decision_bool_rel)

lemma step_start_rel:
  assumes "R run wname sname s t"
  shows "R run wname sname s (guard_state (step_start X run wname st sname ctx t))"
proof -
  obtain r u where ru: "check_when X run wname st sname ctx t = (r, u)" by (rule prod.exhaust)
  then have u: "R run wname sname s u" using check_when_rel [OF assms, of st ctx] by simp
  obtain q v where qv: "debug_pause X run wname st sname ''before'' ctx None u = (q, v)" by (rule prod.exhaust)
  then have v: "R run wname sname s v" using debug_pause_rel [OF u, of st "''before''" ctx None] by simp
  show ?thesis
    using u v unfolding step_start_def ru prod.case qv
    by (simp add: Let_def case_prod_beta failed_with_rel skip_step_rel steps split: sum.split option.split)
qed

lemma step_guards_rel:
  assumes "R run wname sname s t"
  shows "R run wname sname s (guard_state (step_guards X run wname st sname force ctx t))"
  using step_start_rel [OF assms, of st ctx] assms
  by (simp add: step_guards_def split: option.split)

lemma step_guards_Inl:
  "step_guards X run wname st sname force ctx t = Inl (e, c, u) \<Longrightarrow> R run wname sname s t \<Longrightarrow> R run wname sname s u"
  using step_guards_rel [of run wname sname s t st force ctx] by simp

lemma step_guards_Inr:
  "step_guards X run wname st sname force ctx t = Inr u \<Longrightarrow> R run wname sname s t \<Longrightarrow> R run wname sname s u"
  using step_guards_rel [of run wname sname s t st force ctx] by simp

lemma pause_after_rel: "R run wname sname s t \<Longrightarrow> R run wname sname s (snd (snd (pause_after X run wname st sname b ctx t)))"
  by (simp add: pause_after_def Let_def case_prod_beta debug_pause_rel split: option.split)

lemma with_debugger_rel:
  assumes "with_debugger X run wname st sname core t = Some res"
    and "\<And>r. core t = Some r \<Longrightarrow> R run wname sname s (snd (snd r))"
  shows "R run wname sname s (snd (snd res))"
  using assms pause_after_rel
  by (auto simp: with_debugger_def split: if_splits option.splits)

text \<open>A step that calls no workflow, with its debugger.\<close>

lemma simple_step_rel:
  assumes "st_workflow st = []" "R run wname sname s t" "run_plain_step X run_wf run wname st sname force ctx t = Some res"
  shows "R run wname sname s (snd (snd res))"
proof (cases "step_guards X run wname st sname force ctx t")
  case (Inl r)
  then have "res = r" using assms(3) by (simp add: run_plain_step_def)
  with Inl show ?thesis using step_guards_rel [OF assms(2), of st force ctx] by simp
next
  case (Inr u)
  with step_guards_Inr assms(2) have u: "R run wname sname s u" by blast
  show ?thesis using assms(1,3) Inr run_typed_step_rel [OF u] by (auto simp: run_plain_step_def)
qed

lemma iterate_step_rel:
  assumes "st_workflow st = []" "R run wname sname s t" "sname = st_name st @ ''['' @ iteration_key (x_lib X) st i item @ '']''"
    and "iterate_step X run_wf run wname st i item ctx t = Some res"
  shows "R run wname sname s (snd (snd res))"
proof -
  define sub where "sub = st\<lparr>st_for_each := [], st_register := []\<rparr>"
  from assms(4) obtain r where r:
    "with_debugger X run wname sub sname (run_plain_step X run_wf run wname sub sname False (mput (st_as st) item (mcopy ctx []))) t = Some r"
    "snd (snd res) = snd (snd r)"
    by (auto simp: iterate_step_def Let_def sub_def assms(3) split: option.splits)
  have "st_workflow sub = []" using assms(1) by (simp add: sub_def)
  show ?thesis
    unfolding r(2) by (rule with_debugger_rel [OF r(1)]) (rule simple_step_rel [OF \<open>st_workflow sub = []\<close> assms(2)])
qed

end

locale engine_relation =
  fixes R :: "string \<Rightarrow> 'w eng \<Rightarrow> 'w eng \<Rightarrow> bool"
    and X :: "'w ext"
  assumes refl: "R run s s"
    and trans: "R run s t \<Longrightarrow> R run t u \<Longrightarrow> R run s u"
    and sub_run: "R (run @ ''-'' @ k) s t \<Longrightarrow> R run s t"
    and fires: "R run s (fire e s)"
    and ticks: "R run s (snd (now s))"
    and acts: "R run s (set_world w s)"
    and saves: "sr_run_id r = run \<Longrightarrow> R run s (save_row X r s)"
    and creates: "rn_run_id q = run @ ''-'' @ k \<Longrightarrow> rn_parent_run_id q = run \<Longrightarrow>
      R run s (create_run_ignored q s)"
    and closes: "rn_run_id q = run @ ''-'' @ k \<Longrightarrow> R run s (close_run q st c s)"

sublocale engine_relation < step: step_relation "\<lambda>run wname sname. R run" X
  using refl trans fires ticks acts saves by unfold_locales blast+

context engine_relation
begin

lemma step_create: "rn_run_id q = run @ ''-'' @ k \<Longrightarrow> rn_parent_run_id q = run \<Longrightarrow> R run s t \<Longrightarrow>
    R run s (create_run_ignored q t)"
  using creates trans by blast

lemma step_close: "rn_run_id q = run @ ''-'' @ k \<Longrightarrow> R run s t \<Longrightarrow> R run s (close_run q st c t)"
  using closes trans by blast


text \<open>A runner of sub-workflows that respects the relation.\<close>

definition runner_rel :: "'w runner \<Rightarrow> bool" where
  "runner_rel run_wf \<longleftrightarrow> (\<forall>run w ctx s e c t. run_wf run w ctx s = Some (e, c, t) \<longrightarrow> R run s t)"

lemma runner_step:
  "runner_rel run_wf \<Longrightarrow> run_wf (run @ ''-'' @ k) w ctx t = Some (e, c, u) \<Longrightarrow> R run s t \<Longrightarrow> R run s u"
  using sub_run trans unfolding runner_rel_def by blast

lemma start_sub_run_rel:
  "sub = run @ ''-'' @ k \<Longrightarrow> R run s t \<Longrightarrow> R run s (snd (start_sub_run X sub run st w key vars t))"
  by (simp add: start_sub_run_def Let_def case_prod_beta step.step_fire step.step_now step_create [where k = k] sub_run_row_def)

lemma start_sub_run_id: "rn_run_id (fst (start_sub_run X sub run st w key vars t)) = sub"
  by (simp add: start_sub_run_def Let_def case_prod_beta sub_run_row_def)

lemma end_call_rel:
  "rn_run_id row = run @ ''-'' @ k \<Longrightarrow> R run s (snd (snd res)) \<Longrightarrow>
     R run s (snd (snd (end_call run st w row ctx res)))"
  by (simp add: end_call_def Let_def case_prod_beta step.step_fire step.step_now step_close split: option.split)

lemma end_iteration_rel:
  "rn_run_id row = run @ ''-'' @ k \<Longrightarrow> R run s (snd (snd res)) \<Longrightarrow>
     R run s (snd (snd (end_iteration run st w key row res)))"
  by (simp add: end_iteration_def Let_def case_prod_beta step.step_fire step.step_now step_close split: option.split)

lemma sub_run_rel:
  assumes "runner_rel run_wf" "R run s t" "sub = run @ ''-'' @ k"
    and "run_wf sub w vars (snd (start_sub_run X sub run st w key vars t)) = Some res"
  shows "R run s (snd (snd res))"
proof -
  obtain e c u where res: "res = (e, c, u)" by (cases res)
  have "R run s (snd (start_sub_run X sub run st w key vars t))"
    using start_sub_run_rel [OF assms(3,2)] .
  then show ?thesis
    using runner_step [OF assms(1), of run k] assms(3,4) res by simp
qed

lemma call_sub_workflow_rel:
  assumes "runner_rel run_wf" "R run s t" "call_sub_workflow X run_wf run st ctx t = Some res"
  shows "R run s (snd (snd res))"
  using assms(3)
  by (auto simp: call_sub_workflow_def Let_def start_sub_run_id assms(2) split: sum.splits option.splits
      intro!: end_call_rel [where k = "st_name st"])
    (use sub_run_rel [OF assms(1,2), where k = "st_name st"] in force)

lemma iterate_workflow_rel:
  assumes "runner_rel run_wf" "R run s t" "iterate_workflow X run_wf run st i item ctx t = Some res"
  shows "R run s (snd (snd res))"
  using assms(3)
  by (auto simp: iterate_workflow_def Let_def start_sub_run_id assms(2) split: sum.splits option.splits
      intro!: end_iteration_rel [where k = "st_name st @ ''-'' @ iteration_key (x_lib X) st i item"])
    (use sub_run_rel [OF assms(1,2), where k = "st_name st @ ''-'' @ iteration_key (x_lib X) st i item"] in force)

lemma close_step_event_rel: "R run s (snd (snd res)) \<Longrightarrow> R run s (snd (snd (close_step_event run wname st res)))"
  by (simp add: close_step_event_def case_prod_beta step.step_fire split: option.split)

lemma run_call_step_rel:
  assumes "runner_rel run_wf" "R run s t" "run_call_step X run_wf run wname st ctx t = Some res"
  shows "R run s (snd (snd res))"
proof -
  from assms(3) obtain r where "call_sub_workflow X run_wf run st ctx
      (fire (StepStarted run wname (st_name st) (st_type st) ''workflow'' []) t) = Some r"
    "res = close_step_event run wname st r"
    by (auto simp: run_call_step_def)
  then show ?thesis
    using call_sub_workflow_rel [OF assms(1) step.step_fire [OF assms(2)]] close_step_event_rel by metis
qed

lemma run_plain_step_rel:
  assumes "runner_rel run_wf" "R run s t" "run_plain_step X run_wf run wname st sname force ctx t = Some res"
  shows "R run s (snd (snd res))"
proof (cases "step_guards X run wname st sname force ctx t")
  case (Inl r)
  then have "res = r" using assms(3) by (simp add: run_plain_step_def)
  with Inl show ?thesis using step.step_guards_rel [OF assms(2), of wname st sname force ctx] by simp
next
  case (Inr u)
  with step.step_guards_Inr assms(2) have u: "R run s u" by blast
  show ?thesis
    using assms(3) Inr run_call_step_rel [OF assms(1) u] step.run_typed_step_rel [OF u]
    by (auto simp: run_plain_step_def split: if_splits)
qed

lemma iterate_rel:
  assumes "runner_rel run_wf" "R run s t" "iterate X run_wf run wname st i item ctx t = Some res"
  shows "R run s (snd (snd res))"
proof (cases "st_workflow st = []")
  case False
  then show ?thesis using assms iterate_workflow_rel by (simp add: iterate_def)
next
  case True
  define sname where "sname = st_name st @ ''['' @ iteration_key (x_lib X) st i item @ '']''"
  define sub where "sub = st\<lparr>st_for_each := [], st_register := []\<rparr>"
  from True assms(3) obtain r where r:
    "with_debugger X run wname sub sname (run_plain_step X run_wf run wname sub sname False (mput (st_as st) item (mcopy ctx []))) t = Some r"
    "snd (snd res) = snd (snd r)"
    by (auto simp: iterate_def iterate_step_def Let_def sub_def sname_def split: option.splits)
  show ?thesis
    unfolding r(2)
    by (rule step.with_debugger_rel [OF r(1)]) (rule run_plain_step_rel [OF assms(1,2)])
qed

lemma for_each_loop_rel:
  "runner_rel run_wf \<Longrightarrow> R run s t \<Longrightarrow>
     for_each_loop X run_wf run wname st i items ctx results t = Some res \<Longrightarrow> R run s (snd (snd res))"
proof (induction items arbitrary: i results t)
  case Nil
  then show ?case by auto
next
  case (Cons item items)
  show ?case
  proof (cases "item_wanted X st i item ctx")
    case (Inl e)
    with Cons.prems show ?thesis by auto
  next
    case (Inr w)
    show ?thesis
    proof (cases w)
      case False
      with Cons Inr show ?thesis by simp
    next
      case True
      with Inr Cons.prems(3) obtain err r u where it: "iterate X run_wf run wname st i item ctx t = Some (err, r, u)"
        by (auto split: option.splits)
      have u: "R run s u" using iterate_rel [OF Cons.prems(1,2) it] by simp
      show ?thesis
        using Cons.prems(3) Cons.IH [OF Cons.prems(1) u] Inr True it u
        by (auto simp: Let_def split: option.splits)
    qed
  qed
qed

lemma run_for_each_rel:
  assumes "runner_rel run_wf" "R run s t" "run_for_each X run_wf run wname st ctx t = Some res"
  shows "R run s (snd (snd res))"
  using assms(3) for_each_loop_rel [OF assms(1,2)] assms(2)
  by (auto simp: run_for_each_def Let_def split: sum.splits option.splits)

lemma run_step_core_rel:
  assumes "runner_rel run_wf" "R run s t" "run_step_core X run_wf run wname st sname force ctx t = Some res"
  shows "R run s (snd (snd res))"
proof (cases "st_for_each st = []")
  case True
  with assms show ?thesis using run_plain_step_rel by (simp add: run_step_core_def)
next
  case loop: False
  show ?thesis
  proof (cases "step_guards X run wname st sname force ctx t")
    case (Inl r)
    then have "res = r" using assms(3) loop by (simp add: run_step_core_def)
    with Inl show ?thesis using step.step_guards_rel [OF assms(2), of wname st sname force ctx] by simp
  next
    case (Inr u)
    with step.step_guards_Inr assms(2) have u: "R run s u" by blast
    from Inr loop assms(3) obtain r where r: "run_for_each X run_wf run wname st ctx
        (fire (StepStarted run wname (st_name st) (st_type st) ''for_each'' []) u) = Some r"
      "res = close_step_event run wname st r"
      by (auto simp: run_step_core_def)
    show ?thesis
      unfolding r(2) using run_for_each_rel [OF assms(1) step.step_fire [OF u] r(1)] by (rule close_step_event_rel)
  qed
qed

lemma run_step_rel:
  assumes "runner_rel run_wf" "R run s t" "run_step X run_wf run wname st sname force ctx t = Some res"
  shows "R run s (snd (snd res))"
  using assms(3) unfolding run_step_def
  by (rule step.with_debugger_rel) (rule run_step_core_rel [OF assms(1,2)])

lemma run_steps_rel:
  "runner_rel run_wf \<Longrightarrow> R run s t \<Longrightarrow> run_steps X run_wf run wname sts ctx t = Some res \<Longrightarrow>
     R run s (snd (snd res))"
proof (induction sts arbitrary: ctx t)
  case Nil
  then show ?case by auto
next
  case (Cons st sts)
  from Cons.prems(3) obtain e c u where r: "run_step X run_wf run wname st (st_name st) False ctx t = Some (e, c, u)"
    by (auto split: option.splits)
  have u: "R run s u" using run_step_rel [OF Cons.prems(1,2) r] by simp
  show ?case
    using Cons.prems(3) Cons.IH [OF Cons.prems(1) u] r u by (auto split: option.splits)
qed

lemma run_terminal_rel:
  "runner_rel run_wf \<Longrightarrow> R run s t \<Longrightarrow> run_terminal X run_wf run wname sec sts ctx t = Some res \<Longrightarrow>
     R run s (snd (snd res))"
proof (induction sts arbitrary: ctx t res)
  case Nil
  then show ?case by auto
next
  case (Cons st sts)
  from Cons.prems(3) obtain e c u where
    r: "run_step X run_wf run wname st (sec @ ''/'' @ st_name st) True ctx t = Some (e, c, u)"
    by (auto split: option.splits)
  have u: "R run s u" using run_step_rel [OF Cons.prems(1,2) r] by simp
  from Cons.prems(3) r obtain q where q: "run_terminal X run_wf run wname sec sts c u = Some q"
    "snd (snd res) = snd (snd q)"
    by (auto simp: case_prod_beta)
  then show ?case using Cons.IH [OF Cons.prems(1) u q(1)] by simp
qed

lemma execute_workflow_rel:
  assumes "runner_rel run_wf"
  shows "runner_rel (execute_workflow X run_wf)"
  unfolding runner_rel_def
proof (intro allI impI)
  fix run w ctx s e c t
  assume ex: "execute_workflow X run_wf run w ctx s = Some (e, c, t)"
  then obtain m c1 s1 where m: "run_steps X run_wf run (wf_name w) (wf_steps w) ctx s = Some (m, c1, s1)"
    by (auto simp: execute_workflow_def split: option.splits)
  have s1: "R run s s1" using run_steps_rel [OF assms refl m] by simp
  show "R run s t"
  proof (cases "is_paused m")
    case True
    with ex m s1 show ?thesis by (simp add: execute_workflow_def)
  next
    case False
    have "\<exists>c2 s2 q. R run s s2 \<and> run_terminal X run_wf run (wf_name w) ''always'' (wf_always w) c2 s2 = Some q
        \<and> t = snd (snd q)"
    proof (cases m)
      case None
      with ex m False s1 show ?thesis by (auto simp: execute_workflow_def)
    next
      case (Some err)
      with ex m False obtain r where r: "run_terminal X run_wf run (wf_name w) ''rescue'' (wf_rescue w) c1 s1 = Some r"
        by (auto simp: execute_workflow_def split: option.splits)
      have "R run s (snd (snd r))" by (rule run_terminal_rel [OF assms s1 r])
      with ex m False Some r show ?thesis by (auto simp: execute_workflow_def case_prod_beta split: option.splits)
    qed
    then show ?thesis using run_terminal_rel [OF assms] by blast
  qed
qed

lemma run_workflow_rel: "runner_rel (run_workflow n X)"
proof (induction n)
  case 0
  then show ?case by (simp add: runner_rel_def)
next
  case (Suc n)
  then show ?case by (simp add: execute_workflow_rel)
qed

lemma run_workflow_R: "run_workflow n X run w ctx s = Some (e, c, t) \<Longrightarrow> R run s t"
  using run_workflow_rel [of n] unfolding runner_rel_def by blast

end

subsection \<open>The relations\<close>

definition keeps_store_ok :: "string \<Rightarrow> 'w eng \<Rightarrow> 'w eng \<Rightarrow> bool" where
  "keeps_store_ok run s t \<longleftrightarrow> (store_ok (en_store s) \<longrightarrow> store_ok (en_store t))"

definition grows :: "string \<Rightarrow> 'w eng \<Rightarrow> 'w eng \<Rightarrow> bool" where
  "grows run s t \<longleftrightarrow> (\<exists>es. en_events t = en_events s @ es) \<and> en_clock s \<le> en_clock t"

text \<open>The runs that a run may touch: itself and the ones below it.\<close>

definition below :: "string \<Rightarrow> string \<Rightarrow> bool" where
  "below run i \<longleftrightarrow> i = run \<or> has_prefix i (run @ ''-'')"

definition isolates :: "string \<Rightarrow> 'w eng \<Rightarrow> 'w eng \<Rightarrow> bool" where
  "isolates run s t \<longleftrightarrow>
     (\<forall>i wname sname. \<not> below run i \<longrightarrow> row_of t i wname sname = row_of s i wname sname) \<and>
     (\<forall>i. \<not> has_prefix i (run @ ''-'') \<longrightarrow> get_run (en_store t) i = get_run (en_store s) i)"

text \<open>What a run row records once: everything but status and completion time.\<close>

definition run_record :: "run_row \<Rightarrow> run_row" where
  "run_record r = r\<lparr>rn_status := RunRunning, rn_completed_at := None\<rparr>"

definition keeps_records :: "string \<Rightarrow> 'w eng \<Rightarrow> 'w eng \<Rightarrow> bool" where
  "keeps_records run s t \<longleftrightarrow>
     (\<forall>i r. get_run (en_store s) i = Inr r \<longrightarrow>
        (\<exists>r'. get_run (en_store t) i = Inr r' \<and> run_record r' = run_record r))"

lemma create_run_ignored_store: "store_ok (en_store s) \<Longrightarrow> store_ok (en_store (create_run_ignored q s))"
  by (simp add: create_run_ignored_def store_ok_create_run split: sum.split)

interpretation ok: engine_relation keeps_store_ok X for X :: "'w ext"
proof unfold_locales
  show "keeps_store_ok run s (create_run_ignored q s)" if "rn_run_id q = run @ ''-'' @ k"
    for run s and q :: run_row and k
    unfolding keeps_store_ok_def using create_run_ignored_store by blast
qed (auto simp: keeps_store_ok_def save_row_def close_run_def store_ok_intros)

interpretation growth: engine_relation grows X for X :: "'w ext"
  by unfold_locales
    (auto simp: grows_def save_row_def close_run_def create_run_ignored_def fire_def now_def
      set_world_def with_store_def)

lemma below_sub: "\<not> below run i \<Longrightarrow> \<not> below (run @ ''-'' @ k) i"
  by (auto simp: below_def has_prefix_iff)

lemma sub_not_prefix: "\<not> has_prefix i (run @ ''-'') \<Longrightarrow> i \<noteq> run @ ''-'' @ k"
  by (auto simp: has_prefix_iff)

lemma row_of_run_updates [simp]:
  "row_of (close_run q st c s) = row_of s" "row_of (create_run_ignored q s) = row_of s"
proof -
  show "row_of (close_run q st c s) = row_of s"
    by (simp add: row_of_def [abs_def] close_run_def fun_eq_iff)
  show "row_of (create_run_ignored q s) = row_of s"
    by (auto simp: row_of_def [abs_def] create_run_ignored_def get_step_def fun_eq_iff db_steps_create_run
        split: sum.split)
qed

lemma find_run_update: "find_run (db_runs (update_run q st)) i =
    map_option (\<lambda>r. if rn_run_id r = rn_run_id q
      then r\<lparr>rn_status := rn_status q, rn_completed_at := rn_completed_at q\<rparr> else r) (find_run (db_runs st) i)"
  by (simp add: update_run_def find_run_map)

lemma get_run_close: "get_run (en_store (close_run q st c s)) i =
    map_sum id (\<lambda>r. if i = rn_run_id q then r\<lparr>rn_status := st, rn_completed_at := c\<rparr> else r)
      (get_run (en_store s) i)"
  by (auto simp: get_run_def close_run_def find_run_update dest: find_run_Some split: option.split)

lemma find_run_create:
  "find_run (db_runs (en_store (create_run_ignored q s))) i =
    (case find_run (db_runs (en_store s)) i of
       Some r \<Rightarrow> Some r
     | None \<Rightarrow> if rn_run_id q = i then Some (q\<lparr>rn_completed_at := None\<rparr>) else None)"
  by (auto simp: create_run_ignored_def create_run_def find_run_append split: option.splits)

lemma get_run_frame [simp]:
  "get_run (en_store (fire e s)) i = get_run (en_store s) i"
  "get_run (en_store (save_row X r s)) i = get_run (en_store s) i"
  by (simp_all add: save_row_def get_run_def)

interpretation isolation: engine_relation isolates X for X :: "'w ext"
proof unfold_locales
  show "isolates run s u" if "isolates run s t" "isolates run t u" for run and s t u :: "'w eng"
    using that by (simp add: isolates_def)
  show "isolates run s t" if "isolates (run @ ''-'' @ k) s t" for run k and s t :: "'w eng"
  proof -
    have "\<not> has_prefix i (run @ ''-'') \<Longrightarrow> \<not> has_prefix i ((run @ ''-'' @ k) @ ''-'')" for i
      by (auto simp: has_prefix_iff)
    then show ?thesis using that below_sub unfolding isolates_def by blast
  qed
  show "isolates run s (save_row X r s)" if "sr_run_id r = run" for r run and s :: "'w eng"
    using that by (auto simp: isolates_def row_of_save_row step_key_def below_def)
  show "isolates run s (create_run_ignored q s)" if "rn_run_id q = run @ ''-'' @ k"
    for run k and s :: "'w eng" and q :: run_row
    using that sub_not_prefix [of _ run k]
    by (auto simp: isolates_def get_run_def find_run_create split: option.split)
  show "isolates run s (close_run q st c s)" if "rn_run_id q = run @ ''-'' @ k"
    for run k and s :: "'w eng" and q :: run_row and st c
    using that sub_not_prefix [of _ run k]
    by (auto simp: isolates_def get_run_close sum.map_ident id_def)
qed (simp_all add: isolates_def)

interpretation records: engine_relation keeps_records X for X :: "'w ext"
proof unfold_locales
  show "keeps_records run s u" if "keeps_records run s t" "keeps_records run t u" for run and s t u :: "'w eng"
    using that unfolding keeps_records_def by metis
  show "keeps_records run s (create_run_ignored q s)" for run and q :: run_row and s :: "'w eng"
    by (auto simp: keeps_records_def get_run_def find_run_create split: option.splits)
  show "keeps_records run s (close_run q st c s)" for run and q :: run_row and s :: "'w eng" and st c
    by (auto simp: keeps_records_def get_run_close run_record_def)
qed (auto simp: keeps_records_def)

text \<open>Run ids grow from parent to child.\<close>

definition parents_shorter :: "store \<Rightarrow> bool" where
  "parents_shorter st \<longleftrightarrow> (\<forall>r\<in>set (db_runs st). rn_parent_run_id r \<noteq> [] \<longrightarrow>
     length (rn_parent_run_id r) < length (rn_run_id r))"

definition keeps_parents :: "string \<Rightarrow> 'w eng \<Rightarrow> 'w eng \<Rightarrow> bool" where
  "keeps_parents run s t \<longleftrightarrow> (parents_shorter (en_store s) \<longrightarrow> parents_shorter (en_store t))"

interpretation parents: engine_relation keeps_parents X for X :: "'w ext"
proof unfold_locales
  show "keeps_parents run s (create_run_ignored q s)"
    if "rn_run_id q = run @ ''-'' @ k" "rn_parent_run_id q = run" for run k and q :: run_row and s :: "'w eng"
    using that by (auto simp: keeps_parents_def parents_shorter_def create_run_ignored_def create_run_def)
  show "keeps_parents run s (close_run q st c s)" for run and q :: run_row and s :: "'w eng" and st c
    by (auto simp: keeps_parents_def parents_shorter_def close_run_def update_run_def)
qed (auto simp: keeps_parents_def save_row_def parents_shorter_def)

end
