(* ===== verification/Engine_Props.thy ===== *)
theory Engine_Props
  imports Engine_Relations
begin

text \<open>
  The properties of the step engine: what a run leaves in the store, how fuel behaves and when it
  suffices, what a completed, failed or paused step leaves behind, and the order of the sections.
\<close>

subsection \<open>Fuel\<close>

definition runner_le :: "'w runner \<Rightarrow> 'w runner \<Rightarrow> bool" where
  "runner_le p q \<longleftrightarrow> (\<forall>run w ctx s v. p run w ctx s = Some v \<longrightarrow> q run w ctx s = Some v)"

lemma runner_leD: "runner_le p q \<Longrightarrow> p run w ctx s = Some v \<Longrightarrow> q run w ctx s = Some v"
  unfolding runner_le_def by blast

lemma runner_le_map:
  "runner_le p q \<Longrightarrow> map_option f (p run w ctx s) = Some v \<Longrightarrow> map_option f (q run w ctx s) = Some v"
  by (cases "p run w ctx s") (auto dest: runner_leD)

lemma call_sub_workflow_le:
  "runner_le p q \<Longrightarrow> call_sub_workflow X p run st ctx s = Some v \<Longrightarrow> call_sub_workflow X q run st ctx s = Some v"
  by (auto simp: call_sub_workflow_def Let_def split: sum.splits option.splits dest: runner_leD)

lemma run_call_step_le:
  "runner_le p q \<Longrightarrow> run_call_step X p run wname st ctx s = Some v \<Longrightarrow> run_call_step X q run wname st ctx s = Some v"
  by (auto simp: run_call_step_def dest: call_sub_workflow_le)

lemma run_plain_step_le:
  "runner_le p q \<Longrightarrow> run_plain_step X p run wname st sname force ctx s = Some v \<Longrightarrow>
     run_plain_step X q run wname st sname force ctx s = Some v"
  by (auto simp: run_plain_step_def split: sum.splits if_splits dest: run_call_step_le)

lemma with_debugger_le:
  "(\<And>s v. c s = Some v \<Longrightarrow> d s = Some v) \<Longrightarrow> with_debugger X run wname st sname c s = Some v \<Longrightarrow>
     with_debugger X run wname st sname d s = Some v"
  by (cases "c s") (auto simp: with_debugger_def split: if_splits)

lemma iterate_le:
  assumes "runner_le p q" "iterate X p run wname st i item ctx s = Some v"
  shows "iterate X q run wname st i item ctx s = Some v"
proof (cases "st_workflow st = []")
  case False
  with assms show ?thesis
    by (auto simp: iterate_def iterate_workflow_def Let_def split: sum.splits option.splits dest: runner_leD)
next
  case True
  with assms(2) obtain r where r: "with_debugger X run wname (st\<lparr>st_for_each := [], st_register := []\<rparr>)
      (st_name st @ ''['' @ iteration_key (x_lib X) st i item @ '']'')
      (run_plain_step X p run wname (st\<lparr>st_for_each := [], st_register := []\<rparr>)
        (st_name st @ ''['' @ iteration_key (x_lib X) st i item @ '']'') False (mput (st_as st) item (mcopy ctx []))) s
      = Some r"
    by (auto simp: iterate_def iterate_step_def Let_def split: option.splits)
  note q = with_debugger_le [OF run_plain_step_le [OF assms(1)] r]
  from assms(2) True r q show ?thesis
    unfolding iterate_def iterate_step_def Let_def by simp
qed

lemma for_each_loop_le:
  "runner_le p q \<Longrightarrow> for_each_loop X p run wname st i items ctx results s = Some v \<Longrightarrow>
     for_each_loop X q run wname st i items ctx results s = Some v"
proof (induction items arbitrary: i results s)
  case Nil
  then show ?case by simp
next
  case (Cons item items)
  show ?case
  proof (cases "item_wanted X st i item ctx")
    case (Inl e)
    with Cons.prems show ?thesis by simp
  next
    case (Inr w)
    show ?thesis
    proof (cases w)
      case False
      with Cons Inr show ?thesis by simp
    next
      case True
      with Inr Cons.prems(2) obtain r where r: "iterate X p run wname st i item ctx s = Some r"
        by (auto split: option.splits)
      obtain e o' u where eou: "r = (e, o', u)" by (cases r)
      note q = iterate_le [OF Cons.prems(1) r]
      show ?thesis
        using Cons.prems Cons.IH Inr True r q eou by (cases e) (auto simp: Let_def)
    qed
  qed
qed

lemma run_for_each_le:
  assumes "runner_le p q" "run_for_each X p run wname st ctx s = Some v"
  shows "run_for_each X q run wname st ctx s = Some v"
proof (cases "resolve_for_each_list X (st_for_each st) ctx")
  case (Inr items)
  show ?thesis
  proof (cases "sort_items (x_lib X) (st_for_each_sort st) items")
    case (Inr sorted)
    note r = \<open>resolve_for_each_list X (st_for_each st) ctx = Inr items\<close> Inr
    let ?keys = "if st_for_each_key st = [] then None
      else check_keys (x_lib X) (st_for_each_key st) 0 [] sorted"
    show ?thesis
    proof (cases ?keys)
      case None
      with r assms(2) obtain res where res: "for_each_loop X p run wname st 0 sorted
          (sort_in_place st sorted ctx) [] s = Some res"
        by (auto simp: run_for_each_def Let_def)
      show ?thesis
        using assms(2) None r res for_each_loop_le [OF assms(1) res] by (simp add: run_for_each_def Let_def)
    qed (use r assms(2) in \<open>simp add: run_for_each_def Let_def\<close>)
  qed (use assms Inr in \<open>simp add: run_for_each_def\<close>)
qed (use assms in \<open>simp add: run_for_each_def\<close>)

lemma run_step_core_le:
  "runner_le p q \<Longrightarrow> run_step_core X p run wname st sname force ctx s = Some v \<Longrightarrow>
     run_step_core X q run wname st sname force ctx s = Some v"
  by (auto simp: run_step_core_def split: if_splits sum.splits dest: run_plain_step_le run_for_each_le)

lemma run_step_le:
  "runner_le p q \<Longrightarrow> run_step X p run wname st sname force ctx s = Some v \<Longrightarrow>
     run_step X q run wname st sname force ctx s = Some v"
  unfolding run_step_def by (rule with_debugger_le) (rule run_step_core_le)

lemma run_steps_le:
  "runner_le p q \<Longrightarrow> run_steps X p run wname sts ctx s = Some v \<Longrightarrow> run_steps X q run wname sts ctx s = Some v"
proof (induction sts arbitrary: ctx s)
  case (Cons st sts)
  then obtain e c u where r: "run_step X p run wname st (st_name st) False ctx s = Some (e, c, u)"
    by (auto split: option.splits)
  then show ?case
    using Cons run_step_le [OF Cons.prems(1) r] by (cases e) auto
qed simp

lemma run_terminal_le:
  "runner_le p q \<Longrightarrow> run_terminal X p run wname sec sts ctx s = Some v \<Longrightarrow>
     run_terminal X q run wname sec sts ctx s = Some v"
proof (induction sts arbitrary: ctx s v)
  case (Cons st sts)
  then obtain e c u where r: "run_step X p run wname st (sec @ ''/'' @ st_name st) True ctx s = Some (e, c, u)"
    by (auto split: option.splits)
  with Cons.prems obtain t where t: "run_terminal X p run wname sec sts c u = Some t"
    by auto
  show ?case
    using Cons.prems(2) r t run_step_le [OF Cons.prems(1) r] Cons.IH [OF Cons.prems(1) t] by simp
qed simp

lemma execute_workflow_le:
  assumes "runner_le p q"
  shows "runner_le (execute_workflow X p) (execute_workflow X q)"
  unfolding runner_le_def
proof (intro allI impI)
  fix run w ctx s v
  assume ex: "execute_workflow X p run w ctx s = Some v"
  then obtain m c1 s1 where m: "run_steps X p run (wf_name w) (wf_steps w) ctx s = Some (m, c1, s1)"
    by (auto simp: execute_workflow_def split: option.splits)
  note qm = run_steps_le [OF assms m]
  show "execute_workflow X q run w ctx s = Some v"
  proof (cases m)
    case None
    with ex m qm show ?thesis
      by (auto simp: execute_workflow_def dest: run_terminal_le [OF assms])
  next
    case (Some e)
    show ?thesis
    proof (cases "pause_error e")
      case None
      with ex m Some obtain r where r: "run_terminal X p run (wf_name w) ''rescue'' (wf_rescue w) c1 s1 = Some r"
        by (auto simp: execute_workflow_def split: option.splits)
      show ?thesis
        using ex m qm Some None r run_terminal_le [OF assms r]
        by (auto simp: execute_workflow_def case_prod_beta dest: run_terminal_le [OF assms])
    next
      case (Some p)
      with \<open>m = Some e\<close> ex m have "v = (m, c1, s1)" by (simp add: execute_workflow_def)
      with Some \<open>m = Some e\<close> qm show ?thesis by (simp add: execute_workflow_def)
    qed
  qed
qed

lemma run_workflow_le: "runner_le (run_workflow n X) (run_workflow (Suc n) X)"
proof (induction n)
  case 0
  then show ?case by (simp add: runner_le_def)
next
  case (Suc n)
  then show ?case using execute_workflow_le by simp
qed

lemma run_workflow_more: "n \<le> m \<Longrightarrow> run_workflow n X run w ctx s = Some v \<Longrightarrow> run_workflow m X run w ctx s = Some v"
  by (induction m rule: dec_induct) (use run_workflow_le runner_leD in blast)+

subsection \<open>Enough fuel\<close>

definition returns_on :: "workflow set \<Rightarrow> 'w runner \<Rightarrow> bool" where
  "returns_on W p \<longleftrightarrow> (\<forall>run w ctx s. w \<in> W \<longrightarrow> p run w ctx s \<noteq> None)"

text \<open>The workflows a step may call.\<close>

definition may_call :: "'w ext \<Rightarrow> step \<Rightarrow> workflow set" where
  "may_call X st = {w. \<exists>ctx. resolve_sub_workflow X st ctx = Inr w}"

lemma may_call_returns:
  "returns_on (may_call X st) p \<Longrightarrow> resolve_sub_workflow X st c = Inr w \<Longrightarrow> p run w ctx s \<noteq> None"
  unfolding returns_on_def may_call_def by blast

lemma call_sub_workflow_returns:
  assumes "returns_on (may_call X st) p"
  shows "call_sub_workflow X p run st ctx s \<noteq> None"
proof (cases "resolve_sub_workflow X st ctx")
  case (Inr w)
  show ?thesis
    using may_call_returns [OF assms Inr] Inr
    by (simp add: call_sub_workflow_def Let_def del: not_None_eq split: sum.split option.split)
qed (simp add: call_sub_workflow_def)

lemma run_call_step_returns:
  "returns_on (may_call X st) p \<Longrightarrow> run_call_step X p run wname st ctx s \<noteq> None"
  by (simp add: run_call_step_def call_sub_workflow_returns del: not_None_eq)

lemma run_plain_step_returns:
  "st_workflow st = [] \<or> returns_on (may_call X st) p \<Longrightarrow> run_plain_step X p run wname st sname force ctx s \<noteq> None"
  by (simp add: run_plain_step_def run_call_step_returns del: not_None_eq split: sum.split) (blast dest: run_call_step_returns)

lemma with_debugger_returns: "(\<And>s. c s \<noteq> None) \<Longrightarrow> with_debugger X run wname st sname c s \<noteq> None"
  by (auto simp: with_debugger_def split: option.splits)
     (metis option.distinct(1) option.exhaust prod_cases3)+

lemma iterate_workflow_returns:
  assumes "returns_on (may_call X st) p"
  shows "iterate_workflow X p run st i item ctx s \<noteq> None"
proof (cases "resolve_sub_workflow X st (mput (st_as st) item (mcopy ctx []))")
  case (Inr w)
  show ?thesis
    using may_call_returns [OF assms Inr] Inr
    by (simp add: iterate_workflow_def Let_def del: not_None_eq split: sum.split option.split)
qed (simp add: iterate_workflow_def)

lemma iterate_returns:
  assumes "st_workflow st = [] \<or> returns_on (may_call X st) p"
  shows "iterate X p run wname st i item ctx s \<noteq> None"
proof (cases "st_workflow st = []")
  case False
  with assms show ?thesis
    by (simp add: iterate_def iterate_workflow_returns del: not_None_eq)
next
  case True
  let ?st = "st\<lparr>st_for_each := [], st_register := []\<rparr>"
  have "with_debugger X run wname ?st sname (run_plain_step X p run wname ?st sname False c) s \<noteq> None" for sname c
    using True by (intro with_debugger_returns run_plain_step_returns) simp
  then obtain r where "with_debugger X run wname ?st (st_name st @ ''['' @ iteration_key (x_lib X) st i item @ '']'')
      (run_plain_step X p run wname ?st (st_name st @ ''['' @ iteration_key (x_lib X) st i item @ '']'') False
        (mput (st_as st) item (mcopy ctx []))) s = Some r"
    by blast
  with True show ?thesis
    by (cases r; cases "fst r") (simp_all add: iterate_def iterate_step_def Let_def)
qed

lemma for_each_loop_returns:
  assumes "st_workflow st = [] \<or> returns_on (may_call X st) p"
  shows "for_each_loop X p run wname st i items ctx results s \<noteq> None"
proof (induction items arbitrary: i results s)
  case (Cons item items)
  obtain r where r: "iterate X p run wname st i item ctx s = Some r"
    using iterate_returns [OF assms] by blast
  show ?case
    using Cons.IH r by (auto simp: Let_def split: sum.split bool.split option.split prod.split)
qed simp

lemma run_step_returns:
  assumes "st_workflow st = [] \<or> returns_on (may_call X st) p"
  shows "run_step X p run wname st sname force ctx s \<noteq> None"
  unfolding run_step_def
proof (rule with_debugger_returns)
  fix s
  have "run_for_each X p run wname st ctx u \<noteq> None" for u
    using for_each_loop_returns [OF assms]
    by (simp add: run_for_each_def Let_def del: not_None_eq split: sum.split option.split)
  then show "run_step_core X p run wname st sname force ctx s \<noteq> None"
    using run_plain_step_returns [OF assms]
    by (simp add: run_step_core_def del: not_None_eq split: sum.split)
qed

lemma run_steps_returns:
  "\<forall>st\<in>set sts. st_workflow st = [] \<or> returns_on (may_call X st) p \<Longrightarrow>
     run_steps X p run wname sts ctx s \<noteq> None"
proof (induction sts arbitrary: ctx s)
  case (Cons st sts)
  then obtain e c u where "run_step X p run wname st (st_name st) False ctx s = Some (e, c, u)"
    using run_step_returns by (metis list.set_intros(1) not_None_eq prod_cases3)
  with Cons show ?case by (cases e) auto
qed simp

lemma run_terminal_returns:
  "\<forall>st\<in>set sts. st_workflow st = [] \<or> returns_on (may_call X st) p \<Longrightarrow>
     run_terminal X p run wname sec sts ctx s \<noteq> None"
proof (induction sts arbitrary: ctx s)
  case (Cons st sts)
  then obtain e c u where "run_step X p run wname st (sec @ ''/'' @ st_name st) True ctx s = Some (e, c, u)"
    using run_step_returns by (metis list.set_intros(1) not_None_eq prod_cases3)
  with Cons show ?case by auto
qed simp

lemma execute_workflow_returns:
  assumes "\<forall>st\<in>set (all_steps w). st_workflow st = [] \<or> returns_on (may_call X st) p"
  shows "execute_workflow X p run w ctx s \<noteq> None"
proof -
  have a: "run_terminal X p run (wf_name w) sec sts c u \<noteq> None" if "set sts \<subseteq> set (all_steps w)" for sec sts c u
    using assms that by (intro run_terminal_returns) auto
  have b: "run_steps X p run (wf_name w) (wf_steps w) ctx s \<noteq> None"
    using assms by (intro run_steps_returns) (simp add: all_steps_def)
  have "run_terminal X p run (wf_name w) ''rescue'' (wf_rescue w) c u \<noteq> None"
    "run_terminal X p run (wf_name w) ''always'' (wf_always w) c u \<noteq> None" for c u
    by (rule a; auto simp: all_steps_def)+
  with b show ?thesis
    by (simp add: execute_workflow_def case_prod_beta del: not_None_eq split: option.split)
qed

text \<open>A ranking of the workflows in which every call goes down. A templated call has to list the
  workflows it may choose from.\<close>

definition callees :: "step \<Rightarrow> string set" where
  "callees st = (if is_templated (st_workflow st) then set (st_workflow_names st) else {st_workflow st})"

definition ranked_file :: "workflow_file \<Rightarrow> (string \<Rightarrow> nat) \<Rightarrow> bool" where
  "ranked_file f rank \<longleftrightarrow> (\<forall>w\<in>set (fi_workflows f). \<forall>st\<in>set (all_steps w). st_workflow st \<noteq> [] \<longrightarrow>
     (is_templated (st_workflow st) \<longrightarrow> st_workflow_names st \<noteq> []) \<and>
     (\<forall>n\<in>callees st. rank n < rank (wf_name w)))"

lemma resolve_sub_workflow_callee:
  assumes "resolve_sub_workflow X st ctx = Inr w" "is_templated (st_workflow st) \<longrightarrow> st_workflow_names st \<noteq> []"
  shows "w \<in> set (fi_workflows (x_file X)) \<and> wf_name w \<in> callees st"
  using assms
  by (auto simp: resolve_sub_workflow_def Let_def callees_def split: if_splits option.splits sum.splits
      dest: get_workflow_Some)

lemma ranked_returns:
  assumes "ranked_file (x_file X) rank"
  shows "w \<in> set (fi_workflows (x_file X)) \<Longrightarrow> rank (wf_name w) < n \<Longrightarrow> run_workflow n X run w ctx s \<noteq> None"
proof (induction n arbitrary: w run ctx s)
  case 0
  then show ?case by simp
next
  case (Suc n)
  have "returns_on (may_call X st) (run_workflow n X)"
    if st: "st \<in> set (all_steps w)" "st_workflow st \<noteq> []" for st
    unfolding returns_on_def may_call_def
  proof (intro allI impI)
    fix run v ctx s
    assume "v \<in> {w. \<exists>ctx. resolve_sub_workflow X st ctx = Inr w}"
    then obtain c where c: "resolve_sub_workflow X st c = Inr v" by blast
    have rk: "(is_templated (st_workflow st) \<longrightarrow> st_workflow_names st \<noteq> []) \<and>
        (\<forall>n\<in>callees st. rank n < rank (wf_name w))"
      using assms Suc.prems(1) st by (simp add: ranked_file_def)
    then have "v \<in> set (fi_workflows (x_file X))" "wf_name v \<in> callees st"
      using resolve_sub_workflow_callee [OF c] by simp_all
    then show "run_workflow n X run v ctx s \<noteq> None"
      using rk Suc.prems(2) by (intro Suc.IH) auto
  qed
  then show ?case
    unfolding run_workflow.simps using execute_workflow_returns by blast
qed

lemma sample_ranked: "ranked_file (x_file (sample_ext sample_file)) (\<lambda>n. if n = ''main'' then 1 else 0)"
  by (simp add: ranked_file_def sample_ext_def sample_defs all_steps_def callees_def is_templated_def)

lemma sample_main_returns:
  obtains e c t where "run_workflow 2 (sample_ext sample_file) run sample_main [] s = Some (e, c, t)"
proof -
  have "run_workflow 2 (sample_ext sample_file) run sample_main [] s \<noteq> None"
    using ranked_returns [OF sample_ranked, of sample_main 2] by (simp add: sample_ext_def sample_defs)
  with that show thesis by (cases "run_workflow 2 (sample_ext sample_file) run sample_main [] s") auto
qed

text \<open>C1. Workflows end: in a file whose workflows can be ranked so that every call, in any
  section, goes to a lower rank (a templated call listing its workflow_names), a workflow
  returns as soon as the fuel exceeds its rank, and any more fuel gives the same result.\<close>

theorem run_workflow_terminates:
  assumes "ranked_file (x_file X) rank" "w \<in> set (fi_workflows (x_file X))" "rank (wf_name w) < n" "n \<le> m"
  shows "\<exists>v. run_workflow n X run w ctx s = Some v \<and> run_workflow m X run w ctx s = Some v"
  using ranked_returns [OF assms(1,2,3), of run ctx s] run_workflow_more [OF assms(4)] by blast

theorem run_workflow_terminates_witness:
  "\<exists>v. run_workflow 2 (sample_ext sample_file) ''r'' sample_main [] sample_eng = Some v \<and>
       run_workflow 9 (sample_ext sample_file) ''r'' sample_main [] sample_eng = Some v"
  by (rule run_workflow_terminates [OF sample_ranked]) (simp_all add: sample_ext_def sample_defs)

subsection \<open>What a run keeps\<close>

text \<open>C9. Executing a workflow keeps the store's invariants (unique keys, run ids that grow from parent
  to child), only appends to the events and never turns the clock back.\<close>

theorem run_workflow_keeps:
  assumes "run_workflow n X run w ctx s = Some (e, ctx', t)"
  shows "(store_ok (en_store s) \<longrightarrow> store_ok (en_store t)) \<and>
    (parents_shorter (en_store s) \<longrightarrow> parents_shorter (en_store t)) \<and>
    (\<exists>es. en_events t = en_events s @ es) \<and> en_clock s \<le> en_clock t"
  using ok.run_workflow_R [OF assms] growth.run_workflow_R [OF assms] parents.run_workflow_R [OF assms]
  by (simp add: keeps_store_ok_def grows_def keeps_parents_def)

theorem run_workflow_keeps_witness:
  "\<exists>e c t. run_workflow 2 (sample_ext sample_file) ''r'' sample_main [] sample_eng = Some (e, c, t) \<and>
     store_ok (en_store t) \<and> 0 \<le> en_clock t"
proof (rule sample_main_returns [of "''r''" sample_eng])
  fix e c t
  assume run: "run_workflow 2 (sample_ext sample_file) ''r'' sample_main [] sample_eng = Some (e, c, t)"
  moreover have "store_ok (en_store sample_eng)" "en_clock sample_eng = 0" by (simp_all add: sample_eng_def)
  ultimately show ?thesis using run_workflow_keeps [OF run] by auto
qed

text \<open>C5. Runs are isolated: executing a workflow for a run changes no step row of any other run,
  except runs whose id continues this one's after a dash (the ids of its sub-runs), and no run
  row but those; in particular its own run row is not touched.\<close>

theorem run_workflow_isolated:
  assumes "run_workflow n X run w ctx s = Some (e, ctx', t)" "\<not> below run other"
  shows "get_step (en_store t) other wname sname = get_step (en_store s) other wname sname \<and>
    get_run (en_store t) other = get_run (en_store s) other \<and>
    get_run (en_store t) run = get_run (en_store s) run"
proof -
  have i: "isolates run s t" using isolation.run_workflow_R [OF assms(1)] .
  have "\<not> has_prefix run (run @ ''-'')" by (auto simp: has_prefix_iff)
  moreover have "\<not> has_prefix other (run @ ''-'')" using assms(2) by (simp add: below_def)
  ultimately show ?thesis
    using i assms(2) unfolding isolates_def row_of_def by blast
qed

theorem run_workflow_isolated_witness:
  "\<exists>e c t. run_workflow 2 (sample_ext sample_file) ''r'' sample_main []
       (with_store (save_step blank_row) sample_eng) = Some (e, c, t) \<and>
     get_step (en_store t) ''r1'' ''main'' ''a'' = Some blank_row"
proof (rule sample_main_returns [of "''r''" "with_store (save_step blank_row) sample_eng"])
  fix e c t
  assume run: "run_workflow 2 (sample_ext sample_file) ''r'' sample_main []
      (with_store (save_step blank_row) sample_eng) = Some (e, c, t)"
  have "\<not> below ''r'' ''r1''" by (simp add: below_def)
  from run_workflow_isolated [OF run this, of "''main''" "''a''"] run show ?thesis
    by (simp add: get_step_save_step) (simp add: step_key_def blank_row_def)
qed

text \<open>What a run row records at its creation is fixed: no execution changes the source
  digest, entrypoint, variables or parent of any run already in the store.\<close>

theorem run_records_fixed:
  assumes "run_workflow n X run w ctx s = Some (e, ctx', t)" "get_run (en_store s) i = Inr r"
  shows "\<exists>r'. get_run (en_store t) i = Inr r' \<and> rn_source_digest r' = rn_source_digest r \<and>
    rn_entrypoint r' = rn_entrypoint r \<and> rn_vars_json r' = rn_vars_json r \<and>
    rn_parent_run_id r' = rn_parent_run_id r"
proof -
  obtain r' where r': "get_run (en_store t) i = Inr r'" "run_record r' = run_record r"
    using records.run_workflow_R [OF assms(1)] assms(2) unfolding keeps_records_def by blast
  note same = r'(2) [THEN arg_cong [where f = rn_source_digest]] r'(2) [THEN arg_cong [where f = rn_entrypoint]]
    r'(2) [THEN arg_cong [where f = rn_vars_json]] r'(2) [THEN arg_cong [where f = rn_parent_run_id]]
  have "rn_source_digest r' = rn_source_digest r" "rn_entrypoint r' = rn_entrypoint r"
    "rn_vars_json r' = rn_vars_json r" "rn_parent_run_id r' = rn_parent_run_id r"
    using same by (simp_all add: run_record_def)
  with r'(1) show ?thesis by blast
qed

theorem run_records_fixed_witness:
  "\<exists>e c t r. run_workflow 2 (sample_ext sample_file) ''r'' sample_main []
       (create_run_ignored sample_run sample_eng) = Some (e, c, t) \<and>
     get_run (en_store t) ''r'' = Inr r \<and> rn_source_digest r = ''d1''"
proof (rule sample_main_returns [of "''r''" "create_run_ignored sample_run sample_eng"])
  fix e c t
  assume run: "run_workflow 2 (sample_ext sample_file) ''r'' sample_main []
      (create_run_ignored sample_run sample_eng) = Some (e, c, t)"
  have "get_run (en_store (create_run_ignored sample_run sample_eng)) ''r'' = Inr sample_run"
    by (simp add: create_run_ignored_def create_run_def sample_eng_def empty_store_def get_run_def sample_run_def)
  from run_records_fixed [OF run this] run show ?thesis by (auto simp: sample_run_def)
qed

end
