(* ===== verification/Flow_Props.thy ===== *)
theory Flow_Props
  imports Engine_Props
begin

text \<open>
  The order of things: where a section stops, which handlers run, how the outcome of a workflow
  follows from its sections, what a sub-run is recorded as, and the items and keys of a for_each
  loop.
\<close>

subsection \<open>Sections\<close>

lemma run_steps_append:
  "run_steps X p run wname (xs @ ys) ctx s = (case run_steps X p run wname xs ctx s of
     None \<Rightarrow> None
   | Some (Some e, c, t) \<Rightarrow> Some (Some e, c, t)
   | Some (None, c, t) \<Rightarrow> run_steps X p run wname ys c t)"
  by (induction xs arbitrary: ctx s) (auto split: option.split prod.split)

text \<open>The main section stops at its first error: when it fails, some step failed after all
  steps before it had succeeded, the section ends in the context and state that step left, and
  the error is that step's, with its name in front.\<close>

theorem section_stops_at_first_error:
  assumes "run_steps X p run wname sts ctx s = Some (Some e, ctx', t)"
  shows "\<exists>pre st post c u err. sts = pre @ st # post \<and> run_steps X p run wname pre ctx s = Some (None, c, u) \<and>
    run_step X p run wname st (st_name st) False c u = Some (Some err, ctx', t) \<and>
    e = Wrap (''step '' @ quoted (st_name st) @ '': '') err"
  using assms
proof (induction sts arbitrary: ctx s)
  case (Cons st sts)
  from Cons.prems obtain r c u where r: "run_step X p run wname st (st_name st) False ctx s = Some (r, c, u)"
    by (auto split: option.splits)
  show ?case
  proof (cases r)
    case None
    with Cons.prems r have "run_steps X p run wname sts c u = Some (Some e, ctx', t)" by simp
    from Cons.IH [OF this] obtain pre st' post c' u' err where
      "sts = pre @ st' # post" "run_steps X p run wname pre c u = Some (None, c', u')"
      "run_step X p run wname st' (st_name st') False c' u' = Some (Some err, ctx', t)"
      "e = Wrap (''step '' @ quoted (st_name st') @ '': '') err"
      by blast
    with r None show ?thesis by (intro exI [of _ "st # pre"], intro exI [of _ st'], intro exI [of _ post]) auto
  next
    case (Some err)
    with Cons.prems r show ?thesis by (intro exI [of _ "[]"], intro exI [of _ st]) auto
  qed
qed simp

definition sample_bad_gate :: step where
  "sample_bad_gate = blank_step\<lparr>st_name := ''bad'', st_type := ''assert''\<rparr>"

lemma sample_bad_gate_run:
  obtains t where "run_step (sample_ext sample_file) p ''r'' ''main'' sample_bad_gate sname force c sample_eng
    = Some (Some (Msg ''assert step has no conditions defined''), c, t)"
  by (simp add: run_step_def with_debugger_def run_step_core_def run_plain_step_def sample_bad_gate_def
      blank_step_def sample_ext_def step_guards_def step_start_def check_when_def debug_pause_def row_of_def
      get_step_def sample_eng_def empty_store_def run_typed_step_def resolve_step_type_def sample_file_def
      blank_file_def run_assert_def failed_with_def fail_step_def Let_def case_prod_beta)

theorem section_stops_at_first_error_witness:
  "\<exists>e c t pre st post. run_steps (sample_ext sample_file) (\<lambda>r w c s. None) ''r'' ''main'' [sample_bad_gate, sample_call] []
      sample_eng = Some (Some e, c, t) \<and> [sample_bad_gate, sample_call] = pre @ st # post \<and>
      (\<exists>err. e = Wrap (''step '' @ quoted (st_name st) @ '': '') err)"
proof (rule sample_bad_gate_run [of "\<lambda>r w c s. None" "st_name sample_bad_gate" False "[]"])
  fix t
  assume "run_step (sample_ext sample_file) (\<lambda>r w c s. None) ''r'' ''main'' sample_bad_gate (st_name sample_bad_gate)
      False [] sample_eng = Some (Some (Msg ''assert step has no conditions defined''), [], t)"
  then obtain e where run: "run_steps (sample_ext sample_file) (\<lambda>r w c s. None) ''r'' ''main''
      [sample_bad_gate, sample_call] [] sample_eng = Some (Some e, [], t)"
    by simp
  from section_stops_at_first_error [OF run] run show ?thesis by blast
qed

text \<open>Every handler runs: the rescue and always sections go on after a handler fails. The
  handlers after any point run whatever the ones before did, and the errors add up in order.\<close>

theorem handlers_go_on:
  "run_terminal X p run wname sec (xs @ ys) ctx s =
    (case run_terminal X p run wname sec xs ctx s of
       None \<Rightarrow> None
     | Some (es, c, t) \<Rightarrow> map_option (\<lambda>(fs, c, t). (es @ fs, c, t)) (run_terminal X p run wname sec ys c t))"
proof (induction xs arbitrary: ctx s)
  case Nil
  then show ?case by (simp add: option.map_comp comp_def case_prod_unfold option.map_ident)
next
  case (Cons st xs)
  then show ?case
    by (auto simp: option.map_comp option.map_id comp_def case_prod_beta split: option.split)
qed

lemma handler_errors_no_pause:
  "run_terminal X p run wname sec sts ctx s = Some (es, c, t) \<Longrightarrow> \<forall>e\<in>set es. pause_error e = None"
proof (induction sts arbitrary: ctx s es)
  case (Cons st sts)
  then obtain r c' u where r: "run_step X p run wname st (sec @ ''/'' @ st_name st) True ctx s = Some (r, c', u)"
    by (auto split: option.splits)
  with Cons.prems obtain fs c'' t'' where fs: "run_terminal X p run wname sec sts c' u = Some (fs, c'', t'')"
    by auto
  have "\<forall>e\<in>set fs. pause_error e = None"
    using Cons.IH Cons.prems r fs by auto
  with Cons.prems r fs show ?case
    by (auto simp: terminal_error_def split: option.splits)
qed simp

text \<open>What a workflow's outcome says about its sections, as the summary a caller may rely on.\<close>

definition sections_run ::
  "'w ext \<Rightarrow> 'w runner \<Rightarrow> string \<Rightarrow> workflow \<Rightarrow> gerr option \<Rightarrow> gomap \<Rightarrow> 'w eng \<Rightarrow> 'w outcome \<Rightarrow> bool" where
  "sections_run X p run w main c1 s1 res \<longleftrightarrow> (\<exists>rs c2 s2 es.
     (if main = None then rs = [] \<and> c2 = c1 \<and> s2 = s1
      else run_terminal X p run (wf_name w) ''rescue'' (wf_rescue w) c1 s1 = Some (rs, c2, s2)) \<and>
     run_terminal X p run (wf_name w) ''always'' (wf_always w) c2 s2 = Some (es, snd res) \<and>
     (fst res = None \<longleftrightarrow> main = None \<and> rs = [] \<and> es = []) \<and> \<not> is_paused (fst res))"

lemma not_paused_join:
  "(\<forall>e\<in>set es. pause_error e = None) \<Longrightarrow> \<not> is_paused (join_errors es)"
  by (simp add: join_errors_def pause_error_Joined del: pause_error.simps)

text \<open>C2. The outcome of a workflow: it is paused exactly when its main section is, and then neither
  rescue nor always has run; otherwise rescue runs if and only if the main section failed, always
  runs in any case after it, a failed main section stays a failure whatever rescue does, and the
  workflow succeeds exactly when no step of any section that ran failed.\<close>

theorem workflow_outcome:
  assumes "run_workflow (Suc n) X run w ctx s = Some res"
  shows "\<exists>main c1 s1. run_steps X (run_workflow n X) run (wf_name w) (wf_steps w) ctx s = Some (main, c1, s1) \<and>
    (is_paused (fst res) \<longleftrightarrow> is_paused main) \<and>
    (is_paused main \<longrightarrow> res = (main, c1, s1)) \<and>
    (\<not> is_paused main \<longrightarrow> sections_run X (run_workflow n X) run w main c1 s1 res)"
proof -
  let ?p = "run_workflow n X"
  from assms obtain main c1 s1 where m: "run_steps X ?p run (wf_name w) (wf_steps w) ctx s = Some (main, c1, s1)"
    by (auto simp: execute_workflow_def split: option.splits)
  have sec: "sections_run X ?p run w main c1 s1 res" if np: "\<not> is_paused main"
  proof (cases main)
    case None
    with assms m obtain es c t where es: "run_terminal X ?p run (wf_name w) ''always'' (wf_always w) c1 s1 = Some (es, c, t)"
      "res = (join_errors es, c, t)"
      by (auto simp: execute_workflow_def)
    have "\<not> is_paused (join_errors es)"
      using handler_errors_no_pause [OF es(1)] by (rule not_paused_join)
    with None es show ?thesis
      by (simp add: sections_run_def) (simp add: join_errors_def)
  next
    case (Some e)
    with np have e: "pause_error e = None" by simp
    from assms m np Some obtain rs c2 s2 es c t where
      rs: "run_terminal X ?p run (wf_name w) ''rescue'' (wf_rescue w) c1 s1 = Some (rs, c2, s2)" and
      es: "run_terminal X ?p run (wf_name w) ''always'' (wf_always w) c2 s2 = Some (es, c, t)"
        "res = (join_errors (e # rs @ es), c, t)"
      by (auto simp: execute_workflow_def split: option.splits)
    have "\<forall>x\<in>set (e # rs @ es). pause_error x = None"
      using e handler_errors_no_pause [OF rs]
        handler_errors_no_pause [OF es(1)] by auto
    then have "\<not> is_paused (fst res)" using es(2) not_paused_join by simp
    with rs es Some show ?thesis
      by (auto simp: sections_run_def join_errors_def)
  qed
  moreover have "is_paused main \<longrightarrow> res = (main, c1, s1)"
    using assms m by (cases "is_paused main") (simp_all add: execute_workflow_def)
  moreover have "is_paused (fst res) \<longleftrightarrow> is_paused main"
    using sec calculation(2) by (cases "is_paused main") (auto simp: sections_run_def)
  ultimately show ?thesis using m by blast
qed

definition sample_failing :: workflow where
  "sample_failing = sample_child\<lparr>wf_name := ''main'', wf_steps := [sample_bad_gate]\<rparr>"

theorem workflow_outcome_witness:
  "\<exists>res main c1 s1. run_workflow (Suc 0) (sample_ext sample_file) ''r'' sample_failing [] sample_eng = Some res \<and>
     run_steps (sample_ext sample_file) (run_workflow 0 (sample_ext sample_file)) ''r'' ''main'' [sample_bad_gate] [] sample_eng
       = Some (main, c1, s1) \<and>
     sections_run (sample_ext sample_file) (run_workflow 0 (sample_ext sample_file)) ''r'' sample_failing main c1 s1 res"
proof (rule sample_bad_gate_run [of "run_workflow 0 (sample_ext sample_file)" "st_name sample_bad_gate" False "[]"])
  fix t
  let ?X = "sample_ext sample_file"
  assume "run_step ?X (run_workflow 0 ?X) ''r'' ''main'' sample_bad_gate (st_name sample_bad_gate)
      False [] sample_eng = Some (Some (Msg ''assert step has no conditions defined''), [], t)"
  then have main: "run_steps ?X (run_workflow 0 ?X) ''r'' ''main'' [sample_bad_gate] [] sample_eng =
      Some (Some (Wrap (''step '' @ quoted (st_name sample_bad_gate) @ '': '')
        (Msg ''assert step has no conditions defined'')), [], t)"
    by simp
  have fields: "wf_name sample_failing = ''main''" "wf_steps sample_failing = [sample_bad_gate]"
    "wf_rescue sample_failing = []" "wf_always sample_failing = []"
    by (simp_all add: sample_failing_def sample_child_def)
  obtain res where res: "run_workflow (Suc 0) ?X ''r'' sample_failing [] sample_eng = Some res"
    using main fields by (simp add: execute_workflow_def del: run_steps.simps)
  from workflow_outcome [OF res] main res show ?thesis
    unfolding fields by fastforce
qed

subsection \<open>Sub-runs\<close>

definition outcome_status :: "gerr option \<Rightarrow> run_status" where
  "outcome_status err = (case err of None \<Rightarrow> RunCompleted
     | Some e \<Rightarrow> if pause_error e \<noteq> None then RunPaused else RunFailed)"

lemma start_sub_run_get:
  "\<exists>q. get_run (en_store (snd (start_sub_run X sub run st w key vars s))) sub = Inr q"
  by (auto simp: start_sub_run_def Let_def case_prod_beta get_run_def find_run_create sub_run_row_def
      split: option.split)

lemma start_sub_run_fst: "rn_run_id (fst (start_sub_run X sub run st w key vars s)) = sub"
  by (simp add: start_sub_run_def Let_def case_prod_beta sub_run_row_def)

lemma end_call_run:
  assumes "get_run (en_store u) (rn_run_id row) = Inr q"
  shows "get_run (en_store (snd (snd (end_call run st w row ctx (err, vars, u))))) (rn_run_id row)
    = Inr (q\<lparr>rn_status := outcome_status err,
             rn_completed_at := if is_paused err then None else Some (en_clock u)\<rparr>)"
proof (cases err)
  case None
  with assms show ?thesis
    by (simp add: end_call_def Let_def case_prod_beta get_run_close outcome_status_def)
next
  case (Some e)
  with assms show ?thesis
    by (cases "pause_error e") (simp_all add: end_call_def Let_def case_prod_beta get_run_close outcome_status_def)
qed

lemma end_call_error: "fst (end_call run st w row ctx (err, vars, u)) =
    (if st_ignore_errors st \<and> \<not> is_paused err then None else err)"
  by (auto simp: end_call_def Let_def case_prod_beta split: option.split)

text \<open>C10. A sub-run is recorded with its outcome: after a step called a workflow, the run of the call
  is in the store, completed, paused or failed as the workflow ended, with a completion time
  unless it is paused; and the step's error is the workflow's, dropped by ignore_errors unless it
  is a pause.\<close>

theorem sub_run_recorded:
  assumes "call_sub_workflow X (run_workflow n X) run st ctx s = Some (err, ctx', t)"
    and "resolve_sub_workflow X st ctx = Inr w" "call_vars X st w ctx = Inr vars"
    and "check_sub_run (run @ ''-'' @ st_name st) st (wf_name w) s = None"
  shows "\<exists>werr wctx u q. run_workflow n X (run @ ''-'' @ st_name st) w vars
      (snd (start_sub_run X (run @ ''-'' @ st_name st) run st w [] vars s)) = Some (werr, wctx, u) \<and>
    get_run (en_store t) (run @ ''-'' @ st_name st) = Inr q \<and> rn_status q = outcome_status werr \<and>
    (rn_completed_at q = None \<longleftrightarrow> is_paused werr) \<and>
    err = (if st_ignore_errors st \<and> \<not> is_paused werr then None else werr)"
proof -
  let ?sub = "run @ ''-'' @ st_name st"
  let ?p = "start_sub_run X ?sub run st w [] vars s"
  from assms obtain werr wctx u where
    run: "run_workflow n X ?sub w vars (snd ?p) = Some (werr, wctx, u)" and
    res: "end_call run st w (fst ?p) ctx (werr, wctx, u) = (err, ctx', t)"
    by (auto simp: call_sub_workflow_def Let_def)
  obtain q where "get_run (en_store (snd ?p)) ?sub = Inr q"
    using start_sub_run_get by blast
  with records.run_workflow_R [OF run] obtain q' where "get_run (en_store u) ?sub = Inr q'"
    unfolding keeps_records_def by blast
  then have "get_run (en_store u) (rn_run_id (fst ?p)) = Inr q'"
    by (simp only: start_sub_run_fst)
  from end_call_run [OF this, of run st w ctx werr wctx] end_call_error [of run st w "fst ?p" ctx werr wctx u] run
  show ?thesis
    unfolding res start_sub_run_fst by auto
qed

theorem sub_run_recorded_witness:
  "\<exists>err c t werr q. call_sub_workflow (sample_ext sample_file) (run_workflow 1 (sample_ext sample_file)) ''r'' sample_call []
       sample_eng = Some (err, c, t) \<and> get_run (en_store t) ''r-call'' = Inr q \<and> rn_status q = outcome_status werr \<and>
     (err = None \<or> err = werr)"
proof -
  let ?X = "sample_ext sample_file"
  have r: "resolve_sub_workflow ?X sample_call [] = Inr sample_child"
    by (simp add: resolve_sub_workflow_def sample_ext_def sample_defs is_templated_def)
  have v: "call_vars ?X sample_call sample_child [] = Inr []"
    by (simp add: call_vars_def sample_call_def sample_child_def blank_step_def non_nil_def coerce_rendered_def
        mcopy_def render_map_def)
  have c: "check_sub_run (''r'' @ ''-'' @ st_name sample_call) sample_call (wf_name sample_child) sample_eng = None"
    by (simp add: check_sub_run_def get_run_def sample_eng_def empty_store_def)
  have "run_workflow 1 ?X run sample_child vars s \<noteq> None" for run vars s
    using execute_workflow_returns [of sample_child ?X "run_workflow 0 ?X"]
    by (simp add: all_steps_def sample_defs del: not_None_eq)
  then have "call_sub_workflow ?X (run_workflow 1 ?X) ''r'' sample_call [] sample_eng \<noteq> None"
    using r v c by (simp add: call_sub_workflow_def Let_def del: not_None_eq)
  then obtain err c' t where run: "call_sub_workflow ?X (run_workflow 1 ?X) ''r'' sample_call [] sample_eng = Some (err, c', t)"
    by (cases "call_sub_workflow ?X (run_workflow 1 ?X) ''r'' sample_call [] sample_eng") auto
  from sub_run_recorded [OF run r v c] run show ?thesis
    by (auto simp: sample_call_def blank_step_def)
qed

subsection \<open>The items of a loop\<close>

definition printed_key :: "golib \<Rightarrow> string \<Rightarrow> val \<Rightarrow> string" where
  "printed_key G k v = sprint G (extract_item_field v k)"

lemma check_keys_None:
  "check_keys G k i seen items = None \<longleftrightarrow>
     (\<forall>v\<in>set items. extract_item_field v k \<noteq> VNil \<and> printed_key G k v \<notin> fst ` set seen) \<and>
     distinct (map (printed_key G k) items)"
proof (induction items arbitrary: i seen)
  case (Cons v vs)
  have key: "map_of seen (sprint G (extract_item_field v k)) = None \<longleftrightarrow> printed_key G k v \<notin> fst ` set seen"
    by (simp add: map_of_eq_None_iff printed_key_def)
  have step: "check_keys G k i seen (v # vs) = None \<longleftrightarrow> extract_item_field v k \<noteq> VNil \<and>
      printed_key G k v \<notin> fst ` set seen \<and> check_keys G k (Suc i) ((printed_key G k v, i) # seen) vs = None"
    using key by (auto simp: printed_key_def Let_def split: option.split)
  show ?case
    unfolding step Cons.IH by (auto simp: image_iff)
qed simp

text \<open>C19. Iterations do not share a row: the loop accepts its keys exactly when every item has the
  key field and no two items print alike, and then (or with the index as the key) no two
  iterations have the same row name.\<close>

theorem iteration_keys_distinct:
  "(check_keys G k 0 [] items = None \<longleftrightarrow>
      (\<forall>v\<in>set items. extract_item_field v k \<noteq> VNil) \<and> distinct (map (printed_key G k) items)) \<and>
   (st_for_each_key st = [] \<or> check_keys G (st_for_each_key st) 0 [] items = None \<longrightarrow>
      distinct (map (\<lambda>(i, v). st_name st @ ''['' @ iteration_key G st i v @ '']'') (enumerate 0 items)))"
proof (intro conjI impI)
  assume keys: "st_for_each_key st = [] \<or> check_keys G (st_for_each_key st) 0 [] items = None"
  show "distinct (map (\<lambda>(i, v). st_name st @ ''['' @ iteration_key G st i v @ '']'') (enumerate 0 items))"
  proof (cases "st_for_each_key st = []")
    case True
    then show ?thesis
      by (auto simp: iteration_key_def distinct_conv_nth nth_enumerate_eq nat_text_inj)
  next
    case False
    with keys have "distinct (map (printed_key G (st_for_each_key st)) items)"
      using check_keys_None by blast
    with False show ?thesis
      by (simp add: iteration_key_def distinct_conv_nth nth_enumerate_eq printed_key_def)
  qed
qed (auto simp: check_keys_None)

theorem iteration_keys_distinct_witness:
  "distinct (map (\<lambda>(i, v). st_name sample_shell @ ''['' @ iteration_key sample_golib sample_shell i v @ '']'')
     (enumerate 0 [VInt 4, VInt 4]))"
  using iteration_keys_distinct [of sample_golib "''id''" "[VInt 4, VInt 4]" sample_shell]
  by (simp add: sample_shell_def blank_step_def)

lemma missing_field_None: "missing_field k i items = None \<longleftrightarrow> (\<forall>v\<in>set items. extract_item_field v k \<noteq> VNil)"
  by (induction items arbitrary: i) auto

text \<open>for_each_sort: the items are rearranged, not changed, into the order of the printed sort
  field, items with equal fields keep their order, and an item without the field is an error.\<close>

theorem sort_items_sorts:
  assumes "k \<noteq> []"
  shows "case sort_items G k items of
      Inl e \<Rightarrow> \<exists>v\<in>set items. extract_item_field v k = VNil
    | Inr sorted_items \<Rightarrow> mset sorted_items = mset items \<and>
        sorted (map (\<lambda>v. sprint G (extract_item_field v k)) sorted_items) \<and>
        (\<forall>x. filter (\<lambda>v. sprint G (extract_item_field v k) = x) sorted_items =
             filter (\<lambda>v. sprint G (extract_item_field v k) = x) items)"
  using assms
  by (auto simp: sort_items_def missing_field_None sort_key_stable split: option.split)
     (metis missing_field_None option.distinct(1))

theorem sort_items_sorts_witness:
  "sort_items sample_golib ''n'' [VMap [(''n'', VStr ''b'')], VMap [(''n'', VStr ''a'')]] =
     Inr [VMap [(''n'', VStr ''a'')], VMap [(''n'', VStr ''b'')]] \<and>
   mset [VMap [(''n'', VStr ''a'')], VMap [(''n'', VStr ''b'')]] =
     mset [VMap [(''n'', VStr ''b'')], VMap [(''n'', VStr ''a'')]]"
proof -
  have s: "sort_items sample_golib ''n'' [VMap [(''n'', VStr ''b'')], VMap [(''n'', VStr ''a'')]] =
     Inr [VMap [(''n'', VStr ''a'')], VMap [(''n'', VStr ''b'')]]"
    by code_simp
  from sort_items_sorts [where k = "''n''" and G = sample_golib and items = "[VMap [(''n'', VStr ''b'')], VMap [(''n'', VStr ''a'')]]"]
  show ?thesis unfolding s by simp
qed

subsection \<open>Results\<close>

definition wanted_items :: "'w ext \<Rightarrow> step \<Rightarrow> gomap \<Rightarrow> nat \<Rightarrow> val list \<Rightarrow> (nat \<times> val) list" where
  "wanted_items X st ctx i items = filter (\<lambda>(j, v). item_wanted X st j v ctx = Inr True) (enumerate i items)"

lemma iterate_result:
  assumes "iterate X p run wname st i item ctx s = Some (None, res, t)"
  shows "res \<noteq> None"
proof (cases "st_workflow st = []")
  case True
  with assms show ?thesis
    by (auto simp: iterate_def iterate_step_def Let_def split: option.splits if_splits)
next
  case False
  with assms show ?thesis
    by (auto simp: iterate_def iterate_workflow_def Let_def end_iteration_def case_prod_beta
        split: option.splits sum.splits if_splits)
qed

text \<open>C20. A loop that ends well has run every wanted item: it collects exactly one result for each
  item for_each_when accepts, appended to those it started with.\<close>

theorem for_each_results:
  assumes "for_each_loop X p run wname st i items ctx results s = Some (None, results', t)"
  shows "\<exists>rs. results' = results @ rs \<and> length rs = length (wanted_items X st ctx i items)"
  using assms
proof (induction items arbitrary: i results s)
  case Nil
  then show ?case by (simp add: wanted_items_def)
next
  case (Cons item items)
  show ?case
  proof (cases "item_wanted X st i item ctx = Inr True")
    case True
    with Cons.prems obtain res u where it: "iterate X p run wname st i item ctx s = Some (None, res, u)"
      and rest: "for_each_loop X p run wname st (Suc i) items ctx
        (results @ (case res of None \<Rightarrow> [] | Some r \<Rightarrow> [r])) u = Some (None, results', t)"
      by (auto simp: Let_def split: option.splits)
    from iterate_result [OF it] obtain r where "res = Some r" by blast
    with Cons.IH [OF rest] True show ?thesis by (auto simp: wanted_items_def)
  next
    case False
    with Cons.prems have "for_each_loop X p run wname st (Suc i) items ctx results s = Some (None, results', t)"
      by (auto split: sum.splits bool.splits)
    with Cons.IH False show ?thesis by (simp add: wanted_items_def)
  qed
qed

lemma sample_ignored_iteration:
  obtains r t where "iterate (sample_ext sample_file) p ''r'' ''main'' (sample_bad_gate\<lparr>st_ignore_errors := True\<rparr>) i v c
    sample_eng = Some (None, Some r, t)"
  by (simp add: iterate_def iterate_step_def with_debugger_def run_plain_step_def sample_bad_gate_def
      blank_step_def sample_ext_def step_guards_def step_start_def check_when_def debug_pause_def row_of_def
      get_step_def sample_eng_def empty_store_def run_typed_step_def resolve_step_type_def sample_file_def
      blank_file_def run_assert_def failed_with_def fail_step_def Let_def case_prod_beta)

theorem for_each_results_witness:
  "\<exists>results t. for_each_loop (sample_ext sample_file) (\<lambda>r w c s. None) ''r'' ''main''
       (sample_bad_gate\<lparr>st_ignore_errors := True\<rparr>) 0 [VInt 4] [] [] sample_eng = Some (None, results, t) \<and>
     length results = 1"
proof (rule sample_ignored_iteration [of "\<lambda>r w c s. None" 0 "VInt 4" "[]"])
  fix r t
  assume "iterate (sample_ext sample_file) (\<lambda>r w c s. None) ''r'' ''main'' (sample_bad_gate\<lparr>st_ignore_errors := True\<rparr>)
      0 (VInt 4) [] sample_eng = Some (None, Some r, t)"
  then have run: "for_each_loop (sample_ext sample_file) (\<lambda>r w c s. None) ''r'' ''main''
       (sample_bad_gate\<lparr>st_ignore_errors := True\<rparr>) 0 [VInt 4] [] [] sample_eng = Some (None, [r], t)"
    by (simp add: item_wanted_def) (simp add: sample_bad_gate_def blank_step_def)
  from for_each_results [OF run] run show ?thesis
    by (auto simp: wanted_items_def item_wanted_def sample_bad_gate_def blank_step_def)
qed

end
