(* ===== verification/Step_Outcomes.thy ===== *)
theory Step_Outcomes
  imports Engine_Relations
begin

text \<open>
  What one step, one section and one workflow leave behind: the row that records how a step ended,
  the replay of completed steps when a run is executed again, the order of steps and sections, and
  the outcome of a workflow with its rescue and always sections.
\<close>

subsection \<open>Errors that are no pause\<close>

text \<open>Only a gate pauses; every other error of a step carries no pause, so a step that failed is
  never taken for a paused one.\<close>

definition no_pause :: "(gerr + 'a) \<Rightarrow> bool" where
  "no_pause r = (case r of Inl e \<Rightarrow> pause_error e = None | Inr _ \<Rightarrow> True)"

lemma no_pause_simps [simp]:
  "no_pause (Inl e) \<longleftrightarrow> pause_error e = None" "no_pause (Inr v)"
  by (simp_all add: no_pause_def)

lemma no_pause_map_sum [simp]: "no_pause (map_sum Msg f r)"
  by (cases r) simp_all

lemma ask_decision_no_pause: "no_pause (fst (ask_decision X run wname sname name d input key hash timeout s))"
  by (simp add: ask_decision_def Let_def case_prod_beta split: option.split sum.split)

lemma decision_no_pause: "no_pause (fst (decision X run wname sname name input refresh timeout s))"
  by (simp add: decision_def Let_def ask_decision_no_pause split: option.split)

lemma decision_Inl_no_pause:
  "decision X run wname sname name input refresh timeout s = (Inl e, s') \<Longrightarrow> pause_error e = None"
  using decision_no_pause [of X run wname sname name input refresh timeout s] by simp

lemma decision_facts_no_pause: "no_pause (fst (decision_facts X run wname sname timeout ns facts s))"
proof (induction ns arbitrary: facts s)
  case (Cons n ns)
  then show ?case
    by (auto simp: Let_def dest: decision_Inl_no_pause split: option.split val.split prod.split sum.split)
qed simp

lemma resolve_decision_facts_no_pause:
  "no_pause (fst (resolve_decision_facts X run wname sname facts ctx timeout s))"
  by (simp add: resolve_decision_facts_def decision_facts_no_pause split: sum.split)

lemma eval_decision_bool_no_pause: "no_pause (fst (eval_decision_bool X run wname sname expr ctx timeout s))"
proof -
  have "no_pause (fst (run_cond X run wname sname timeout p s))" for p
    by (induction p arbitrary: s) (simp_all add: Let_def)
  then show ?thesis by (simp add: eval_decision_bool_def)
qed

lemma check_assertions_no_pause:
  "check_assertions X run wname st sname ctx es s = (Some e, s') \<Longrightarrow> pause_error e = None"
proof (induction es arbitrary: s)
  case (Cons x es)
  then show ?case
    using eval_decision_bool_no_pause [of X run wname sname x ctx "st_timeout st" s]
    by (auto split: prod.splits sum.splits if_splits)
qed simp

subsection \<open>The row of a step\<close>

text \<open>The row records the outcome: completed (or skipped) without an error, paused with a pause,
  failed with the error's text otherwise.\<close>

definition row_tells :: "step_row \<Rightarrow> gerr option \<Rightarrow> bool" where
  "row_tells r err = (case err of
     None \<Rightarrow> sr_status r \<in> {StepCompleted, StepSkipped}
   | Some e \<Rightarrow> if pause_error e \<noteq> None then sr_status r = StepPaused
       else sr_status r = StepFailed \<and> sr_error r = err_text e)"

definition recorded :: "string \<Rightarrow> string \<Rightarrow> string \<Rightarrow> 'w outcome \<Rightarrow> bool" where
  "recorded run wname sname res = (case res of (err, ctx, s) \<Rightarrow>
     \<exists>r. row_of s run wname sname = Some r \<and> row_tells r err)"

lemma recordedI: "row_of s run wname sname = Some r \<Longrightarrow> row_tells r err \<Longrightarrow> recorded run wname sname (err, ctx, s)"
  by (auto simp: recorded_def)

lemma recorded_failed_with:
  "pause_error e = None \<Longrightarrow> recorded run wname sname (failed_with X run wname sname b t0 e ctx s)"
  using fail_step_row [of X run wname sname b t0 e s]
  by (auto simp: failed_with_def recorded_def row_tells_def case_prod_beta fail_step_err)

lemma recorded_finish_step:
  "recorded run wname sname (finish_step X run wname st sname t0 a b out ctx s)"
  by (simp add: recorded_def row_tells_def finish_step_def Let_def case_prod_beta row_of_save_row step_key_def
      new_row_def)

lemmas recorded_ends = recorded_failed_with recorded_finish_step

lemma recorded_run_set_fact: "recorded run wname sname (run_set_fact X run wname st sname b t0 ctx s)"
  by (auto simp: run_set_fact_def recorded_ends split: prod.split sum.split)

lemma recorded_run_assert: "recorded run wname sname (run_assert X run wname st sname b t0 ctx s)"
  by (auto simp: run_assert_def recorded_ends check_assertions_no_pause split: prod.split option.split)

lemma recorded_run_gate: "recorded run wname sname (run_gate X run wname st sname b t0 ctx s)"
proof -
  obtain r u where ru: "resolve_decision_facts X run wname sname (st_facts st) ctx (st_timeout st) s = (r, u)"
    by (rule prod.exhaust)
  then have "no_pause r"
    using resolve_decision_facts_no_pause [of X run wname sname "st_facts st" ctx "st_timeout st" s] by simp
  then show ?thesis
    unfolding run_gate_def ru prod.case
    by (auto simp: Let_def case_prod_beta recorded_ends recorded_def [of _ _ _ "(_, _, save_row _ _ _)"]
        row_tells_def row_of_save_row step_key_def new_row_def split: sum.split)
qed

lemma recorded_run_load_artifact:
  "recorded run wname sname (run_load_artifact X run wname st sname b t0 ctx s)"
  by (auto simp: run_load_artifact_def recorded_ends split: sum.split)

lemma recorded_record_result:
  "recorded run wname sname (record_result X run wname st sname b t0 output ctx s)"
  by (auto simp: record_result_def Let_def recorded_ends split: sum.split)

lemma eval_failed_when_no_pause:
  "eval_failed_when X st out err ctx = Some e \<Longrightarrow> (\<And>x. err = Some x \<Longrightarrow> pause_error x = None) \<Longrightarrow> pause_error e = None"
  by (auto simp: eval_failed_when_def split: sum.splits bool.splits option.splits)

lemma recorded_run_executor:
  "recorded run wname sname (run_executor X run wname st sname b merged t0 ctx s)"
proof (cases "render_map (x_lib X) (x_pongo X) merged ctx")
  case (Inl e)
  then show ?thesis by (simp add: run_executor_def recorded_ends)
next
  case (Inr rendered)
  have "recorded run wname sname (case (if c then eval_failed_when X st out (map_option Msg m) ctx else map_option Msg m) of
        None \<Rightarrow> record_result X run wname st sname b t0 out ctx u
      | Some e \<Rightarrow> if \<not> st_ignore_errors st then failed_with X run wname sname b t0 e ctx u
          else record_result X run wname st sname b t0 (g e) ctx u)" for c out m u g
    by (auto simp: recorded_record_result intro!: recorded_failed_with
        dest: eval_failed_when_no_pause split: option.split if_splits)
  with Inr show ?thesis
    by (simp add: run_executor_def Let_def case_prod_beta recorded_ends split: option.split)
qed

lemma recorded_run_typed_step: "recorded run wname sname (run_typed_step X run wname st sname ctx s)"
  by (simp add: run_typed_step_def Let_def case_prod_beta recorded_run_set_fact recorded_run_assert
      recorded_run_gate recorded_run_load_artifact recorded_run_executor)

text \<open>The guards end a step early with its row saved, or leave the step to run.\<close>

lemma recorded_skip_step: "recorded run wname sname (None, ctx, skip_step X run wname st sname s)"
  by (simp add: recorded_def row_tells_def skip_step_def Let_def case_prod_beta row_of_save_row step_key_def new_row_def)

lemma debug_pause_no_pause:
  "fst (debug_pause X run wname st sname ph ctx out s) = Some e \<Longrightarrow> pause_error e = None"
  by (auto simp: debug_pause_def case_prod_beta Let_def split: option.splits)

lemma recorded_step_start: "step_start X run wname st sname ctx s = Inl res \<Longrightarrow> recorded run wname sname res"
  using eval_decision_bool_no_pause [of X run wname sname "st_when st" ctx "st_timeout st" s]
  by (auto simp: step_start_def check_when_def case_prod_beta recorded_skip_step
      dest: debug_pause_no_pause intro!: recorded_failed_with
      split: if_splits sum.splits prod.splits option.splits)

lemma recorded_step_guards: "step_guards X run wname st sname force ctx s = Inl res \<Longrightarrow> recorded run wname sname res"
  by (auto simp: step_guards_def recorded_step_start intro!: recordedI
      simp: row_tells_def split: option.splits if_splits)

lemma recorded_run_plain_step:
  assumes "st_workflow st = []" "run_plain_step X p run wname st sname force ctx s = Some res"
  shows "recorded run wname sname res"
  using assms by (auto simp: run_plain_step_def recorded_step_guards recorded_run_typed_step split: sum.splits)

text \<open>C8. The row of a step tells how it ended, for a step that is neither a loop nor a call of a workflow, in a run without a
  debugger: when it returns without error its row is completed or skipped, when it pauses its row is paused, and
  when it fails its row is failed and holds the text of the error. A loop and a call save no row of their own,
  and a debugger may abort a run after a step that has completed.\<close>

theorem step_row_tells_outcome:
  assumes "st_for_each st = []" "st_workflow st = []" "x_debug X = None"
    and "run_step X p run wname st sname force ctx s = Some (err, ctx', t)"
  shows "\<exists>r. row_of t run wname sname = Some r \<and> row_tells r err"
proof -
  have "run_plain_step X p run wname st sname force ctx s = Some (err, ctx', t)"
    using assms by (simp add: run_step_def with_debugger_def run_step_core_def)
  from recorded_run_plain_step [OF assms(2) this] show ?thesis by (simp add: recorded_def)
qed

text \<open>A shell step of the sample workflow run with the sample executors, alone.\<close>

theorem step_row_tells_outcome_witness:
  "\<exists>err c t r. run_step (sample_ext sample_file) (run_workflow 0 (sample_ext sample_file)) ''r'' ''child''
       sample_shell ''hello'' False [] sample_eng = Some (err, c, t) \<and>
     row_of t ''r'' ''child'' ''hello'' = Some r \<and> row_tells r err"
proof -
  have d: "st_for_each sample_shell = []" "st_workflow sample_shell = []" "x_debug (sample_ext sample_file) = None"
    by (simp_all add: sample_shell_def sample_ext_def blank_step_def)
  obtain err c t where "run_plain_step (sample_ext sample_file) (run_workflow 0 (sample_ext sample_file)) ''r'' ''child''
       sample_shell ''hello'' False [] sample_eng = Some (err, c, t)"
    using d(2) by (cases "run_plain_step (sample_ext sample_file) (run_workflow 0 (sample_ext sample_file)) ''r'' ''child''
       sample_shell ''hello'' False [] sample_eng") (auto simp: run_plain_step_def split: sum.splits)
  with d have run: "run_step (sample_ext sample_file) (run_workflow 0 (sample_ext sample_file)) ''r'' ''child''
       sample_shell ''hello'' False [] sample_eng = Some (err, c, t)"
    by (simp add: run_step_def with_debugger_def run_step_core_def)
  with step_row_tells_outcome [OF d run] show ?thesis by blast
qed

subsection \<open>Replaying what is completed\<close>

definition completed_row :: "'w ext \<Rightarrow> 'w eng \<Rightarrow> string \<Rightarrow> string \<Rightarrow> string \<Rightarrow> bool" where
  "completed_row X s run wname sname = (case row_of s run wname sname of
     None \<Rightarrow> False
   | Some r \<Rightarrow> sr_status r = StepCompleted \<and> (x_debug X = None \<or> sr_completed_at r \<noteq> None))"

lemma run_completed_step:
  assumes "row_of s run wname sname = Some r" "sr_status r = StepCompleted"
    "x_debug X = None \<or> sr_completed_at r \<noteq> None"
  shows "run_step X p run wname st sname False ctx s = Some (None, replay_completed X st r ctx, s)"
proof -
  have "run_step_core X p run wname st sname False ctx s = Some (None, replay_completed X st r ctx, s)"
    using assms(1,2) by (simp add: run_step_core_def run_plain_step_def step_guards_def)
  with assms show ?thesis
    by (auto simp: run_step_def with_debugger_def pause_after_def)
qed

definition replay_steps :: "'w ext \<Rightarrow> 'w eng \<Rightarrow> string \<Rightarrow> string \<Rightarrow> step list \<Rightarrow> gomap \<Rightarrow> gomap" where
  "replay_steps X s run wname sts ctx =
     fold (\<lambda>st. replay_completed X st (the (row_of s run wname (st_name st)))) sts ctx"

text \<open>C4. Resuming continues where the run stopped: when the steps before a point are all
  completed, executing the section again runs none of them; it restores what they left in the
  context from their rows, without an event, a store access that writes or a call outside, and
  goes on with the rest.\<close>

theorem completed_steps_replayed:
  assumes "\<forall>st\<in>set pre. completed_row X s run wname (st_name st)"
  shows "run_steps X p run wname (pre @ post) ctx s =
    run_steps X p run wname post (replay_steps X s run wname pre ctx) s"
  using assms
proof (induction pre arbitrary: ctx)
  case (Cons st pre)
  then obtain r where r: "row_of s run wname (st_name st) = Some r" "sr_status r = StepCompleted"
      "x_debug X = None \<or> sr_completed_at r \<noteq> None"
    by (auto simp: completed_row_def split: option.splits)
  show ?case
    using Cons run_completed_step [OF r, of p st ctx] r(1) by (simp add: replay_steps_def)
qed (simp add: replay_steps_def)

definition sample_resumed :: "nat eng" where
  "sample_resumed = with_store (save_step (blank_row\<lparr>sr_output_json := ''{}''\<rparr>)) sample_eng"

definition sample_noted :: step where
  "sample_noted = sample_shell\<lparr>st_name := ''a'', st_register := ''res''\<rparr>"

theorem completed_steps_replayed_witness:
  "run_steps (sample_ext sample_file) (\<lambda>r w c s. None) ''r1'' ''main'' ([sample_noted] @ []) [] sample_resumed =
     Some (None, [(''res'', VMap [])], sample_resumed)"
proof -
  have row: "row_of sample_resumed ''r1'' ''main'' ''a'' = Some (blank_row\<lparr>sr_output_json := ''{}''\<rparr>)"
    by (simp add: row_of_def sample_resumed_def get_step_save_step) (simp add: step_key_def blank_row_def)
  have all: "\<forall>st\<in>set [sample_noted]. completed_row (sample_ext sample_file) sample_resumed ''r1'' ''main'' (st_name st)"
    using row by (simp add: completed_row_def sample_noted_def blank_row_def)
  have "decode_state G ''{}'' = []" for G by code_simp
  then have "replay_steps (sample_ext sample_file) sample_resumed ''r1'' ''main'' [sample_noted] [] = [(''res'', VMap [])]"
    using row by (simp add: replay_steps_def replay_completed_def sample_noted_def sample_shell_def blank_step_def)
  then show ?thesis
    by (subst completed_steps_replayed [OF all]) (simp only: run_steps.simps)
qed

text \<open>C14. What a step registered survives a restart: the row of a completed step that registers its output, read back
  on resume, gives the very context the step left. This is so for a step without artifacts that is not a
  \<open>set_fact\<close> or \<open>gate\<close> step, and an output without floats, with ints of 64 bits and with generic slices and maps only: JSON
  reads a whole float back as an int and a typed slice as a generic one.\<close>

theorem registered_output_replayed:
  assumes "record_result X run wname st sname base t0 (Some out) ctx s = (None, ctx', t)"
    and "st_register st \<noteq> []" "st_artifacts st = []" "st_type st \<noteq> ''set_fact''" "st_type st \<noteq> ''gate''"
    and "float_free (VMap out)" "vwf (VMap out)" "native (VMap out)"
  shows "\<exists>r. row_of t run wname sname = Some r \<and> sr_status r = StepCompleted \<and>
    replay_completed X st r ctx = ctx'"
proof -
  have reread: "decode_state (x_lib X) (marshal_text (x_lib X) (VMap out)) = out"
    using decode_marshal [OF assms(6,7)] canon_native [OF assms(8)] by simp
  have "marshal_text (x_lib X) (VMap out) \<noteq> []"
    using assms(6,7) marshal_text_VMap_not_Nil by blast
  with assms reread show ?thesis
    by (auto simp: record_result_def Let_def finish_step_def case_prod_beta row_of_save_row step_key_def
        new_row_def replay_completed_def)
qed

theorem registered_output_replayed_witness:
  "\<exists>t r. record_result (sample_ext sample_file) ''r1'' ''main'' sample_noted ''a'' ''shell_exec'' 0
       (Some [(''stdout'', VStr ''ok'')]) [] sample_eng = (None, [(''res'', VMap [(''stdout'', VStr ''ok'')])], t) \<and>
     row_of t ''r1'' ''main'' ''a'' = Some r \<and>
     replay_completed (sample_ext sample_file) sample_noted r [] = [(''res'', VMap [(''stdout'', VStr ''ok'')])]"
proof -
  let ?out = "[(''stdout'', VStr ''ok'')]"
  obtain t where t: "record_result (sample_ext sample_file) ''r1'' ''main'' sample_noted ''a'' ''shell_exec'' 0
       (Some ?out) [] sample_eng = (None, [(''res'', VMap ?out)], t)"
    by (simp add: record_result_def finish_step_def Let_def case_prod_beta sample_noted_def sample_shell_def blank_step_def)
  have "st_register sample_noted \<noteq> []" "st_artifacts sample_noted = []" "st_type sample_noted \<noteq> ''set_fact''"
    "st_type sample_noted \<noteq> ''gate''" "float_free (VMap ?out)" "native (VMap ?out)"
    by (simp_all add: sample_noted_def sample_shell_def blank_step_def)
  moreover have "vwf (VMap ?out)" by code_simp
  ultimately show ?thesis using registered_output_replayed [OF t] t by blast
qed

text \<open>C15. The facts of a completed step whose type is literally \<open>set_fact\<close> are restored on resume: replaying its row over the
  context the step started from gives the context it left, when the facts have no floats, ints of 64 bits, and generic
  slices and maps only. (A custom type based on \<open>set_fact\<close> is not restored.)\<close>

theorem set_facts_replayed:
  assumes "run_set_fact X run wname st sname base t0 ctx s = (None, ctx', t)" "st_type st = ''set_fact''"
    and "mwf ctx" "eval_facts (x_lib X) (x_pongo X) (x_order X (st_vars st)) ctx [] = (c, Inr facts)"
    and "float_free (VMap facts)" "vwf (VMap facts)" "native (VMap facts)"
  shows "\<exists>r. row_of t run wname sname = Some r \<and> sr_status r = StepCompleted \<and>
    replay_completed X st r ctx = ctx'"
proof -
  have reread: "decode_state (x_lib X) (marshal_text (x_lib X) (VMap facts)) = facts"
    using decode_marshal [OF assms(5,6)] canon_native [OF assms(7)] by simp
  have ne: "marshal_text (x_lib X) (VMap facts) \<noteq> []"
    using assms(5,6) marshal_text_VMap_not_Nil by blast
  have c: "mwf facts" "c = mcopy facts ctx"
    using eval_facts_copied [OF assms(4,3)] by simp_all
  have "mcopy facts (mcopy facts ctx) = mcopy facts ctx"
    using c(1) assms(3) by (simp add: mcopy_assoc mcopy_self)
  with assms reread ne c show ?thesis
    by (auto simp: run_set_fact_def Let_def finish_step_def failed_with_def fail_step_def case_prod_beta
        row_of_save_row step_key_def new_row_def replay_completed_def split: if_splits)
qed

theorem set_facts_replayed_witness:
  "\<exists>t r. run_set_fact (sample_ext sample_file) ''r1'' ''main''
       (sample_shell\<lparr>st_type := ''set_fact'', st_vars := [(''n'', VInt 7)]\<rparr>) ''a'' ''set_fact'' 0 [] sample_eng
       = (None, [(''n'', VInt 7)], t) \<and> row_of t ''r1'' ''main'' ''a'' = Some r \<and>
     replay_completed (sample_ext sample_file) (sample_shell\<lparr>st_type := ''set_fact'', st_vars := [(''n'', VInt 7)]\<rparr>) r []
       = [(''n'', VInt 7)]"
proof -
  let ?st = "sample_shell\<lparr>st_type := ''set_fact'', st_vars := [(''n'', VInt 7)]\<rparr>"
  have ev: "eval_facts (x_lib (sample_ext sample_file)) (x_pongo (sample_ext sample_file))
      (x_order (sample_ext sample_file) (st_vars ?st)) [] [] = ([(''n'', VInt 7)], Inr [(''n'', VInt 7)])"
    by (simp add: sample_ext_def) code_simp
  then obtain t where t: "run_set_fact (sample_ext sample_file) ''r1'' ''main'' ?st ''a'' ''set_fact'' 0 [] sample_eng
       = (None, [(''n'', VInt 7)], t)"
    by (simp add: run_set_fact_def finish_step_def Let_def case_prod_beta mcopy_def)
  have "vwf (VMap [(''n'', VInt 7)])" by code_simp
  moreover have "st_type ?st = ''set_fact''" "mwf []" "float_free (VMap [(''n'', VInt 7)])" "native (VMap [(''n'', VInt 7)])"
    by (simp_all add: mwf_def)
  ultimately show ?thesis using set_facts_replayed [OF t _ _ ev] t by blast
qed

end
