(* ===== verification/Rewind_Runs.thy ===== *)
theory Rewind_Runs
  imports Engine_Relations
begin

text \<open>
  Rewinding (\<open>pkg/engine/rewind.go\<close>): completed steps whose definition changed since they ran, the
  step of the entrypoint workflow that has to run again for each, and clearing the rows from that
  step on together with the sub-runs below it. The code follows parents and children of run rows
  without a bound; here \<open>changed_steps\<close> and \<open>clear_run\<close> have fuel for the depth of the run tree and
  \<open>root_call\<close> is a partial function, and all of them are shown to return on stores whose run ids grow from
  parent to child, as the engine makes them.
\<close>

subsection \<open>Changed steps\<close>

record changed_step =
  cs_run_id :: string
  cs_workflow :: string
  cs_state_name :: string
  cs_stored :: string
  cs_current :: string

definition changed_row :: "golib \<Rightarrow> workflow_file \<Rightarrow> string \<Rightarrow> step_row \<Rightarrow> changed_step list" where
  "changed_row G f run r =
     (if sr_status r \<noteq> StepCompleted \<or> sr_definition_hash r = [] then []
      else (case find_step f (sr_workflow_name r) (sr_step_name r) of
          None \<Rightarrow> []
        | Some (st, _) \<Rightarrow>
            let cur = definition_hash G f st in
            if cur = sr_definition_hash r then []
            else [\<lparr>cs_run_id = run, cs_workflow = sr_workflow_name r, cs_state_name = sr_step_name r,
                   cs_stored = sr_definition_hash r, cs_current = cur\<rparr>]))"

text \<open>Collecting over the children of a run, in order.\<close>

definition gather :: "('r \<Rightarrow> 'a list option) \<Rightarrow> 'r list \<Rightarrow> 'a list \<Rightarrow> 'a list option" where
  "gather f cs out = fold (\<lambda>c acc. case acc of None \<Rightarrow> None | Some xs \<Rightarrow> map_option (\<lambda>ys. xs @ ys) (f c)) cs (Some out)"

primrec changed_steps :: "nat \<Rightarrow> golib \<Rightarrow> workflow_file \<Rightarrow> store \<Rightarrow> string \<Rightarrow> changed_step list option" where
  "changed_steps 0 G f st run = None"
| "changed_steps (Suc n) G f st run =
     gather (\<lambda>c. changed_steps n G f st (rn_run_id c)) (get_child_runs st run)
       (concat (map (changed_row G f run) (get_steps st run)))"

definition base_step_name :: "workflow_file \<Rightarrow> changed_step \<Rightarrow> string" where
  "base_step_name f c = (case find_step f (cs_workflow c) (cs_state_name c) of
     Some (st, _) \<Rightarrow> st_name st | None \<Rightarrow> cs_state_name c)"

definition changed_step_events :: "workflow_file \<Rightarrow> changed_step list \<Rightarrow> (string \<times> string \<times> string) list" where
  "changed_step_events f cs = map (\<lambda>c. (cs_run_id c, cs_workflow c, base_step_name f c)) cs"

subsection \<open>Targets\<close>

record rewind_target =
  rt_workflow :: string
  rt_step :: string

text \<open>The ancestor of a run that the root run itself called.\<close>

partial_function (option) root_call :: "store \<Rightarrow> string \<Rightarrow> string \<Rightarrow> run_row \<Rightarrow> (string + run_row) option" where
  "root_call st root start r =
     (if rn_parent_run_id r = root then Some (Inr r)
      else if rn_parent_run_id r = [] then
        Some (Inl (''run '' @ quoted start @ '' is not part of run '' @ quoted root))
      else (case get_run st (rn_parent_run_id r) of
          Inl e \<Rightarrow> Some (Inl e)
        | Inr p \<Rightarrow> root_call st root start p))"

definition root_target :: "workflow_file \<Rightarrow> store \<Rightarrow> run_row \<Rightarrow> changed_step \<Rightarrow> (string + rewind_target) option" where
  "root_target f st root c =
     (if cs_run_id c = rn_run_id root then
        Some (Inr \<lparr>rt_workflow = rn_entrypoint root, rt_step = base_step_name f c\<rparr>)
      else (case get_run st (cs_run_id c) of
          Inl e \<Rightarrow> Some (Inl e)
        | Inr r \<Rightarrow> map_option (map_sum id (\<lambda>r. \<lparr>rt_workflow = rn_entrypoint root, rt_step = rn_parent_step r\<rparr>))
            (root_call st (rn_run_id root) (cs_run_id c) r)))"

fun position :: "string \<Rightarrow> nat \<Rightarrow> step list \<Rightarrow> nat option" where
  "position n i [] = None"
| "position n i (s # ss) = (if st_name s = n then Some i else position n (Suc i) ss)"

definition quote_list :: "string list \<Rightarrow> string" where
  "quote_list ns = (if ns = [] then ''none'' else join '', '' (map quoted ns))"

definition terminal_step_error :: "string \<Rightarrow> string \<Rightarrow> string" where
  "terminal_step_error n section = ''step '' @ quoted n @ '' is a '' @ section
     @ '' step; rescue and always steps run every time and cannot be a rewind target''"

definition rewind_index :: "workflow \<Rightarrow> rewind_target \<Rightarrow> string + nat" where
  "rewind_index w t =
     (if rt_workflow t \<noteq> wf_name w then
        let callers = map (\<lambda>s. quoted (st_name s)) (filter (\<lambda>s. st_workflow s = rt_workflow t) (wf_steps w));
            hint = ''rewind to a step of the entrypoint workflow '' @ quoted (wf_name w)
              @ (if callers \<noteq> [] then '', for example the step that calls it: '' @ join '', '' callers else [])
        in Inl (''cannot rewind to step '' @ quoted (rt_step t) @ '' of workflow '' @ quoted (rt_workflow t)
             @ '': it runs inside the run's sub-workflows; '' @ hint)
      else (case position (rt_step t) 0 (wf_steps w) of
          Some i \<Rightarrow> Inr i
        | None \<Rightarrow>
            if list_ex (\<lambda>s. st_name s = rt_step t) (wf_rescue w) then Inl (terminal_step_error (rt_step t) ''rescue'')
            else if list_ex (\<lambda>s. st_name s = rt_step t) (wf_always w) then Inl (terminal_step_error (rt_step t) ''always'')
            else Inl (''workflow '' @ quoted (wf_name w) @ '' has no step '' @ quoted (rt_step t) @ '' (steps: ''
                   @ quote_list (map st_name (wf_steps w)) @ '')'')))"

subsection \<open>Clearing\<close>

text \<open>Clearing the children one after the other, adding up the rows cleared.\<close>

definition clear_each :: "(string \<Rightarrow> store \<Rightarrow> (nat \<times> store) option) \<Rightarrow> string list \<Rightarrow> nat \<times> store \<Rightarrow> (nat \<times> store) option" where
  "clear_each f ids acc = fold (\<lambda>i acc. case acc of None \<Rightarrow> None
     | Some (k, st) \<Rightarrow> map_option (\<lambda>(m, st). (k + m, st)) (f i st)) ids (Some acc)"

primrec clear_run :: "nat \<Rightarrow> string \<Rightarrow> store \<Rightarrow> (nat \<times> store) option" where
  "clear_run 0 run st = None"
| "clear_run (Suc n) run st =
     (let names = map sr_step_name (get_steps st run); st = delete_steps run names st
      in clear_each (clear_run n) (map rn_run_id (get_child_runs st run)) (length names, st))"

definition rewound_rows :: "workflow_file \<Rightarrow> run_row \<Rightarrow> workflow \<Rightarrow> nat \<Rightarrow> store \<Rightarrow> string list" where
  "rewound_rows f run w from st =
     map sr_step_name (filter (\<lambda>r. case find_step f (rn_entrypoint run) (sr_step_name r) of
         Some (s, sec) \<Rightarrow> sec = ''steps'' \<and> st_name s \<in> st_name ` set (drop from (wf_steps w))
       | None \<Rightarrow> False) (get_steps st (rn_run_id run)))"

definition rewind_from :: "nat \<Rightarrow> workflow_file \<Rightarrow> run_row \<Rightarrow> workflow \<Rightarrow> nat \<Rightarrow> store \<Rightarrow> (nat \<times> store) option" where
  "rewind_from n f run w from st =
     (let names = sort (rewound_rows f run w from st);
          st = delete_steps (rn_run_id run) names st;
          called = filter (\<lambda>c. rn_parent_step c \<in> st_name ` set (drop from (wf_steps w))) (get_child_runs st (rn_run_id run))
      in clear_each (clear_run n) (map rn_run_id called) (length names, st))"

subsection \<open>Preparing a resume\<close>

fun rewind_targets :: "workflow_file \<Rightarrow> store \<Rightarrow> run_row \<Rightarrow> changed_step list \<Rightarrow> (string + rewind_target list) option" where
  "rewind_targets f st run [] = Some (Inr [])"
| "rewind_targets f st run (c # cs) = (case root_target f st run c of
     None \<Rightarrow> None
   | Some (Inl e) \<Rightarrow> Some (Inl e)
   | Some (Inr t) \<Rightarrow> map_option (map_sum id (\<lambda>ts. t # ts)) (rewind_targets f st run cs))"

fun first_index :: "workflow \<Rightarrow> nat \<Rightarrow> rewind_target list \<Rightarrow> string + nat" where
  "first_index w from [] = Inr from"
| "first_index w from (t # ts) = (case rewind_index w t of
     Inl e \<Rightarrow> Inl e
   | Inr i \<Rightarrow> first_index w (min i from) ts)"

text \<open>The changed steps and whether the run was rewound, with the store afterwards.\<close>

definition prepare_resume ::
  "nat \<Rightarrow> golib \<Rightarrow> workflow_file \<Rightarrow> rewind_target list \<Rightarrow> bool \<Rightarrow> run_row \<Rightarrow> store
     \<Rightarrow> ((string + changed_step list \<times> bool) \<times> store) option" where
  "prepare_resume n G f rewind rewind_changed run st =
     (case changed_steps n G f st (rn_run_id run) of
        None \<Rightarrow> None
      | Some changed \<Rightarrow>
          (case (if rewind_changed then rewind_targets f st run changed else Some (Inr [])) of
             None \<Rightarrow> None
           | Some (Inl e) \<Rightarrow> Some (Inl e, st)
           | Some (Inr others) \<Rightarrow>
               if rewind @ others = [] then Some (Inr (changed, False), st)
               else (case get_workflow (fi_workflows f) (rn_entrypoint run) of
                   None \<Rightarrow> Some (Inl (''workflow '' @ quoted (rn_entrypoint run) @ '' not found''), st)
                 | Some w \<Rightarrow> (case first_index w (length (wf_steps w)) (rewind @ others) of
                     Inl e \<Rightarrow> Some (Inl e, st)
                   | Inr from \<Rightarrow> map_option (\<lambda>(k, st). (Inr (changed, True), st)) (rewind_from n f run w from st)))))"

subsection \<open>What is cleared\<close>

text \<open>The runs below a run in the tree of parents.\<close>

inductive descends :: "store \<Rightarrow> string \<Rightarrow> string \<Rightarrow> bool" for st where
  itself: "descends st i i"
| child: "c \<in> set (get_child_runs st i) \<Longrightarrow> descends st (rn_run_id c) j \<Longrightarrow> descends st i j"

inductive_simps descends_iff: "descends st i j"

lemma get_child_runs_cong: "db_runs st = db_runs st' \<Longrightarrow> get_child_runs st i = get_child_runs st' i"
  by (simp add: get_child_runs_def)

lemma descends_cong:
  assumes "db_runs st = db_runs st'"
  shows "descends st i j \<longleftrightarrow> descends st' i j"
proof -
  have "descends st i j \<Longrightarrow> db_runs st = db_runs st' \<Longrightarrow> descends st' i j" for st st'
  proof (induction rule: descends.induct)
    case (child c i j)
    then have "c \<in> set (get_child_runs st' i)" by (metis get_child_runs_cong)
    with child show ?case by (blast intro: descends.child)
  qed (rule descends.itself)
  with assms show ?thesis by metis
qed

lemma mset_get_steps: "mset (get_steps st run) = mset (filter (\<lambda>r. sr_run_id r = run) (db_steps st))"
  by (simp add: get_steps_def mset_order_by_nullable)

lemma length_filter_get_steps:
  "length (filter P (get_steps st run)) = length (filter (\<lambda>r. sr_run_id r = run \<and> P r) (db_steps st))"
proof -
  have "mset (filter P (get_steps st run)) = mset (filter P (filter (\<lambda>r. sr_run_id r = run) (db_steps st)))"
    by (simp only: mset_filter mset_get_steps)
  then have "length (filter P (get_steps st run)) = length (filter P (filter (\<lambda>r. sr_run_id r = run) (db_steps st)))"
    by (metis size_mset)
  then show ?thesis by (simp add: conj_commute)
qed

definition drops :: "(step_row \<Rightarrow> bool) \<Rightarrow> nat \<Rightarrow> store \<Rightarrow> store \<Rightarrow> bool" where
  "drops P m st st' \<longleftrightarrow> st' = st\<lparr>db_steps := filter (\<lambda>r. \<not> P r) (db_steps st)\<rparr> \<and>
     m + length (db_steps st') = length (db_steps st)"

lemma drops_trans: "drops P k st st' \<Longrightarrow> drops Q m st' st'' \<Longrightarrow> drops (\<lambda>r. P r \<or> Q r) (k + m) st st''"
  by (auto simp: drops_def intro: filter_cong)

lemma drops_cong: "drops P m st st' \<Longrightarrow> (\<And>r. r \<in> set (db_steps st) \<Longrightarrow> P r = Q r) \<Longrightarrow> drops Q m st st'"
  by (auto simp: drops_def cong: filter_cong)

lemma drops_dest:
  assumes "drops P m st st'"
  shows "db_steps st' = filter (\<lambda>r. \<not> P r) (db_steps st)" "db_runs st' = db_runs st" "db_checks st' = db_checks st"
    "m = length (db_steps st) - length (db_steps st')"
proof -
  from assms have "st' = st\<lparr>db_steps := filter (\<lambda>r. \<not> P r) (db_steps st)\<rparr>" and m: "m + length (db_steps st') = length (db_steps st)"
    unfolding drops_def by blast+
  then show "db_steps st' = filter (\<lambda>r. \<not> P r) (db_steps st)" "db_runs st' = db_runs st" "db_checks st' = db_checks st"
    by simp_all
  from m show "m = length (db_steps st) - length (db_steps st')" by linarith
qed

lemma drops_names:
  assumes "\<And>r. r \<in> set (db_steps st) \<Longrightarrow> sr_run_id r = run \<Longrightarrow> P r \<longleftrightarrow> sr_step_name r \<in> set names"
    and "length names = length (filter (\<lambda>r. sr_run_id r = run \<and> P r) (db_steps st))"
  shows "drops (\<lambda>r. sr_run_id r = run \<and> P r) (length names) st (delete_steps run names st)"
proof -
  have eq: "filter (\<lambda>r. \<not> (sr_run_id r = run \<and> sr_step_name r \<in> set names)) (db_steps st) =
      filter (\<lambda>r. \<not> (sr_run_id r = run \<and> P r)) (db_steps st)"
    using assms(1) by (intro filter_cong) auto
  then show ?thesis
    using assms(2) sum_length_filter_compl [of "\<lambda>r. sr_run_id r = run \<and> P r" "db_steps st"]
    by (simp add: drops_def delete_steps_filter)
qed

lemma drops_all_rows:
  "drops (\<lambda>r. sr_run_id r = run) (length (get_steps st run)) st
     (delete_steps run (map sr_step_name (get_steps st run)) st)"
  using drops_names [of st run "\<lambda>_. True" "map sr_step_name (get_steps st run)"]
  using length_filter_get_steps [of "\<lambda>_. True" st run] by (simp add: set_get_steps)

lemma clear_each_None: "fold (\<lambda>i acc. case acc of None \<Rightarrow> None
    | Some (k, st) \<Rightarrow> map_option (\<lambda>(m, st). (k + m, st)) (f i st)) ids None = None"
  by (induction ids) auto

lemma clear_each_Cons: "clear_each f (i # ids) (k, st) = (case f i st of
    None \<Rightarrow> None | Some (m, st') \<Rightarrow> clear_each f ids (k + m, st'))"
  by (simp add: clear_each_def clear_each_None split: option.split)

lemma clear_each_drops:
  assumes "\<And>i st m st'. i \<in> set ids \<Longrightarrow> db_runs st = R \<Longrightarrow> f i st = Some (m, st') \<Longrightarrow> drops (P i) m st st'"
    and "clear_each f ids (k, st) = Some (k', st')" "db_runs st = R"
  shows "\<exists>m. k' = k + m \<and> drops (\<lambda>r. \<exists>i\<in>set ids. P i r) m st st'"
  using assms
proof (induction ids arbitrary: k st)
  case Nil
  then show ?case by (simp add: clear_each_def drops_def)
next
  case (Cons i ids)
  then obtain m st1 where one: "f i st = Some (m, st1)" and rest: "clear_each f ids (k + m, st1) = Some (k', st')"
    by (auto simp: clear_each_Cons split: option.splits)
  have d: "drops (P i) m st st1" using Cons.prems(1,3) one by simp
  then have "db_runs st1 = R" using Cons.prems(3) by (simp add: drops_def)
  with Cons.IH [OF _ rest] Cons.prems(1) obtain l where
    "k' = (k + m) + l" "drops (\<lambda>r. \<exists>i\<in>set ids. P i r) l st1 st'"
    by (metis list.set_intros(2))
  with drops_trans [OF d this(2)] show ?case
    by (intro exI [of _ "m + l"] conjI) (simp, rule drops_cong, auto)
qed

lemma clear_run_drops:
  "clear_run n run st = Some (k, st') \<Longrightarrow> drops (\<lambda>r. descends st run (sr_run_id r)) k st st'"
proof (induction n arbitrary: run st k st')
  case (Suc n)
  let ?names = "map sr_step_name (get_steps st run)"
  let ?st = "delete_steps run ?names st"
  have runs: "db_runs ?st = db_runs st" by simp
  have step: "drops (\<lambda>r. descends st i (sr_run_id r)) m u u'"
    if "db_runs u = db_runs ?st" "clear_run n i u = Some (m, u')" for i u m u'
    using Suc.IH [OF that(2)] descends_cong [of u st] that(1) by simp
  have each: "clear_each (clear_run n) (map rn_run_id (get_child_runs ?st run)) (length ?names, ?st) = Some (k, st')"
    using Suc.prems by (simp add: Let_def)
  obtain m where m: "k = length ?names + m"
    "drops (\<lambda>r. \<exists>i\<in>set (map rn_run_id (get_child_runs ?st run)). descends st i (sr_run_id r)) m ?st st'"
    using clear_each_drops [OF _ each refl, where P = "\<lambda>i r. descends st i (sr_run_id r)"] step by blast
  have "get_child_runs ?st run = get_child_runs st run"
    using runs by (rule get_child_runs_cong)
  then have "drops (\<lambda>r. sr_run_id r = run \<or> (\<exists>c\<in>set (get_child_runs st run). descends st (rn_run_id c) (sr_run_id r)))
      k st st'"
    using drops_trans [OF drops_all_rows m(2)] m(1) by simp
  then show ?case
    by (rule drops_cong) (subst descends_iff, blast)
qed simp

text \<open>The rows a rewind to the k-th step selects: those of the run that belong to a step from there on,
  and those of the runs such a step called and of the runs below them.\<close>

definition rewound :: "workflow_file \<Rightarrow> run_row \<Rightarrow> workflow \<Rightarrow> nat \<Rightarrow> store \<Rightarrow> step_row \<Rightarrow> bool" where
  "rewound f run w k st r \<longleftrightarrow>
     (sr_run_id r = rn_run_id run \<and> (\<exists>s. find_step f (rn_entrypoint run) (sr_step_name r) = Some (s, ''steps'') \<and>
        st_name s \<in> st_name ` set (drop k (wf_steps w)))) \<or>
     (\<exists>c\<in>set (get_child_runs st (rn_run_id run)). rn_parent_step c \<in> st_name ` set (drop k (wf_steps w)) \<and>
        descends st (rn_run_id c) (sr_run_id r))"

lemma rewind_from_drops:
  assumes "rewind_from n f run w k st = Some (cleared, st')"
  shows "drops (rewound f run w k st) cleared st st'"
proof -
  let ?names = "sort (rewound_rows f run w k st)"
  let ?st = "delete_steps (rn_run_id run) ?names st"
  let ?called = "filter (\<lambda>c. rn_parent_step c \<in> st_name ` set (drop k (wf_steps w))) (get_child_runs st (rn_run_id run))"
  have "get_child_runs ?st (rn_run_id run) = get_child_runs st (rn_run_id run)"
    by (rule get_child_runs_cong) simp
  with assms have each: "clear_each (clear_run n) (map rn_run_id ?called) (length ?names, ?st) = Some (cleared, st')"
    by (simp add: rewind_from_def Let_def)
  have one: "drops (\<lambda>r. descends st i (sr_run_id r)) m u u'"
    if "db_runs u = db_runs ?st" "clear_run n i u = Some (m, u')" for i u m u'
    using clear_run_drops [OF that(2)] descends_cong [of u st] that(1) by simp
  obtain m where m: "cleared = length ?names + m"
    "drops (\<lambda>r. \<exists>i\<in>set (map rn_run_id ?called). descends st i (sr_run_id r)) m ?st st'"
    using clear_each_drops [OF _ each refl, where P = "\<lambda>i r. descends st i (sr_run_id r)"] one by blast
  have "drops (\<lambda>r. sr_run_id r = rn_run_id run \<and> sr_step_name r \<in> set ?names) (length ?names) st ?st"
    by (rule drops_names) (auto simp: rewound_rows_def length_filter_get_steps set_get_steps intro!: arg_cong [where f = length] filter_cong)
  from drops_trans [OF this m(2)] m(1)
  have all: "drops (\<lambda>r. (sr_run_id r = rn_run_id run \<and> sr_step_name r \<in> set ?names) \<or>
      (\<exists>i\<in>set (map rn_run_id ?called). descends st i (sr_run_id r))) cleared st st'"
    by simp
  show ?thesis
    by (rule drops_cong [OF all]) (fastforce simp: rewound_def rewound_rows_def set_get_steps split: option.splits)
qed

text \<open>C31. Rewinding clears exactly what has to run again: the rows of the run that belong to a step
  from the target on, with their iterations, and every row of the sub-runs those steps started
  and of the runs below them. Every other row and every run stays, and the count that is
  reported is the number of rows that went.\<close>

theorem rewind_clears:
  assumes "rewind_from n f run w k st = Some (cleared, st')"
  shows "db_steps st' = filter (\<lambda>r. \<not> rewound f run w k st r) (db_steps st) \<and>
    db_runs st' = db_runs st \<and> db_checks st' = db_checks st \<and>
    cleared = length (db_steps st) - length (db_steps st')"
  using drops_dest [OF rewind_from_drops [OF assms]] by blast

lemma prepare_resume_runs:
  "prepare_resume n G f rewind rewind_changed run st = Some (res, st') \<Longrightarrow> db_runs st' = db_runs st"
  by (auto simp: prepare_resume_def dest!: rewind_from_drops drops_dest(2)
      split: option.splits sum.splits if_splits)

subsection \<open>The run tree is walked to its end\<close>

definition longest_id :: "store \<Rightarrow> nat" where
  "longest_id st = foldr max (map (\<lambda>r. length (rn_run_id r)) (db_runs st)) 0"

lemma longest_id_ge: "r \<in> set (db_runs st) \<Longrightarrow> length (rn_run_id r) \<le> longest_id st"
proof -
  have "n \<in> set ns \<Longrightarrow> n \<le> foldr max ns 0" for n :: nat and ns
    by (induction ns) auto
  then show "r \<in> set (db_runs st) \<Longrightarrow> length (rn_run_id r) \<le> longest_id st"
    by (simp add: longest_id_def)
qed

lemma child_longer:
  assumes "parents_shorter st" "c \<in> set (get_child_runs st run)"
  shows "length run < length (rn_run_id c) \<and> length (rn_run_id c) \<le> longest_id st"
  using assms longest_id_ge by (auto simp: set_get_child_runs parents_shorter_def)

lemma clear_each_returns:
  assumes "\<And>i u. i \<in> set ids \<Longrightarrow> db_runs u = R \<Longrightarrow> \<exists>m u'. f i u = Some (m, u') \<and> db_runs u' = R" "db_runs st = R"
  shows "clear_each f ids (k, st) \<noteq> None"
  using assms
proof (induction ids arbitrary: k st)
  case (Cons i ids)
  then obtain m u where "f i st = Some (m, u)" "db_runs u = R" by (metis list.set_intros(1))
  with Cons show ?case by (simp add: clear_each_Cons)
qed (simp add: clear_each_def)

lemma clear_run_returns:
  assumes "parents_shorter st"
  shows "db_runs u = db_runs st \<Longrightarrow> longest_id st < n + length run \<Longrightarrow> 0 < n \<Longrightarrow>
    \<exists>k u'. clear_run n run u = Some (k, u') \<and> db_runs u' = db_runs st"
proof (induction n arbitrary: run u)
  case (Suc n)
  let ?u = "delete_steps run (map sr_step_name (get_steps u run)) u"
  have children: "get_child_runs ?u run = get_child_runs st run"
    using Suc.prems(1) by (intro get_child_runs_cong) simp
  have "clear_each (clear_run n) (map rn_run_id (get_child_runs ?u run)) (k, ?u) \<noteq> None" for k
  proof (rule clear_each_returns [where R = "db_runs st"])
    fix i :: string and v :: store
    assume "i \<in> set (map rn_run_id (get_child_runs ?u run))" "db_runs v = db_runs st"
    moreover from this(1) have "length run < length i" "length i \<le> longest_id st"
      using child_longer [OF assms] by (auto simp: children)
    ultimately show "\<exists>m v'. clear_run n i v = Some (m, v') \<and> db_runs v' = db_runs st"
      using Suc.IH [of v i] Suc.prems(2) by simp
  qed (use Suc.prems in simp)
  then have "clear_run (Suc n) run u \<noteq> None" by (simp add: Let_def del: not_None_eq)
  then obtain k u' where "clear_run (Suc n) run u = Some (k, u')" by auto
  with drops_dest(2) [OF clear_run_drops [OF this]] Suc.prems(1) show ?case by simp
qed simp

lemma changed_steps_returns:
  assumes "parents_shorter st"
  shows "longest_id st < n + length run \<Longrightarrow> 0 < n \<Longrightarrow> changed_steps n G f st run \<noteq> None"
proof (induction n arbitrary: run)
  case (Suc n)
  have "changed_steps n G f st (rn_run_id c) \<noteq> None" if "c \<in> set (get_child_runs st run)" for c
    using child_longer [OF assms that] Suc.prems(1) by (intro Suc.IH) auto
  then have "\<forall>c\<in>set (get_child_runs st run). changed_steps n G f st (rn_run_id c) \<noteq> None" by blast
  moreover have "\<forall>c\<in>set cs. h c \<noteq> None \<Longrightarrow> gather h cs out \<noteq> None"
    for cs and h :: "run_row \<Rightarrow> changed_step list option" and out
    by (induction cs arbitrary: out) (auto simp: gather_def)
  ultimately show ?case by simp
qed simp

lemma root_call_returns:
  assumes "parents_shorter st"
  shows "r \<in> set (db_runs st) \<Longrightarrow> root_call st root start r \<noteq> None"
proof (induction "length (rn_run_id r)" arbitrary: r rule: less_induct)
  case less
  show ?case
  proof (cases "rn_parent_run_id r = root \<or> rn_parent_run_id r = []")
    case True
    then show ?thesis by (auto simp: root_call.simps [of st root start r])
  next
    case False
    then have shorter: "length (rn_parent_run_id r) < length (rn_run_id r)"
      using assms less.prems by (simp add: parents_shorter_def)
    show ?thesis
    proof (cases "get_run st (rn_parent_run_id r)")
      case (Inl e)
      with False show ?thesis by (simp add: root_call.simps [of st root start r])
    next
      case (Inr p)
      then have "p \<in> set (db_runs st)" "rn_run_id p = rn_parent_run_id r"
        using find_run_Some by (fastforce simp: get_run_def split: option.splits)+
      with less.hyps [of p] shorter False Inr show ?thesis
        by (simp add: root_call.simps [of st root start r])
    qed
  qed
qed

lemma rewind_targets_returns:
  assumes "parents_shorter st"
  shows "rewind_targets f st run cs \<noteq> None"
proof (induction cs)
  case (Cons c cs)
  have "root_target f st run c \<noteq> None"
  proof (cases "get_run st (cs_run_id c)")
    case (Inr r)
    then have "r \<in> set (db_runs st)"
      using find_run_Some by (fastforce simp: get_run_def split: option.splits)
    with root_call_returns [OF assms] Inr show ?thesis
      by (simp add: root_target_def del: not_None_eq)
  qed (simp add: root_target_def)
  with Cons show ?case by (auto split: sum.split)
qed simp

lemma rewind_from_returns:
  assumes "parents_shorter st" "longest_id st < n"
  shows "rewind_from n f run w k st \<noteq> None"
proof -
  let ?u = "delete_steps (rn_run_id run) (sort (rewound_rows f run w k st)) st"
  have "clear_each (clear_run n) ids (m, ?u) \<noteq> None" for ids m
    using clear_run_returns [OF assms(1)] assms(2)
    by (intro clear_each_returns [where R = "db_runs st"]) auto
  then show ?thesis by (simp add: rewind_from_def Let_def)
qed

lemma prepare_resume_not_None:
  assumes "parents_shorter st" "longest_id st < n"
  shows "prepare_resume n G f rewind rewind_changed run st \<noteq> None"
proof -
  obtain changed where changed: "changed_steps n G f st (rn_run_id run) = Some changed"
    using changed_steps_returns [OF assms(1), of n "rn_run_id run" G f] assms(2) by auto
  obtain res where res: "(if rewind_changed then rewind_targets f st run changed else Some (Inr [])) = Some res"
    using rewind_targets_returns [OF assms(1), of f run changed] by (cases rewind_changed) auto
  have "rewind_from n f run w k st \<noteq> None" for w k
    by (rule rewind_from_returns [OF assms])
  then show ?thesis
    unfolding prepare_resume_def changed option.case res
    by (simp del: not_None_eq split: sum.split option.split)
qed

text \<open>A changed step of the rescue or always section cannot be a target, so resuming with
  \<open>--rewind-changed\<close> fails as soon as one of them is among the changed steps.\<close>

lemma position_None: "position n i ss = None \<longleftrightarrow> n \<notin> st_name ` set ss"
  by (induction ss arbitrary: i) auto

lemma rewind_index_terminal:
  assumes "rt_step t \<notin> st_name ` set (wf_steps w)"
  shows "\<exists>e. rewind_index w t = Inl e"
proof -
  have "position (rt_step t) 0 (wf_steps w) = None"
    using assms by (simp only: position_None not_False_eq_True)
  then show ?thesis by (simp add: rewind_index_def Let_def)
qed

lemma first_index_fails: "t \<in> set ts \<Longrightarrow> rewind_index w t = Inl e \<Longrightarrow> \<exists>e. first_index w k ts = Inl e"
  by (induction ts arbitrary: k) (auto split: sum.split)

lemma map_sum_InrE: "map_sum f g z = Inr y \<Longrightarrow> (\<And>x. z = Inr x \<Longrightarrow> y = g x \<Longrightarrow> P) \<Longrightarrow> P"
  by (cases z) auto

lemma rewind_targets_set:
  "rewind_targets f st run cs = Some (Inr ts) \<Longrightarrow> c \<in> set cs \<Longrightarrow> \<exists>t\<in>set ts. root_target f st run c = Some (Inr t)"
proof (induction cs arbitrary: ts)
  case (Cons a cs)
  then obtain t rest where t: "root_target f st run a = Some (Inr t)"
    and rest: "rewind_targets f st run cs = Some (Inr rest)" "ts = t # rest"
    by (auto split: option.splits sum.splits elim: map_sum_InrE)
  with Cons show ?case by auto
qed simp

lemma rewind_changed_terminal_step_fails:
  assumes "changed_steps n G f st (rn_run_id run) = Some changed" "c \<in> set changed" "cs_run_id c = rn_run_id run"
    and "get_workflow (fi_workflows f) (rn_entrypoint run) = Some w"
    and "base_step_name f c \<notin> st_name ` set (wf_steps w)"
    and "rewind_targets f st run changed = Some (Inr ts)"
  shows "\<exists>e. prepare_resume n G f rewind True run st = Some (Inl e, st)"
proof -
  obtain t where t: "t \<in> set ts" "root_target f st run c = Some (Inr t)"
    using rewind_targets_set [OF assms(6,2)] by blast
  then have "rt_step t \<notin> st_name ` set (wf_steps w)"
    using assms(3,5) by (auto simp: root_target_def)
  from rewind_index_terminal [OF this] t(1) obtain e where
    "first_index w (length (wf_steps w)) (rewind @ ts) = Inl e"
    using first_index_fails [of t "rewind @ ts" w] by fastforce
  with assms(1,4,6) t(1) show ?thesis by (cases ts) (simp_all add: prepare_resume_def)
qed

text \<open>A store with a run that called a sub-run, for the witnesses.\<close>

definition sample_tree :: store where
  "sample_tree = \<lparr>db_runs = [sample_run, sample_run\<lparr>rn_run_id := ''r-call'', rn_entrypoint := ''child'',
       rn_parent_run_id := ''r'', rn_parent_step := ''call''\<rparr>],
     db_steps = [blank_row\<lparr>sr_run_id := ''r'', sr_step_name := ''check''\<rparr>,
       blank_row\<lparr>sr_run_id := ''r-call'', sr_workflow_name := ''child'', sr_step_name := ''run''\<rparr>],
     db_checks = []\<rparr>"

lemma sample_tree_ok: "parents_shorter sample_tree" "longest_id sample_tree = 6"
  by (simp_all add: parents_shorter_def longest_id_def sample_tree_def sample_run_def)

theorem rewind_clears_witness:
  "\<exists>cleared st'. rewind_from 7 sample_file sample_run sample_main 1 sample_tree = Some (cleared, st') \<and>
     db_runs st' = db_runs sample_tree \<and> cleared = 2 - length (db_steps st')"
proof -
  obtain cleared st' where run: "rewind_from 7 sample_file sample_run sample_main 1 sample_tree = Some (cleared, st')"
    using rewind_from_returns [OF sample_tree_ok(1), of 7 sample_file sample_run sample_main 1] sample_tree_ok(2) by auto
  have "length (db_steps sample_tree) = 2" by (simp add: sample_tree_def)
  with rewind_clears [OF run] run show ?thesis by auto
qed

end
