(* ===== verification/Run_Resume.thy ===== *)
theory Run_Resume
  imports Step_Engine Rewind_Runs
begin

text \<open>
  Starting and resuming a run (\<open>Run\<close>, \<open>ResumeWithVars\<close>, \<open>buildContext\<close> and the source-integrity
  check of \<open>pkg/engine/engine.go\<close>). Settings of an engine that are not part of its workflow file are
  a record: the run id asked for, the id the UUID library gives otherwise, the outcome of
  fingerprinting the source tree (\<open>Source_Tree\<close> has the digest itself), the integrity mode, the
  rewind options, and whether the store takes the last update of the run's row. Telling the debugger which run it serves is not modelled.
\<close>

subsection \<open>Source integrity\<close>

datatype integrity = IntegrityOff | IntegrityWarn | IntegrityStrict

fun integrity_text :: "integrity \<Rightarrow> string" where
  "integrity_text IntegrityOff = ''off''"
| "integrity_text IntegrityWarn = ''warn''"
| "integrity_text IntegrityStrict = ''strict''"

definition parse_integrity :: "string \<Rightarrow> string + integrity" where
  "parse_integrity v =
     (let mode = to_lower (trim_space v) in
      if mode = [] \<or> mode = ''warn'' then Inr IntegrityWarn
      else if mode = ''strict'' then Inr IntegrityStrict
      else if mode = ''off'' then Inr IntegrityOff
      else Inl (''invalid source integrity mode '' @ quoted v @ '' (want warn, strict, or off)''))"

text \<open>The modes from the most lenient to the strictest.\<close>

fun integrity_rank :: "integrity \<Rightarrow> nat" where
  "integrity_rank IntegrityOff = 0"
| "integrity_rank IntegrityWarn = 1"
| "integrity_rank IntegrityStrict = 2"

lemma integrity_rank_inj: "integrity_rank a = integrity_rank b \<longleftrightarrow> a = b"
  by (cases a; cases b) simp_all

instantiation integrity :: linorder
begin

definition less_eq_integrity :: "integrity \<Rightarrow> integrity \<Rightarrow> bool" where
  "less_eq_integrity a b \<longleftrightarrow> integrity_rank a \<le> integrity_rank b"

definition less_integrity :: "integrity \<Rightarrow> integrity \<Rightarrow> bool" where
  "less_integrity a b \<longleftrightarrow> integrity_rank a < integrity_rank b"

instance
  by standard (auto simp: less_eq_integrity_def less_integrity_def integrity_rank_inj)

end

record settings =
  se_run_id :: string
  se_fresh_id :: string
  se_tree :: "string + string"
  se_integrity :: "integrity option"
  se_rewind :: "rewind_target list"
  se_rewind_changed :: bool
  se_end_saved :: bool

definition current_source_digest :: "'w ext \<Rightarrow> settings \<Rightarrow> string + string" where
  "current_source_digest X S =
     (if x_source_path X = [] then Inr []
      else map_sum (\<lambda>e. ''fingerprinting workflow source: '' @ e) id (se_tree S))"

definition source_integrity_mode :: "settings \<Rightarrow> integrity" where
  "source_integrity_mode S = (case se_integrity S of None \<Rightarrow> IntegrityWarn | Some m \<Rightarrow> m)"

definition strict_error :: "run_row \<Rightarrow> source_check \<Rightarrow> string option" where
  "strict_error run check =
     (if rn_source_digest run = [] then
        Some (''cannot resume run '' @ quoted (rn_run_id run)
          @ '' in strict source-integrity mode: it has no recorded source digest'')
      else if sc_source_drifted check then
        Some (''cannot resume run '' @ quoted (rn_run_id run) @ '': workflow source changed (recorded digest ''
          @ rn_source_digest run @ '', current digest '' @ sc_observed_digest check @ '')'')
      else None)"

definition check_source_integrity :: "'w ext \<Rightarrow> settings \<Rightarrow> run_row \<Rightarrow> 'w eng \<Rightarrow> (string + source_check) \<times> 'w eng" where
  "check_source_integrity X S run s =
     (let mode = source_integrity_mode S; (t, s) = now s;
          blank = \<lparr>sc_run_id = rn_run_id run, sc_checked_at = t, sc_mode = integrity_text mode,
            sc_expected_digest = rn_source_digest run, sc_observed_digest = [], sc_source_drifted = False\<rparr>;
          judge = (\<lambda>check. let s = with_store (save_source_check check) s in
            (case (if mode = IntegrityStrict then strict_error run check else None) of
               Some e \<Rightarrow> (Inl e, s) | None \<Rightarrow> (Inr check, s)))
      in if mode = IntegrityOff then judge blank
         else (case current_source_digest X S of
             Inl e \<Rightarrow> (Inl e, with_store (save_source_check blank) s)
           | Inr d \<Rightarrow> judge (blank\<lparr>sc_observed_digest := d,
               sc_source_drifted := rn_source_digest run \<noteq> [] \<and> d \<noteq> rn_source_digest run\<rparr>)))"

subsection \<open>Run\<close>

definition build_context :: "workflow_file \<Rightarrow> gomap \<Rightarrow> gomap \<Rightarrow> gomap" where
  "build_context f vars defaults = mcopy vars (mcopy (non_nil defaults) (mcopy (fi_vars f) []))"

text \<open>The end of a run: its event, and its row with the status. The error of this last \<open>UpdateRun\<close> is ignored; \<open>saved\<close> says
  whether it takes effect, which it does not when the database fails or the debugger's \<open>terminate\<close> has cancelled
  the run's context.\<close>

definition end_run :: "bool \<Rightarrow> string \<Rightarrow> run_row \<Rightarrow> 'w outcome \<Rightarrow> gerr option \<times> 'w eng" where
  "end_run saved wname run res = (case res of (err, ctx, s) \<Rightarrow>
     let (t, s) = now s; i = rn_run_id run;
         finish = (\<lambda>status completed s. if saved then close_run run status completed s else s)
     in (err, case err of
          None \<Rightarrow> finish RunCompleted (Some t) (fire (RunCompletedEv i wname) s)
        | Some e \<Rightarrow> (case pause_error e of
            Some p \<Rightarrow> finish RunPaused None (fire (RunPausedEv i wname p) s)
          | None \<Rightarrow> finish RunFailed (Some t) (fire (RunFailedEv i wname (err_text e)) s))))"

definition new_run :: "'w ext \<Rightarrow> settings \<Rightarrow> string \<Rightarrow> string \<Rightarrow> gomap \<Rightarrow> int \<Rightarrow> run_row" where
  "new_run X S wname digest ctx t =
     \<lparr>rn_run_id = (if se_run_id S = [] then se_fresh_id S else se_run_id S), rn_workflow_file = x_source_path X,
      rn_source_digest = digest, rn_entrypoint = wname, rn_status = RunRunning,
      rn_vars_json = marshal_text (x_lib X) (VMap ctx), rn_parent_run_id = [], rn_parent_step = [],
      rn_for_each_key = [], rn_started_at = t, rn_completed_at = None\<rparr>"

text \<open>The result is the error before anything ran, or the run's id and the outcome.\<close>

definition start_run :: "nat \<Rightarrow> 'w ext \<Rightarrow> settings \<Rightarrow> string \<Rightarrow> gomap \<Rightarrow> 'w eng \<Rightarrow> ((string + string \<times> gerr option) \<times> 'w eng) option" where
  "start_run n X S wname vars s =
     (let wname = (if wname = [] then fi_entrypoint (x_file X) else wname) in
      case get_workflow (fi_workflows (x_file X)) wname of
        None \<Rightarrow> Some (Inl (''workflow '' @ quoted wname @ '' not found''), s)
      | Some w \<Rightarrow> (case current_source_digest X S of
          Inl e \<Rightarrow> Some (Inl e, s)
        | Inr digest \<Rightarrow>
            let i = (if se_run_id S = [] then se_fresh_id S else se_run_id S);
                ctx = mput ''markov_run_id'' (VStr i) (build_context (x_file X) vars (wf_vars w));
                (t, s) = now s; row = new_run X S wname digest ctx t
            in (case create_run row (en_store s) of
                  Inl e \<Rightarrow> Some (Inl (''creating run: '' @ e), s)
                | Inr st \<Rightarrow>
                    let s = fire (RunStarted i wname (x_source_path X) digest ctx (x_forks X) (fi_namespace (x_file X)))
                              (with_store (\<lambda>_. st) s)
                    in map_option (\<lambda>res. let (err, s) = end_run (se_end_saved S) wname row res in (Inr (i, err), s))
                         (run_workflow n (X\<lparr>x_source_digest := digest\<rparr>) i w ctx s))))"

subsection \<open>Resume\<close>

fun is_step_of_type :: "string \<Rightarrow> step list \<Rightarrow> string \<Rightarrow> bool" where
  "is_step_of_type ty [] name = False"
| "is_step_of_type ty (s # ss) name = (if st_name s = name then st_type s = ty else is_step_of_type ty ss name)"

fun run_status_text :: "run_status \<Rightarrow> string" where
  "run_status_text RunRunning = ''running''"
| "run_status_text RunPaused = ''paused''"
| "run_status_text RunCompleted = ''completed''"
| "run_status_text RunFailed = ''failed''"

text \<open>What the row of a completed step puts back into the run context.\<close>

definition restore_row :: "golib \<Rightarrow> workflow \<Rightarrow> step_row \<Rightarrow> gomap \<Rightarrow> gomap" where
  "restore_row G w r ctx =
     (if has_prefix (sr_step_name r) ''__jev__/'' \<or> sr_status r \<noteq> StepCompleted then ctx
      else if is_step_of_type ''set_fact'' (wf_steps w) (sr_step_name r) \<and> sr_output_json r \<noteq> [] then
        mcopy (decode_state G (sr_output_json r)) ctx
      else if is_step_of_type ''gate'' (wf_steps w) (sr_step_name r) \<and> sr_output_json r \<noteq> [] then
        (case mget (decode_state G (sr_output_json r)) ''facts'' of Some (VMap facts) \<Rightarrow> mcopy facts ctx | _ \<Rightarrow> ctx)
      else if sr_artifacts_json r \<noteq> [] then mput (sr_step_name r) (VMap (decode_state G (sr_artifacts_json r))) ctx
      else if sr_output_json r \<noteq> [] then mput (sr_step_name r) (VMap (decode_state G (sr_output_json r))) ctx
      else ctx)"

definition resume_refused :: "settings \<Rightarrow> run_row \<Rightarrow> gomap \<Rightarrow> string option" where
  "resume_refused S r vars =
     (let rewinding = (se_rewind S \<noteq> [] \<or> se_rewind_changed S) in
      if rn_status r \<notin> {RunFailed, RunPaused} \<and> \<not> (rewinding \<and> rn_status r = RunCompleted) then
        Some (''run '' @ quoted (rn_run_id r) @ '' has status '' @ quoted (run_status_text (rn_status r))
          @ ''; only failed or paused runs can be resumed (a completed run can be rewound with --rewind)'')
      else if rn_status r = RunPaused \<and> vars = [] then
        Some (''paused run '' @ quoted (rn_run_id r) @ '' requires at least one --var override to resume'')
      else None)"

text \<open>The context a resumed run starts from: its stored variables, what its completed steps left, and
  the overrides.\<close>

definition resume_context :: "golib \<Rightarrow> workflow \<Rightarrow> run_row \<Rightarrow> step_row list \<Rightarrow> gomap \<Rightarrow> gomap" where
  "resume_context G w r rows vars =
     mcopy vars (fold (restore_row G w) rows (mcopy (decode_state G (rn_vars_json r)) []))"

definition resumed_event :: "'w ext \<Rightarrow> run_row \<Rightarrow> workflow \<Rightarrow> step_row list \<Rightarrow> source_check \<Rightarrow> changed_step list \<Rightarrow> bool \<Rightarrow> event" where
  "resumed_event X r w rows check changed rew =
     (let completed = int (length (filter (\<lambda>q. sr_status q = StepCompleted) rows)) in
      RunResumed (rn_run_id r) (rn_entrypoint r) completed (int (length (wf_steps w)) - completed)
        (sc_mode check) (sc_expected_digest check) (sc_observed_digest check) (sc_source_drifted check)
        (changed_step_events (x_file X) changed) rew)"

definition resume_prepared ::
  "nat \<Rightarrow> bool \<Rightarrow> 'w ext \<Rightarrow> run_row \<Rightarrow> workflow \<Rightarrow> gomap \<Rightarrow> source_check \<Rightarrow> changed_step list \<Rightarrow> bool \<Rightarrow> 'w eng
     \<Rightarrow> (gerr option \<times> 'w eng) option" where
  "resume_prepared n saved X r w vars check changed rew s =
     (let G = x_lib X;
          rows = get_steps (en_store s) (rn_run_id r);
          ctx = resume_context G w r rows vars;
          r = r\<lparr>rn_vars_json := marshal_text G (VMap (mcopy vars (decode_state G (rn_vars_json r)))),
                rn_status := RunRunning, rn_completed_at := None\<rparr>;
          s = fire (resumed_event X r w rows check changed rew) (with_store (update_run r) s);
          (t, s) = now s
      in map_option (end_run saved (rn_entrypoint r) r)
           (run_workflow n (X\<lparr>x_source_digest := rn_source_digest r\<rparr>) (rn_run_id r) w ctx s))"

definition resume_with_vars ::
  "nat \<Rightarrow> nat \<Rightarrow> 'w ext \<Rightarrow> settings \<Rightarrow> string \<Rightarrow> gomap \<Rightarrow> 'w eng \<Rightarrow> ((string + gerr option) \<times> 'w eng) option" where
  "resume_with_vars m n X S i vars s =
     (case get_run (en_store s) i of
        Inl e \<Rightarrow> Some (Inl e, s)
      | Inr r \<Rightarrow> (case resume_refused S r vars of
          Some e \<Rightarrow> Some (Inl e, s)
        | None \<Rightarrow> (case check_source_integrity X S r s of
            (Inl e, s) \<Rightarrow> Some (Inl e, s)
          | (Inr check, s) \<Rightarrow> (case get_workflow (fi_workflows (x_file X)) (rn_entrypoint r) of
              None \<Rightarrow> Some (Inl (''workflow '' @ quoted (rn_entrypoint r) @ '' not found''), s)
            | Some w \<Rightarrow> (case prepare_resume m (x_lib X) (x_file X) (se_rewind S) (se_rewind_changed S) r (en_store s) of
                None \<Rightarrow> None
              | Some (Inl e, st) \<Rightarrow> Some (Inl e, with_store (\<lambda>_. st) s)
              | Some (Inr (changed, rew), st) \<Rightarrow>
                  map_option (\<lambda>(err, s). (Inr err, s))
                    (resume_prepared n (se_end_saved S) X r w vars check changed rew (with_store (\<lambda>_. st) s)))))))"

definition resume :: "nat \<Rightarrow> nat \<Rightarrow> 'w ext \<Rightarrow> settings \<Rightarrow> string \<Rightarrow> 'w eng \<Rightarrow> ((string + gerr option) \<times> 'w eng) option" where
  "resume m n X S i s = resume_with_vars m n X S i [] s"

end
