(* ===== verification/Resume_Props.thy ===== *)
theory Resume_Props
  imports Run_Resume Engine_Props Flow_Props
begin

text \<open>
  The properties of starting and resuming a run: what the run row says afterwards, which runs may be
  resumed, what source integrity guarantees, what becomes of overrides, and that a resume ends.
\<close>

subsection \<open>Source integrity\<close>

lemma parse_integrity_text: "parse_integrity (integrity_text m) = Inr m"
  by (cases m) (simp_all add: parse_integrity_def trim_space_def trim_fn_def trim_left_fn_def trim_right_fn_def
      is_space_def to_lower_def lower_char_def is_upper_def)


subsection \<open>The run row\<close>

lemma run_workflow_own_row:
  assumes "run_workflow n X i w ctx s = Some (e, c, t)"
  shows "get_run (en_store t) i = get_run (en_store s) i"
proof -
  have "\<not> has_prefix i (i @ ''-'')" by (auto simp: has_prefix_iff)
  then show ?thesis using isolation.run_workflow_R [OF assms] by (simp add: isolates_def)
qed

lemma end_run_row:
  assumes "get_run (en_store u) (rn_run_id r) = Inr q"
  shows "get_run (en_store (snd (end_run saved wname r (err, c, u)))) (rn_run_id r) =
    Inr (if \<not> saved then q else q\<lparr>rn_status := outcome_status err, rn_completed_at := if is_paused err then None else Some (en_clock u)\<rparr>)"
proof (cases err)
  case None
  with assms show ?thesis by (simp add: end_run_def Let_def case_prod_beta get_run_close outcome_status_def)
next
  case (Some e)
  with assms show ?thesis
    by (cases "pause_error e") (simp_all add: end_run_def Let_def case_prod_beta get_run_close outcome_status_def)
qed

lemma end_run_err: "fst (end_run saved wname r (err, c, u)) = err"
  by (simp add: end_run_def Let_def case_prod_beta)

text \<open>A started run is recorded: when a run was started, its row is in the store under the id that
  is reported, for the workflow asked for and with the digest of its source, and its status is
  completed, paused or failed as the run's error says, with a completion time unless it is
  paused; or it is still running when the last update of the row was lost.\<close>

lemma started_run_row:
  assumes "start_run n X S wname vars s = Some (Inr (i, err), t)"
  shows "\<exists>q. get_run (en_store t) i = Inr q \<and> rn_status q = (if se_end_saved S then outcome_status err else RunRunning) \<and>
    (rn_completed_at q = None \<longleftrightarrow> is_paused err \<or> \<not> se_end_saved S) \<and>
    rn_entrypoint q = (if wname = [] then fi_entrypoint (x_file X) else wname) \<and>
    current_source_digest X S = Inr (rn_source_digest q)"
proof -
  let ?w = "if wname = [] then fi_entrypoint (x_file X) else wname"
  let ?i = "if se_run_id S = [] then se_fresh_id S else se_run_id S"
  from assms obtain w digest st ctx res u0 where
    w: "get_workflow (fi_workflows (x_file X)) ?w = Some w" and
    d: "current_source_digest X S = Inr digest" and
    st: "create_run (new_run X S ?w digest ctx (en_clock s)) (en_store s) = Inr st" and
    u0: "en_store u0 = st" and
    res: "run_workflow n (X\<lparr>x_source_digest := digest\<rparr>) ?i w ctx u0 = Some res" and
    fin: "end_run (se_end_saved S) ?w (new_run X S ?w digest ctx (en_clock s)) res = (err, t)" "i = ?i"
    unfolding start_run_def Let_def
    by (auto simp: case_prod_beta split: option.splits sum.splits) (metis eng_frame(1,8) prod.collapse)+
  let ?row = "new_run X S ?w digest ctx (en_clock s)"
  obtain e c u where r: "res = (e, c, u)" by (cases res)
  have row: "rn_run_id ?row = i" "rn_completed_at ?row = None" "rn_entrypoint ?row = ?w" "rn_source_digest ?row = digest" "rn_status ?row = RunRunning"
    using fin(2) by (simp_all add: new_run_def)
  have "get_run st i = Inr (?row\<lparr>rn_completed_at := None\<rparr>)"
    using st row(1) by (auto simp: create_run_def get_run_def find_run_append split: if_splits)
  then have "get_run (en_store u) i = Inr (?row\<lparr>rn_completed_at := None\<rparr>)"
    using run_workflow_own_row [OF res [unfolded r]] u0 fin(2) by simp
  with row(1) have "get_run (en_store u) (rn_run_id ?row) = Inr (?row\<lparr>rn_completed_at := None\<rparr>)" by simp
  from end_run_row [OF this, of "se_end_saved S" ?w e c] fin(1) r row d show ?thesis
    using end_run_err [of "se_end_saved S" ?w ?row e c u] by simp
qed

lemma check_source_integrity_runs: "db_runs (en_store (snd (check_source_integrity X S r s))) = db_runs (en_store s)"
  by (simp add: check_source_integrity_def Let_def case_prod_beta split: sum.split option.split)

lemma check_source_integrity_runs_eq:
  "check_source_integrity X S r s = (c, u) \<Longrightarrow> db_runs (en_store u) = db_runs (en_store s)"
  using check_source_integrity_runs [of X S r s] by simp

lemma resume_refused_None:
  "resume_refused S r vars = None \<longleftrightarrow>
     (rn_status r \<in> {RunFailed, RunPaused} \<or> rn_status r = RunCompleted \<and> (se_rewind S \<noteq> [] \<or> se_rewind_changed S)) \<and>
     (rn_status r = RunPaused \<longrightarrow> vars \<noteq> [])"
  by (auto simp: resume_refused_def Let_def)

lemma resume_prepared_row:
  assumes "get_run (en_store s) (rn_run_id r) = Inr r"
    and "resume_prepared n saved X r w vars check changed rew s = Some (err, t)"
  shows "\<exists>q. get_run (en_store t) (rn_run_id r) = Inr q \<and> rn_status q = (if saved then outcome_status err else RunRunning) \<and>
    (rn_completed_at q = None \<longleftrightarrow> is_paused err \<or> \<not> saved) \<and> run_record q = run_record r"
proof -
  let ?r = "r\<lparr>rn_vars_json := marshal_text (x_lib X) (VMap (mcopy vars (decode_state (x_lib X) (rn_vars_json r)))),
      rn_status := RunRunning, rn_completed_at := None\<rparr>"
  let ?u0 = "snd (now (fire (resumed_event X ?r w (get_steps (en_store s) (rn_run_id r)) check changed rew)
      (with_store (update_run ?r) s)))"
  from assms(2) obtain ctx res where
    res: "run_workflow n (X\<lparr>x_source_digest := rn_source_digest r\<rparr>) (rn_run_id r) w ctx ?u0 = Some res" and
    fin: "end_run saved (rn_entrypoint r) ?r res = (err, t)"
    unfolding resume_prepared_def Let_def case_prod_beta by auto
  obtain e c u where e: "res = (e, c, u)" by (cases res)
  have "find_run (db_runs (en_store s)) (rn_run_id r) = Some r"
    using assms(1) by (auto simp: get_run_def split: option.splits)
  then have "get_run (en_store ?u0) (rn_run_id r) = Inr (r\<lparr>rn_status := RunRunning, rn_completed_at := None\<rparr>)"
    by (simp add: get_run_def find_run_update)
  then have "get_run (en_store u) (rn_run_id ?r) = Inr (r\<lparr>rn_status := RunRunning, rn_completed_at := None\<rparr>)"
    using run_workflow_own_row [OF res [unfolded e]] by simp
  from end_run_row [OF this, of saved "rn_entrypoint r" e c] fin e show ?thesis
    using end_run_err [of saved "rn_entrypoint r" ?r e c u] by (auto simp: run_record_def)
qed

lemma resumed_run_row:
  assumes "resume_with_vars m n X S i vars s = Some (Inr err, t)"
  shows "\<exists>r q. get_run (en_store s) i = Inr r \<and>
    (rn_status r \<in> {RunFailed, RunPaused} \<or> rn_status r = RunCompleted \<and> (se_rewind S \<noteq> [] \<or> se_rewind_changed S)) \<and>
    (rn_status r = RunPaused \<longrightarrow> vars \<noteq> []) \<and>
    get_run (en_store t) i = Inr q \<and> rn_status q = (if se_end_saved S then outcome_status err else RunRunning) \<and>
    (rn_completed_at q = None \<longleftrightarrow> is_paused err \<or> \<not> se_end_saved S) \<and>
    run_record q = run_record r"
proof -
  from assms obtain r check u w changed rew st where
    r: "get_run (en_store s) i = Inr r" and ok: "resume_refused S r vars = None" and
    check: "check_source_integrity X S r s = (Inr check, u)" and
    prep: "prepare_resume m (x_lib X) (x_file X) (se_rewind S) (se_rewind_changed S) r (en_store u) =
      Some (Inr (changed, rew), st)" and
    go: "resume_prepared n (se_end_saved S) X r w vars check changed rew (with_store (\<lambda>_. st) u) = Some (err, t)"
    unfolding resume_with_vars_def
    by (auto split: sum.splits option.splits prod.splits)
  have i: "rn_run_id r = i"
    using r find_run_Some by (fastforce simp: get_run_def split: option.splits)
  have "db_runs st = db_runs (en_store s)"
    using prepare_resume_runs [OF prep] check_source_integrity_runs_eq [OF check] by simp
  then have "get_run (en_store (with_store (\<lambda>_. st) u)) (rn_run_id r) = Inr r"
    using r i get_run_cong [of st "en_store s" i] by simp
  from resume_prepared_row [OF this go, unfolded i] obtain q where q: "get_run (en_store t) i = Inr q"
    "rn_status q = (if se_end_saved S then outcome_status err else RunRunning)"
    "(rn_completed_at q = None) = (is_paused err \<or> \<not> se_end_saved S)" "run_record q = run_record r"
    by (elim exE conjE)
  note allowed = ok [unfolded resume_refused_None, THEN conjunct1] ok [unfolded resume_refused_None, THEN conjunct2]
  show ?thesis
    by (rule exI [of _ r], rule exI [of _ q], intro conjI) (rule r q allowed)+
qed

text \<open>Overrides given to a resume are not there for the next one: \<open>UpdateRun\<close> does not write the variables.\<close>

lemma overrides_not_recorded:
  assumes "resume_with_vars m n X S i vars s = Some (Inr err, t)" "get_run (en_store s) i = Inr r"
  shows "\<exists>q. get_run (en_store t) i = Inr q \<and> rn_vars_json q = rn_vars_json r"
proof -
  obtain q where "get_run (en_store t) i = Inr q" "run_record q = run_record r" using resumed_run_row [OF assms(1)] assms(2) by auto
  moreover have "rn_vars_json (run_record x) = rn_vars_json x" for x by (simp add: run_record_def)
  ultimately show ?thesis by metis
qed

text \<open>What identifies a run: where it came from, not how it goes nor its variables.\<close>

definition run_origin :: "run_row \<Rightarrow> string \<times> string \<times> string \<times> string \<times> string \<times> string \<times> string \<times> int" where
  "run_origin r = (rn_run_id r, rn_workflow_file r, rn_source_digest r, rn_entrypoint r, rn_parent_run_id r, rn_parent_step r,
     rn_for_each_key r, rn_started_at r)"

text \<open>C34. A resumed run: only a failed or paused run goes on (or a completed one that is rewound), a
  paused one only with an override. Afterwards its row has the status of the new outcome, and a completion time unless it is
  paused (or it still says running, when the last update of the row was lost); the workflow, source digest,
  parent and start it was created with stay.\<close>

theorem resumed_run_recorded:
  assumes "resume_with_vars m n X S i vars s = Some (Inr err, t)"
  shows "\<exists>r q. get_run (en_store s) i = Inr r \<and>
    (rn_status r \<in> {RunFailed, RunPaused} \<or> rn_status r = RunCompleted \<and> (se_rewind S \<noteq> [] \<or> se_rewind_changed S)) \<and>
    (rn_status r = RunPaused \<longrightarrow> vars \<noteq> []) \<and>
    get_run (en_store t) i = Inr q \<and> rn_status q = (if se_end_saved S then outcome_status err else RunRunning) \<and>
    (rn_completed_at q = None \<longleftrightarrow> is_paused err \<or> \<not> se_end_saved S) \<and>
    run_origin q = run_origin r"
proof -
  have "run_origin (run_record x) = run_origin x" for x by (simp add: run_origin_def run_record_def)
  then have same: "run_origin q = run_origin r" if "run_record q = run_record r" for q r using that by metis
  from resumed_run_row [OF assms] obtain r q where *: "get_run (en_store s) i = Inr r"
    "rn_status r \<in> {RunFailed, RunPaused} \<or> rn_status r = RunCompleted \<and> (se_rewind S \<noteq> [] \<or> se_rewind_changed S)"
    "rn_status r = RunPaused \<longrightarrow> vars \<noteq> []" "get_run (en_store t) i = Inr q"
    "rn_status q = (if se_end_saved S then outcome_status err else RunRunning)"
    "(rn_completed_at q = None) = (is_paused err \<or> \<not> se_end_saved S)" "run_record q = run_record r"
    by (elim exE conjE)
  show ?thesis
    by (rule exI [of _ r], rule exI [of _ q], intro conjI) (rule * same)+
qed

text \<open>C35. Resuming ends: with calls that can be ranked and run ids that grow from parent to child, a
  resume returns, with fuel above the longest run id for the run tree and above every rank for
  the calls.\<close>

theorem resume_returns:
  assumes "ranked_file (x_file X) rank" "\<forall>w\<in>set (fi_workflows (x_file X)). rank (wf_name w) < n"
    and "parents_shorter (en_store s)" "longest_id (en_store s) < m"
  shows "\<exists>v. resume_with_vars m n X S i vars s = Some v"
proof -
  have "run_workflow n (X\<lparr>x_source_digest := d\<rparr>) j w ctx u \<noteq> None"
    if "get_workflow (fi_workflows (x_file X)) name = Some w" for d j name w ctx u
    using ranked_returns [of "X\<lparr>x_source_digest := d\<rparr>" rank w n j ctx u] assms(1,2) get_workflow_Some [OF that]
    by (simp del: not_None_eq) blast
  then have go: "resume_prepared n saved X r w vars check changed rew u \<noteq> None"
    if "get_workflow (fi_workflows (x_file X)) name = Some w" for saved r name w vars check changed rew u
    using that unfolding resume_prepared_def Let_def by (simp add: case_prod_beta del: not_None_eq)
  have prep: "prepare_resume m G f a b r (en_store u) \<noteq> None" if "db_runs (en_store u) = db_runs (en_store s)"
    for G f a b r and u :: "'a eng"
    using prepare_resume_not_None [of "en_store u" m G f a b r] assms(3,4) that
    by (simp add: parents_shorter_def longest_id_def del: not_None_eq)
  have "resume_with_vars m n X S i vars s \<noteq> None"
  proof (cases "get_run (en_store s) i")
    case (Inr r)
    obtain c u where c: "check_source_integrity X S r s = (c, u)" by (cases "check_source_integrity X S r s")
    show ?thesis
      using Inr c go prep [OF check_source_integrity_runs_eq [OF c]]
      unfolding resume_with_vars_def
      by (simp del: not_None_eq split: option.split sum.split prod.split)
  qed (simp add: resume_with_vars_def)
  then show ?thesis by blast
qed

subsection \<open>Witnesses\<close>

definition sample_settings :: settings where
  "sample_settings = \<lparr>se_run_id = ''r'', se_fresh_id = ''0a1b2c3d'', se_tree = Inr ''d1'', se_integrity = None,
     se_rewind = [], se_rewind_changed = False, se_end_saved = True\<rparr>"


lemma sample_started:
  obtains err t where "start_run 2 (sample_ext sample_file) sample_settings [] [] sample_eng = Some (Inr (''r'', err), t)"
proof -
  let ?ctx = "mput ''markov_run_id'' (VStr ''r'') (build_context sample_file [] [])"
  have w: "get_workflow (fi_workflows sample_file) ''main'' = Some sample_main"
    by (simp add: sample_file_def sample_main_def)
  have "run_workflow 2 (sample_ext sample_file\<lparr>x_source_digest := []\<rparr>) ''r'' sample_main ctx s \<noteq> None" for ctx s
    using ranked_returns [OF sample_ranked, of sample_main 2 "''r''" ctx s]
    by (simp add: sample_ext_def sample_defs)
  then obtain res where "run_workflow 2 (sample_ext sample_file\<lparr>x_source_digest := []\<rparr>) ''r'' sample_main ?ctx
      (fire (RunStarted ''r'' ''main'' [] [] ?ctx 5 []) (with_store (\<lambda>_. en_store sample_eng
        \<lparr>db_runs := [new_run (sample_ext sample_file) sample_settings ''main'' [] ?ctx 0]\<rparr>) (snd (now sample_eng)))) = Some res"
    by fastforce
  moreover have "fi_entrypoint (x_file (sample_ext sample_file)) = ''main''" "x_source_path (sample_ext sample_file) = []"
    "x_file (sample_ext sample_file) = sample_file" "x_forks (sample_ext sample_file) = 5" "fi_namespace sample_file = []"
    "wf_vars sample_main = []" "se_run_id sample_settings = ''r''" "se_end_saved sample_settings" "en_clock sample_eng = 0"
    by (simp_all add: sample_ext_def sample_file_def blank_file_def sample_main_def sample_settings_def sample_eng_def)
  moreover have "create_run (new_run X sample_settings wn d c t) (en_store sample_eng) =
      Inr (en_store sample_eng\<lparr>db_runs := [new_run X sample_settings wn d c t]\<rparr>)" for X :: "nat ext" and wn d c t
    by (simp add: create_run_def sample_eng_def empty_store_def new_run_def)
  ultimately show thesis
    using w that [of "fst (end_run True ''main'' (new_run (sample_ext sample_file) sample_settings ''main'' [] ?ctx 0) res)"
        "snd (end_run True ''main'' (new_run (sample_ext sample_file) sample_settings ''main'' [] ?ctx 0) res)"]
    by (simp add: start_run_def Let_def case_prod_beta current_source_digest_def)
qed

text \<open>A failed run in the store, to resume.\<close>

definition sample_failed_run :: "nat eng" where
  "sample_failed_run = sample_eng\<lparr>en_store := sample_tree\<lparr>db_runs := [sample_run\<lparr>rn_status := RunFailed,
     rn_entrypoint := ''child''\<rparr>]\<rparr>\<rparr>"

theorem resume_returns_witness:
  "\<exists>v. resume_with_vars 2 2 (sample_ext sample_file) sample_settings ''r'' [] sample_failed_run = Some v"
proof (rule resume_returns [OF sample_ranked])
  show "parents_shorter (en_store sample_failed_run)" "longest_id (en_store sample_failed_run) < 2"
    by (simp_all add: parents_shorter_def longest_id_def sample_failed_run_def sample_run_def)
qed (simp add: sample_ext_def sample_defs)

lemma sample_resumed_run:
  obtains err t where "resume_with_vars 2 2 (sample_ext sample_file) sample_settings ''r'' [(''k'', VInt 1)] sample_failed_run
    = Some (Inr err, t)"
proof -
  let ?X = "sample_ext sample_file"
  let ?r = "sample_run\<lparr>rn_status := RunFailed, rn_entrypoint := ''child''\<rparr>"
  have r: "get_run (en_store sample_failed_run) ''r'' = Inr ?r"
    by (simp add: get_run_def sample_failed_run_def sample_run_def)
  have ok: "resume_refused sample_settings ?r [(''k'', VInt 1)] = None"
    by (simp add: resume_refused_None)
  obtain c u where c: "check_source_integrity ?X sample_settings ?r sample_failed_run = (Inr c, u)"
    by (simp add: check_source_integrity_def Let_def case_prod_beta source_integrity_mode_def sample_settings_def
        current_source_digest_def sample_ext_def)
  have w: "get_workflow (fi_workflows (x_file ?X)) (rn_entrypoint ?r) = Some sample_child"
    by (simp add: sample_ext_def sample_file_def sample_main_def sample_child_def)
  have runs: "db_runs (en_store u) = db_runs (en_store sample_failed_run)"
    by (rule check_source_integrity_runs_eq [OF c])
  have "prepare_resume 2 (x_lib ?X) (x_file ?X) [] False ?r (en_store u) \<noteq> None"
    using runs by (intro prepare_resume_not_None)
      (simp_all add: parents_shorter_def longest_id_def sample_failed_run_def sample_run_def)
  then obtain changed where p: "prepare_resume 2 (x_lib ?X) (x_file ?X) [] False ?r (en_store u) = Some (Inr (changed, False), en_store u)"
    by (auto simp: prepare_resume_def split: option.splits)
  have "run_workflow 2 (?X\<lparr>x_source_digest := d\<rparr>) ''r'' sample_child ctx s \<noteq> None" for d ctx s
    using ranked_returns [of "?X\<lparr>x_source_digest := d\<rparr>" "\<lambda>n. if n = ''main'' then 1 else 0" sample_child 2 "''r''" ctx s]
      sample_ranked by (simp add: sample_ext_def sample_defs)
  then have "resume_prepared 2 True ?X ?r sample_child [(''k'', VInt 1)] c changed False (with_store (\<lambda>_. en_store u) u) \<noteq> None"
    unfolding resume_prepared_def Let_def case_prod_beta by (simp add: sample_run_def del: not_None_eq)
  then obtain err t where "resume_prepared 2 True ?X ?r sample_child [(''k'', VInt 1)] c changed False (with_store (\<lambda>_. en_store u) u)
      = Some (err, t)"
    by auto
  with r ok c w p that show thesis
    by (simp add: resume_with_vars_def) (simp add: sample_settings_def)
qed

theorem resumed_run_recorded_witness:
  "\<exists>err t q. resume_with_vars 2 2 (sample_ext sample_file) sample_settings ''r'' [(''k'', VInt 1)] sample_failed_run
     = Some (Inr err, t) \<and> get_run (en_store t) ''r'' = Inr q \<and> rn_status q = outcome_status err \<and> rn_entrypoint q = ''child''"
proof (rule sample_resumed_run)
  fix err t
  assume run: "resume_with_vars 2 2 (sample_ext sample_file) sample_settings ''r'' [(''k'', VInt 1)] sample_failed_run
     = Some (Inr err, t)"
  from resumed_run_recorded [OF run] obtain r q where rq: "get_run (en_store sample_failed_run) ''r'' = Inr r"
    "get_run (en_store t) ''r'' = Inr q" "rn_status q = outcome_status err" "run_origin q = run_origin r"
    by (auto simp: sample_settings_def)
  moreover have "rn_entrypoint r = ''child''"
    using rq(1) by (auto simp: get_run_def sample_failed_run_def sample_run_def)
  ultimately show ?thesis using run by (auto simp: run_origin_def)
qed

end
