(* ===== verification/Fan_Out.thy ===== *)
theory Fan_Out
  imports Flow_Props
begin

text \<open>
  The concurrent for_each loop (\<open>executeForEach\<close>): goroutines, a semaphore of \<open>concurrency\<close> slots, and
  an error that is set once and stops further launches. The loop and its iterations are a step relation over a
  pool; what an iteration ends with is a relation, since it depends on what runs beside it.
  \<open>Step_Engine\<close> runs the iterations one after the other, which is shown to be one of the schedules.
\<close>

text \<open>The next item, the iterations running, the first error, the results collected, and whether the
  loop has ended (iterations may still be running then).\<close>

record 'r pool =
  po_next :: nat
  po_running :: "nat list"
  po_error :: "gerr option"
  po_results :: "'r list"
  po_stopped :: bool

definition pool_start :: "'r pool" where
  "pool_start = \<lparr>po_next = 0, po_running = [], po_error = None, po_results = [], po_stopped = False\<rparr>"

definition first_error :: "gerr option \<Rightarrow> gerr option \<Rightarrow> gerr option" where
  "first_error old new = (case old of None \<Rightarrow> new | Some e \<Rightarrow> Some e)"

text \<open>The number of items, the slots, the verdicts of for_each_when, and how an iteration may end.\<close>

inductive pool_step ::
  "nat \<Rightarrow> nat \<Rightarrow> (nat \<Rightarrow> string + bool) \<Rightarrow> (nat \<Rightarrow> gerr option \<Rightarrow> 'r option \<Rightarrow> bool) \<Rightarrow> 'r pool \<Rightarrow> 'r pool \<Rightarrow> bool"
  for n slots wanted ending where
  stop_failed: "\<not> po_stopped p \<Longrightarrow> po_error p \<noteq> None \<Longrightarrow>
     pool_step n slots wanted ending p (p\<lparr>po_stopped := True\<rparr>)"
| stop_done: "\<not> po_stopped p \<Longrightarrow> po_next p = n \<Longrightarrow>
     pool_step n slots wanted ending p (p\<lparr>po_stopped := True\<rparr>)"
| skip: "\<not> po_stopped p \<Longrightarrow> po_next p < n \<Longrightarrow> wanted (po_next p) = Inr False \<Longrightarrow>
     pool_step n slots wanted ending p (p\<lparr>po_next := Suc (po_next p)\<rparr>)"
| when_error: "\<not> po_stopped p \<Longrightarrow> po_next p < n \<Longrightarrow> wanted (po_next p) = Inl e \<Longrightarrow>
     pool_step n slots wanted ending p (p\<lparr>po_error := first_error (po_error p) (Some (Msg e)), po_stopped := True\<rparr>)"
| launch: "\<not> po_stopped p \<Longrightarrow> po_next p < n \<Longrightarrow> wanted (po_next p) = Inr True \<Longrightarrow> po_error p = None \<Longrightarrow>
     length (po_running p) < slots \<Longrightarrow>
     pool_step n slots wanted ending p (p\<lparr>po_next := Suc (po_next p), po_running := po_running p @ [po_next p]\<rparr>)"
| finish: "i \<in> set (po_running p) \<Longrightarrow> ending i err res \<Longrightarrow>
     pool_step n slots wanted ending p (p\<lparr>po_running := remove1 i (po_running p), po_error := first_error (po_error p) err,
       po_results := po_results p @ (case res of None \<Rightarrow> [] | Some r \<Rightarrow> [r])\<rparr>)"

text \<open>\<open>wg.Wait\<close> returns: the loop has ended and nothing runs.\<close>

definition pool_over :: "'r pool \<Rightarrow> bool" where
  "pool_over p \<longleftrightarrow> po_stopped p \<and> po_running p = []"

inductive pool_run for n slots wanted ending where
  begin_run: "pool_run n slots wanted ending pool_start"
| more: "pool_run n slots wanted ending p \<Longrightarrow> pool_step n slots wanted ending p q \<Longrightarrow> pool_run n slots wanted ending q"

subsection \<open>Invariants\<close>

text \<open>How many of the wanted items were taken: those that still run and those whose end is counted.\<close>

definition wanted_below :: "(nat \<Rightarrow> string + bool) \<Rightarrow> nat \<Rightarrow> nat list" where
  "wanted_below wanted k = filter (\<lambda>i. wanted i = Inr True) [0..<k]"

definition pool_inv :: "nat \<Rightarrow> nat \<Rightarrow> (nat \<Rightarrow> string + bool) \<Rightarrow> 'r pool \<Rightarrow> bool" where
  "pool_inv n slots wanted p \<longleftrightarrow> po_next p \<le> n \<and> length (po_running p) \<le> slots \<and> distinct (po_running p) \<and>
     set (po_running p) \<subseteq> set (wanted_below wanted (po_next p)) \<and>
     (po_stopped p \<and> po_error p = None \<longrightarrow> po_next p = n)"

lemma wanted_below_Suc: "wanted_below wanted (Suc k) =
    wanted_below wanted k @ (if wanted k = Inr True then [k] else [])"
  by (simp add: wanted_below_def)

lemma wanted_below_less: "i \<in> set (wanted_below wanted k) \<Longrightarrow> i < k"
  by (simp add: wanted_below_def)

lemma first_error_None: "first_error a b = None \<longleftrightarrow> a = None \<and> b = None"
  by (simp add: first_error_def split: option.split)

lemma pool_step_inv: "pool_step n slots wanted ending p q \<Longrightarrow> pool_inv n slots wanted p \<Longrightarrow> pool_inv n slots wanted q"
proof (induction rule: pool_step.induct)
  case (launch p)
  then show ?case
    using wanted_below_less [of "po_next p" wanted "po_next p"] by (auto simp: pool_inv_def wanted_below_Suc)
next
  case (finish i p err res)
  then show ?case
    by (auto simp: pool_inv_def first_error_None length_remove1 dest: set_remove1_subset [THEN subsetD])
qed (auto simp: pool_inv_def wanted_below_Suc first_error_None)

lemma pool_run_inv: "pool_run n slots wanted ending p \<Longrightarrow> pool_inv n slots wanted p"
proof (induction rule: pool_run.induct)
  case begin_run
  then show ?case by (simp add: pool_inv_def pool_start_def)
next
  case (more p q)
  then show ?case using pool_step_inv by blast
qed

text \<open>Iterations that end well give one result each; until an error, the results and the running
  iterations account for every wanted item taken.\<close>

definition one_result :: "(nat \<Rightarrow> gerr option \<Rightarrow> 'r option \<Rightarrow> bool) \<Rightarrow> bool" where
  "one_result ending \<longleftrightarrow> (\<forall>i r. ending i None r \<longrightarrow> r \<noteq> None)"

definition accounted :: "(nat \<Rightarrow> string + bool) \<Rightarrow> 'r pool \<Rightarrow> bool" where
  "accounted wanted p \<longleftrightarrow> (po_error p = None \<longrightarrow>
     length (po_results p) + length (po_running p) = length (wanted_below wanted (po_next p)))"

lemma pool_step_accounted:
  assumes "one_result ending"
  shows "pool_step n slots wanted ending p q \<Longrightarrow> accounted wanted p \<Longrightarrow> accounted wanted q"
proof (induction rule: pool_step.induct)
  case (finish i p err res)
  then obtain k where "length (po_running p) = Suc k" by (cases "po_running p") auto
  with finish assms show ?case
    by (auto simp: accounted_def first_error_None length_remove1 one_result_def split: option.split)
qed (auto simp: accounted_def wanted_below_Suc first_error_None)

lemma pool_run_accounted: "pool_run n slots wanted ending p \<Longrightarrow> one_result ending \<Longrightarrow> accounted wanted p"
proof (induction rule: pool_run.induct)
  case begin_run
  then show ?case by (simp add: accounted_def pool_start_def wanted_below_def)
next
  case (more p q)
  then show ?case using pool_step_accounted by blast
qed

lemma pool_no_launch:
  "pool_step n slots wanted ending p q \<Longrightarrow> po_error p \<noteq> None \<Longrightarrow>
     po_error q = po_error p \<and> set (po_running q) \<subseteq> set (po_running p)"
  by (induction rule: pool_step.induct)
    (auto simp: first_error_def split: option.splits dest: set_remove1_subset [THEN subsetD])

lemma pool_step_new:
  "pool_step n slots wanted ending p q \<Longrightarrow>
     po_next p \<le> po_next q \<and> set (po_running q) \<subseteq> set (po_running p) \<union> {po_next p..<po_next q}"
  by (induction rule: pool_step.induct) (auto dest: set_remove1_subset [THEN subsetD])

lemma pool_steps_new:
  "(pool_step n slots wanted ending)\<^sup>*\<^sup>* p q \<Longrightarrow>
     po_next p \<le> po_next q \<and> set (po_running q) \<subseteq> set (po_running p) \<union> {po_next p..<po_next q}"
proof (induction rule: rtranclp_induct)
  case (step q r)
  then show ?case using pool_step_new [of n slots wanted ending q r] by fastforce
qed simp

text \<open>C36. The pool of a for_each loop is safe under every interleaving. Never more iterations than slots run, and only wanted
  items that the launcher has reached; no item runs twice at a time, and one that has ended or was skipped never
  runs again, so each is launched once at most. After a failure nothing is launched and the first error stands. When the loop is
  over without an error there are as many results as wanted items.\<close>

theorem pool_safe:
  assumes "pool_run n slots wanted ending p"
  shows "length (po_running p) \<le> slots \<and> distinct (po_running p) \<and>
    (\<forall>i\<in>set (po_running p). i < po_next p \<and> i < n \<and> wanted i = Inr True) \<and>
    (\<forall>q. (pool_step n slots wanted ending)\<^sup>*\<^sup>* p q \<longrightarrow>
       (\<forall>i\<in>set (po_running q). i < po_next p \<longrightarrow> i \<in> set (po_running p))) \<and>
    (po_error p \<noteq> None \<and> pool_step n slots wanted ending p q \<longrightarrow>
       po_error q = po_error p \<and> set (po_running q) \<subseteq> set (po_running p)) \<and>
    (one_result ending \<and> pool_over p \<and> po_error p = None \<longrightarrow>
       length (po_results p) = length (wanted_below wanted n))"
proof -
  have inv: "pool_inv n slots wanted p" by (rule pool_run_inv [OF assms])
  then have "\<forall>i\<in>set (po_running p). i < po_next p \<and> i < n \<and> wanted i = Inr True"
    by (auto simp: pool_inv_def wanted_below_def)
  moreover have "i \<in> set (po_running p)"
    if "(pool_step n slots wanted ending)\<^sup>*\<^sup>* p q" "i \<in> set (po_running q)" "i < po_next p" for q i
    using pool_steps_new [OF that(1)] that(2,3) by auto
  ultimately show ?thesis
    using inv pool_run_accounted [OF assms] pool_no_launch [of n slots wanted ending p q]
    by (auto simp: pool_inv_def accounted_def pool_over_def)
qed

subsection \<open>The loop ends\<close>

fun pool_work :: "nat \<Rightarrow> 'r pool \<Rightarrow> nat" where
  "pool_work n p = 2 * (n - po_next p) + length (po_running p) + (if po_stopped p then 0 else 1)"

lemma pool_step_work:
  "pool_step n slots wanted ending p q \<Longrightarrow> pool_work n q < pool_work n p"
proof (induction rule: pool_step.induct)
  case (finish i p err res)
  then have "0 < length (po_running p)" by (cases "po_running p") auto
  with finish show ?case by (simp add: length_remove1)
qed auto

text \<open>While the launcher has not stopped, it can stop, report its condition's error, skip the next item
  or, with a free slot, launch it.\<close>

lemma launcher_steps:
  assumes "pool_run n slots wanted ending p" "\<not> po_stopped p" "length (po_running p) < slots"
  shows "\<exists>q. pool_step n slots wanted ending p q"
proof -
  have "po_next p \<le> n" using pool_run_inv [OF assms(1)] by (simp add: pool_inv_def)
  then consider "po_error p \<noteq> None" | "po_next p = n" | "po_error p = None" "po_next p < n" by force
  then show ?thesis
  proof cases
    case 3
    consider e where "wanted (po_next p) = Inl e" | "wanted (po_next p) = Inr True" | "wanted (po_next p) = Inr False"
      by (metis (full_types) old.sum.exhaust)
    then show ?thesis
      by cases (use pool_step.when_error [OF assms(2) 3(2)] pool_step.skip [OF assms(2) 3(2)]
        pool_step.launch [OF assms(2) 3(2) _ 3(1) assms(3)] in blast)+
  qed (use assms(2) pool_step.stop_failed pool_step.stop_done in blast)+
qed

text \<open>C38. The loop always ends: every step lowers a bound fixed at the start, and as long as the loop
  is not over and the iterations that run can end, some step is possible, if there is a slot at
  all. So every maximal schedule is finite and ends with the loop over.\<close>

theorem pool_ends:
  assumes "pool_run n slots wanted ending p" "0 < slots" "\<forall>i\<in>set (po_running p). \<exists>e r. ending i e r"
  shows "(\<forall>q. pool_step n slots wanted ending p q \<longrightarrow> pool_work n q < pool_work n p) \<and>
    (pool_over p \<or> (\<exists>q. pool_step n slots wanted ending p q))"
proof (intro conjI)
  show "\<forall>q. pool_step n slots wanted ending p q \<longrightarrow> pool_work n q < pool_work n p"
    using pool_step_work by blast
  show "pool_over p \<or> (\<exists>q. pool_step n slots wanted ending p q)"
  proof (cases "po_running p")
    case (Cons i others)
    then show ?thesis using assms(3) pool_step.finish [of i p ending] by fastforce
  next
    case Nil
    then show ?thesis using launcher_steps [OF assms(1)] assms(2) by (cases "po_stopped p") (simp_all add: pool_over_def)
  qed
qed

subsection \<open>The sequential loop is a schedule\<close>

definition item_verdict :: "'w ext \<Rightarrow> step \<Rightarrow> gomap \<Rightarrow> val list \<Rightarrow> nat \<Rightarrow> string + bool" where
  "item_verdict X st ctx items i = item_wanted X st i (items ! i) ctx"

definition item_ending ::
  "'w ext \<Rightarrow> 'w runner \<Rightarrow> string \<Rightarrow> string \<Rightarrow> step \<Rightarrow> gomap \<Rightarrow> val list \<Rightarrow> nat \<Rightarrow> gerr option \<Rightarrow> gomap option \<Rightarrow> bool" where
  "item_ending X p run wname st ctx items i err res \<longleftrightarrow>
     (\<exists>s t. iterate X p run wname st i (items ! i) ctx s = Some (err, res, t))"

lemma item_ending_one_result: "one_result (item_ending X p run wname st ctx items)"
  using iterate_result by (fastforce simp: one_result_def item_ending_def)

lemma schedule_iteration:
  assumes "0 < slots"
    "pool_run (length items) slots (item_verdict X st ctx items) (item_ending X p run wname st ctx items) pl"
    "pl = \<lparr>po_next = i, po_running = [], po_error = None, po_results = results, po_stopped = False\<rparr>"
    "i < length items" "item_wanted X st i (items ! i) ctx = Inr True"
    "iterate X p run wname st i (items ! i) ctx s = Some (e, r, u)"
  shows "pool_run (length items) slots (item_verdict X st ctx items) (item_ending X p run wname st ctx items)
    \<lparr>po_next = Suc i, po_running = [], po_error = e, po_results = results @ (case r of None \<Rightarrow> [] | Some x \<Rightarrow> [x]), po_stopped = False\<rparr>"
proof -
  let ?run = "pool_run (length items) slots (item_verdict X st ctx items) (item_ending X p run wname st ctx items)"
  have pl: "\<not> po_stopped pl" "po_next pl = i" "po_error pl = None" "po_running pl = []" "po_results pl = results"
    using assms(3) by simp_all
  have "?run (pl\<lparr>po_next := Suc (po_next pl), po_running := po_running pl @ [po_next pl]\<rparr>)"
    using assms(1,4,5) pl by (intro pool_run.more [OF assms(2)] pool_step.launch) (simp_all add: item_verdict_def)
  from pool_run.more [OF this pool_step.finish [of i _ _ e r]] assms(6) pl show ?thesis
    using assms(3) by (auto simp: item_ending_def first_error_def)
qed

lemma loop_schedule:
  assumes "0 < slots"
  shows "for_each_loop X p run wname st i (drop i items) ctx results s = Some (err, results', t) \<Longrightarrow>
    pool_run (length items) slots (item_verdict X st ctx items) (item_ending X p run wname st ctx items) pl \<Longrightarrow>
    pl = \<lparr>po_next = i, po_running = [], po_error = None, po_results = results, po_stopped = False\<rparr> \<Longrightarrow>
    i \<le> length items \<Longrightarrow>
    \<exists>q. pool_run (length items) slots (item_verdict X st ctx items) (item_ending X p run wname st ctx items) q \<and>
      pool_over q \<and> po_error q = err \<and> po_results q = results'"
proof (induction "length items - i" arbitrary: i results s pl)
  case 0
  then have "i = length items" by simp
  with 0 pool_run.more [OF 0(3) pool_step.stop_done] show ?case
    by (force simp: pool_over_def)
next
  case (Suc k)
  let ?run = "pool_run (length items) slots (item_verdict X st ctx items) (item_ending X p run wname st ctx items)"
  have i: "i < length items" "length items - Suc i = k" using Suc.hyps(2) by simp_all
  then have drop: "drop i items = items ! i # drop (Suc i) items" by (simp add: Cons_nth_drop_Suc)
  have pl: "\<not> po_stopped pl" "po_next pl = i" "po_error pl = None" "po_running pl = []" "po_results pl = results"
    using Suc.prems(3) by simp_all
  consider (bad) e where "item_wanted X st i (items ! i) ctx = Inl e"
    | (unwanted) "item_wanted X st i (items ! i) ctx = Inr False"
    | (wanted) "item_wanted X st i (items ! i) ctx = Inr True"
    by (metis (full_types) sum.exhaust)
  then show ?case
  proof cases
    case bad
    then have "err = Some (Msg e)" "results' = results" using Suc.prems(1) drop by simp_all
    moreover have "?run (pl\<lparr>po_error := first_error (po_error pl) (Some (Msg e)), po_stopped := True\<rparr>)"
      using bad i pl by (intro pool_run.more [OF Suc.prems(2)] pool_step.when_error) (simp_all add: item_verdict_def)
    ultimately show ?thesis using pl by (force simp: pool_over_def first_error_def)
  next
    case unwanted
    then have "for_each_loop X p run wname st (Suc i) (drop (Suc i) items) ctx results s = Some (err, results', t)"
      using Suc.prems(1) drop by simp
    moreover have "?run (pl\<lparr>po_next := Suc (po_next pl)\<rparr>)"
      using unwanted i pl by (intro pool_run.more [OF Suc.prems(2)] pool_step.skip) (simp_all add: item_verdict_def)
    ultimately show ?thesis
      using i Suc.prems(3) by (intro Suc.hyps(1) [of "Suc i"]) simp_all
  next
    case wanted
    then obtain e r u where it: "iterate X p run wname st i (items ! i) ctx s = Some (e, r, u)"
      using Suc.prems(1) drop by (auto split: option.splits)
    let ?res = "results @ (case r of None \<Rightarrow> [] | Some x \<Rightarrow> [x])"
    from schedule_iteration [OF assms Suc.prems(2,3) i(1) wanted it]
    have after: "?run \<lparr>po_next = Suc i, po_running = [], po_error = e, po_results = ?res, po_stopped = False\<rparr>" .
    show ?thesis
    proof (cases e)
      case None
      then have "for_each_loop X p run wname st (Suc i) (drop (Suc i) items) ctx ?res u = Some (err, results', t)"
        using Suc.prems(1) drop wanted it by (simp add: Let_def)
      with after None i show ?thesis by (intro Suc.hyps(1) [of "Suc i"]) simp_all
    next
      case (Some x)
      then have "err = Some x" "results' = ?res" using Suc.prems(1) drop wanted it by (simp_all add: Let_def)
      with pool_run.more [OF after pool_step.stop_failed] Some show ?thesis
        by (force simp: pool_over_def)
    qed
  qed
qed

text \<open>The sequential loop is a schedule of the pool: whatever it returns, some run of the pool with
  any positive number of slots is over with the same error and the same results.\<close>

theorem sequential_loop_is_schedule:
  assumes "for_each_loop X p run wname st 0 items ctx [] s = Some (err, results, t)" "0 < slots"
  shows "\<exists>q. pool_run (length items) slots (item_verdict X st ctx items) (item_ending X p run wname st ctx items) q \<and>
    pool_over q \<and> po_error q = err \<and> po_results q = results"
proof (rule loop_schedule [OF assms(2), where i = 0 and results = "[]" and s = s and t = t])
  show "pool_run (length items) slots (item_verdict X st ctx items) (item_ending X p run wname st ctx items) pool_start"
    by (rule pool_run.begin_run)
qed (use assms(1) in \<open>simp_all add: pool_start_def\<close>)

subsection \<open>Witnesses\<close>

definition sample_verdict :: "nat \<Rightarrow> string + bool" where
  "sample_verdict i = Inr (i \<noteq> 1)"

definition sample_ending :: "nat \<Rightarrow> gerr option \<Rightarrow> nat option \<Rightarrow> bool" where
  "sample_ending i err res \<longleftrightarrow> err = None \<and> res = Some i"

lemma sample_pool_launched: "pool_run 3 2 sample_verdict sample_ending (pool_start\<lparr>po_next := Suc 0, po_running := [0]\<rparr>)"
  using pool_run.more [OF pool_run.begin_run pool_step.launch [of pool_start 3 sample_verdict 2 sample_ending]]
  by (simp add: pool_start_def sample_verdict_def)

theorem pool_safe_witness:
  "length (po_running (pool_start\<lparr>po_next := Suc 0, po_running := [0]\<rparr> :: nat pool)) \<le> 2 \<and>
   distinct (po_running (pool_start\<lparr>po_next := Suc 0, po_running := [0]\<rparr> :: nat pool))"
  using pool_safe [OF sample_pool_launched] by blast

theorem pool_ends_witness:
  "\<exists>q. pool_step 3 2 sample_verdict sample_ending (pool_start\<lparr>po_next := Suc 0, po_running := [0]\<rparr>) q \<and>
     pool_work 3 q < pool_work 3 (pool_start\<lparr>po_next := Suc 0, po_running := [0]\<rparr> :: nat pool)"
proof -
  have "\<not> pool_over (pool_start\<lparr>po_next := Suc 0, po_running := [0]\<rparr> :: nat pool)"
    by (simp add: pool_over_def)
  moreover have "\<forall>i\<in>set (po_running (pool_start\<lparr>po_next := Suc 0, po_running := [0]\<rparr> :: nat pool)).
      \<exists>e r. sample_ending i e r"
    by (simp add: sample_ending_def)
  moreover have "(0::nat) < 2" by simp
  ultimately show ?thesis using pool_ends [OF sample_pool_launched] by blast
qed

theorem sequential_loop_is_schedule_witness:
  "\<exists>err results q. pool_run 1 4 (item_verdict (sample_ext sample_file) (sample_bad_gate\<lparr>st_ignore_errors := True\<rparr>) [] [VInt 4])
     (item_ending (sample_ext sample_file) (\<lambda>r w c s. None) ''r'' ''main'' (sample_bad_gate\<lparr>st_ignore_errors := True\<rparr>) [] [VInt 4]) q \<and>
     pool_over q \<and> po_error q = err \<and> po_results q = results \<and> length results = 1"
proof (rule sample_ignored_iteration [of "\<lambda>r w c s. None" 0 "VInt 4" "[]"])
  fix r t
  assume "iterate (sample_ext sample_file) (\<lambda>r w c s. None) ''r'' ''main'' (sample_bad_gate\<lparr>st_ignore_errors := True\<rparr>)
      0 (VInt 4) [] sample_eng = Some (None, Some r, t)"
  then have run: "for_each_loop (sample_ext sample_file) (\<lambda>r w c s. None) ''r'' ''main''
       (sample_bad_gate\<lparr>st_ignore_errors := True\<rparr>) 0 [VInt 4] [] [] sample_eng = Some (None, [r], t)"
    by (simp add: item_wanted_def) (simp add: sample_bad_gate_def blank_step_def)
  from sequential_loop_is_schedule [OF run, of 4] show ?thesis by fastforce
qed

end
