(* ===== verification/Debug_Control.thy ===== *)
theory Debug_Control
  imports Rewind_Runs
begin

text \<open>
  The debugger (\<open>pkg/engine/debug.go\<close>): breakpoints and their resolution against the
  workflow file, matching at a step boundary, the pause, and the control channel. Every function
  that holds \<open>d.mu\<close> is one operation on the state \<open>debugger\<close>; a \<open>pausedState\<close> is an entry of
  \<open>dg_pauses\<close>, and a pointer to one its index. A channel of capacity one is an optional command.
  The goroutines are the relation \<open>debug_step\<close> of Debug\_Run. Parsing a control line with
  \<open>encoding/json\<close> is left out: \<open>handle\<close> takes the parsed command or the parser's error.
\<close>

subsection \<open>Data\<close>

record breakpoint =
  bp_workflow :: string
  bp_step :: string
  bp_section :: string
  bp_iteration :: string
  bp_phase :: string
  bp_when :: string
  bp_skip :: int
  bp_log :: string
  bp_hits :: int

record command =
  cm_cmd :: string
  cm_breakpoints :: "breakpoint list"
  cm_workflow :: string
  cm_step :: string
  cm_section :: string
  cm_iteration :: string
  cm_id :: string
  cm_expression :: string

record paused_state =
  pa_resume :: "command option"
  pa_vars :: gomap

text \<open>The data of a debug event, by its kind.\<close>

datatype debug_data =
    Paused string debug_point gomap "gomap option" gomap
  | Resumed string
  | Logpoint gomap
  | BreakpointsSet "breakpoint list" "(breakpoint \<times> string) list"
  | Evaluated string string "string + string"
  | ControlError string "string option"

record debug_event =
  de_run :: string
  de_workflow :: string
  de_step :: string
  de_data :: debug_data

record debugger =
  dg_bps :: "breakpoint list"
  dg_step_mode :: bool
  dg_until :: "breakpoint option"
  dg_paused :: "nat option"
  dg_closed :: bool
  dg_run_id :: string
  dg_can_cancel :: bool
  dg_attached :: bool
  dg_pauses :: "paused_state list"
  dg_events :: "debug_event list"

definition blank_breakpoint :: breakpoint where
  "blank_breakpoint = \<lparr>bp_workflow = [], bp_step = [], bp_section = [], bp_iteration = [], bp_phase = [],
     bp_when = [], bp_skip = 0, bp_log = [], bp_hits = 0\<rparr>"

definition new_debugger :: debugger where
  "new_debugger = \<lparr>dg_bps = [], dg_step_mode = False, dg_until = None, dg_paused = None, dg_closed = False,
     dg_run_id = [], dg_can_cancel = False, dg_attached = False, dg_pauses = [], dg_events = []\<rparr>"

definition set_cancel :: "debugger \<Rightarrow> debugger" where
  "set_cancel d = d\<lparr>dg_can_cancel := True\<rparr>"

definition set_step_mode :: "bool \<Rightarrow> debugger \<Rightarrow> debugger" where
  "set_step_mode on d = d\<lparr>dg_step_mode := on\<rparr>"

definition attach :: "debugger \<Rightarrow> debugger" where
  "attach d = d\<lparr>dg_attached := True\<rparr>"

definition note_run :: "string \<Rightarrow> debugger \<Rightarrow> debugger" where
  "note_run run d = d\<lparr>dg_run_id := run\<rparr>"

subsection \<open>Resolving breakpoints\<close>

definition normalize_section :: "string \<Rightarrow> string + string" where
  "normalize_section s =
     (if s = [] \<or> s = ''steps'' then Inr ''steps''
      else if s = ''rescue'' \<or> s = ''always'' then Inr s
      else Inl (''unknown section '' @ quoted s @ '' (use steps, rescue, or always)''))"

definition normalize_phase :: "string \<Rightarrow> string + string" where
  "normalize_phase p =
     (if p = [] \<or> p = ''before'' then Inr ''before''
      else if p = ''after'' then Inr ''after''
      else Inl (''unknown phase '' @ quoted p @ '' (use before or after)''))"

definition find_point :: "workflow_file \<Rightarrow> breakpoint \<Rightarrow> string + breakpoint" where
  "find_point f bp = (case get_workflow (fi_workflows f) (bp_workflow bp) of
     None \<Rightarrow> Inl (''unknown workflow '' @ quoted (bp_workflow bp) @ '' (workflows: ''
       @ quote_list (map wf_name (fi_workflows f)) @ '')'')
   | Some w \<Rightarrow>
       let steps = section_steps w (bp_section bp) in
       if bp_step bp \<in> set (map st_name steps) then Inr bp
       else Inl (''workflow '' @ quoted (bp_workflow bp) @ '' has no step '' @ quoted (bp_step bp) @ '' in ''
         @ bp_section bp @ '' (steps: '' @ quote_list (map st_name steps) @ '')''))"

definition resolve :: "workflow_file \<Rightarrow> breakpoint \<Rightarrow> string + breakpoint" where
  "resolve f bp =
     try_then (normalize_section (bp_section bp)) (\<lambda>section.
     try_then (normalize_phase (bp_phase bp)) (\<lambda>phase.
       if bp_workflow bp = [] \<or> bp_step bp = [] then Inl ''a breakpoint needs a workflow and a step''
       else if bp_skip bp < 0 then Inl ''skip cannot be negative''
       else find_point f (bp\<lparr>bp_section := section, bp_phase := phase\<rparr>)))"

text \<open>\<open>ResolveShorthand\<close>: every workflow's name is tried as a prefix.\<close>

definition debug_sections :: "string list" where
  "debug_sections = [''steps'', ''rescue'', ''always'']"

definition shorthand_matches :: "workflow_file \<Rightarrow> string \<Rightarrow> breakpoint list" where
  "shorthand_matches f s = concat (map (\<lambda>w.
     if \<not> has_prefix s (wf_name w @ ''.'') then []
     else let rest = trim_prefix s (wf_name w @ ''.'') in
       concat (map (\<lambda>section. map
           (\<lambda>_. blank_breakpoint\<lparr>bp_workflow := wf_name w, bp_step := rest, bp_section := section\<rparr>)
           (filter (\<lambda>st. st_name st = rest) (section_steps w section)))
         debug_sections)) (fi_workflows f))"

definition known_shorthands :: "workflow_file \<Rightarrow> string list" where
  "known_shorthands f = sort (concat (map (\<lambda>w. concat (map (\<lambda>section.
     map (\<lambda>st. wf_name w @ ''.'' @ st_name st) (section_steps w section)) debug_sections)) (fi_workflows f)))"

definition shorthand_option :: "breakpoint \<Rightarrow> string" where
  "shorthand_option b = ''{'' @ [dquote] @ ''workflow'' @ [dquote] @ '':'' @ quoted (bp_workflow b) @ '',''
     @ [dquote] @ ''step'' @ [dquote] @ '':'' @ quoted (bp_step b) @ ''}''"

definition resolve_shorthand :: "workflow_file \<Rightarrow> string \<Rightarrow> string + breakpoint" where
  "resolve_shorthand f s = (case shorthand_matches f s of
     [b] \<Rightarrow> Inr b
   | [] \<Rightarrow> Inl (''--break '' @ quoted s @ '' matches no workflow.step (known: ''
       @ quote_list (known_shorthands f) @ '')'')
   | bs \<Rightarrow> Inl (''--break '' @ quoted s @ '' is ambiguous; use --breakpoint with one of: ''
       @ join '' '' (map shorthand_option bs)))"

text \<open>The accepted breakpoints and the rejected ones with their errors.\<close>

fun resolve_all :: "workflow_file \<Rightarrow> breakpoint list \<Rightarrow> breakpoint list \<times> (breakpoint \<times> string) list" where
  "resolve_all f [] = ([], [])"
| "resolve_all f (bp # bps) = (let (ok, bad) = resolve_all f bps in
     (case resolve f bp of
        Inl e \<Rightarrow> (ok, (bp, e) # bad)
      | Inr r \<Rightarrow> (r\<lparr>bp_hits := 0\<rparr> # ok, bad)))"

definition set_breakpoints ::
  "workflow_file \<Rightarrow> breakpoint list \<Rightarrow> debugger \<Rightarrow> (breakpoint list \<times> (breakpoint \<times> string) list) \<times> debugger" where
  "set_breakpoints f bps d = (let (resolved, rejected) = resolve_all f bps in
     ((resolved, rejected), d\<lparr>dg_bps := resolved\<rparr>))"

subsection \<open>Events\<close>

definition emit :: "string \<Rightarrow> string \<Rightarrow> string \<Rightarrow> debug_data \<Rightarrow> debugger \<Rightarrow> debugger" where
  "emit run wname sname data d = (if \<not> dg_attached d then d
     else d\<lparr>dg_events := dg_events d @ [\<lparr>de_run = (if run = [] then dg_run_id d else run),
       de_workflow = wname, de_step = sname, de_data = data\<rparr>]\<rparr>)"

text \<open>The variables sent with a pause, through JSON and capped in size.\<close>

definition max_vars_bytes :: nat where
  "max_vars_bytes = 256 * 1024"

definition snapshot_vars :: "golib \<Rightarrow> gomap \<Rightarrow> gomap" where
  "snapshot_vars G m = (case marshal G (VMap m) of
     None \<Rightarrow> [(''_error'', VStr (''variables unavailable: '' @ marshal_error G (VMap m)))]
   | Some b \<Rightarrow>
       if length b > max_vars_bytes
       then mcopy [(''_truncated'', VBool True), (''_size_bytes'', VInt (int (length b))), (''_keys'', VStrs (mkeys m))] []
       else (case unmarshal G b of Some (VMap v) \<Rightarrow> v | _ \<Rightarrow> [(''_error'', VStr [])]))"

subsection \<open>Matching\<close>

definition bp_matches :: "breakpoint \<Rightarrow> debug_point \<Rightarrow> bool" where
  "bp_matches b p \<longleftrightarrow> bp_workflow b = dp_workflow p \<and> bp_step b = dp_step p \<and> bp_section b = dp_section p \<and>
     bp_phase b = dp_phase p \<and> bp_iteration b = dp_iteration p"

definition log_report :: "pongo \<Rightarrow> debug_point \<Rightarrow> string \<Rightarrow> gomap \<Rightarrow> gomap" where
  "log_report P p template vars =
     (let (msg, err) = (case render P template vars of Inl e \<Rightarrow> ([], Some e) | Inr out \<Rightarrow> (out, None));
          ld = mcopy [(''message'', VStr msg), (''phase'', VStr (dp_phase p)), (''section'', VStr (dp_section p)),
                      (''iteration'', VStr (dp_iteration p))] []
      in case err of None \<Rightarrow> ld | Some e \<Rightarrow> mput ''error'' (VStr e) ld)"

text \<open>The loop over the breakpoints: a reason to pause with its data, the reports of the logpoints,
  and the breakpoints with their hits counted up to where the loop ended.\<close>

fun match_bps ::
  "pongo \<Rightarrow> debug_point \<Rightarrow> gomap \<Rightarrow> breakpoint list \<Rightarrow> (string \<times> gomap) option \<times> gomap list \<times> breakpoint list" where
  "match_bps P p vars [] = (None, [], [])"
| "match_bps P p vars (b # bs) =
     (let go_on = (\<lambda>b logs. case match_bps P p vars bs of (r, ls, bs) \<Rightarrow> (r, logs @ ls, b # bs));
          hit = (\<lambda>b. if bp_hits b \<le> bp_skip b then go_on b []
            else if bp_log b \<noteq> [] then go_on b [log_report P p (bp_log b) vars]
            else (Some (''breakpoint'', [(''hits'', VInt (bp_hits b))]), [], b # bs));
          counted = b\<lparr>bp_hits := bp_hits b + 1\<rparr>
      in if \<not> bp_matches b p then go_on b []
         else if bp_when b = [] then hit counted
         else (case eval_bool P (bp_when b) vars of
            Inl e \<Rightarrow> (Some (''condition_error'', mcopy [(''condition'', VStr (bp_when b)), (''error'', VStr e)] []), [], b # bs)
          | Inr ok \<Rightarrow> if ok then hit counted else go_on b []))"

definition match_point ::
  "pongo \<Rightarrow> debug_point \<Rightarrow> gomap \<Rightarrow> debugger \<Rightarrow> ((string \<times> gomap) option \<times> gomap list) \<times> debugger" where
  "match_point P p vars d =
     (if dg_closed d then ((None, []), d)
      else if (case dg_until d of None \<Rightarrow> False | Some b \<Rightarrow> bp_matches b p)
      then ((Some (''until'', []), []), d\<lparr>dg_until := None\<rparr>)
      else (case match_bps P p vars (dg_bps d) of (reason, logs, bps) \<Rightarrow>
        ((case reason of
            Some r \<Rightarrow> Some r
          | None \<Rightarrow> if dg_step_mode d \<and> dp_phase p = ''before'' then Some (''step'', []) else None,
          logs), d\<lparr>dg_bps := bps\<rparr>)))"

text \<open>\<open>debugPause\<close> up to the pause: the reports of the logpoints become events.\<close>

definition match_and_log ::
  "pongo \<Rightarrow> debug_point \<Rightarrow> gomap \<Rightarrow> debugger \<Rightarrow> (string \<times> gomap) option \<times> debugger" where
  "match_and_log P p vars d = (case match_point P p vars d of ((reason, logs), d) \<Rightarrow>
     (reason, fold (\<lambda>l. emit (dp_run p) (dp_workflow p) (dp_step p) (Logpoint l)) logs d))"

subsection \<open>Pausing\<close>

text \<open>The first critical section of \<open>pause\<close>, with the event that follows it; \<open>None\<close> when the step
  goes on without a pause.\<close>

definition enter_pause ::
  "golib \<Rightarrow> debug_point \<Rightarrow> gomap \<Rightarrow> gomap option \<Rightarrow> string \<Rightarrow> gomap \<Rightarrow> debugger \<Rightarrow> nat option \<times> debugger" where
  "enter_pause G p vars output reason extra d =
     (if dg_closed d then (None, d)
      else if reason = ''step'' \<and> \<not> dg_step_mode d then (None, d)
      else let i = length (dg_pauses d);
               d = d\<lparr>dg_pauses := dg_pauses d @ [\<lparr>pa_resume = None, pa_vars = vars\<rparr>],
                     dg_paused := Some i, dg_step_mode := False\<rparr>
           in (Some i, emit (dp_run p) (dp_workflow p) (dp_step p)
                 (Paused reason p (snapshot_vars G vars) output extra) d))"

definition until_point :: "command \<Rightarrow> breakpoint" where
  "until_point c = blank_breakpoint\<lparr>bp_workflow := cm_workflow c, bp_step := cm_step c,
     bp_section := cm_section c, bp_iteration := cm_iteration c, bp_phase := ''before''\<rparr>"

text \<open>The last critical section of \<open>pause\<close>, with what it reports and returns.\<close>

definition leave_pause :: "debug_point \<Rightarrow> command \<Rightarrow> debugger \<Rightarrow> string option \<times> debugger" where
  "leave_pause p c d =
     (let d = d\<lparr>dg_paused := None\<rparr>;
          d = (if cm_cmd c = ''continue'' then d\<lparr>dg_step_mode := False\<rparr>
               else if cm_cmd c = ''step'' then d\<lparr>dg_step_mode := True\<rparr>
               else if cm_cmd c = ''until'' then d\<lparr>dg_until := Some (until_point c), dg_step_mode := False\<rparr>
               else d);
          report = emit (dp_run p) (dp_workflow p) (dp_step p)
      in if cm_cmd c = ''terminate'' then (Some ''run terminated from the debugger'', report (Resumed ''terminate'') d)
         else if cm_cmd c = ''__abort'' then (Some ''debugger control channel closed while the run was paused'', d)
         else (None, report (Resumed (cm_cmd c)) d))"

definition cancel_pause :: "debugger \<Rightarrow> debugger" where
  "cancel_pause d = d\<lparr>dg_paused := None\<rparr>"

subsection \<open>The control channel\<close>

text \<open>Sending on a channel of capacity one with a \<open>default\<close>: dropped when one is pending.\<close>

definition send :: "nat \<Rightarrow> command \<Rightarrow> debugger \<Rightarrow> debugger" where
  "send i c d = d\<lparr>dg_pauses := (dg_pauses d)[i := (let p = dg_pauses d ! i in
     case pa_resume p of None \<Rightarrow> p\<lparr>pa_resume := Some c\<rparr> | Some _ \<Rightarrow> p)]\<rparr>"

text \<open>Receiving empties the channel.\<close>

definition receive :: "nat \<Rightarrow> debugger \<Rightarrow> command option \<times> debugger" where
  "receive i d = (pa_resume (dg_pauses d ! i),
     d\<lparr>dg_pauses := (dg_pauses d)[i := (dg_pauses d ! i)\<lparr>pa_resume := None\<rparr>]\<rparr>)"

text \<open>The critical section of \<open>dispatch\<close>: the pause the command goes to, with the command as it is
  sent, or that \<open>cancel\<close> is to be called.\<close>

datatype dispatched = SendTo nat command | CallCancel | Applied

definition dispatch :: "command \<Rightarrow> debugger \<Rightarrow> dispatched \<times> debugger" where
  "dispatch c d = (case dg_paused d of
     Some i \<Rightarrow> (SendTo i (if cm_section c = [] then c\<lparr>cm_section := ''steps''\<rparr> else c), d)
   | None \<Rightarrow>
       (if cm_cmd c = ''terminate'' \<and> dg_can_cancel d then CallCancel else Applied,
        if cm_cmd c = ''continue'' then d\<lparr>dg_step_mode := False\<rparr>
        else if cm_cmd c = ''step'' then d\<lparr>dg_step_mode := True\<rparr>
        else if cm_cmd c = ''until'' then
          (let bp = until_point c in
           d\<lparr>dg_until := Some (if bp_section bp = [] then bp\<lparr>bp_section := ''steps''\<rparr> else bp)\<rparr>)
        else d))"

definition abort_command :: command where
  "abort_command = \<lparr>cm_cmd = ''__abort'', cm_breakpoints = [], cm_workflow = [], cm_step = [],
     cm_section = [], cm_iteration = [], cm_id = [], cm_expression = []\<rparr>"

text \<open>The critical section of \<open>closeControl\<close>, with the pause that is to be aborted.\<close>

definition close_control :: "debugger \<Rightarrow> nat option \<times> debugger" where
  "close_control d = (dg_paused d, d\<lparr>dg_closed := True, dg_bps := [], dg_step_mode := False, dg_until := None\<rparr>)"

definition evaluate :: "pongo \<Rightarrow> command \<Rightarrow> debugger \<Rightarrow> debugger" where
  "evaluate P c d = emit [] [] [] (Evaluated (cm_id c) (cm_expression c)
     (case dg_paused d of
        None \<Rightarrow> Inl ''the run is not paused''
      | Some i \<Rightarrow>
          if \<not> dg_attached d then Inl ''the run is not paused''
          else render P (if contains (cm_expression c) ''{{'' then cm_expression c
                         else ''{{ '' @ cm_expression c @ '' }}'') (pa_vars (dg_pauses d ! i)))) d"

text \<open>\<open>Handle\<close> up to the send, which \<open>dispatch\<close> does after it has released the lock.\<close>

definition handle :: "pongo \<Rightarrow> workflow_file \<Rightarrow> string \<Rightarrow> string + command \<Rightarrow> debugger \<Rightarrow> dispatched \<times> debugger" where
  "handle P f line parsed d = (case parsed of
     Inl e \<Rightarrow> (Applied, emit [] [] [] (ControlError (''invalid control command: '' @ e) (Some line)) d)
   | Inr c \<Rightarrow>
       if cm_cmd c = ''set_breakpoints'' then
         (case set_breakpoints f (cm_breakpoints c) d of ((resolved, rejected), d) \<Rightarrow>
            (Applied, emit [] [] [] (BreakpointsSet resolved rejected) d))
       else if cm_cmd c \<in> {''continue'', ''step'', ''until'', ''terminate''} then
         (case (if cm_cmd c = ''until''
                then resolve f (blank_breakpoint\<lparr>bp_workflow := cm_workflow c, bp_step := cm_step c, bp_section := cm_section c\<rparr>)
                else Inr blank_breakpoint) of
            Inl e \<Rightarrow> (Applied, emit [] [] [] (ControlError e (Some (cm_cmd c))) d)
          | Inr _ \<Rightarrow> dispatch c d)
       else if cm_cmd c = ''evaluate'' then (Applied, evaluate P c d)
       else (Applied, emit [] [] [] (ControlError (''unknown command '' @ quoted (cm_cmd c)) None) d))"

subsection \<open>Resolution\<close>

text \<open>A breakpoint that resolution accepts names a step of the file, has its defaults filled in, and
  resolution accepts it again as it is.\<close>

lemma normalize_section_Inr: "normalize_section s = Inr t \<longleftrightarrow>
    t = (if s = [] then ''steps'' else s) \<and> t \<in> {''steps'', ''rescue'', ''always''}"
  by (auto simp: normalize_section_def)

lemma normalize_phase_Inr: "normalize_phase s = Inr t \<longleftrightarrow>
    t = (if s = [] then ''before'' else s) \<and> t \<in> {''before'', ''after''}"
  by (auto simp: normalize_phase_def)

lemma find_point_Inr: "find_point f bp = Inr r \<longleftrightarrow> r = bp \<and>
    (\<exists>w. get_workflow (fi_workflows f) (bp_workflow bp) = Some w \<and> bp_step bp \<in> st_name ` set (section_steps w (bp_section bp)))"
  by (auto simp: find_point_def Let_def split: option.splits)

lemma resolve_Inr: "resolve f bp = Inr r \<longleftrightarrow>
    bp_workflow bp \<noteq> [] \<and> bp_step bp \<noteq> [] \<and> 0 \<le> bp_skip bp \<and>
    r = bp\<lparr>bp_section := if bp_section bp = [] then ''steps'' else bp_section bp,
           bp_phase := if bp_phase bp = [] then ''before'' else bp_phase bp\<rparr> \<and>
    bp_section r \<in> {''steps'', ''rescue'', ''always''} \<and> bp_phase r \<in> {''before'', ''after''} \<and>
    (\<exists>w. get_workflow (fi_workflows f) (bp_workflow r) = Some w \<and> bp_step r \<in> st_name ` set (section_steps w (bp_section r)))"
  unfolding resolve_def try_then_Inr normalize_section_Inr normalize_phase_Inr
  by (cases "bp_section bp = []"; cases "bp_phase bp = []")
    (auto simp: find_point_Inr split: if_splits)

lemma resolve_again: "resolve f bp = Inr r \<Longrightarrow> resolve f r = Inr r"
  unfolding resolve_Inr by auto

lemma resolve_all_resolved: "r \<in> set (fst (resolve_all f bps)) \<Longrightarrow> \<exists>b\<in>set bps. \<exists>q. resolve f b = Inr q \<and> r = q\<lparr>bp_hits := 0\<rparr>"
  by (induction bps) (auto simp: Let_def split: prod.splits sum.splits)

lemma resolve_all_rejected: "(b, e) \<in> set (snd (resolve_all f bps)) \<longleftrightarrow> b \<in> set bps \<and> resolve f b = Inl e"
  by (induction bps) (auto simp: Let_def split: prod.splits sum.splits)

text \<open>A shorthand that is accepted has exactly one reading.\<close>

lemma dotted: "has_prefix (a @ CHR ''.'' # t) (a @ ''.'')" "trim_prefix (a @ CHR ''.'' # t) (a @ ''.'') = t"
  using has_prefix_append [of "a @ ''.''" t] trim_prefix_append [of "a @ ''.''" t] by simp_all

lemma shorthand_matchesD: "b \<in> set (shorthand_matches f s) \<Longrightarrow>
    s = bp_workflow b @ ''.'' @ bp_step b \<and> (\<exists>w\<in>set (fi_workflows f). wf_name w = bp_workflow b \<and>
      bp_section b \<in> set debug_sections \<and> bp_step b \<in> st_name ` set (section_steps w (bp_section b)))"
  by (fastforce simp: shorthand_matches_def Let_def has_prefix_iff dotted split: if_splits)

lemma shorthand_matchesI:
  assumes "w \<in> set (fi_workflows f)" "sec \<in> set debug_sections" "n \<in> st_name ` set (section_steps w sec)"
  shows "blank_breakpoint\<lparr>bp_workflow := wf_name w, bp_step := n, bp_section := sec\<rparr> \<in>
    set (shorthand_matches f (wf_name w @ ''.'' @ n))"
  using assms by (force simp: shorthand_matches_def Let_def dotted)

lemma resolve_shorthand_Inr: "resolve_shorthand f s = Inr b \<longleftrightarrow> shorthand_matches f s = [b]"
  by (auto simp: resolve_shorthand_def split: list.splits)

lemma resolve_shorthand_unique:
  assumes "resolve_shorthand f s = Inr b" "w \<in> set (fi_workflows f)" "sec \<in> set debug_sections"
    "n \<in> st_name ` set (section_steps w sec)" "s = wf_name w @ ''.'' @ n"
  shows "bp_workflow b = wf_name w \<and> bp_step b = n \<and> bp_section b = sec"
  using shorthand_matchesI [OF assms(2-4)] assms(1,5) by (auto simp: resolve_shorthand_Inr)

subsection \<open>Matching\<close>

text \<open>An unconditional breakpoint that skips \<open>k\<close> hits first pauses at the hit after them.\<close>

lemma match_point_skips:
  assumes "bp_matches b p" "bp_when b = []" "bp_log b = []" "dg_bps d = [b]" "\<not> dg_closed d" "dg_until d = None"
  shows "match_point P p vars d =
    ((if bp_hits b < bp_skip b then (if dg_step_mode d \<and> dp_phase p = ''before'' then Some (''step'', []) else None)
      else Some (''breakpoint'', [(''hits'', VInt (bp_hits b + 1))]), []),
     d\<lparr>dg_bps := [b\<lparr>bp_hits := bp_hits b + 1\<rparr>]\<rparr>)"
  using assms by (simp add: match_point_def Let_def)

text \<open>A logpoint never pauses the run.\<close>

lemma match_bps_logpoints: "\<forall>b\<in>set bps. bp_log b \<noteq> [] \<and> bp_when b = [] \<Longrightarrow> fst (match_bps P p vars bps) = None"
  by (induction bps) (auto simp: Let_def split: prod.splits)

text \<open>The names of step rows are read back when the step's own name does not start like a section.\<close>

lemma split_state_name_section:
  assumes "\<not> has_prefix n ''rescue/''" "\<not> has_prefix n ''always/''"
  shows "split_state_name n n = (''steps'', [])"
    "split_state_name (''rescue/'' @ n) n = (''rescue'', [])"
    "split_state_name (''always/'' @ n) n = (''always'', [])"
proof -
  have "\<not> has_prefix n (n @ ''['')" by (auto simp: has_prefix_iff)
  then show "split_state_name n n = (''steps'', [])"
    "split_state_name (''rescue/'' @ n) n = (''rescue'', [])"
    "split_state_name (''always/'' @ n) n = (''always'', [])"
    using assms trim_prefix_append [of "''rescue/''" n] trim_prefix_append [of "''always/''" n]
    by (simp_all add: split_state_name_def)
qed

lemma split_state_name_confused: "split_state_name ''rescue/clean'' ''rescue/clean'' = (''rescue'', [])"
  by code_simp

end
