(* ===== verification/Debug_Run.thy ===== *)
theory Debug_Run
  imports Debug_Control
begin

text \<open>
  The goroutines around the debugger: the workers of a run, each at a step boundary at a time, and
  the goroutine of \<open>Serve\<close>, which reads commands until the channel closes. Every step of
  \<open>debug_step\<close> is one critical section or one channel operation of \<open>debug.go\<close>, so the places
  where another goroutine may come in between are those of the code. The queue lock is held by
  the worker that waits for a command or has received one.
\<close>

subsection \<open>States and steps\<close>

text \<open>Outside \<open>debugPause\<close>, with what it last returned; waiting for the queue lock; paused, with the
  index of its pause; and with the command received.\<close>

datatype worker =
    Going "string option"
  | Queued debug_point gomap "gomap option" string gomap
  | Waiting debug_point nat
  | Woken debug_point nat command

text \<open>The control goroutine: reading, about to send, about to send the abort, and gone.\<close>

datatype control = Reading | Sending nat command | Aborting "nat option" | Gone

record debug_sys =
  sy_dbg :: debugger
  sy_workers :: "worker list"
  sy_control :: control
  sy_cancelled :: bool

fun pause_of :: "worker \<Rightarrow> nat option" where
  "pause_of (Waiting p i) = Some i"
| "pause_of (Woken p i c) = Some i"
| "pause_of w = None"

text \<open>The queue lock is free when no worker is in a pause.\<close>

definition queue_free :: "debug_sys \<Rightarrow> bool" where
  "queue_free s \<longleftrightarrow> list_all (\<lambda>w. pause_of w = None) (sy_workers s)"

definition set_worker :: "nat \<Rightarrow> worker \<Rightarrow> debugger \<Rightarrow> debug_sys \<Rightarrow> debug_sys" where
  "set_worker k w d s = s\<lparr>sy_workers := (sy_workers s)[k := w], sy_dbg := d\<rparr>"

datatype debug_action =
    Arrive nat debug_point gomap "gomap option"
  | Enter nat
  | Receive nat
  | Leave nat
  | Cancelled nat
  | Command string "string + command"
  | Send
  | Close
  | Abort

inductive debug_step :: "golib \<Rightarrow> pongo \<Rightarrow> workflow_file \<Rightarrow> debug_sys \<Rightarrow> debug_action \<Rightarrow> debug_sys \<Rightarrow> bool"
  for G P f where
  arrive: "k < length (sy_workers s) \<Longrightarrow> sy_workers s ! k = Going r \<Longrightarrow>
     match_and_log P p vars (sy_dbg s) = (reason, d) \<Longrightarrow>
     w = (case reason of None \<Rightarrow> Going None | Some (why, extra) \<Rightarrow> Queued p vars out why extra) \<Longrightarrow>
     debug_step G P f s (Arrive k p vars out) (set_worker k w d s)"
| enter: "k < length (sy_workers s) \<Longrightarrow> sy_workers s ! k = Queued p vars out why extra \<Longrightarrow> queue_free s \<Longrightarrow>
     enter_pause G p vars out why extra (sy_dbg s) = (i, d) \<Longrightarrow>
     w = (case i of None \<Rightarrow> Going None | Some i \<Rightarrow> Waiting p i) \<Longrightarrow>
     debug_step G P f s (Enter k) (set_worker k w d s)"
| receive: "k < length (sy_workers s) \<Longrightarrow> sy_workers s ! k = Waiting p i \<Longrightarrow>
     receive i (sy_dbg s) = (Some c, d) \<Longrightarrow>
     debug_step G P f s (Receive k) (set_worker k (Woken p i c) d s)"
| leave: "k < length (sy_workers s) \<Longrightarrow> sy_workers s ! k = Woken p i c \<Longrightarrow>
     leave_pause p c (sy_dbg s) = (err, d) \<Longrightarrow>
     debug_step G P f s (Leave k) (set_worker k (Going err) d s)"
| cancelled: "k < length (sy_workers s) \<Longrightarrow> sy_workers s ! k = Waiting p i \<Longrightarrow> sy_cancelled s \<Longrightarrow>
     debug_step G P f s (Cancelled k)
       (set_worker k (Going (Some ''context canceled'')) (cancel_pause (sy_dbg s)) s)"
| command: "sy_control s = Reading \<Longrightarrow> handle P f line parsed (sy_dbg s) = (todo, d) \<Longrightarrow>
     c = (case todo of SendTo i c \<Rightarrow> Sending i c | _ \<Rightarrow> Reading) \<Longrightarrow>
     debug_step G P f s (Command line parsed)
       (s\<lparr>sy_dbg := d, sy_control := c, sy_cancelled := sy_cancelled s \<or> todo = CallCancel\<rparr>)"
| send: "sy_control s = Sending i c \<Longrightarrow>
     debug_step G P f s Send (s\<lparr>sy_dbg := send i c (sy_dbg s), sy_control := Reading\<rparr>)"
| close: "sy_control s = Reading \<Longrightarrow> close_control (sy_dbg s) = (i, d) \<Longrightarrow>
     debug_step G P f s Close (s\<lparr>sy_dbg := d, sy_control := Aborting i\<rparr>)"
| abort: "sy_control s = Aborting i \<Longrightarrow>
     d = (case i of None \<Rightarrow> sy_dbg s | Some i \<Rightarrow> send i abort_command (sy_dbg s)) \<Longrightarrow>
     debug_step G P f s Abort (s\<lparr>sy_dbg := d, sy_control := Gone\<rparr>)"

inductive_cases debug_stepE: "debug_step G P f s a t"

text \<open>A run starts with the debugger as \<open>main\<close> has set it up: nothing paused and not closed.\<close>

definition fresh :: "debugger \<Rightarrow> bool" where
  "fresh d \<longleftrightarrow> dg_paused d = None \<and> \<not> dg_closed d \<and> dg_pauses d = []"

definition debug_start :: "nat \<Rightarrow> debugger \<Rightarrow> debug_sys" where
  "debug_start n d = \<lparr>sy_dbg = d, sy_workers = replicate n (Going None), sy_control = Reading, sy_cancelled = False\<rparr>"

inductive debug_run :: "golib \<Rightarrow> pongo \<Rightarrow> workflow_file \<Rightarrow> debug_sys \<Rightarrow> debug_action list \<Rightarrow> debug_sys \<Rightarrow> bool"
  for G P f s where
  nothing: "debug_run G P f s [] s"
| further: "debug_run G P f s as t \<Longrightarrow> debug_step G P f t a u \<Longrightarrow> debug_run G P f s (as @ [a]) u"

subsection \<open>What the operations keep\<close>

definition same_pauses :: "debugger \<Rightarrow> debugger \<Rightarrow> bool" where
  "same_pauses d e \<longleftrightarrow> dg_paused e = dg_paused d \<and> dg_pauses e = dg_pauses d \<and> dg_closed e = dg_closed d"

lemma same_pauses_refl [simp]: "same_pauses d d"
  by (simp add: same_pauses_def)

lemma emit_pauses [simp]: "same_pauses d (emit r w n x e) = same_pauses d e"
  by (simp add: same_pauses_def emit_def)

lemma emit_fields [simp]:
  "dg_paused (emit r w n x d) = dg_paused d" "dg_pauses (emit r w n x d) = dg_pauses d"
  "dg_closed (emit r w n x d) = dg_closed d" "dg_bps (emit r w n x d) = dg_bps d"
  "dg_step_mode (emit r w n x d) = dg_step_mode d" "dg_until (emit r w n x d) = dg_until d"
  by (simp_all add: emit_def)

lemma fold_emit_pauses [simp]: "same_pauses d (fold (\<lambda>l. emit r w n (g l)) ls e) = same_pauses d e"
  by (induction ls arbitrary: e) auto

lemma match_point_pauses: "same_pauses d (snd (match_point P p vars d))"
  by (auto simp: match_point_def same_pauses_def split: prod.splits option.splits)

lemma match_and_log_pauses: "match_and_log P p vars d = (reason, e) \<Longrightarrow> same_pauses d e"
  using match_point_pauses [of d P p vars] by (auto simp: match_and_log_def split: prod.splits)

lemma match_and_log_closed: "dg_closed d \<Longrightarrow> match_and_log P p vars d = (None, d)"
  by (simp add: match_and_log_def match_point_def)

lemma dispatch_pauses: "same_pauses d (snd (dispatch c d))"
  by (auto simp: dispatch_def same_pauses_def Let_def split: option.splits)

lemma dispatch_to: "fst (dispatch c d) = SendTo i c' \<Longrightarrow> dg_paused d = Some i"
  by (auto simp: dispatch_def split: option.splits if_splits)

lemma handle_pauses: "handle P f line parsed d = (todo, e) \<Longrightarrow> same_pauses d e"
  using dispatch_pauses [of d]
  by (auto simp: handle_def evaluate_def set_breakpoints_def same_pauses_def
      split: sum.splits if_splits prod.splits) (metis snd_conv)+

lemma handle_to: "handle P f line parsed d = (SendTo i c, e) \<Longrightarrow> dg_paused d = Some i"
  by (auto simp: handle_def set_breakpoints_def split: sum.splits if_splits prod.splits
      dest!: arg_cong [where f = fst] dest: dispatch_to)

subsection \<open>The invariant\<close>

text \<open>The pause of every worker in one is the debugger's, no two workers are in one, and the debugger
  knows of none when there is none.\<close>

definition one_pause :: "worker list \<Rightarrow> debugger \<Rightarrow> bool" where
  "one_pause ws d \<longleftrightarrow>
     (\<forall>k < length ws. \<forall>i. pause_of (ws ! k) = Some i \<longrightarrow> dg_paused d = Some i) \<and>
     (\<forall>j < length ws. \<forall>k < length ws. pause_of (ws ! j) \<noteq> None \<longrightarrow> pause_of (ws ! k) \<noteq> None \<longrightarrow> j = k) \<and>
     (\<forall>i. dg_paused d = Some i \<longrightarrow> i < length (dg_pauses d) \<and> (\<exists>k < length ws. pause_of (ws ! k) = Some i))"

text \<open>When the control goroutine is at its end, a worker that still waits has a command, or is about to
  be sent one.\<close>

definition served :: "control \<Rightarrow> debugger \<Rightarrow> nat \<Rightarrow> bool" where
  "served c d i \<longleftrightarrow> pa_resume (dg_pauses d ! i) \<noteq> None \<or> c = Aborting (Some i)"

definition closing :: "control \<Rightarrow> bool" where
  "closing c \<longleftrightarrow> (case c of Aborting i \<Rightarrow> True | Gone \<Rightarrow> True | _ \<Rightarrow> False)"

definition all_served :: "control \<Rightarrow> worker list \<Rightarrow> debugger \<Rightarrow> bool" where
  "all_served c ws d \<longleftrightarrow> (\<forall>k < length ws. \<forall>p i. ws ! k = Waiting p i \<longrightarrow> served c d i)"

definition debug_inv :: "debug_sys \<Rightarrow> bool" where
  "debug_inv s \<longleftrightarrow> one_pause (sy_workers s) (sy_dbg s) \<and> (dg_closed (sy_dbg s) \<longleftrightarrow> closing (sy_control s)) \<and>
     (dg_closed (sy_dbg s) \<longrightarrow> all_served (sy_control s) (sy_workers s) (sy_dbg s))"

text \<open>A worker that neither was in a pause nor gets into one.\<close>

lemma one_pauseD:
  "one_pause ws d \<Longrightarrow> k < length ws \<Longrightarrow> pause_of (ws ! k) = Some i \<Longrightarrow> dg_paused d = Some i \<and> i < length (dg_pauses d)"
  "one_pause ws d \<Longrightarrow> j < length ws \<Longrightarrow> k < length ws \<Longrightarrow> pause_of (ws ! j) \<noteq> None \<Longrightarrow> pause_of (ws ! k) \<noteq> None \<Longrightarrow> j = k"
  unfolding one_pause_def by blast+

lemma one_pause_outside:
  assumes "one_pause ws d" "same_pauses d e" "k < length ws" "pause_of (ws ! k) = None" "pause_of w = None"
  shows "one_pause (ws[k := w]) e"
proof -
  have "pause_of (ws[k := w] ! j) = pause_of (ws ! j)" for j
    using assms(3-5) by (cases "j = k") auto
  with assms(1,2) show ?thesis by (simp add: one_pause_def same_pauses_def)
qed

lemma all_served_outside:
  assumes "all_served c ws d" "same_pauses d e" "pause_of w = None"
  shows "all_served c (ws[k := w]) e"
proof -
  have "served c d i" if "j < length ws" "ws[k := w] ! j = Waiting p i" for j p i
    using that assms(1,3) by (cases "j = k") (auto simp: all_served_def)
  with assms(2) show ?thesis by (auto simp: all_served_def served_def same_pauses_def)
qed

lemma inv_outside:
  assumes "debug_inv s" "same_pauses (sy_dbg s) d" "k < length (sy_workers s)"
    "pause_of (sy_workers s ! k) = None" "pause_of w = None"
  shows "debug_inv (set_worker k w d s)"
  using assms one_pause_outside [OF _ assms(2-5)] all_served_outside [OF _ assms(2,5)]
  by (simp add: debug_inv_def set_worker_def same_pauses_def)

text \<open>The worker in the pause leaves it.\<close>

lemma one_pause_left:
  assumes "one_pause ws d" "k < length ws" "pause_of (ws ! k) \<noteq> None" "pause_of w = None" "dg_paused e = None"
  shows "one_pause (ws[k := w]) e"
proof -
  have "pause_of (ws[k := w] ! j) = None" if "j < length ws" for j
  proof (cases "j = k")
    case False
    then have "\<not> pause_of (ws ! j) \<noteq> None" using one_pauseD(2) [OF assms(1) that assms(2) _ assms(3)] by blast
    with False show ?thesis by simp
  qed (use assms(2,4) in simp)
  with assms(5) show ?thesis by (simp add: one_pause_def)
qed

lemma inv_left:
  assumes "debug_inv s" "k < length (sy_workers s)" "pause_of (sy_workers s ! k) \<noteq> None" "pause_of w = None"
    "dg_paused d = None" "dg_pauses d = dg_pauses (sy_dbg s)" "dg_closed d = dg_closed (sy_dbg s)"
  shows "debug_inv (set_worker k w d s)"
proof -
  have "all_served c ((sy_workers s)[k := w]) d" if "all_served c (sy_workers s) (sy_dbg s)" for c
    using all_served_outside [OF that same_pauses_refl assms(4), of k] assms(6) by (simp add: all_served_def served_def)
  moreover have "one_pause ((sy_workers s)[k := w]) d"
    using assms(1) one_pause_left [OF _ assms(2-5)] unfolding debug_inv_def by blast
  ultimately show ?thesis using assms(1,7) by (simp add: debug_inv_def set_worker_def)
qed

text \<open>A worker enters a new pause while the queue is free.\<close>

lemma one_pause_entered:
  assumes "list_all (\<lambda>w. pause_of w = None) ws" "k < length ws"
    "dg_paused d = Some i" "i < length (dg_pauses d)"
  shows "one_pause (ws[k := Waiting p i]) d"
proof -
  have "pause_of (ws[k := Waiting p i] ! j) = (if j = k then Some i else None)" if "j < length ws" for j
    using assms(1) that by (simp add: list_all_length nth_list_update)
  with assms(2-4) show ?thesis by (auto simp: one_pause_def split: if_splits)
qed

lemma enter_pause_cases:
  assumes "enter_pause G p vars out why extra d = (i, e)"
  obtains "i = None" "e = d" "dg_closed d \<or> why = ''step'' \<and> \<not> dg_step_mode d"
  | "i = Some (length (dg_pauses d))" "dg_paused e = i" "\<not> dg_closed d" "\<not> dg_closed e"
    "dg_pauses e = dg_pauses d @ [\<lparr>pa_resume = None, pa_vars = vars\<rparr>]" "\<not> dg_step_mode e"
proof (cases "dg_closed d \<or> why = ''step'' \<and> \<not> dg_step_mode d")
  case True
  then have "enter_pause G p vars out why extra d = (None, d)"
    by (cases "dg_closed d") (simp_all add: enter_pause_def)
  with assms True show thesis by (intro that(1)) simp_all
next
  case False
  let ?e = "emit (dp_run p) (dp_workflow p) (dp_step p) (Paused why p (snapshot_vars G vars) out extra)
      (d\<lparr>dg_pauses := dg_pauses d @ [\<lparr>pa_resume = None, pa_vars = vars\<rparr>], dg_paused := Some (length (dg_pauses d)),
         dg_step_mode := False\<rparr>)"
  have open_d: "\<not> dg_closed d" and step: "\<not> (why = ''step'' \<and> \<not> dg_step_mode d)" using False by blast+
  have "enter_pause G p vars out why extra d = (Some (length (dg_pauses d)), ?e)"
    unfolding enter_pause_def if_not_P [OF open_d] if_not_P [OF step] by (simp add: Let_def)
  from trans [OF assms [symmetric] this] have e: "i = Some (length (dg_pauses d))" "e = ?e" by (simp_all only: prod.inject)
  from False show thesis by (intro that(2)) (simp_all add: e)
qed

lemma inv_entered:
  assumes "debug_inv s" "k < length (sy_workers s)" "queue_free s" "dg_paused d = Some (length (dg_pauses (sy_dbg s)))"
    "\<not> dg_closed d" "\<not> dg_closed (sy_dbg s)" "dg_pauses d = dg_pauses (sy_dbg s) @ [x]"
  shows "debug_inv (set_worker k (Waiting p (length (dg_pauses (sy_dbg s)))) d s)"
  using assms one_pause_entered [of "sy_workers s" k d "length (dg_pauses (sy_dbg s))" p]
  by (simp add: debug_inv_def set_worker_def queue_free_def)

text \<open>A pause is given a command, or the command is received.\<close>

lemma send_fields [simp]: "dg_paused (send i c d) = dg_paused d" "dg_closed (send i c d) = dg_closed d"
  "length (dg_pauses (send i c d)) = length (dg_pauses d)"
  by (simp_all add: send_def)

lemma send_resume: "pa_resume (dg_pauses d ! j) \<noteq> None \<Longrightarrow> pa_resume (dg_pauses (send i c d) ! j) \<noteq> None"
  by (cases "i < length (dg_pauses d)") (auto simp: send_def nth_list_update list_update_beyond Let_def split: option.splits)

lemma send_served: "i < length (dg_pauses d) \<Longrightarrow> pa_resume (dg_pauses (send i c d) ! i) \<noteq> None"
  by (simp add: send_def Let_def del: not_None_eq split: option.split)

lemma one_pause_cong: "dg_paused e = dg_paused d \<Longrightarrow> length (dg_pauses e) = length (dg_pauses d) \<Longrightarrow>
    one_pause ws e = one_pause ws d"
  by (simp add: one_pause_def)

lemma inv_sent: "debug_inv s \<Longrightarrow> sy_control s = Sending i c \<Longrightarrow>
    debug_inv (s\<lparr>sy_dbg := send i c (sy_dbg s), sy_control := Reading\<rparr>)"
  by (simp add: debug_inv_def closing_def one_pause_cong [of "send i c (sy_dbg s)" "sy_dbg s"])

text \<open>The worker that waits is the one whose pause the debugger knows.\<close>

lemma waiting_paused: "one_pause ws d \<Longrightarrow> k < length ws \<Longrightarrow> ws ! k = Waiting p i \<Longrightarrow>
    dg_paused d = Some i \<and> i < length (dg_pauses d)"
  using one_pauseD(1) [of ws d k i] by simp

lemma inv_closed:
  assumes "debug_inv s" "close_control (sy_dbg s) = (i, d)"
  shows "debug_inv (s\<lparr>sy_dbg := d, sy_control := Aborting i\<rparr>)"
proof -
  have d: "dg_paused d = dg_paused (sy_dbg s)" "dg_pauses d = dg_pauses (sy_dbg s)" "dg_closed d" "i = dg_paused (sy_dbg s)"
    using assms(2) by (auto simp: close_control_def)
  with assms(1) waiting_paused [of "sy_workers s" "sy_dbg s"] show ?thesis
    by (auto simp: debug_inv_def closing_def all_served_def served_def one_pause_cong [of d "sy_dbg s"])
qed

lemma inv_aborted:
  assumes "debug_inv s" "sy_control s = Aborting i"
    "d = (case i of None \<Rightarrow> sy_dbg s | Some i \<Rightarrow> send i abort_command (sy_dbg s))"
  shows "debug_inv (s\<lparr>sy_dbg := d, sy_control := Gone\<rparr>)"
proof -
  have inv: "one_pause (sy_workers s) (sy_dbg s)" "dg_closed (sy_dbg s)" "all_served (Aborting i) (sy_workers s) (sy_dbg s)"
    using assms(1,2) by (auto simp: debug_inv_def closing_def)
  have "pa_resume (dg_pauses d ! j) \<noteq> None" if k: "k < length (sy_workers s)" "sy_workers s ! k = Waiting p j" for k p j
  proof (cases "i = Some j")
    case True
    with waiting_paused [OF inv(1) k] show ?thesis using send_served [of j "sy_dbg s"] assms(3) by simp
  next
    case False
    with inv(3) k have "pa_resume (dg_pauses (sy_dbg s) ! j) \<noteq> None" by (auto simp: all_served_def served_def)
    then show ?thesis using send_resume [of "sy_dbg s" j] assms(3) by (cases i) auto
  qed
  moreover have "one_pause (sy_workers s) d" "dg_closed d"
    using inv one_pause_cong [of d "sy_dbg s"] assms(3) by (auto split: option.splits)
  ultimately show ?thesis by (simp add: debug_inv_def closing_def all_served_def served_def)
qed

lemma receive_fields: "receive i d = (c, e) \<Longrightarrow> dg_paused e = dg_paused d \<and> dg_closed e = dg_closed d \<and>
    length (dg_pauses e) = length (dg_pauses d) \<and> (\<forall>j. j \<noteq> i \<longrightarrow> dg_pauses e ! j = dg_pauses d ! j)"
  by (auto simp: receive_def)

lemma inv_received:
  assumes inv: "debug_inv s" and k: "k < length (sy_workers s)" "sy_workers s ! k = Waiting p i"
    and d: "receive i (sy_dbg s) = (Some c, d)"
  shows "debug_inv (set_worker k (Woken p i c) d s)"
proof -
  note eq = receive_fields [OF d]
  have one: "one_pause (sy_workers s) (sy_dbg s)" using inv by (simp add: debug_inv_def)
  have "pause_of ((sy_workers s)[k := Woken p i c] ! j) = pause_of (sy_workers s ! j)" for j
    using k by (cases "j = k") auto
  then have "one_pause ((sy_workers s)[k := Woken p i c]) d"
    using one eq one_pause_cong [of d "sy_dbg s"] by (simp add: one_pause_def)
  moreover have "served (sy_control s) d j"
    if "all_served (sy_control s) (sy_workers s) (sy_dbg s)" "m < length (sy_workers s)"
      "(sy_workers s)[k := Woken p i c] ! m = Waiting q j" for m q j
  proof -
    from that(3) k have m: "m \<noteq> k" "sy_workers s ! m = Waiting q j" by (auto simp: nth_list_update split: if_splits)
    with one_pauseD(2) [OF one that(2) k(1)] k(2) show ?thesis by simp
  qed
  ultimately show ?thesis using inv eq by (auto simp: debug_inv_def set_worker_def all_served_def)
qed

lemma leave_pause_fields: "leave_pause p c d = (err, e) \<Longrightarrow>
    dg_paused e = None \<and> dg_pauses e = dg_pauses d \<and> dg_closed e = dg_closed d"
  by (auto simp: leave_pause_def Let_def split: if_splits)

lemma debug_step_inv: "debug_step G P f s a t \<Longrightarrow> debug_inv s \<Longrightarrow> debug_inv t"
proof (induction rule: debug_step.induct)
  case (arrive k s r p vars reason d w out)
  then show ?case by (intro inv_outside [OF _ match_and_log_pauses]) (auto split: option.splits)
next
  case (enter k s p vars out why extra i d w)
  from enter.hyps(4) show ?case
  proof (cases rule: enter_pause_cases)
    case 1
    then show ?thesis using enter by (auto intro!: inv_outside)
  next
    case 2
    then show ?thesis using enter by (auto intro!: inv_entered)
  qed
next
  case (leave k s p i c err d)
  then show ?case using leave_pause_fields [OF leave.hyps(3)] by (auto intro!: inv_left)
next
  case (cancelled k s p i)
  then show ?case by (auto intro!: inv_left simp: cancel_pause_def)
next
  case (command s line parsed todo d c)
  then show ?case using handle_pauses [OF command.hyps(2)]
    by (auto simp: debug_inv_def closing_def same_pauses_def one_pause_cong [of d "sy_dbg s"] split: dispatched.splits)
qed (simp_all add: inv_received inv_sent inv_closed inv_aborted)

lemma debug_start_inv: "fresh d \<Longrightarrow> debug_inv (debug_start n d)"
  by (simp add: fresh_def debug_start_def debug_inv_def one_pause_def closing_def)

lemma debug_run_inv: "debug_run G P f s as t \<Longrightarrow> debug_inv s \<Longrightarrow> debug_inv t"
  by (induction rule: debug_run.induct) (auto dest: debug_step_inv)

text \<open>C39. At most one step of a run is paused at a time, whatever the workers and the control channel
  do: two workers inside a pause are the same worker, and it is in the pause the debugger knows.\<close>

theorem one_pause_at_a_time:
  assumes "fresh d" "debug_run G P f (debug_start n d) as s"
    "j < length (sy_workers s)" "pause_of (sy_workers s ! j) = Some i"
  shows "dg_paused (sy_dbg s) = Some i \<and>
    (\<forall>k < length (sy_workers s). pause_of (sy_workers s ! k) \<noteq> None \<longrightarrow> k = j)"
proof -
  have "one_pause (sy_workers s) (sy_dbg s)"
    using debug_run_inv [OF assms(2) debug_start_inv [OF assms(1)]] by (simp add: debug_inv_def)
  from one_pauseD [OF this] assms(3,4) show ?thesis by (metis option.discI)
qed

subsection \<open>After the control channel closed\<close>

text \<open>How far a worker is from being back at its workflow.\<close>

fun steps_to_go :: "worker \<Rightarrow> nat" where
  "steps_to_go (Going r) = 0"
| "steps_to_go (Woken p i c) = 1"
| "steps_to_go (Waiting p i) = 2"
| "steps_to_go (Queued p vars out why extra) = 3"

definition debug_work :: "debug_sys \<Rightarrow> nat" where
  "debug_work s = sum_list (map steps_to_go (sy_workers s))"

definition arrival :: "debug_action \<Rightarrow> bool" where
  "arrival a = (case a of Arrive k p vars out \<Rightarrow> True | _ \<Rightarrow> False)"

lemma debug_work_set: "k < length (sy_workers s) \<Longrightarrow>
    debug_work (set_worker k w d s) + steps_to_go (sy_workers s ! k) = debug_work s + steps_to_go w"
  using elem_le_sum_list [of k "map steps_to_go (sy_workers s)"]
  by (simp add: debug_work_def set_worker_def map_update sum_list_update)

lemma set_worker_control [simp]: "sy_control (set_worker k w d s) = sy_control s"
  by (simp add: set_worker_def)

lemma closed_step_work:
  assumes "debug_step G P f s a t" "dg_closed (sy_dbg s)" "sy_control s = Gone"
  shows "sy_control t = Gone \<and> debug_work t + (if arrival a then 0 else 1) \<le> debug_work s"
  using assms(1)
proof cases
  case (arrive k r p vars reason d w out)
  with assms(2,3) match_and_log_closed [of "sy_dbg s" P p vars] debug_work_set [of k s w d]
  show ?thesis by (simp add: arrival_def)
next
  case (enter k p vars out why extra i d w)
  with assms(3) debug_work_set [of k s w d] show ?thesis by (auto simp: arrival_def split: option.splits)
next
  case (receive k p i c d)
  with assms(3) debug_work_set [of k s "Woken p i c" d] show ?thesis by (simp add: arrival_def)
next
  case (leave k p i c err d)
  with assms(3) debug_work_set [of k s "Going err" d] show ?thesis by (simp add: arrival_def)
next
  case (cancelled k p i)
  with assms(3) debug_work_set [of k s "Going (Some ''context canceled'')" "cancel_pause (sy_dbg s)"]
  show ?thesis by (simp add: arrival_def)
qed (use assms(3) in auto)

lemma closed_step_enabled:
  assumes "debug_inv s" "sy_control s = Gone" "debug_work s \<noteq> 0"
  shows "\<exists>a t. \<not> arrival a \<and> debug_step G P f s a t"
proof (cases "queue_free s")
  case True
  from assms(3) obtain k where k: "k < length (sy_workers s)" "steps_to_go (sy_workers s ! k) \<noteq> 0"
    by (auto simp: debug_work_def in_set_conv_nth)
  from True k(1) have "pause_of (sy_workers s ! k) = None" by (simp add: queue_free_def list_all_length)
  with k(2) obtain p vars out why extra where "sy_workers s ! k = Queued p vars out why extra"
    by (cases "sy_workers s ! k") auto
  from debug_step.enter [OF k(1) this True prod.collapse [symmetric] refl, of G P f]
  show ?thesis by (intro exI conjI) (simp_all add: arrival_def)
next
  case False
  then obtain k where k: "k < length (sy_workers s)" "pause_of (sy_workers s ! k) \<noteq> None"
    by (auto simp: queue_free_def list_all_length)
  show ?thesis
  proof (cases "sy_workers s ! k")
    case (Waiting p i)
    with assms(1,2) k(1) have "pa_resume (dg_pauses (sy_dbg s) ! i) \<noteq> None"
      by (auto simp: debug_inv_def closing_def all_served_def served_def)
    then obtain c where "receive i (sy_dbg s) = (Some c, snd (receive i (sy_dbg s)))" by (auto simp: receive_def)
    from debug_step.receive [OF k(1) Waiting this, of G P f] show ?thesis by (intro exI conjI) (simp_all add: arrival_def)
  next
    case (Woken p i c)
    from debug_step.leave [OF k(1) Woken prod.collapse [symmetric], of G P f] show ?thesis
      by (intro exI conjI) (simp_all add: arrival_def)
  qed (use k(2) in simp_all)
qed

text \<open>C40. Closing the control channel never leaves a step hanging: once the control goroutine is gone,
  some worker that is not back at its workflow can take a step as long as there is one, every
  such step brings the workers closer to it, and no arrival at a step boundary pauses again.\<close>

theorem closed_debugger_releases:
  assumes "fresh d" "debug_run G P f (debug_start n d) as s" "sy_control s = Gone"
  shows "(debug_work s \<noteq> 0 \<longrightarrow> (\<exists>a t. \<not> arrival a \<and> debug_step G P f s a t)) \<and>
    (\<forall>a t. debug_step G P f s a t \<longrightarrow>
       sy_control t = Gone \<and> debug_work t + (if arrival a then 0 else 1) \<le> debug_work s)"
proof -
  have inv: "debug_inv s" by (rule debug_run_inv [OF assms(2) debug_start_inv [OF assms(1)]])
  with assms(3) have "dg_closed (sy_dbg s)" by (simp add: debug_inv_def closing_def)
  with closed_step_enabled [OF inv assms(3)] closed_step_work [OF _ _ assms(3)] show ?thesis by blast
qed

subsection \<open>A concrete run\<close>

text \<open>A run in step mode: a worker arrives, pauses, the channel closes and the worker is let go.\<close>

definition sample_point :: debug_point where
  "sample_point = \<lparr>dp_run = ''r'', dp_workflow = ''main'', dp_step = ''a'', dp_type = ''shell_exec'',
     dp_section = ''steps'', dp_iteration = [], dp_phase = ''before''\<rparr>"

definition sample_debugger :: debugger where
  "sample_debugger = set_step_mode True (attach new_debugger)"

definition sample_queued :: debug_sys where
  "sample_queued = set_worker 0 (Queued sample_point [] None ''step'' []) sample_debugger (debug_start 2 sample_debugger)"

definition sample_waiting :: debug_sys where
  "sample_waiting = set_worker 0 (Waiting sample_point 0)
     (snd (enter_pause sample_golib sample_point [] None ''step'' [] sample_debugger)) sample_queued"

definition sample_gone :: debug_sys where
  "sample_gone = sample_waiting\<lparr>sy_dbg := send 0 abort_command (snd (close_control (sy_dbg sample_waiting))), sy_control := Gone\<rparr>"

lemma sample_fresh: "fresh sample_debugger"
  by code_simp

lemma sample_waiting_fields: "sy_workers sample_waiting = [Waiting sample_point 0, Going None]"
  "dg_paused (sy_dbg sample_waiting) = Some 0" "sy_control sample_waiting = Reading"
  by (simp_all add: sample_waiting_def sample_queued_def set_worker_def debug_start_def numeral_2_eq_2 enter_pause_def
      sample_debugger_def set_step_mode_def attach_def new_debugger_def Let_def)

lemma sample_run_waiting:
  "debug_run sample_golib P f (debug_start 2 sample_debugger)
     ([] @ [Arrive 0 sample_point [] None] @ [Enter 0]) sample_waiting"
proof -
  have "debug_step sample_golib P f (debug_start 2 sample_debugger) (Arrive 0 sample_point [] None) sample_queued"
    unfolding sample_queued_def
    by (rule debug_step.arrive [where r = None and reason = "Some (''step'', [])"])
      (simp_all add: debug_start_def match_and_log_def match_point_def sample_debugger_def set_step_mode_def
        attach_def new_debugger_def sample_point_def)
  from debug_run.further [OF debug_run.nothing this]
  have queued: "debug_run sample_golib P f (debug_start 2 sample_debugger) ([] @ [Arrive 0 sample_point [] None]) sample_queued" .
  have "debug_step sample_golib P f sample_queued (Enter 0) sample_waiting"
    unfolding sample_waiting_def
    by (rule debug_step.enter [where i = "Some 0" and p = sample_point and vars = "[]" and out = None
          and why = "''step''" and extra = "[]"])
      (simp_all add: sample_queued_def set_worker_def debug_start_def queue_free_def numeral_2_eq_2 enter_pause_def
        sample_debugger_def set_step_mode_def attach_def new_debugger_def Let_def)
  from debug_run.further [OF queued this] show ?thesis by simp
qed

lemma sample_run_gone:
  "debug_run sample_golib P f (debug_start 2 sample_debugger)
     ((([] @ [Arrive 0 sample_point [] None] @ [Enter 0]) @ [Close]) @ [Abort]) sample_gone"
proof -
  let ?closing = "sample_waiting\<lparr>sy_dbg := snd (close_control (sy_dbg sample_waiting)), sy_control := Aborting (Some 0)\<rparr>"
  have "close_control (sy_dbg sample_waiting) = (Some 0, snd (close_control (sy_dbg sample_waiting)))"
    by (simp add: close_control_def sample_waiting_fields)
  from debug_step.close [OF sample_waiting_fields(3) this]
  have "debug_step sample_golib P f sample_waiting Close ?closing" .
  from debug_run.further [OF sample_run_waiting this]
  have run: "debug_run sample_golib P f (debug_start 2 sample_debugger)
     (([] @ [Arrive 0 sample_point [] None] @ [Enter 0]) @ [Close]) ?closing" .
  have "debug_step sample_golib P f ?closing Abort sample_gone"
    using debug_step.abort [of ?closing "Some 0"] by (simp add: sample_gone_def)
  from debug_run.further [OF run this] show ?thesis .
qed

theorem one_pause_at_a_time_witness:
  "dg_paused (sy_dbg sample_waiting) = Some 0 \<and> pause_of (sy_workers sample_waiting ! 0) = Some 0"
proof -
  have "0 < length (sy_workers sample_waiting)" "pause_of (sy_workers sample_waiting ! 0) = Some 0"
    by (simp_all add: sample_waiting_fields)
  with one_pause_at_a_time [OF sample_fresh sample_run_waiting this] show ?thesis by simp
qed

theorem closed_debugger_releases_witness:
  "debug_work sample_gone = 2 \<and> (\<exists>a t. \<not> arrival a \<and> debug_step sample_golib sample_pongo blank_file sample_gone a t \<and> debug_work t \<le> 1)"
proof -
  have work: "debug_work sample_gone = 2" by (simp add: debug_work_def sample_gone_def sample_waiting_fields)
  have "sy_control sample_gone = Gone" by (simp add: sample_gone_def)
  from closed_debugger_releases [OF sample_fresh sample_run_gone this, of sample_pongo blank_file] work show ?thesis by fastforce
qed

end
