(* ===== verification/Go_Path.thy ===== *)
theory Go_Path
  imports Go_Base
begin

text \<open>
  The lexical part of Go's \<open>path/filepath\<close> on Unix, which the source fingerprint, the script
  executor, the file writer and the directory parser use: \<open>Clean\<close>, \<open>Join\<close>, \<open>Dir\<close>, \<open>Base\<close>,
  \<open>Ext\<close>, \<open>IsAbs\<close> and \<open>Rel\<close>. A path is read as its elements between slashes; \<open>clean_elems\<close> is
  the documented reduction (empty elements and \<open>.\<close> go, \<open>..\<close> takes the element before it with it).
\<close>

definition slash :: char where "slash = CHR ''/''"

definition is_abs :: "string \<Rightarrow> bool" where
  "is_abs p \<longleftrightarrow> has_prefix p [slash]"

definition dots :: string where "dots = ''..''"

fun clean_elems :: "bool \<Rightarrow> string list \<Rightarrow> string list \<Rightarrow> string list" where
  "clean_elems rooted acc [] = rev acc"
| "clean_elems rooted acc (e # es) =
     (if e = [] \<or> e = ''.'' then clean_elems rooted acc es
      else if e = dots then
        (case acc of
           [] \<Rightarrow> clean_elems rooted (if rooted then [] else [dots]) es
         | a # as \<Rightarrow> clean_elems rooted (if a = dots then dots # acc else as) es)
      else clean_elems rooted (e # acc) es)"

definition elems :: "string \<Rightarrow> string list" where
  "elems p = clean_elems (is_abs p) [] (split_on slash p)"

definition path_text :: "bool \<Rightarrow> string list \<Rightarrow> string" where
  "path_text rooted es = (if rooted then slash # join [slash] es else if es = [] then ''.'' else join [slash] es)"

definition clean :: "string \<Rightarrow> string" where
  "clean p = path_text (is_abs p) (elems p)"

definition path_join :: "string \<Rightarrow> string \<Rightarrow> string" where
  "path_join a b = (if a = [] \<and> b = [] then [] else if a = [] then clean b else if b = [] then clean a
     else clean (a @ [slash] @ b))"

text \<open>\<open>Dir\<close>: everything before the last slash, cleaned.\<close>

definition dir :: "string \<Rightarrow> string" where
  "dir p = clean (rev (dropWhile (\<lambda>c. c \<noteq> slash) (rev p)))"

definition base :: "string \<Rightarrow> string" where
  "base p = (let q = trim_right_fn (\<lambda>c. c = slash) p in
     if p = [] then ''.'' else if q = [] then [slash] else rev (takeWhile (\<lambda>c. c \<noteq> slash) (rev q)))"

text \<open>\<open>Ext\<close>: from the last dot of the last element on.\<close>

definition ext :: "string \<Rightarrow> string" where
  "ext p = (let last_elem = takeWhile (\<lambda>c. c \<noteq> slash) (rev p) in
     if CHR ''.'' \<in> set last_elem then rev (takeWhile (\<lambda>c. c \<noteq> CHR ''.'') last_elem @ ''.'') else [])"

fun drop_common :: "string list \<Rightarrow> string list \<Rightarrow> string list \<times> string list" where
  "drop_common (a # as) (b # bs) = (if a = b then drop_common as bs else (a # as, b # bs))"
| "drop_common as bs = (as, bs)"

text \<open>\<open>Rel\<close>, \<open>None\<close> for its error.\<close>

definition rel :: "string \<Rightarrow> string \<Rightarrow> string option" where
  "rel b t =
     (if is_abs b \<noteq> is_abs t then None
      else case drop_common (elems b) (elems t) of (up, down) \<Rightarrow>
        if up \<noteq> [] \<and> hd up = dots then None
        else Some (path_text False (replicate (length up) dots @ down)))"

subsection \<open>Elements\<close>

definition plain_elem :: "string \<Rightarrow> bool" where
  "plain_elem e \<longleftrightarrow> e \<noteq> [] \<and> e \<noteq> ''.'' \<and> e \<noteq> dots \<and> slash \<notin> set e"

lemma clean_elems_rooted:
  "\<forall>e\<in>set acc. plain_elem e \<Longrightarrow> \<forall>e\<in>set es. slash \<notin> set e \<Longrightarrow> e \<in> set (clean_elems True acc es) \<Longrightarrow> plain_elem e"
proof (induction es arbitrary: acc)
  case Nil
  then show ?case by simp
next
  case (Cons x es)
  have es: "\<forall>e\<in>set es. slash \<notin> set e" using Cons.prems(2) by simp
  consider "x = [] \<or> x = ''.''" | "x \<noteq> []" "x \<noteq> ''.''" "x = dots" | "plain_elem x" "x \<noteq> []" "x \<noteq> ''.''" "x \<noteq> dots"
    using Cons.prems(2) by (auto simp: plain_elem_def)
  then show ?case
  proof cases
    case 1
    with Cons.prems(3) have "e \<in> set (clean_elems True acc es)" by auto
    then show ?thesis by (rule Cons.IH [OF Cons.prems(1) es])
  next
    case 2
    show ?thesis
    proof (cases acc)
      case Nil
      with 2 Cons.prems(3) have "e \<in> set (clean_elems True [] es)" by simp
      then show ?thesis by (rule Cons.IH [OF _ es, rotated]) simp
    next
      case (Cons a as)
      with Cons.prems(1) have "a \<noteq> dots" "\<forall>e\<in>set as. plain_elem e" by (simp_all add: plain_elem_def)
      with Cons 2 Cons.prems(3) Cons.IH [of as, OF _ es] show ?thesis by simp
    qed
  next
    case 3
    with Cons.prems(1,3) Cons.IH [of "x # acc", OF _ es] show ?thesis by simp
  qed
qed

lemma elems_plain: "is_abs p \<Longrightarrow> e \<in> set (elems p) \<Longrightarrow> plain_elem e"
  using clean_elems_rooted [of "[]" "split_on slash p" e] by (auto simp: elems_def split_on_no_sep)

lemma clean_elems_plain: "\<forall>e\<in>set es. plain_elem e \<Longrightarrow> clean_elems rooted acc es = rev acc @ es"
  by (induction es arbitrary: acc) (auto simp: plain_elem_def)

text \<open>Cleaning an absolute path does nothing more the second time, and its elements read it back.\<close>

lemma elems_path_text: "\<forall>e\<in>set es. plain_elem e \<Longrightarrow> elems (path_text True es) = es"
proof (cases "es = []")
  case False
  moreover assume plain: "\<forall>e\<in>set es. plain_elem e"
  ultimately have "split_on slash (join [slash] es) = es"
    by (intro split_on_join) (auto simp: plain_elem_def)
  with clean_elems_plain [OF plain] show ?thesis by (simp add: elems_def path_text_def is_abs_def)
qed (simp add: elems_def path_text_def is_abs_def)

lemma is_abs_path_text: "is_abs (path_text True es)"
  by (simp add: is_abs_def path_text_def)

lemma clean_abs: "is_abs p \<Longrightarrow> is_abs (clean p) \<and> elems (clean p) = elems p \<and> clean (clean p) = clean p"
  using elems_path_text [of "elems p"] elems_plain [of p] by (simp add: clean_def is_abs_path_text)

subsection \<open>Relative paths\<close>

lemma drop_common_append: "drop_common as bs = (up, down) \<Longrightarrow> \<exists>cs. as = cs @ up \<and> bs = cs @ down"
proof (induction as bs rule: drop_common.induct)
  case (1 a as b bs)
  then show ?case by (auto split: if_splits)
qed auto

text \<open>The check of the script executor on a relative path: it says that the target is inside.\<close>

definition escapes :: "string \<Rightarrow> bool" where
  "escapes r \<longleftrightarrow> r = dots \<or> has_prefix r (dots @ [slash])"

lemma rel_inside:
  assumes "is_abs b" "rel b t = Some r" "\<not> escapes r"
  shows "is_abs t \<and> (\<exists>down. elems t = elems b @ down)"
proof -
  obtain up down where ud: "drop_common (elems b) (elems t) = (up, down)" by (cases "drop_common (elems b) (elems t)")
  have abs: "is_abs t" and r: "r = path_text False (replicate (length up) dots @ down)"
    using assms(1,2) ud by (auto simp: rel_def split: if_splits)
  have "up = []"
  proof (rule ccontr)
    assume "up \<noteq> []"
    then obtain n where n: "replicate (length up) dots @ down = dots # replicate n dots @ down"
      by (cases up) auto
    have r': "r = join [slash] (dots # replicate n dots @ down)" by (simp only: r n) (simp add: path_text_def)
    have "escapes r"
    proof (cases "replicate n dots @ down")
      case (Cons x xs)
      then show ?thesis using has_prefix_append [of "dots @ [slash]" "join [slash] (x # xs)"]
        by (simp add: r' escapes_def)
    qed (simp add: r' escapes_def)
    with assms(3) show False ..
  qed
  with drop_common_append [OF ud] abs show ?thesis by auto
qed

lemma rel_of_inside: "is_abs b \<Longrightarrow> is_abs t \<Longrightarrow> elems t = elems b @ down \<Longrightarrow> rel b t = Some (path_text False down)"
proof -
  have "drop_common as (as @ bs) = ([], bs)" for as bs :: "string list" by (induction as) auto
  then show "is_abs b \<Longrightarrow> is_abs t \<Longrightarrow> elems t = elems b @ down \<Longrightarrow> ?thesis" by (simp add: rel_def)
qed

subsection \<open>Characters\<close>

lemma set_split_on: "e \<in> set (split_on c s) \<Longrightarrow> x \<in> set e \<Longrightarrow> x \<in> set s"
proof (induction s arbitrary: e)
  case (Cons y s)
  obtain q qs where q: "split_on c s = q # qs" by (cases "split_on c s") auto
  with Cons.IH have "\<forall>e'\<in>set (q # qs). x \<in> set e' \<longrightarrow> x \<in> set s" by simp
  with q Cons.prems show ?case by (auto split: if_splits)
qed simp

lemma set_clean_elems: "e \<in> set (clean_elems rooted acc es) \<Longrightarrow> e \<in> set acc \<or> e \<in> set es \<or> e = dots"
proof (induction rooted acc es rule: clean_elems.induct)
  case (2 rooted acc x es)
  then show ?case by (cases acc) (auto split: if_splits)
qed simp

lemma chars_join: "x \<in> set (join sep es) \<Longrightarrow> x \<in> set sep \<or> (\<exists>e\<in>set es. x \<in> set e)"
  by (induction sep es rule: join.induct) auto

lemma chars_elems: "e \<in> set (elems p) \<Longrightarrow> x \<in> set e \<Longrightarrow> x \<in> set p \<or> x = CHR ''.''"
  unfolding elems_def by (drule set_clean_elems) (auto simp: dots_def dest: set_split_on)

lemma chars_path_text: "x \<in> set (path_text rooted es) \<Longrightarrow> x = slash \<or> x = CHR ''.'' \<or> (\<exists>e\<in>set es. x \<in> set e)"
  by (auto simp: path_text_def split: if_splits dest: chars_join)

lemma chars_clean: "x \<in> set (clean p) \<Longrightarrow> x \<in> set p \<or> x = slash \<or> x = CHR ''.''"
  unfolding clean_def by (drule chars_path_text) (auto dest: chars_elems)

lemma chars_path_join: "x \<in> set (path_join a b) \<Longrightarrow> x \<in> set a \<or> x \<in> set b \<or> x = slash \<or> x = CHR ''.''"
  by (auto simp: path_join_def split: if_splits dest: chars_clean)

lemma chars_rel: "rel b t = Some r \<Longrightarrow> x \<in> set r \<Longrightarrow> x \<in> set t \<or> x = slash \<or> x = CHR ''.''"
proof -
  assume r: "rel b t = Some r" and x: "x \<in> set r"
  obtain up down where ud: "drop_common (elems b) (elems t) = (up, down)" by (cases "drop_common (elems b) (elems t)")
  then have sub: "set down \<subseteq> set (elems t)" using drop_common_append by fastforce
  from r ud have "r = path_text False (replicate (length up) dots @ down)" by (auto simp: rel_def split: if_splits)
  with x chars_path_text [of x False "replicate (length up) dots @ down"] show ?thesis
    using sub chars_elems [of _ t x] by (fastforce simp: dots_def)
qed

end
