(* ===== verification/Source_Tree.thy ===== *)
theory Source_Tree
  imports Go_Path Names
begin

text \<open>
  The fingerprint of a workflow's source tree (\<open>pkg/source/fingerprint.go\<close>), which a resume
  compares with the one of the run's start. A directory tree is the datatype \<open>node\<close>; what the
  operating system answers about paths (the working directory, symbolic links, the node at a
  path) is the record \<open>fs_view\<close>. Failures of reading a file that is there are not modelled.
\<close>

subsection \<open>The tree\<close>

datatype node =
    File nat string
  | Link nat string
  | Folder "(string \<times> node) list"
  | Special string

record fs_view =
  fs_abs :: "string \<Rightarrow> string + string"
  fs_eval :: "string \<Rightarrow> string + string"
  fs_node :: "string \<Rightarrow> string + node"

record fingerprint =
  fp_root :: string
  fp_digest :: string
  fp_count :: nat

definition is_folder :: "node \<Rightarrow> bool" where
  "is_folder n = (case n of Folder cs \<Rightarrow> True | _ \<Rightarrow> False)"

fun normalize_exclusions :: "fs_view \<Rightarrow> string list \<Rightarrow> string + string list" where
  "normalize_exclusions E [] = Inr []"
| "normalize_exclusions E (p # ps) =
     (if p = [] then normalize_exclusions E ps
      else case fs_abs E p of
        Inl e \<Rightarrow> Inl (''resolving source exclusion '' @ quoted p @ '': '' @ e)
      | Inr a \<Rightarrow> map_sum id (\<lambda>qs. clean (case fs_eval E a of Inl _ \<Rightarrow> a | Inr r \<Rightarrow> r) # qs)
          (normalize_exclusions E ps))"

definition excluded_path :: "string \<Rightarrow> string list \<Rightarrow> bool" where
  "excluded_path p ex = list_ex (\<lambda>c. clean p = c \<or> has_prefix (clean p) (c @ ''-wal'')
     \<or> has_prefix (clean p) (c @ ''-shm'') \<or> has_prefix (clean p) (c @ ''-journal'')) ex"

text \<open>\<open>WalkDir\<close> with the callback of \<open>Tree\<close>: the files and links in the order of the walk.\<close>

fun walk :: "string list \<Rightarrow> string \<Rightarrow> string \<Rightarrow> node \<Rightarrow> string + (string \<times> node) list" where
  "walk ex path name (Folder cs) =
     (if name = ''.git'' then Inr []
      else map_sum id concat (map_try (\<lambda>(n, c). walk ex (path_join path n) n c) cs))"
| "walk ex path name (Special kind) =
     (if excluded_path path ex then Inr []
      else Inl (''unsupported workflow source entry '' @ quoted path @ '' ('' @ kind @ '')''))"
| "walk ex path name leaf = Inr (if excluded_path path ex then [] else [(path, leaf)])"

subsection \<open>What is hashed\<close>

fun octal_digits :: "nat \<Rightarrow> string" where
  "octal_digits n = (if n < 8 then [digit_char n] else octal_digits (n div 8) @ [digit_char (n mod 8)])"

declare octal_digits.simps [simp del]

text \<open>\<open>%#o\<close>\<close>

definition octal_text :: "nat \<Rightarrow> string" where
  "octal_text n = (if n = 0 then ''0'' else CHR ''0'' # octal_digits n)"

definition mode_symlink :: nat where
  "mode_symlink = 2 ^ 27"

text \<open>The fields an entry contributes, each followed by a zero byte.\<close>

fun describe :: "string \<Rightarrow> string \<times> node \<Rightarrow> string + string list" where
  "describe root (path, leaf) = (case rel root path of
     None \<Rightarrow> Inl (''finding source relative path: '' @ path)
   | Some r \<Rightarrow> Inr (case leaf of
       Link mode target \<Rightarrow> [''symlink'', r, octal_text (mode_symlink + mode), target]
     | File mode content \<Rightarrow> [''file'', r, octal_text (mode mod 512), sha_hex content]
     | _ \<Rightarrow> []))"

definition nul :: char where "nul = CHR 0x00"

definition hashed_text :: "string list list \<Rightarrow> string" where
  "hashed_text ds = concat (map (\<lambda>f. f @ [nul]) (concat ds))"

text \<open>The descriptions of the entries of a tree, in the order of their paths.\<close>

definition tree_entries :: "string \<Rightarrow> string list \<Rightarrow> node \<Rightarrow> string + string list list" where
  "tree_entries root ex t = (case walk ex root (base root) t of
     Inl e \<Rightarrow> Inl (''walking workflow source tree: '' @ e)
   | Inr es \<Rightarrow> map_try (describe root) (sort_key fst es))"

definition fingerprint_tree :: "string \<Rightarrow> string list \<Rightarrow> node \<Rightarrow> string + fingerprint" where
  "fingerprint_tree root ex t = map_sum id (\<lambda>ds. \<lparr>fp_root = root, fp_digest = sha_hex (hashed_text ds),
     fp_count = length ds\<rparr>) (tree_entries root ex t)"

definition source_tree :: "fs_view \<Rightarrow> string \<Rightarrow> string list \<Rightarrow> string + fingerprint" where
  "source_tree E path ex =
     (if path = [] then Inl ''workflow source path is required''
      else case fs_abs E path of
        Inl e \<Rightarrow> Inl (''resolving workflow source path: '' @ e)
      | Inr a \<Rightarrow> (case fs_eval E a of
          Inl e \<Rightarrow> Inl (''resolving workflow source path: '' @ e)
        | Inr r \<Rightarrow> (case fs_node E r of
            Inl e \<Rightarrow> Inl (''stating workflow source path: '' @ e)
          | Inr n \<Rightarrow>
              let root = (if is_folder n then r else dir r)
              in case normalize_exclusions E ex of
                   Inl e \<Rightarrow> Inl e
                 | Inr ex \<Rightarrow> (case fs_node E root of
                     Inl e \<Rightarrow> Inl (''walking workflow source tree: '' @ e)
                   | Inr t \<Rightarrow> fingerprint_tree root ex t))))"

subsection \<open>Fields are read back\<close>

text \<open>Fields without zero bytes, each ended by one, are determined by the text.\<close>

lemma nul_fields_inj:
  assumes "\<forall>f\<in>set fs. nul \<notin> set f" "\<forall>g\<in>set gs. nul \<notin> set g"
    "concat (map (\<lambda>f. f @ [nul]) fs) = concat (map (\<lambda>f. f @ [nul]) gs)"
  shows "fs = gs"
  using assms
proof (induction fs arbitrary: gs)
  case Nil
  then show ?case by (cases gs) auto
next
  case (Cons f fs)
  then obtain g hs where gs: "gs = g # hs" by (cases gs) auto
  let ?fs = "concat (map (\<lambda>f. f @ [nul]) fs)" and ?hs = "concat (map (\<lambda>f. f @ [nul]) hs)"
  have eq: "f @ nul # ?fs = g @ nul # ?hs" using Cons.prems(3) gs by simp
  have free: "nul \<notin> set f" "nul \<notin> set g" using Cons.prems(1,2) gs by simp_all
  from arg_cong [OF eq, of "split_on nul"] have "f = g" by (simp add: free split_on_append)
  with eq Cons.IH [of hs] Cons.prems(1,2) gs show ?case by simp
qed

lemma concat_fours: "\<forall>d\<in>set ds. length d = 4 \<Longrightarrow> \<forall>d\<in>set es. length d = 4 \<Longrightarrow> concat ds = concat es \<Longrightarrow> ds = es"
proof (induction ds arbitrary: es)
  case Nil
  then show ?case by (cases es) auto
next
  case (Cons d ds)
  show ?case
  proof (cases es)
    case Nil
    with Cons.prems show ?thesis by auto
  next
    case (Cons e es')
    with \<open>concat (d # ds) = concat es\<close> have "d @ concat ds = e @ concat es'" by simp
    moreover have "length d = length e" using Cons.prems(1,2) Cons by simp
    ultimately show ?thesis using Cons Cons.IH [of es'] Cons.prems(1,2) by simp
  qed
qed

definition fields_ok :: "string list list \<Rightarrow> bool" where
  "fields_ok ds \<longleftrightarrow> (\<forall>d\<in>set ds. length d = 4 \<and> (\<forall>f\<in>set d. nul \<notin> set f))"

lemma hashed_text_inj: "fields_ok ds \<Longrightarrow> fields_ok es \<Longrightarrow> hashed_text ds = hashed_text es \<Longrightarrow> ds = es"
  by (rule concat_fours) (auto simp: fields_ok_def hashed_text_def intro!: nul_fields_inj)

text \<open>What the operating system guarantees of names and link targets: they hold no zero byte.\<close>

fun node_ok :: "node \<Rightarrow> bool" where
  "node_ok (Folder cs) = (\<forall>(n, c)\<in>set cs. nul \<notin> set n \<and> node_ok c)"
| "node_ok (Link mode target) = (nul \<notin> set target)"
| "node_ok leaf = True"

definition entry_ok :: "string \<times> node \<Rightarrow> bool" where
  "entry_ok e \<longleftrightarrow> nul \<notin> set (fst e) \<and> node_ok (snd e) \<and> \<not> is_folder (snd e) \<and> (\<forall>k. snd e \<noteq> Special k)"

lemma nul_path_join: "nul \<notin> set a \<Longrightarrow> nul \<notin> set b \<Longrightarrow> nul \<notin> set (path_join a b)"
  using chars_path_join [of nul a b] by (auto simp: nul_def slash_def)

lemma map_try_set: "map_try f xs = Inr ys \<Longrightarrow> y \<in> set ys \<Longrightarrow> \<exists>x\<in>set xs. f x = Inr y"
  by (induction xs arbitrary: ys) (auto split: sum.splits)

lemma walk_entries_ok:
  "walk ex path name t = Inr es \<Longrightarrow> node_ok t \<Longrightarrow> nul \<notin> set path \<Longrightarrow> e \<in> set es \<Longrightarrow> entry_ok e"
proof (induction ex path name t arbitrary: es e rule: walk.induct)
  case (1 ex path name cs)
  show ?case
  proof (cases "name = ''.git''")
    case True
    with 1 show ?thesis by simp
  next
    case False
    with 1(2) obtain ess where ess: "map_try (\<lambda>(n, c). walk ex (path_join path n) n c) cs = Inr ess" "es = concat ess"
      by (cases "map_try (\<lambda>(n, c). walk ex (path_join path n) n c) cs") auto
    from 1(5) ess(2) obtain fs where fs: "fs \<in> set ess" "e \<in> set fs" by auto
    from map_try_set [OF ess(1) fs(1)] obtain n c where nc: "(n, c) \<in> set cs" "walk ex (path_join path n) n c = Inr fs"
      by auto
    with 1(1) [OF False nc(1) refl nc(2) _ _ fs(2)] 1(3,4) show ?thesis by (auto simp: nul_path_join)
  qed
qed (auto simp: entry_ok_def is_folder_def split: if_splits)

lemma octal_digits_char: "c \<in> set (octal_digits n) \<Longrightarrow> is_digit c"
proof (induction n rule: octal_digits.induct)
  case (1 n)
  then show ?case by (subst (asm) octal_digits.simps) (auto simp: digit_char_digit split: if_splits)
qed

lemma nul_octal_text: "nul \<notin> set (octal_text n)"
  using octal_digits_char [of nul n] by (auto simp: octal_text_def nul_def is_digit_def less_eq_char_def)

lemma nul_sha_hex: "nul \<notin> set (sha_hex s)"
  using sha_hex_lower [of nul s] by (auto simp: nul_def lower_hex_def is_digit_def less_eq_char_def)

lemma nul_rel: "rel b t = Some r \<Longrightarrow> nul \<notin> set t \<Longrightarrow> nul \<notin> set r"
  using chars_rel [of b t r nul] by (auto simp: nul_def slash_def)

lemma describe_ok: "describe root e = Inr d \<Longrightarrow> entry_ok e \<Longrightarrow> length d = 4 \<and> (\<forall>f\<in>set d. nul \<notin> set f)"
  using nul_octal_text nul_sha_hex nul_rel [of root "fst e"]
  by (cases e; cases "snd e") (auto simp: entry_ok_def is_folder_def nul_def split: option.splits)

lemma tree_entries_ok:
  assumes "tree_entries root ex t = Inr ds" "node_ok t" "nul \<notin> set root"
  shows "fields_ok ds"
proof -
  from assms(1) obtain es where es: "walk ex root (base root) t = Inr es" "map_try (describe root) (sort_key fst es) = Inr ds"
    by (auto simp: tree_entries_def split: sum.splits)
  have "\<forall>e\<in>set es. entry_ok e" using walk_entries_ok [OF es(1) assms(2,3)] by blast
  moreover have "\<exists>e\<in>set es. describe root e = Inr d" if "d \<in> set ds" for d
    using map_try_set [OF es(2) that] by simp
  ultimately show ?thesis unfolding fields_ok_def using describe_ok by blast
qed

text \<open>C3. The digest stands for the sources: two trees with the same digest have the same files and
  links, with the same relative paths, permissions, link targets and hashes of the contents, in
  the same order, unless the two hashed texts are a collision of SHA-256. Nothing is assumed of
  the hash function.\<close>

theorem digest_determines_tree:
  assumes "fingerprint_tree root ex t = Inr a" "fingerprint_tree root' ex' t' = Inr b" "fp_digest a = fp_digest b"
    "node_ok t" "node_ok t'" "nul \<notin> set root" "nul \<notin> set root'"
  shows "\<exists>ds es. tree_entries root ex t = Inr ds \<and> tree_entries root' ex' t' = Inr es \<and>
    (ds = es \<or> hashed_text ds \<noteq> hashed_text es \<and> sha_hex (hashed_text ds) = sha_hex (hashed_text es))"
proof -
  from assms(1,2) obtain ds es where d: "tree_entries root ex t = Inr ds" "tree_entries root' ex' t' = Inr es"
    and dig: "fp_digest a = sha_hex (hashed_text ds)" "fp_digest b = sha_hex (hashed_text es)"
    by (cases "tree_entries root ex t"; cases "tree_entries root' ex' t'") (auto simp: fingerprint_tree_def)
  have "hashed_text ds = hashed_text es \<Longrightarrow> ds = es"
    by (rule hashed_text_inj [OF tree_entries_ok [OF d(1) assms(4,6)] tree_entries_ok [OF d(2) assms(5,7)]])
  with d dig assms(3) show ?thesis by auto
qed

subsection \<open>Exclusions\<close>

text \<open>The tree without what the fingerprint does not look at.\<close>

definition ignored :: "string list \<Rightarrow> string \<Rightarrow> string \<times> node \<Rightarrow> bool" where
  "ignored ex path e \<longleftrightarrow>
     (if is_folder (snd e) then fst e = ''.git'' else excluded_path (path_join path (fst e)) ex)"

fun strip :: "string list \<Rightarrow> string \<Rightarrow> node \<Rightarrow> node" where
  "strip ex path (Folder cs) =
     Folder (map (\<lambda>(n, c). (n, strip ex (path_join path n) c)) (filter (\<lambda>e. \<not> ignored ex path e) cs))"
| "strip ex path leaf = leaf"

lemma walk_ignored: "ignored ex path (n, c) \<Longrightarrow> walk ex (path_join path n) n c = Inr []"
  by (cases c) (auto simp: ignored_def is_folder_def split: if_splits)

lemma map_try_skip:
  "(\<And>x. x \<in> set xs \<Longrightarrow> \<not> P x \<Longrightarrow> f x = Inr []) \<Longrightarrow>
     map_sum id concat (map_try f xs) = map_sum id concat (map_try f (filter P xs))"
proof (induction xs)
  case (Cons x xs)
  have "map_sum id concat (map_try f xs) = map_sum id concat (map_try f (filter P xs))"
    by (rule Cons.IH) (simp add: Cons.prems)
  moreover have "\<not> P x \<Longrightarrow> f x = Inr []" by (simp add: Cons.prems)
  ultimately show ?case
    by (cases "f x"; cases "map_try f xs"; cases "map_try f (filter P xs)") auto
qed simp

lemma map_try_map: "map_try f (map g xs) = map_try (f \<circ> g) xs"
  by (induction xs) (auto split: sum.splits)

text \<open>Neither the git directory nor the state store with its sidecars has an influence.\<close>

lemma walk_strip: "walk ex path name (strip ex path t) = walk ex path name t"
proof (induction ex path t arbitrary: name rule: strip.induct)
  case (1 ex path cs)
  let ?f = "\<lambda>(n, c). walk ex (path_join path n) n c" and ?keep = "\<lambda>e. \<not> ignored ex path e"
  have "map_sum id concat (map_try ?f cs) = map_sum id concat (map_try ?f (filter ?keep cs))"
    by (rule map_try_skip) (auto simp: walk_ignored)
  moreover have "map_try ?f (filter ?keep cs) = map_try (?f \<circ> (\<lambda>(n, c). (n, strip ex (path_join path n) c))) (filter ?keep cs)"
    using 1 by (intro map_try_cong refl) auto
  ultimately show ?case by (simp add: map_try_map)
qed simp_all

lemma fingerprint_strip: "fingerprint_tree root ex (strip ex root t) = fingerprint_tree root ex t"
  by (simp add: fingerprint_tree_def tree_entries_def walk_strip)

text \<open>The sidecars are recognised by a prefix, so a file of the workflow whose name only starts like one
  is left out as well.\<close>

lemma excluded_by_prefix: "excluded_path ''/w/state.db-wallpaper.yaml'' [''/w/state.db'']"
  by code_simp

subsection \<open>A concrete tree\<close>

definition sample_tree_a :: node where
  "sample_tree_a = Folder [(''.git'', Folder [(''HEAD'', File 420 ''x'')]), (''a.yaml'', File 420 ''a''), (''l'', Link 511 ''a.yaml'')]"

definition sample_tree_b :: node where
  "sample_tree_b = Folder [(''a.yaml'', File 420 ''a''), (''l'', Link 511 ''a.yaml''), (''s.db'', File 384 ''1'')]"

lemma sample_walks:
  "walk [''/w/s.db''] ''/w'' (base ''/w'') sample_tree_a = Inr [(''/w/a.yaml'', File 420 ''a''), (''/w/l'', Link 511 ''a.yaml'')]"
  "walk [''/w/s.db''] ''/w'' (base ''/w'') sample_tree_b = Inr [(''/w/a.yaml'', File 420 ''a''), (''/w/l'', Link 511 ''a.yaml'')]"
  by code_simp+

lemma sample_rel: "rel ''/w'' ''/w/a.yaml'' = Some ''a.yaml''" "rel ''/w'' ''/w/l'' = Some ''l''"
  by code_simp+

lemma sample_entries:
  "tree_entries ''/w'' [''/w/s.db''] sample_tree_a = tree_entries ''/w'' [''/w/s.db''] sample_tree_b"
  "tree_entries ''/w'' [''/w/s.db''] sample_tree_a = Inr [[''file'', ''a.yaml'', octal_text 420, sha_hex ''a''],
     [''symlink'', ''l'', octal_text (mode_symlink + 511), ''a.yaml'']]"
proof -
  have sorted: "sort_key fst [(''/w/a.yaml'', File 420 ''a''), (''/w/l'', Link 511 ''a.yaml'')] =
      [(''/w/a.yaml'', File 420 ''a''), (''/w/l'', Link 511 ''a.yaml'')]" by code_simp
  show "tree_entries ''/w'' [''/w/s.db''] sample_tree_a = tree_entries ''/w'' [''/w/s.db''] sample_tree_b"
    by (simp add: tree_entries_def sample_walks)
  show "tree_entries ''/w'' [''/w/s.db''] sample_tree_a = Inr [[''file'', ''a.yaml'', octal_text 420, sha_hex ''a''],
     [''symlink'', ''l'', octal_text (mode_symlink + 511), ''a.yaml'']]"
    by (simp add: tree_entries_def sample_walks sorted sample_rel)
qed

theorem digest_determines_tree_witness:
  "sample_tree_a \<noteq> sample_tree_b \<and> node_ok sample_tree_a \<and> node_ok sample_tree_b \<and>
   (\<exists>a b ds. fingerprint_tree ''/w'' [''/w/s.db''] sample_tree_a = Inr a \<and>
      fingerprint_tree ''/w'' [''/w/s.db''] sample_tree_b = Inr b \<and> fp_digest a = fp_digest b \<and>
      tree_entries ''/w'' [''/w/s.db''] sample_tree_a = Inr ds \<and> tree_entries ''/w'' [''/w/s.db''] sample_tree_b = Inr ds)"
proof -
  have ok: "node_ok sample_tree_a" "node_ok sample_tree_b" "nul \<notin> set ''/w''" by code_simp+
  obtain a b where ab: "fingerprint_tree ''/w'' [''/w/s.db''] sample_tree_a = Inr a"
      "fingerprint_tree ''/w'' [''/w/s.db''] sample_tree_b = Inr b" "fp_digest a = fp_digest b"
    by (simp add: fingerprint_tree_def sample_entries(1) [symmetric] sample_entries(2))
  from digest_determines_tree [OF ab ok(1,2,3,3)] sample_entries(1) ab ok
  show ?thesis by (auto simp: sample_tree_a_def sample_tree_b_def)
qed

end
