(* ===== verification/Script_Exec.thy ===== *)
theory Script_Exec
  imports Source_Tree Engine_Base
begin

text \<open>
  The executors that run a process on the runner's host: \<open>shell_exec\<close> and \<open>script_exec\<close>
  (\<open>pkg/executor/shell_exec.go\<close>, \<open>script_exec.go\<close>). The host is a record of what the code calls of
  \<open>os\<close> and \<open>os/exec\<close>, acting on a world of any type: temporary files, processes, and the view of
  the file system. A script path is confined to the scripts directory, a temporary script is
  always removed, and the environment of the process is the host's with the step's entries over it.
\<close>

subsection \<open>The host\<close>

record proc_result =
  pr_stdout :: string
  pr_stderr :: string
  pr_exit :: "int option"
  pr_error :: "string option"

text \<open>The argument list of a command, its environment (\<open>None\<close> for the host's), its input and its directory
  (empty for the runner's).\<close>

record command_line =
  cl_program :: string
  cl_args :: "string list"
  cl_env :: "string list option"
  cl_stdin :: "string option"
  cl_dir :: string

record 'w host =
  ho_temp :: "string \<Rightarrow> 'w \<Rightarrow> (string + string) \<times> 'w"
  ho_chmod :: "string \<Rightarrow> 'w \<Rightarrow> string option \<times> 'w"
  ho_write :: "string \<Rightarrow> string \<Rightarrow> 'w \<Rightarrow> string option \<times> 'w"
  ho_close :: "string \<Rightarrow> 'w \<Rightarrow> string option \<times> 'w"
  ho_remove :: "string \<Rightarrow> 'w \<Rightarrow> 'w"
  ho_start :: "command_line \<Rightarrow> 'w \<Rightarrow> proc_result \<times> 'w"
  ho_environ :: "string list"
  ho_fs :: fs_view

definition exec_fails :: "string \<Rightarrow> exec_out" where
  "exec_fails e = \<lparr>xo_output = None, xo_error = Some e, xo_notices = []\<rparr>"

definition exec_result :: "gomap \<Rightarrow> string option \<Rightarrow> exec_out" where
  "exec_result out e = \<lparr>xo_output = Some out, xo_error = e, xo_notices = []\<rparr>"

definition newline_char :: char where "newline_char = CHR 0x0A"

definition process_output :: "string \<Rightarrow> int \<Rightarrow> proc_result \<Rightarrow> exec_out" where
  "process_output who code r = exec_result
     (mcopy [(''stdout'', VStr (pr_stdout r)), (''stderr'', VStr (pr_stderr r)), (''exit_code'', VInt code)] [])
     (map_option (\<lambda>e. who @ '': '' @ e @ [newline_char] @ ''stderr: '' @ pr_stderr r) (pr_error r))"

subsection \<open>shell_exec\<close>

text \<open>The exit code of a process that never started: \<open>ExitCode\<close> of a nil state is \<open>-1\<close>.\<close>

definition exit_code :: "proc_result \<Rightarrow> int" where
  "exit_code r = (case pr_exit r of None \<Rightarrow> - 1 | Some c \<Rightarrow> c)"

definition shell_exec :: "'w host \<Rightarrow> gomap \<Rightarrow> 'w \<Rightarrow> exec_out \<times> 'w" where
  "shell_exec H params w =
     (let command = str_or_empty params ''command'' in
      if command = [] then (exec_fails ''shell_exec: command is required'', w)
      else let (r, w) = ho_start H \<lparr>cl_program = ''bash'', cl_args = [''-c'', command], cl_env = None, cl_stdin = None, cl_dir = []\<rparr> w
           in (process_output ''shell_exec'' (exit_code r) r, w))"

subsection \<open>script_exec\<close>

definition resolve_script_path :: "fs_view \<Rightarrow> string \<Rightarrow> gomap \<Rightarrow> string + string" where
  "resolve_script_path E path params =
     (if is_abs path then Inl ''script_exec: path must be relative to the workflow scripts directory''
      else let base_dir = str_or_empty params ''_script_dir'' in
        if base_dir = [] then Inl ''script_exec: workflow scripts directory is not configured''
        else (case fs_abs E base_dir of
          Inl e \<Rightarrow> Inl (''script_exec: resolving scripts directory: '' @ e)
        | Inr a \<Rightarrow> (case fs_eval E a of
            Inl e \<Rightarrow> Inl (''script_exec: resolving scripts directory: '' @ e)
          | Inr b \<Rightarrow> (case fs_eval E (path_join b path) of
              Inl e \<Rightarrow> Inl (''script_exec: resolving script path '' @ quoted path @ '': '' @ e)
            | Inr r \<Rightarrow>
                if (case rel b r of None \<Rightarrow> True | Some q \<Rightarrow> escapes q)
                then Inl (''script_exec: path '' @ quoted path @ '' escapes the workflow scripts directory'')
                else Inr r))))"

fun scalar_string :: "golib \<Rightarrow> val \<Rightarrow> string option" where
  "scalar_string G (VStr s) = Some s"
| "scalar_string G (VBool b) = Some (sprint G (VBool b))"
| "scalar_string G (VInt i) = Some (sprint G (VInt i))"
| "scalar_string G (VFloat f) = Some (sprint G (VFloat f))"
| "scalar_string G v = None"

text \<open>The loop over the arguments, with the index for the error.\<close>

fun scalar_list :: "golib \<Rightarrow> nat \<Rightarrow> val list \<Rightarrow> string + string list" where
  "scalar_list G i [] = Inr []"
| "scalar_list G i (v # vs) = (case scalar_string G v of
     None \<Rightarrow> Inl (''script_exec: args['' @ nat_text i @ ''] must be a string, number or boolean'')
   | Some s \<Rightarrow> map_sum id ((#) s) (scalar_list G (Suc i) vs))"

definition string_slice_param :: "golib \<Rightarrow> gomap \<Rightarrow> string \<Rightarrow> string + string list" where
  "string_slice_param G params name = (case mget params name of
     None \<Rightarrow> Inr []
   | Some (VStrs ss) \<Rightarrow> Inr ss
   | Some (VList vs) \<Rightarrow> scalar_list G 0 vs
   | Some _ \<Rightarrow> Inl ''script_exec: args must be a list of strings'')"

fun string_map_param :: "golib \<Rightarrow> val \<Rightarrow> (string \<times> string) list option" where
  "string_map_param G (VSMap m) = Some m"
| "string_map_param G (VMap m) =
     (if list_all (\<lambda>e. scalar_string G (snd e) \<noteq> None) m
      then Some (map (\<lambda>e. (fst e, case scalar_string G (snd e) of Some s \<Rightarrow> s | None \<Rightarrow> [])) m) else None)"
| "string_map_param G v = None"

text \<open>\<open>strings.Cut(item, "=")\<close>: the key of an environment entry.\<close>

definition env_key :: "string \<Rightarrow> string" where
  "env_key item = takeWhile (\<lambda>c. c \<noteq> CHR ''='') item"

text \<open>The index the code keeps for a key: that of its last entry.\<close>

definition env_index :: "string list \<Rightarrow> string \<Rightarrow> nat option" where
  "env_index env key = (case filter (\<lambda>i. env_key (env ! i) = key) [0..<length env] of
     [] \<Rightarrow> None | is \<Rightarrow> Some (last is))"

definition env_put :: "string \<Rightarrow> string \<Rightarrow> string list \<Rightarrow> string list" where
  "env_put key value env = (let item = key @ ''='' @ value in
     case env_index env key of None \<Rightarrow> env @ [item] | Some i \<Rightarrow> env[i := item])"

fun env_puts :: "(string \<times> string) list \<Rightarrow> string list \<Rightarrow> string + string list" where
  "env_puts [] env = Inr env"
| "env_puts ((key, value) # kvs) env =
     (if key = [] \<or> contains key ''='' then Inl (''script_exec: env key '' @ quoted key @ '' is invalid'')
      else env_puts kvs (env_put key value env))"

definition script_env :: "golib \<Rightarrow> string list \<Rightarrow> gomap \<Rightarrow> string + string list" where
  "script_env G environ params = (case mget params ''env'' of
     None \<Rightarrow> Inr environ
   | Some raw \<Rightarrow> (case string_map_param G raw of
       None \<Rightarrow> Inl ''script_exec: env must be a map of strings''
     | Some values \<Rightarrow> env_puts values environ))"

definition stdin_text :: "golib \<Rightarrow> val \<Rightarrow> string + string" where
  "stdin_text G raw = (case raw of
     VStr s \<Rightarrow> Inr s
   | _ \<Rightarrow> (case marshal G raw of
       None \<Rightarrow> Inl (''script_exec: stdin: '' @ marshal_error G raw)
     | Some t \<Rightarrow> Inr t))"

text \<open>From the script file on: arguments, environment, input and the process.\<close>

definition run_script :: "golib \<Rightarrow> 'w host \<Rightarrow> string \<Rightarrow> string \<Rightarrow> gomap \<Rightarrow> 'w \<Rightarrow> exec_out \<times> 'w" where
  "run_script G H interpreter script params w =
     (case string_slice_param G params ''args'' of
        Inl e \<Rightarrow> (exec_fails e, w)
      | Inr args \<Rightarrow> (case script_env G (ho_environ H) params of
          Inl e \<Rightarrow> (exec_fails e, w)
        | Inr env \<Rightarrow>
            (case (case mget_nil params ''stdin'' of VNil \<Rightarrow> Inr None | raw \<Rightarrow> map_sum id Some (stdin_text G raw)) of
               Inl e \<Rightarrow> (exec_fails e, w)
             | Inr input \<Rightarrow>
                 let (r, w) = ho_start H \<lparr>cl_program = interpreter, cl_args = script # args, cl_env = Some env, cl_stdin = input, cl_dir = []\<rparr> w
                 in (process_output ''script_exec'' (exit_code r) r, w))))"

definition script_exec :: "golib \<Rightarrow> 'w host \<Rightarrow> gomap \<Rightarrow> 'w \<Rightarrow> exec_out \<times> 'w" where
  "script_exec G H params w =
     (let interpreter = str_or_empty params ''interpreter'' in
      if interpreter = [] then (exec_fails ''script_exec: interpreter is required'', w)
      else case (mget params ''content'', mget params ''path'') of
        (Some content, None) \<Rightarrow>
          (case as_string content of
             None \<Rightarrow> (exec_fails ''script_exec: content must be a string'', w)
           | Some body \<Rightarrow> (case ho_temp H ''markov-script-*'' w of
               (Inl e, w) \<Rightarrow> (exec_fails (''script_exec: creating temporary script: '' @ e), w)
             | (Inr script, w) \<Rightarrow> (case ho_write H script body w of
                 (Some e, w) \<Rightarrow> (exec_fails (''script_exec: writing temporary script: '' @ e),
                    ho_remove H script (snd (ho_close H script w)))
               | (None, w) \<Rightarrow> (case ho_close H script w of
                   (Some e, w) \<Rightarrow> (exec_fails (''script_exec: closing temporary script: '' @ e), ho_remove H script w)
                 | (None, w) \<Rightarrow> (case run_script G H interpreter script params w of
                     (out, w) \<Rightarrow> (out, ho_remove H script w))))))
      | (None, Some path) \<Rightarrow>
          if str_or_empty params ''path'' = [] then (exec_fails ''script_exec: path must be a non-empty string'', w)
          else (case resolve_script_path (ho_fs H) (str_or_empty params ''path'') params of
            Inl e \<Rightarrow> (exec_fails e, w)
          | Inr script \<Rightarrow> run_script G H interpreter script params w)
      | _ \<Rightarrow> (exec_fails ''script_exec: exactly one of content or path is required'', w))"

subsection \<open>Confinement\<close>

text \<open>What \<open>filepath.Abs\<close> and \<open>filepath.EvalSymlinks\<close> document: absolute paths.\<close>

definition fs_paths_absolute :: "fs_view \<Rightarrow> bool" where
  "fs_paths_absolute E \<longleftrightarrow> (\<forall>p q. fs_abs E p = Inr q \<longrightarrow> is_abs q) \<and>
     (\<forall>p q. is_abs p \<longrightarrow> fs_eval E p = Inr q \<longrightarrow> is_abs q)"

text \<open>C13. A script of a step is inside the workflow's scripts directory: whatever the path says and
  wherever symbolic links lead, the file that is run lies below the resolved directory.\<close>

theorem script_path_contained:
  assumes "fs_paths_absolute E" "resolve_script_path E path params = Inr r"
  shows "\<exists>a b down. fs_abs E (str_or_empty params ''_script_dir'') = Inr a \<and> fs_eval E a = Inr b \<and>
    fs_eval E (path_join b path) = Inr r \<and> is_abs r \<and> elems r = elems b @ down"
proof -
  from assms(2) obtain a b q where ab: "fs_abs E (str_or_empty params ''_script_dir'') = Inr a" "fs_eval E a = Inr b"
      "fs_eval E (path_join b path) = Inr r" "rel b r = Some q" "\<not> escapes q"
    by (auto simp: resolve_script_path_def Let_def split: if_splits sum.splits option.splits)
  from assms(1) ab(1,2) have "is_abs b" unfolding fs_paths_absolute_def by blast
  from rel_inside [OF this ab(4,5)] ab(1-3) show ?thesis by blast
qed

subsection \<open>The environment\<close>

text \<open>The value a process sees: that of the last entry with the key.\<close>

definition env_value :: "string list \<Rightarrow> string \<Rightarrow> string option" where
  "env_value env key = (let items = filter (\<lambda>item. env_key item = key) env in
     if items = [] then None else Some (drop (length key + 1) (last items)))"

lemma env_key_item: "CHR ''='' \<notin> set k \<Longrightarrow> env_key (k @ ''='' @ v) = k"
  by (induction k) (auto simp: env_key_def)

lemma env_index_None: "env_index env key = None \<Longrightarrow> filter (\<lambda>item. env_key item = key) env = []"
  by (fastforce simp: env_index_def filter_empty_conv in_set_conv_nth split: list.splits)

lemma filter_upt_last: "filter P [0..<n] \<noteq> [] \<Longrightarrow>
    last (filter P [0..<n]) < n \<and> P (last (filter P [0..<n])) \<and> (\<forall>j. last (filter P [0..<n]) < j \<and> j < n \<longrightarrow> \<not> P j)"
proof (induction n)
  case (Suc n)
  show ?case
  proof (cases "P n")
    case False
    then have eq: "filter P [0..<Suc n] = filter P [0..<n]" by simp
    from Suc.prems have "filter P [0..<n] \<noteq> []" by (simp only: eq not_False_eq_True)
    with Suc.IH False show ?thesis unfolding eq by (metis less_Suc_eq)
  qed auto
qed simp

lemma env_index_Some:
  assumes "env_index env key = Some i"
  shows "\<exists>pre post. env = pre @ env ! i # post \<and> length pre = i \<and> env_key (env ! i) = key \<and>
    (\<forall>item\<in>set post. env_key item \<noteq> key)"
proof -
  let ?P = "\<lambda>i. env_key (env ! i) = key"
  from assms have "filter ?P [0..<length env] \<noteq> []" "last (filter ?P [0..<length env]) = i"
    by (auto simp: env_index_def split: list.splits)
  with filter_upt_last [of ?P "length env"] have i: "i < length env" "?P i" "\<forall>j. i < j \<and> j < length env \<longrightarrow> \<not> ?P j"
    by auto
  have "\<forall>item\<in>set (drop (Suc i) env). env_key item \<noteq> key"
  proof
    fix item assume "item \<in> set (drop (Suc i) env)"
    then obtain j where "j < length env - Suc i" "item = env ! (Suc i + j)" by (auto simp: in_set_conv_nth)
    with i(3) [rule_format, of "Suc i + j"] show "env_key item \<noteq> key" by simp
  qed
  with i(1,2) id_take_nth_drop [OF i(1)] show ?thesis
    by (intro exI [of _ "take i env"] exI [of _ "drop (Suc i) env"]) simp
qed

lemma env_value_put:
  assumes "CHR ''='' \<notin> set k"
  shows "env_value (env_put k v env) key = (if key = k then Some v else env_value env key)"
proof (cases "env_index env k")
  case None
  then show ?thesis using assms env_index_None [OF None] env_key_item [OF assms, of v]
    by (auto simp: env_put_def env_value_def)
next
  case (Some i)
  from env_index_Some [OF Some] obtain pre post where pp: "env = pre @ env ! i # post" "length pre = i"
      "env_key (env ! i) = k" "\<forall>item\<in>set post. env_key item \<noteq> k" by blast
  have none: "filter (\<lambda>item. env_key item = k) post = []" using pp(4) by (simp add: filter_empty_conv)
  have new: "env_put k v env = pre @ (k @ ''='' @ v) # post"
    using Some pp(1,2) by (simp add: env_put_def) (metis list_update_length)
  have old: "filter (\<lambda>item. env_key item = key) env =
      filter (\<lambda>item. env_key item = key) pre @ (if key = k then [env ! i] else []) @ filter (\<lambda>item. env_key item = key) post"
    using arg_cong [OF pp(1), of "filter (\<lambda>item. env_key item = key)"] pp(3) by auto
  show ?thesis unfolding new env_value_def old
    using env_key_item [OF assms, of v] none by (cases "key = k") auto
qed

text \<open>The process of a script sees the host's environment with exactly the step's entries replaced
  or added, whatever duplicates the host's environment holds.\<close>

lemma env_puts_overrides:
  assumes "env_puts values env = Inr env'" "distinct (map fst values)"
  shows "env_value env' key = (case map_of values key of Some v \<Rightarrow> Some v | None \<Rightarrow> env_value env key)"
  using assms
proof (induction "values" env rule: env_puts.induct)
  case (2 k v kvs env)
  then have ok: "k \<noteq> []" "\<not> contains k ''=''" by (auto split: if_splits)
  then have "CHR ''='' \<notin> set k" by (auto simp: contains_iff in_set_conv_decomp)
  note put = env_value_put [OF this, of v env key]
  from ok 2 have IH: "env_value env' key = (case map_of kvs key of Some v \<Rightarrow> Some v | None \<Rightarrow> env_value (env_put k v env) key)"
    by simp
  from 2(3) have "map_of kvs k = None" by (simp add: map_of_eq_None_iff)
  with IH put show ?case by (auto split: option.splits)
qed simp

text \<open>A temporary script is removed on every path that created it.\<close>

lemma script_temp_removed:
  assumes "mget params ''content'' = Some (VStr body)" "mget params ''path'' = None"
    "str_or_empty params ''interpreter'' \<noteq> []" "ho_temp H ''markov-script-*'' w = (Inr script, w1)"
  shows "\<exists>w2. snd (script_exec G H params w) = ho_remove H script w2"
  using assms by (auto simp: script_exec_def Let_def split: option.splits prod.splits)

subsection \<open>A concrete host\<close>

definition sample_fs :: fs_view where
  "sample_fs = \<lparr>fs_abs = (\<lambda>p. Inr (''/w/'' @ p)), fs_eval = Inr, fs_node = (\<lambda>p. Inl ''no such file'')\<rparr>"

theorem script_path_contained_witness:
  "\<exists>down. resolve_script_path sample_fs ''x/../a.sh'' [(''_script_dir'', VStr ''scripts'')] = Inr ''/w/scripts/a.sh'' \<and>
     elems ''/w/scripts/a.sh'' = elems ''/w/scripts'' @ down"
proof -
  have E: "fs_paths_absolute sample_fs" by (auto simp: fs_paths_absolute_def sample_fs_def is_abs_def slash_def)
  have r: "resolve_script_path sample_fs ''x/../a.sh'' [(''_script_dir'', VStr ''scripts'')] = Inr ''/w/scripts/a.sh''"
    by code_simp
  have dir: "str_or_empty [(''_script_dir'', VStr ''scripts'')] ''_script_dir'' = ''scripts''" by code_simp
  from script_path_contained [OF E r] r show ?thesis by (auto simp: dir sample_fs_def)
qed

lemma escaping_script_refused:
  "isl (resolve_script_path sample_fs ''../secret.sh'' [(''_script_dir'', VStr ''scripts'')])"
  by code_simp

end
