(* ===== verification/Jev_Client.thy ===== *)
theory Jev_Client
  imports Jev_Decisions
begin

text \<open>
  The client of the decision service (\<open>pkg/jev/client.go\<close>) and its executor
  (\<open>pkg/executor/jev.go\<close>): at most three attempts with bounded waits, and the validation of a
  response against the questions. The network, the credentials and the waiting are the record
  \<open>jev_net\<close> on a world of any type. Sums of floats are computed on the bits (\<open>f64_add\<close>). Go
  ranges over maps in any order: \<open>ord\<close> gives the order of the keys of an answer, and the list of
  questions is in the order they are visited.
\<close>

subsection \<open>Floating point\<close>

text \<open>A finite float as a multiple of \<open>2 ^ -1074\<close>, and back, rounded to the nearest even.\<close>

definition f64_scaled :: "f64 \<Rightarrow> int" where
  "f64_scaled b = (let m = f64_magnitude b mod 2 ^ 52; e = f64_magnitude b div 2 ^ 52;
       n = int (if e = 0 then m else (m + 2 ^ 52) * 2 ^ (e - 1))
     in if f64_negative b then - n else n)"

definition f64_round_magnitude :: "nat \<Rightarrow> nat" where
  "f64_round_magnitude n =
     (if n < 2 ^ 53 then n
      else let k = bit_length n - 53; q = n div 2 ^ k; r = n mod 2 ^ k;
               q = (if 2 * r > 2 ^ k \<or> (2 * r = 2 ^ k \<and> odd q) then q + 1 else q)
           in min (k * 2 ^ 52 + q) f64_inf_magnitude)"

definition f64_round :: "int \<Rightarrow> f64" where
  "f64_round i = word_of_nat (f64_round_magnitude (nat \<bar>i\<bar>) + (if i < 0 then 2 ^ 63 else 0))"

text \<open>Addition of finite floats.\<close>

definition f64_add :: "f64 \<Rightarrow> f64 \<Rightarrow> f64" where
  "f64_add a b = f64_round (f64_scaled a + f64_scaled b)"

definition f64_abs :: "f64 \<Rightarrow> f64" where
  "f64_abs b = word_of_nat (f64_magnitude b)"

definition f64_minus_one :: f64 where "f64_minus_one = 0xBFF0000000000000"
definition f64_tolerance :: f64 where "f64_tolerance = 4584304132692975288"
definition f64_max :: f64 where "f64_max = 9218868437227405311"

subsection \<open>Responses\<close>

definition number_in :: "val \<Rightarrow> f64 \<Rightarrow> f64 \<Rightarrow> bool" where
  "number_in v lo hi = (case v of
     VFloat n \<Rightarrow> \<not> f64_is_nan n \<and> \<not> f64_is_inf n \<and> f64_le lo n \<and> f64_le n hi
   | _ \<Rightarrow> False)"

text \<open>The keys an answer's probabilities must have.\<close>

definition expected_keys :: "question \<Rightarrow> string list" where
  "expected_keys q = (case q_criteria q of
     VMap m \<Rightarrow> mkeys m
   | VList vs \<Rightarrow> map nat_text [0..<length vs]
   | _ \<Rightarrow> [])"

definition float_at :: "gomap \<Rightarrow> string \<Rightarrow> f64" where
  "float_at m k = (case mget_nil m k of VFloat x \<Rightarrow> x | _ \<Rightarrow> 0)"

definition check_probabilities :: "(string list \<Rightarrow> string list) \<Rightarrow> string \<Rightarrow> string list \<Rightarrow> gomap \<Rightarrow> string option" where
  "check_probabilities ord name expected a =
     (let bad = (\<lambda>what. Some (''Jev answer '' @ quoted name @ what)) in
      case mget_nil a ''probabilities'' of
        VMap probs \<Rightarrow>
          if length probs \<noteq> length expected then bad '' has invalid probabilities''
          else if list_ex (\<lambda>k. \<not> number_in (mget_nil probs k) 0 f64_one) (ord expected) then bad '' has invalid probability''
          else if \<not> f64_le (f64_abs (f64_add (fold (\<lambda>k s. f64_add s (float_at probs k)) (ord expected) 0) f64_minus_one))
                    f64_tolerance then bad '' probabilities do not sum to one''
          else if \<not> number_in (mget_nil a ''confidence'') 0 f64_one then bad '' has invalid confidence''
          else None
      | _ \<Rightarrow> bad '' has invalid probabilities'')"

definition check_answer :: "(string list \<Rightarrow> string list) \<Rightarrow> gomap \<Rightarrow> string \<times> question \<Rightarrow> string option" where
  "check_answer ord answers nq =
     (let name = fst nq; q = snd nq; bad = (\<lambda>what. Some (''Jev answer '' @ quoted name @ what)) in
      case mget_nil answers name of
        VMap a \<Rightarrow>
          if mget_nil a ''type'' \<noteq> VStr (q_type q) then bad '' type mismatch''
          else if q_type q = ''noul'' then
            (if number_in (mget_nil a ''noul'') 0 f64_one then None else bad '' has invalid noul'')
          else if q_type q = ''choice'' then
            (case mget_nil a ''choice'' of
               VStr c \<Rightarrow>
                 if \<not> List.member (expected_keys q) c then bad '' has invalid choice''
                 else check_probabilities ord name (expected_keys q) a
             | _ \<Rightarrow> bad '' has invalid choice'')
          else
            if \<not> number_in (mget_nil a ''score'') 0 (f64_of_int (int (length (expected_keys q)) - 1))
            then bad '' has invalid score''
            else (case mget_nil a ''legend'' of
               VMap legend \<Rightarrow>
                 if length legend \<noteq> length (expected_keys q) then bad '' has invalid legend''
                 else if list_ex (\<lambda>k. mget legend k = None) (expected_keys q) then bad '' has incomplete legend''
                 else check_probabilities ord name (expected_keys q) a
             | _ \<Rightarrow> bad '' has invalid legend'')
      | _ \<Rightarrow> bad '' type mismatch'')"

definition validate_response :: "(string list \<Rightarrow> string list) \<Rightarrow> gomap \<Rightarrow> (string \<times> question) list \<Rightarrow> string option" where
  "validate_response ord out qs =
     (if str_or_empty out ''model'' = [] then Some ''Jev response missing model''
      else if (case mget_nil out ''usage'' of
          VMap usage \<Rightarrow> \<not> number_in (mget_nil usage ''input_tokens'') 0 f64_max
            \<or> \<not> number_in (mget_nil usage ''output_tokens'') 0 f64_max
        | _ \<Rightarrow> True) then Some ''Jev response missing valid usage''
      else (case mget_nil out ''answers'' of
          VMap answers \<Rightarrow>
            if length answers \<noteq> length qs then Some ''Jev response answer count mismatch''
            else check_all (check_answer ord answers) qs
        | _ \<Rightarrow> Some ''Jev response answer count mismatch''))"

subsection \<open>Requests\<close>

record jev_request =
  jr_url :: string
  jr_key :: string
  jr_body :: string

record jev_response =
  js_status :: int
  js_retry_after :: string
  js_request_id :: string
  js_body :: "string + string"

text \<open>The environment of a client: the credentials, the slot of a connection, the transport, and a wait
  that the context may cut short.\<close>

record 'w jev_net =
  jn_getenv :: "string \<Rightarrow> string"
  jn_read_file :: "string \<Rightarrow> string + string"
  jn_acquire :: "string \<Rightarrow> int \<Rightarrow> 'w \<Rightarrow> string option \<times> 'w"
  jn_release :: "string \<Rightarrow> 'w \<Rightarrow> 'w"
  jn_post :: "jev_request \<Rightarrow> 'w \<Rightarrow> (string + jev_response) \<times> 'w"
  jn_wait :: "int \<Rightarrow> 'w \<Rightarrow> string option \<times> 'w"
  jn_elapsed :: "'w \<Rightarrow> f64"

definition credential :: "'w jev_net \<Rightarrow> connection \<Rightarrow> string + string" where
  "credential N c =
     (if cn_api_key_env c \<noteq> [] \<and> jn_getenv N (cn_api_key_env c) = []
      then Inl (''Jev credential environment variable '' @ quoted (cn_api_key_env c) @ '' is empty'')
      else if cn_api_key_file c \<noteq> [] then
        (case jn_read_file N (cn_api_key_file c) of
           Inl e \<Rightarrow> Inl (''reading Jev credential file: '' @ e)
         | Inr b \<Rightarrow> if trim_space b = [] then Inl ''Jev credential file is empty'' else Inr (trim_space b))
      else Inr (if cn_api_key_env c = [] then [] else jn_getenv N (cn_api_key_env c)))"

text \<open>A \<open>Question\<close> in JSON has its fields in the order of the struct; the keys of a map are sorted.\<close>

definition jquestion :: "golib \<Rightarrow> question \<Rightarrow> jv option" where
  "jquestion G q = (case (jfield G ''instructions'' (q_instructions q), jfield G ''criteria'' (q_criteria q)) of
     (Some i, Some c) \<Rightarrow> Some (JObj ([(''type'', JStr (q_type q))] @ i @ c))
   | _ \<Rightarrow> None)"

definition request_body :: "golib \<Rightarrow> string \<Rightarrow> val \<Rightarrow> (string \<times> question) list \<Rightarrow> string + string" where
  "request_body G model input qs =
     (let qs = sort_key fst qs;
          encoded = sequence (map (\<lambda>(n, q). map_option (Pair n) (jquestion G q)) qs)
      in case (encoded, jv_of G input) of
           (Some jqs, Some ji) \<Rightarrow> Inr (jtext (JObj [(''model'', JStr model), (''questions'', JObj jqs), (''state'', ji)]))
         | _ \<Rightarrow> Inl (marshal_error G (VList (concat (map (\<lambda>(n, q). [q_instructions q, q_criteria q]) qs) @ [input]))))"

definition max_response :: nat where "max_response = 8 * 1024 * 1024"

text \<open>The wait before the next attempt in nanoseconds, a 64-bit \<open>time.Duration\<close>: a large header value
  wraps around before it is compared with the limit.\<close>

definition nanoseconds :: "int \<Rightarrow> int" where
  "nanoseconds n = sint (word_of_int (n * 1000000000) :: 64 word)"

definition max_delay :: int where "max_delay = 30000000000"

definition retry_delay :: "nat \<Rightarrow> jev_response \<Rightarrow> int" where
  "retry_delay attempt r = (case parse_int (js_retry_after r) of
     Some n \<Rightarrow> if n > 0 then min (nanoseconds n) max_delay else nanoseconds (int attempt + 1)
   | None \<Rightarrow> nanoseconds (int attempt + 1))"

definition retried :: "int \<Rightarrow> bool" where
  "retried status \<longleftrightarrow> status \<in> {429, 502, 503, 504}"

definition accept_response ::
  "golib \<Rightarrow> (string list \<Rightarrow> string list) \<Rightarrow> 'w jev_net \<Rightarrow> string \<Rightarrow> string \<Rightarrow> string \<Rightarrow> (string \<times> question) list \<Rightarrow> nat
     \<Rightarrow> jev_response \<Rightarrow> string \<Rightarrow> 'w \<Rightarrow> string + gomap" where
  "accept_response G ord N name model digest qs attempt r data w =
     (if js_status r < 200 \<or> js_status r \<ge> 300 then Inl (''Jev HTTP status '' @ int_text (js_status r))
      else case (case unmarshal G data of Some (VMap out) \<Rightarrow> Some out | Some VNil \<Rightarrow> Some [] | _ \<Rightarrow> None) of
        None \<Rightarrow> Inl ''Jev returned invalid JSON''
      | Some out \<Rightarrow> (case validate_response ord out qs of
          Some e \<Rightarrow> Inl e
        | None \<Rightarrow> Inr (mput ''metadata'' (VMap (mcopy [(''connection'', VStr name), (''requested_model'', VStr model),
            (''request_id'', VStr (js_request_id r)), (''elapsed_seconds'', VFloat (jn_elapsed N w)),
            (''attempts'', VInt (int attempt + 1)), (''request_fingerprint'', VStr digest)] [])) out)))"

text \<open>The loop: \<open>n\<close> attempts are left, the current one being number \<open>3 - n\<close>.\<close>

primrec attempts ::
  "nat \<Rightarrow> golib \<Rightarrow> (string list \<Rightarrow> string list) \<Rightarrow> 'w jev_net \<Rightarrow> string \<Rightarrow> string \<Rightarrow> string \<Rightarrow> (string \<times> question) list
     \<Rightarrow> jev_request \<Rightarrow> 'w \<Rightarrow> (string + gomap) \<times> 'w" where
  "attempts 0 G ord N name model digest qs req w = (Inl ''Jev retries exhausted'', w)"
| "attempts (Suc n) G ord N name model digest qs req w =
     (let attempt = 2 - n in
      case jn_post N req w of
        (Inl e, w) \<Rightarrow> (Inl (''Jev transport failed: '' @ e), w)
      | (Inr r, w) \<Rightarrow> (case js_body r of
          Inl e \<Rightarrow> (Inl (''reading Jev response: '' @ e), w)
        | Inr data \<Rightarrow>
            if length data > max_response then (Inl ''Jev response exceeds 8 MiB'', w)
            else if retried (js_status r) \<and> attempt < 2 then
              (case jn_wait N (retry_delay attempt r) w of
                 (Some e, w) \<Rightarrow> (Inl e, w)
               | (None, w) \<Rightarrow> attempts n G ord N name model digest qs req w)
            else (accept_response G ord N name model digest qs attempt r data w, w)))"

definition jev_execute ::
  "golib \<Rightarrow> (string list \<Rightarrow> string list) \<Rightarrow> 'w jev_net \<Rightarrow> (string \<times> connection) list \<Rightarrow> string \<Rightarrow> val \<Rightarrow> (string \<times> question) list
     \<Rightarrow> 'w \<Rightarrow> (string + gomap) \<times> 'w" where
  "jev_execute G ord N conns name input qs w =
     (case mget conns name of
        None \<Rightarrow> (Inl (''unknown Jev connection '' @ quoted name), w)
      | Some c \<Rightarrow> (case connection_validate G c of
          Some e \<Rightarrow> (Inl e, w)
        | None \<Rightarrow>
            if qs = [] then (Inl ''questions cannot be empty'', w)
            else (case check_all (\<lambda>(k, q). map_option (\<lambda>e. ''question '' @ quoted k @ '': '' @ e) (question_validate q)) qs of
              Some e \<Rightarrow> (Inl e, w)
            | None \<Rightarrow> (case jn_acquire N name (if cn_timeout c = 0 then 120 else cn_timeout c) w of
                (Some e, w) \<Rightarrow> (Inl e, w)
              | (None, w) \<Rightarrow>
                  apsnd (jn_release N name) (case credential N c of
                    Inl e \<Rightarrow> (Inl e, w)
                  | Inr key \<Rightarrow>
                      let model = (if cn_model c = [] then ''jev-latest'' else cn_model c) in
                      (case request_body G model input qs of
                         Inl e \<Rightarrow> (Inl e, w)
                       | Inr body \<Rightarrow> attempts 3 G ord N name model (sha_hex (cn_base_url c @ [CHR 0x00] @ body)) qs
                           \<lparr>jr_url = trim_right_fn (\<lambda>ch. ch = CHR ''/'') (cn_base_url c) @ ''/v1/systemone'', jr_key = key,
                            jr_body = body\<rparr> w))))))"

text \<open>The executor of \<open>jev\<close> steps.\<close>

definition jev_exec ::
  "golib \<Rightarrow> (string list \<Rightarrow> string list) \<Rightarrow> 'w jev_net \<Rightarrow> (string \<times> connection) list \<Rightarrow> gomap \<Rightarrow> 'w \<Rightarrow> exec_out \<times> 'w" where
  "jev_exec G ord N conns params w =
     (let fails = (\<lambda>e. \<lparr>xo_output = None, xo_error = Some e, xo_notices = []\<rparr>) in
      if mget_nil params ''state'' = VNil then (fails ''jev: state is required'', w)
      else case questions (mget_nil params ''questions'') of
        Inl e \<Rightarrow> (fails e, w)
      | Inr qs \<Rightarrow> (case jev_execute G ord N conns (str_or_empty params ''connection'') (mget_nil params ''state'') qs w of
          (Inl e, w) \<Rightarrow> (fails e, w)
        | (Inr out, w) \<Rightarrow> (\<lparr>xo_output = Some out, xo_error = None, xo_notices = []\<rparr>, w)))"

subsection \<open>What an accepted response looks like\<close>

abbreviation unit_float :: "val \<Rightarrow> bool" where
  "unit_float v \<equiv> number_in v 0 f64_one"

definition probabilities_ok :: "string list \<Rightarrow> gomap \<Rightarrow> bool" where
  "probabilities_ok ks a \<longleftrightarrow> (\<exists>probs. mget a ''probabilities'' = Some (VMap probs) \<and> length probs = length ks \<and>
     (\<forall>k\<in>set ks. unit_float (mget_nil probs k))) \<and> unit_float (mget_nil a ''confidence'')"

definition answer_ok :: "question \<Rightarrow> gomap \<Rightarrow> bool" where
  "answer_ok q a \<longleftrightarrow> mget a ''type'' = Some (VStr (q_type q)) \<and>
     (if q_type q = ''noul'' then unit_float (mget_nil a ''noul'')
      else if q_type q = ''choice'' then
        (\<exists>c. mget a ''choice'' = Some (VStr c) \<and> c \<in> set (expected_keys q)) \<and> probabilities_ok (expected_keys q) a
      else number_in (mget_nil a ''score'') 0 (f64_of_int (int (length (expected_keys q)) - 1)) \<and>
        (\<exists>legend. mget a ''legend'' = Some (VMap legend) \<and> length legend = length (expected_keys q) \<and>
           (\<forall>k\<in>set (expected_keys q). mget legend k \<noteq> None)) \<and> probabilities_ok (expected_keys q) a)"

definition answers_ok :: "(string \<times> question) list \<Rightarrow> gomap \<Rightarrow> bool" where
  "answers_ok qs out \<longleftrightarrow> (\<exists>answers. mget out ''answers'' = Some (VMap answers) \<and> length answers = length qs \<and>
     (\<forall>(n, q)\<in>set qs. \<exists>a. mget answers n = Some (VMap a) \<and> answer_ok q a))"

lemma mget_nil_eq: "v \<noteq> VNil \<Longrightarrow> mget_nil m k = v \<longleftrightarrow> mget m k = Some v"
  by (auto simp: mget_nil_def split: option.splits)

lemma check_probabilities_ok:
  assumes "set (ord ks) = set ks" "check_probabilities ord name ks a = None"
  shows "probabilities_ok ks a"
proof -
  from assms(2) obtain probs where p: "mget_nil a ''probabilities'' = VMap probs"
    by (cases "mget_nil a ''probabilities''") (auto simp: check_probabilities_def Let_def)
  with assms(2) have "length probs = length ks" "\<not> list_ex (\<lambda>k. \<not> unit_float (mget_nil probs k)) (ord ks)"
      "unit_float (mget_nil a ''confidence'')"
    by (auto simp: check_probabilities_def Let_def split: if_splits)
  with assms(1) p show ?thesis by (auto simp: probabilities_ok_def list_ex_iff mget_nil_eq)
qed

lemma check_answer_ok:
  assumes "\<And>ks. set (ord ks) = set ks" "check_answer ord answers (n, q) = None"
  shows "\<exists>a. mget answers n = Some (VMap a) \<and> answer_ok q a"
proof -
  from assms(2) obtain a where a: "mget_nil answers n = VMap a"
    by (cases "mget_nil answers n") (auto simp: check_answer_def Let_def)
  note C = assms(2) [unfolded check_answer_def Let_def fst_conv snd_conv a val.simps]
  from C have t: "mget_nil a ''type'' = VStr (q_type q)" by (simp split: if_splits)
  have "answer_ok q a"
  proof (cases "q_type q = ''noul''")
    case True
    with C t show ?thesis by (simp add: answer_ok_def mget_nil_eq split: if_splits)
  next
    case False
    note noul = this
    show ?thesis
    proof (cases "q_type q = ''choice''")
      case True
      with C t obtain c where c: "mget_nil a ''choice'' = VStr c" by (cases "mget_nil a ''choice''") auto
      with C t True have "c \<in> set (expected_keys q)" "check_probabilities ord n (expected_keys q) a = None"
        by (auto split: if_splits)
      with check_probabilities_ok [of ord, OF assms(1)] c t True show ?thesis by (auto simp: answer_ok_def mget_nil_eq)
    next
      case False
      with C t noul have s: "number_in (mget_nil a ''score'') 0 (f64_of_int (int (length (expected_keys q)) - 1))"
        by (auto split: if_splits)
      with C t noul False obtain legend where l: "mget_nil a ''legend'' = VMap legend"
        by (cases "mget_nil a ''legend''") auto
      with C t noul False s have "length legend = length (expected_keys q)" "\<forall>k\<in>set (expected_keys q). mget legend k \<noteq> None"
          "check_probabilities ord n (expected_keys q) a = None"
        by (auto simp: list_ex_iff split: if_splits)
      with check_probabilities_ok [of ord, OF assms(1)] l t noul False s show ?thesis by (auto simp: answer_ok_def mget_nil_eq)
    qed
  qed
  with a show ?thesis by (auto simp: mget_nil_eq)
qed

lemma validate_response_ok:
  assumes "\<And>ks. set (ord ks) = set ks" "validate_response ord out qs = None"
  shows "answers_ok qs out"
proof -
  from assms(2) obtain answers where a: "mget_nil out ''answers'' = VMap answers" "length answers = length qs"
      "check_all (check_answer ord answers) qs = None"
    by (cases "mget_nil out ''answers''") (auto simp: validate_response_def split: if_splits)
  from a(3) have "\<forall>nq\<in>set qs. check_answer ord answers nq = None" by (simp add: check_all_None)
  with check_answer_ok [of ord, OF assms(1)] have "\<forall>(n, q)\<in>set qs. \<exists>a. mget answers n = Some (VMap a) \<and> answer_ok q a" by auto
  with a(1,2) show ?thesis by (auto simp: answers_ok_def mget_nil_eq)
qed

lemma mget_mput_any: "mget (mput k v m) j = (if j = k then Some v else mget m j)"
  by (induction k v m rule: mput.induct) (auto simp: mget_def)

definition attempts_of :: "gomap \<Rightarrow> int option" where
  "attempts_of out = (case mget out ''metadata'' of
     Some (VMap m) \<Rightarrow> (case mget m ''attempts'' of Some (VInt k) \<Rightarrow> Some k | _ \<Rightarrow> None)
   | _ \<Rightarrow> None)"

lemma accept_response_ok:
  assumes "\<And>ks. set (ord ks) = set ks" "accept_response G ord N name model digest qs attempt r data w = Inr out"
  shows "answers_ok qs out \<and> attempts_of out = Some (int attempt + 1)"
proof -
  from assms(2) obtain o' m where o': "validate_response ord o' qs = None" "out = mput ''metadata'' (VMap m) o'"
      "mget m ''attempts'' = Some (VInt (int attempt + 1))"
    by (auto simp: accept_response_def mcopy_def mget_mput_any split: if_splits option.splits)
  then show ?thesis using validate_response_ok [of ord, OF assms(1) o'(1)]
    by (auto simp: answers_ok_def attempts_of_def mget_mput_any)
qed

lemma attempts_ok:
  assumes "\<And>ks. set (ord ks) = set ks" "attempts n G ord N name model digest qs req w = (Inr out, w')"
  shows "answers_ok qs out \<and> (\<exists>k. attempts_of out = Some k \<and> 1 \<le> k \<and> k \<le> 3)"
  using assms(2)
proof (induction n arbitrary: w)
  case (Suc n)
  then show ?case using accept_response_ok [of ord, OF assms(1)]
    by (fastforce simp: Let_def split: prod.splits sum.splits if_splits option.splits)
qed simp

text \<open>C12. An answer of the decision service that the client returns fits the questions: there is one
  answer for each, of the question's type, with a choice among the criteria, a score on the
  scale, and a probability for each criterion between zero and one; and it took at most
  three attempts.\<close>

theorem jev_answers_valid:
  assumes "\<And>ks. set (ord ks) = set ks" "jev_execute G ord N conns name input qs w = (Inr out, w')"
  shows "answers_ok qs out \<and> (\<exists>k. attempts_of out = Some k \<and> 1 \<le> k \<and> k \<le> 3)"
proof -
  from assms(2) obtain model digest req w1 w2 where "attempts 3 G ord N name model digest qs req w1 = (Inr out, w2)"
    unfolding jev_execute_def by (auto simp: Let_def apsnd_def map_prod_def split: option.splits if_splits prod.splits sum.splits)
  from attempts_ok [of ord, OF assms(1) this] show ?thesis .
qed

subsection \<open>How often the service is asked\<close>

text \<open>A service that gives the \<open>n\<close>-th request its \<open>n\<close>-th answer, and a world that records the requests
  and the waits.\<close>

record jev_log =
  jl_requests :: "jev_request list"
  jl_waits :: "int list"

definition scripted :: "(string \<Rightarrow> string) \<Rightarrow> (nat \<Rightarrow> string + jev_response) \<Rightarrow> jev_log jev_net" where
  "scripted getenv answer =
     \<lparr>jn_getenv = getenv, jn_read_file = (\<lambda>_. Inl ''no such file''), jn_acquire = (\<lambda>_ _ w. (None, w)), jn_release = (\<lambda>_ w. w),
      jn_post = (\<lambda>r w. (answer (length (jl_requests w)), w\<lparr>jl_requests := jl_requests w @ [r]\<rparr>)),
      jn_wait = (\<lambda>d w. (None, w\<lparr>jl_waits := jl_waits w @ [d]\<rparr>)), jn_elapsed = (\<lambda>_. 0)\<rparr>"

lemma nanoseconds_small: "0 \<le> n \<Longrightarrow> n \<le> 3 \<Longrightarrow> nanoseconds n = n * 1000000000"
proof -
  assume "0 \<le> n" "n \<le> 3"
  then have "n = 0 \<or> n = 1 \<or> n = 2 \<or> n = 3" by arith
  moreover have "nanoseconds 0 = 0" "nanoseconds 1 = 1000000000" "nanoseconds 2 = 2000000000" "nanoseconds 3 = 3000000000"
    by code_simp+
  ultimately show ?thesis by auto
qed

lemma retry_delay_le: "attempt < 2 \<Longrightarrow> retry_delay attempt r \<le> max_delay"
  by (auto simp: retry_delay_def max_delay_def nanoseconds_small split: option.splits)

lemma attempts_scripted:
  assumes "attempts n G ord (scripted env answer) name model digest qs req w = (res, w')" "n \<le> 3"
  shows "\<exists>k ds. jl_requests w' = jl_requests w @ replicate k req \<and> k \<le> n \<and>
    jl_waits w' = jl_waits w @ ds \<and> length ds \<le> k \<and> (\<forall>d\<in>set ds. d \<le> max_delay)"
  using assms
proof (induction n arbitrary: w)
  case 0
  then show ?case by (intro exI [of _ 0] exI [of _ "[]"]) simp
next
  case (Suc n)
  let ?w = "w\<lparr>jl_requests := jl_requests w @ [req]\<rparr>"
  consider "w' = ?w" | d where "d \<le> max_delay"
      "attempts n G ord (scripted env answer) name model digest qs req (?w\<lparr>jl_waits := jl_waits w @ [d]\<rparr>) = (res, w')"
    using Suc.prems(1) retry_delay_le
    by (auto simp: scripted_def Let_def split: sum.splits if_splits)
  then show ?case
  proof cases
    case 1
    then show ?thesis by (intro exI [of _ 1] exI [of _ "[]"]) simp
  next
    case (2 d)
    from Suc.IH [OF 2(2)] Suc.prems(2) obtain k ds where k: "jl_requests w' = jl_requests w @ [req] @ replicate k req" "k \<le> n"
        "jl_waits w' = (jl_waits w @ [d]) @ ds" "length ds \<le> k" "\<forall>d\<in>set ds. d \<le> max_delay"
      by auto
    with 2(1) show ?thesis by (intro exI [of _ "Suc k"] exI [of _ "d # ds"]) simp
  qed
qed

text \<open>Whatever the service answers, a decision asks it at most three times, with the same request, and
  never waits for more than thirty seconds between two of them.\<close>

lemma jev_requests_bounded:
  assumes "jev_execute G ord (scripted env answer) conns name input qs \<lparr>jl_requests = [], jl_waits = []\<rparr> = (res, w')"
  shows "\<exists>k req. jl_requests w' = replicate k req \<and> k \<le> 3 \<and> (\<forall>d\<in>set (jl_waits w'). d \<le> max_delay)"
proof -
  let ?w = "\<lparr>jl_requests = [], jl_waits = []\<rparr>"
  consider "w' = ?w" | model digest req where
      "attempts 3 G ord (scripted env answer) name model digest qs req ?w = (res, w')"
    using assms unfolding jev_execute_def
    by (auto simp: scripted_def Let_def apsnd_def map_prod_def split: option.splits if_splits prod.splits sum.splits)
  then show ?thesis
  proof cases
    case 1
    then show ?thesis by (intro exI [of _ 0]) simp
  next
    case 2
    from attempts_scripted [OF this] show ?thesis by fastforce
  qed
qed

text \<open>The header is multiplied before it is limited: a huge value wraps around to no wait at all.\<close>

lemma retry_after_wraps: "nanoseconds 18446744073 < 0"
  by code_simp

subsection \<open>A concrete service\<close>

definition sample_jev_lib :: golib where
  "sample_jev_lib = \<lparr>fmt_float = (\<lambda>_. ''1''), json_float = (\<lambda>_. ''1''), parse_float = (\<lambda>_. Some f64_one),
     url_parse = (\<lambda>_. Some \<lparr>u_scheme = ''http'', u_host = ''h'', u_has_user = False, u_raw_query = [], u_fragment = [], u_path = []\<rparr>)\<rparr>"

definition sample_connection :: connection where
  "sample_connection = \<lparr>cn_type = ''jev'', cn_base_url = ''http://h'', cn_model = [], cn_api_key_env = [], cn_api_key_file = [],
     cn_timeout = 0, cn_concurrency = 0\<rparr>"

definition sample_question :: question where
  "sample_question = \<lparr>q_type = ''noul'', q_instructions = VNil, q_criteria = VNil\<rparr>"

definition sample_reply :: gomap where
  "sample_reply = mcopy [(''model'', VStr ''m''),
     (''usage'', VMap [(''input_tokens'', VFloat f64_one), (''output_tokens'', VFloat f64_one)]),
     (''answers'', VMap [(''a'', VMap [(''noul'', VFloat f64_one), (''type'', VStr ''noul'')])])] []"

definition sample_document :: jv where
  "sample_document = JObj [(''answers'', JObj [(''a'', JObj [(''noul'', JNum ''1''), (''type'', JStr ''noul'')])]),
     (''model'', JStr ''m''), (''usage'', JObj [(''input_tokens'', JNum ''1''), (''output_tokens'', JNum ''1'')])]"

definition sample_net :: "jev_log jev_net" where
  "sample_net = scripted (\<lambda>_. []) (\<lambda>n. Inr \<lparr>js_status = (if n = 0 then 503 else 200), js_retry_after = [], js_request_id = [],
     js_body = Inr (jtext sample_document)\<rparr>)"

lemma sample_unmarshal: "unmarshal sample_jev_lib (jtext sample_document) = Some (VMap sample_reply)"
  by code_simp

lemma sample_number: "number_in (VFloat f64_one) 0 f64_one" "number_in (VFloat f64_one) 0 f64_max"
  by (simp_all add: number_in_def f64_is_nan_def f64_is_inf_def f64_le_def f64_key_def f64_negative_def f64_magnitude_def
      f64_inf_magnitude_def f64_one_def f64_max_def)

lemma sample_fields: "mget_nil sample_reply ''answers'' = VMap [(''a'', VMap [(''noul'', VFloat f64_one), (''type'', VStr ''noul'')])]"
    "mget_nil sample_reply ''usage'' = VMap [(''input_tokens'', VFloat f64_one), (''output_tokens'', VFloat f64_one)]"
    "str_or_empty sample_reply ''model'' = ''m''"
  by (simp_all add: sample_reply_def mcopy_def mget_nil_def str_or_empty_def mget_mput_any mget_def)

lemma sample_validated: "validate_response id sample_reply [(''a'', sample_question)] = None"
  unfolding validate_response_def sample_fields
  by (simp add: check_answer_def sample_question_def mget_nil_def mget_def sample_number)

lemma sample_length: "length (jtext sample_document) \<le> max_response"
proof -
  have "length (jtext sample_document) \<le> 200" by code_simp
  then show ?thesis by (simp add: max_response_def)
qed

lemma sample_attempts:
  obtains out w' where "attempts 3 sample_jev_lib id sample_net name model digest [(''a'', sample_question)] req
     \<lparr>jl_requests = [], jl_waits = []\<rparr> = (Inr out, w')"
  using sample_length
  by (simp add: eval_nat_numeral sample_net_def scripted_def retried_def accept_response_def sample_unmarshal sample_validated Let_def)

theorem jev_answers_valid_witness:
  "\<exists>out w'. jev_execute sample_jev_lib id sample_net [(''c'', sample_connection)] ''c'' (VStr ''s'') [(''a'', sample_question)]
       \<lparr>jl_requests = [], jl_waits = []\<rparr> = (Inr out, w') \<and>
     answers_ok [(''a'', sample_question)] out \<and> (\<exists>k. attempts_of out = Some k \<and> 1 \<le> k \<and> k \<le> 3)"
proof -
  have ok: "connection_validate sample_jev_lib sample_connection = None" "question_validate sample_question = None"
      "credential sample_net sample_connection = Inr []"
    by code_simp+
  obtain body where body: "request_body sample_jev_lib ''jev-latest'' (VStr ''s'') [(''a'', sample_question)] = Inr body"
    by (simp add: request_body_def jquestion_def jfield_def sample_question_def sequence_def)
  let ?exec = "jev_execute sample_jev_lib id sample_net [(''c'', sample_connection)] ''c'' (VStr ''s'') [(''a'', sample_question)]
     \<lparr>jl_requests = [], jl_waits = []\<rparr>"
  have net: "jn_acquire sample_net = (\<lambda>_ _ w. (None, w))" "jn_release sample_net = (\<lambda>_ w. w)"
    by (simp_all add: sample_net_def scripted_def)
  obtain digest req where "?exec = apsnd (\<lambda>w. w) (attempts 3 sample_jev_lib id sample_net ''c'' ''jev-latest'' digest
      [(''a'', sample_question)] req \<lparr>jl_requests = [], jl_waits = []\<rparr>)"
    using ok body by (simp add: jev_execute_def mget_def net) (simp add: sample_connection_def)
  then obtain out w' where out: "?exec = (Inr out, w')"
    using sample_attempts [of "''c''" "''jev-latest''" digest req] by (metis apsnd_conv)
  from jev_answers_valid [OF _ out] out show ?thesis by simp
qed

end
