(* ===== verification/Http_Request.thy ===== *)
theory Http_Request
  imports Script_Exec Template_Values
begin

text \<open>
  The \<open>http_request\<close> executor (\<open>pkg/executor/http_request.go\<close>): how the parameters of a step
  become a request (URL, method, body, headers, credentials, TLS settings), and how the status of
  the response decides the outcome of the step. The transport, the checks that \<open>net/http\<close> makes
  on a method and a URL and the reading of a certificate file are the record \<open>http_net\<close>.
\<close>

subsection \<open>Requests\<close>

record tls_settings =
  tl_insecure :: bool
  tl_ca_cert :: string

record http_req =
  hr_method :: string
  hr_url :: string
  hr_body :: "string option"
  hr_headers :: "(string \<times> string) list"
  hr_tls :: "tls_settings option"

record http_resp =
  hs_status :: int
  hs_body :: "string + string"

text \<open>The error of \<open>http.NewRequest\<close>, whether a certificate file holds certificates, the order in which Go ranges over a map
  (it decides which of two keys with one canonical form stays), and the exchange.\<close>

record 'w http_net =
  hn_refused :: "string \<Rightarrow> string \<Rightarrow> string option"
  hn_ca_cert :: "string \<Rightarrow> string + bool"
  hn_order :: "(string \<times> string) list \<Rightarrow> (string \<times> string) list"
  hn_do :: "http_req \<Rightarrow> 'w \<Rightarrow> (string + http_resp) \<times> 'w"

definition upper_char :: "char \<Rightarrow> char" where
  "upper_char c = (if is_lower c then char_of (of_char c - (32 :: nat)) else c)"

text \<open>\<open>textproto.CanonicalMIMEHeaderKey\<close>: a capital at the start and after each hyphen, as long as all
  bytes are token characters.\<close>

definition token_char :: "char \<Rightarrow> bool" where
  "token_char c \<longleftrightarrow> is_digit c \<or> is_upper c \<or> is_lower c \<or> c \<in> set ''!#$%&*+-.^_|~'' \<or> c \<in> {CHR 0x27, CHR 0x60}"

fun canonical_from :: "bool \<Rightarrow> string \<Rightarrow> string" where
  "canonical_from start [] = []"
| "canonical_from start (c # cs) =
     (if start then upper_char c else lower_char c) # canonical_from (c = CHR ''-'') cs"

definition canonical_key :: "string \<Rightarrow> string" where
  "canonical_key k = (if list_all token_char k then canonical_from True k else k)"

definition set_header :: "string \<Rightarrow> string \<Rightarrow> (string \<times> string) list \<Rightarrow> (string \<times> string) list" where
  "set_header k v hs = mput (canonical_key k) v hs"

fun string_map :: "golib \<Rightarrow> val \<Rightarrow> (string \<times> string) list" where
  "string_map G (VSMap m) = m"
| "string_map G (VMap m) = map (\<lambda>e. (fst e, sprint G (snd e))) m"
| "string_map G v = []"

fun put_headers :: "(string \<times> string) list \<Rightarrow> (string \<times> string) list \<Rightarrow> string + (string \<times> string) list" where
  "put_headers [] hs = Inr hs"
| "put_headers ((k, v) # kvs) hs =
     (if k = [] then Inl ''http_request: headers contains empty key'' else put_headers kvs (set_header k v hs))"

definition apply_headers :: "golib \<Rightarrow> 'w http_net \<Rightarrow> val \<Rightarrow> (string \<times> string) list \<Rightarrow> string + (string \<times> string) list" where
  "apply_headers G N raw hs = (if raw = VNil then Inr hs else put_headers (hn_order N (string_map G raw)) hs)"

text \<open>Standard base64, three bytes at a time.\<close>

definition base64_char :: "nat \<Rightarrow> char" where
  "base64_char n = ''ABCDEFGHIJKLMNOPQRSTUVWXYZabcdefghijklmnopqrstuvwxyz0123456789+/'' ! n"

fun base64 :: "string \<Rightarrow> string" where
  "base64 [] = []"
| "base64 [a] = (let n = of_char a * 16 in [base64_char (n div 64), base64_char (n mod 64)] @ ''=='')"
| "base64 [a, b] = (let n = (of_char a * 256 + of_char b) * 4 in
     [base64_char (n div 4096), base64_char (n div 64 mod 64), base64_char (n mod 64)] @ ''='')"
| "base64 (a # b # c # s) = (let n = (of_char a * 256 + of_char b) * 256 + of_char c in
     [base64_char (n div 262144), base64_char (n div 4096 mod 64), base64_char (n div 64 mod 64), base64_char (n mod 64)]
       @ base64 s)"

definition apply_basic_auth :: "golib \<Rightarrow> val \<Rightarrow> (string \<times> string) list \<Rightarrow> string + (string \<times> string) list" where
  "apply_basic_auth G raw hs =
     (if raw = VNil then Inr hs
      else let auth = string_map G raw in
        case map_of auth ''username'' of
          None \<Rightarrow> Inl ''http_request: basic_auth.username is required''
        | Some user \<Rightarrow> (case map_of auth ''password'' of
            None \<Rightarrow> Inl ''http_request: basic_auth.password is required''
          | Some pass \<Rightarrow> Inr (set_header ''Authorization'' (''Basic '' @ base64 (user @ '':'' @ pass)) hs)))"

definition bool_param :: "val \<Rightarrow> string \<Rightarrow> string + bool" where
  "bool_param raw name = (case raw of
     VNil \<Rightarrow> Inr False
   | VBool b \<Rightarrow> Inr b
   | _ \<Rightarrow> Inl (''http_request: '' @ name @ '' must be a bool''))"

definition tls_config :: "'w http_net \<Rightarrow> gomap \<Rightarrow> string + tls_settings option" where
  "tls_config N params = (case bool_param (mget_nil params ''tls_insecure'') ''tls_insecure'' of
     Inl e \<Rightarrow> Inl e
   | Inr insecure \<Rightarrow>
       let ca = str_or_empty params ''tls_ca_cert''; cfg = \<lparr>tl_insecure = insecure, tl_ca_cert = ca\<rparr> in
       if \<not> insecure \<and> ca = [] then Inr None
       else if ca = [] then Inr (Some cfg)
       else (case hn_ca_cert N ca of
           Inl e \<Rightarrow> Inl (''http_request: reading tls_ca_cert '' @ quoted ca @ '': '' @ e)
         | Inr found \<Rightarrow> if found then Inr (Some cfg)
             else Inl (''http_request: tls_ca_cert '' @ quoted ca @ '' contains no PEM certificates'')))"

definition request_url :: "gomap \<Rightarrow> string + string" where
  "request_url params =
     (if str_or_empty params ''url'' \<noteq> [] then Inr (str_or_empty params ''url'')
      else if str_or_empty params ''base_url'' = [] then Inl ''http_request: url or base_url is required''
      else Inr (str_or_empty params ''base_url'' @ str_or_empty params ''path''))"

definition request_content :: "golib \<Rightarrow> gomap \<Rightarrow> string + string option" where
  "request_content G params = (case mget params ''body'' of
     None \<Rightarrow> Inr None
   | Some b \<Rightarrow> (case marshal G b of
       None \<Rightarrow> Inl (''http_request: encoding body: '' @ marshal_error G b)
     | Some t \<Rightarrow> Inr (Some t)))"

text \<open>\<open>Execute\<close> up to the exchange.\<close>

definition http_build :: "golib \<Rightarrow> 'w http_net \<Rightarrow> gomap \<Rightarrow> string + http_req" where
  "http_build G N params =
     (let method = (if str_or_empty params ''method'' = [] then ''GET'' else str_or_empty params ''method'');
          method = map upper_char method
      in try_then (request_url params) (\<lambda>url.
         try_then (request_content G params) (\<lambda>body.
           case hn_refused N method url of
             Some e \<Rightarrow> Inl (''http_request: creating request: '' @ e)
           | None \<Rightarrow>
               try_then (apply_headers G N (mget_nil params ''headers'')
                 (if body = None then [] else set_header ''Content-Type'' ''application/json'' [])) (\<lambda>hs.
               try_then (apply_basic_auth G (mget_nil params ''basic_auth'') hs) (\<lambda>hs.
               try_then (tls_config N params) (\<lambda>tls.
                 Inr \<lparr>hr_method = method, hr_url = url, hr_body = body, hr_headers = hs, hr_tls = tls\<rparr>))))))"

subsection \<open>Responses\<close>

definition status_code_value :: "golib \<Rightarrow> val \<Rightarrow> string + int" where
  "status_code_value G raw = (case raw of
     VInt i \<Rightarrow> Inr i
   | VFloat v \<Rightarrow>
       if f64_is_nan v \<or> f64_key v \<noteq> f64_key (f64_of_int (f64_trunc v))
       then Inl (''http_request: ignore_status contains non-integer status code '' @ fmt_float G v)
       else Inr (f64_trunc v)
   | VStr s \<Rightarrow> (case parse_int s of
       None \<Rightarrow> Inl (''http_request: ignore_status contains invalid status code '' @ quoted s)
     | Some c \<Rightarrow> Inr c)
   | _ \<Rightarrow> Inl (''http_request: ignore_status contains invalid status code '' @ sprint G raw))"

fun status_listed :: "golib \<Rightarrow> int \<Rightarrow> val list \<Rightarrow> string + bool" where
  "status_listed G status [] = Inr False"
| "status_listed G status (v # vs) = (case status_code_value G v of
     Inl e \<Rightarrow> Inl e
   | Inr c \<Rightarrow> if c = status then Inr True else status_listed G status vs)"

definition should_ignore_status :: "golib \<Rightarrow> int \<Rightarrow> val \<Rightarrow> string + bool" where
  "should_ignore_status G status raw = (case raw of
     VNil \<Rightarrow> Inr False
   | VBool b \<Rightarrow> Inr (b \<and> status \<ge> 400)
   | VList vs \<Rightarrow> status_listed G status vs
   | _ \<Rightarrow> Inl ''http_request: ignore_status must be a bool or list of status codes'')"

definition http_output :: "golib \<Rightarrow> int \<Rightarrow> string \<Rightarrow> gomap" where
  "http_output G status body =
     [(''body'', case unmarshal G body of Some v \<Rightarrow> v | None \<Rightarrow> VStr body), (''status_code'', VInt status)]"

definition http_finish :: "golib \<Rightarrow> gomap \<Rightarrow> int \<Rightarrow> string \<Rightarrow> exec_out" where
  "http_finish G params status body =
     exec_result (http_output G status body)
       (case should_ignore_status G status (mget_nil params ''ignore_status'') of
          Inl e \<Rightarrow> Some e
        | Inr skip \<Rightarrow> if status \<ge> 400 \<and> \<not> skip then Some (''http_request: status '' @ int_text status) else None)"

definition http_request :: "golib \<Rightarrow> 'w http_net \<Rightarrow> gomap \<Rightarrow> 'w \<Rightarrow> exec_out \<times> 'w" where
  "http_request G N params w = (case http_build G N params of
     Inl e \<Rightarrow> (exec_fails e, w)
   | Inr req \<Rightarrow> (case hn_do N req w of
       (Inl e, w) \<Rightarrow> (exec_fails (''http_request: '' @ e), w)
     | (Inr r, w) \<Rightarrow> (case hs_body r of
         Inl e \<Rightarrow> (exec_fails (''http_request: reading response: '' @ e), w)
       | Inr body \<Rightarrow> (http_finish G params (hs_status r) body, w))))"

subsection \<open>When a request fails the step\<close>

lemma status_listed_Inr: "\<forall>v\<in>set vs. \<exists>c. status_code_value G v = Inr c \<Longrightarrow>
    status_listed G status vs = Inr (\<exists>v\<in>set vs. status_code_value G v = Inr status)"
  by (induction vs) auto

text \<open>A response below 400 never fails the step; one from 400 on fails it unless \<open>ignore_status\<close> is true
  or lists its status. The output is there in both cases.\<close>

lemma http_status_decides:
  assumes "mget params ''ignore_status'' = Some (VList vs)" "\<forall>v\<in>set vs. \<exists>c. status_code_value G v = Inr c"
  shows "xo_error (http_finish G params status body) = None \<longleftrightarrow>
    status < 400 \<or> (\<exists>v\<in>set vs. status_code_value G v = Inr status)"
  using status_listed_Inr [OF assms(2), of status] assms(1)
  by (auto simp: http_finish_def exec_result_def mget_nil_def should_ignore_status_def)

lemma http_output_kept: "xo_output (http_finish G params status body) = Some (http_output G status body)"
  by (simp add: http_finish_def exec_result_def)

text \<open>A list of statuses is read up to the status of the response: what stands behind it is not checked.\<close>

lemma bad_status_unnoticed: "xo_error (http_finish sample_golib [(''ignore_status'', VList [VInt 404, VStr ''x''])] 404 []) = None"
  by (simp add: http_finish_def exec_result_def mget_nil_def mget_def should_ignore_status_def status_code_value_def)

subsection \<open>Credentials\<close>

text \<open>Basic credentials replace an \<open>Authorization\<close> header of the step, in whatever case it is written.\<close>

lemma canonical_authorization: "canonical_key ''authorization'' = canonical_key ''Authorization''"
  by code_simp

lemma basic_auth_header:
  assumes "raw \<noteq> VNil" "map_of (string_map G raw) ''username'' = Some u" "map_of (string_map G raw) ''password'' = Some p"
  shows "apply_basic_auth G raw hs = Inr (mput (canonical_key ''Authorization'') (''Basic '' @ base64 (u @ '':'' @ p)) hs)"
  using assms by (simp add: apply_basic_auth_def set_header_def)

text \<open>Base64 comes in groups of four characters.\<close>

lemma base64_length: "length (base64 s) = 4 * ((length s + 2) div 3)"
proof (induction s rule: base64.induct)
  case (4 a b c s)
  have "(length (a # b # c # s) + 2) div 3 = Suc ((length s + 2) div 3)"
    using div_add_self1 [of 3 "length s + 2"] by (simp add: add.commute)
  with 4 show ?case by (simp add: Let_def)
qed (simp_all add: Let_def)

end
