(* ===== verification/K8s_Jobs.thy ===== *)
theory K8s_Jobs
  imports Script_Exec Template_Values
begin

text \<open>
  The executors \<open>k8s_job\<close> and \<open>k8s_job_wait\<close> (\<open>pkg/executor/k8s_job.go\<close>): the manifest built from
  the parameters of a step, and the loop that polls a job every five seconds until it is over or
  the context ends. The cluster is the record \<open>kube\<close> on a world of any type; the parser of
  resource quantities is third-party code and a parameter. Maps are ranged over in the order \<open>ord\<close>.
\<close>

subsection \<open>Conversions\<close>

fun to_string_slice :: "golib \<Rightarrow> val \<Rightarrow> string list" where
  "to_string_slice G (VList vs) = map (sprint G) vs"
| "to_string_slice G (VStr s) = [s]"
| "to_string_slice G v = []"

text \<open>\<open>int32(v)\<close> keeps the low 32 bits.\<close>

definition wrap32 :: "int \<Rightarrow> int" where
  "wrap32 i = sint (word_of_int i :: 32 word)"

fun to_int32 :: "val \<Rightarrow> int" where
  "to_int32 (VInt i) = wrap32 i"
| "to_int32 (VFloat f) = wrap32 (f64_trunc f)"
| "to_int32 v = 0"

fun to_int64_default :: "val \<Rightarrow> int \<Rightarrow> int" where
  "to_int64_default (VInt i) d = i"
| "to_int64_default (VFloat f) d = f64_trunc f"
| "to_int64_default (VStr s) d = (case parse_int s of None \<Rightarrow> d | Some i \<Rightarrow> i)"
| "to_int64_default v d = d"

text \<open>\<open>strconv.ParseBool\<close>\<close>

definition parse_bool :: "string \<Rightarrow> bool option" where
  "parse_bool s = (if s \<in> {''1'', ''t'', ''T'', ''TRUE'', ''true'', ''True''} then Some True
     else if s \<in> {''0'', ''f'', ''F'', ''FALSE'', ''false'', ''False''} then Some False else None)"

fun to_bool_default :: "val \<Rightarrow> bool \<Rightarrow> bool" where
  "to_bool_default (VBool b) d = b"
| "to_bool_default (VStr s) d = (case parse_bool s of None \<Rightarrow> d | Some b \<Rightarrow> b)"
| "to_bool_default v d = d"

subsection \<open>The manifest\<close>

datatype volume_source = Claim string | Config_Map string | Secret string | Empty_Dir

record volume =
  vo_name :: string
  vo_source :: volume_source

record volume_mount =
  vm_name :: string
  vm_path :: string
  vm_read_only :: bool

record container =
  co_name :: string
  co_image :: string
  co_pull_policy :: string
  co_command :: "string list"
  co_args :: "string list"
  co_env :: "(string \<times> string) list"
  co_env_from :: "string list"
  co_mounts :: "volume_mount list"
  co_requests :: "(string \<times> string) list option"
  co_limits :: "(string \<times> string) list option"

record job =
  jb_name :: string
  jb_labels :: "(string \<times> string) list"
  jb_backoff_limit :: int
  jb_ttl :: int
  jb_service_account :: string
  jb_init_containers :: "container list"
  jb_container :: container
  jb_volumes :: "volume list"
  jb_affinity :: "(string \<times> (string \<times> string) list) option"

definition list_param :: "gomap \<Rightarrow> string \<Rightarrow> val list" where
  "list_param params name = (case mget params name of Some (VList vs) \<Rightarrow> vs | _ \<Rightarrow> [])"

definition map_param :: "gomap \<Rightarrow> string \<Rightarrow> gomap option" where
  "map_param params name = (case mget params name of Some (VMap m) \<Rightarrow> Some m | _ \<Rightarrow> None)"

definition build_volume :: "gomap \<Rightarrow> volume" where
  "build_volume v = \<lparr>vo_name = str_or_empty v ''name'', vo_source =
     (if mget_nil v ''pvc'' \<noteq> VNil then Claim (str_or_empty v ''pvc'')
      else if mget_nil v ''config_map'' \<noteq> VNil then Config_Map (str_or_empty v ''config_map'')
      else if mget_nil v ''secret'' \<noteq> VNil then Secret (str_or_empty v ''secret'')
      else Empty_Dir)\<rparr>"

definition volume_mount :: "gomap \<Rightarrow> volume_mount list" where
  "volume_mount v = (if str_or_empty v ''mount'' = [] then []
     else [\<lparr>vm_name = str_or_empty v ''name'', vm_path = str_or_empty v ''mount'',
            vm_read_only = (mget v ''read_only'' = Some (VBool True))\<rparr>])"

text \<open>The entries of a list that are maps and satisfy a test.\<close>

definition map_items :: "(gomap \<Rightarrow> bool) \<Rightarrow> val list \<Rightarrow> gomap list" where
  "map_items P vs = filter P (List.map_filter as_map vs)"

definition build_volumes :: "gomap \<Rightarrow> volume list \<times> volume_mount list" where
  "build_volumes params =
     (let items = map_items (\<lambda>v. str_or_empty v ''name'' \<noteq> []) (list_param params ''volumes'')
      in (map build_volume items, concat (map volume_mount items)))"

definition build_env_vars :: "golib \<Rightarrow> (gomap \<Rightarrow> gomap) \<Rightarrow> gomap \<Rightarrow> (string \<times> string) list" where
  "build_env_vars G ord params = (case map_param params ''env'' of
     None \<Rightarrow> [] | Some m \<Rightarrow> map (\<lambda>(k, v). (k, sprint G v)) (ord m))"

definition build_env_from :: "gomap \<Rightarrow> string list" where
  "build_env_from params = List.map_filter as_string (list_param params ''secrets'')"

definition container_mounts :: "gomap \<Rightarrow> volume_mount list" where
  "container_mounts c = map (\<lambda>v. \<lparr>vm_name = str_or_empty v ''name'', vm_path = str_or_empty v ''mount_path'', vm_read_only = False\<rparr>)
     (map_items (\<lambda>v. str_or_empty v ''name'' \<noteq> [] \<and> str_or_empty v ''mount_path'' \<noteq> []) (list_param c ''volume_mounts''))"

definition pull_policy :: "gomap \<Rightarrow> string" where
  "pull_policy params = (case mget params ''image_pull_policy'' of Some (VStr p) \<Rightarrow> p | _ \<Rightarrow> ''IfNotPresent'')"

definition init_container :: "golib \<Rightarrow> gomap \<Rightarrow> container" where
  "init_container G c = \<lparr>co_name = str_or_empty c ''name'', co_image = str_or_empty c ''image'', co_pull_policy = pull_policy c,
     co_command = to_string_slice G (mget_nil c ''command''), co_args = to_string_slice G (mget_nil c ''args''),
     co_env = [], co_env_from = [], co_mounts = container_mounts c, co_requests = None, co_limits = None\<rparr>"

definition build_init_containers :: "golib \<Rightarrow> gomap \<Rightarrow> container list" where
  "build_init_containers G params = map (init_container G)
     (map_items (\<lambda>c. str_or_empty c ''name'' \<noteq> [] \<and> str_or_empty c ''image'' \<noteq> []) (list_param params ''init_containers''))"

definition to_resource_list :: "golib \<Rightarrow> (string \<Rightarrow> string option) \<Rightarrow> gomap \<Rightarrow> (string \<times> string) list" where
  "to_resource_list G quantity m = List.map_filter (\<lambda>(k, v). map_option (Pair k) (quantity (sprint G v))) m"

definition build_resources ::
  "golib \<Rightarrow> (string \<Rightarrow> string option) \<Rightarrow> gomap \<Rightarrow> (string \<times> string) list option \<times> (string \<times> string) list option" where
  "build_resources G quantity params = (case map_param params ''resources'' of
     None \<Rightarrow> (None, None)
   | Some res \<Rightarrow> (map_option (to_resource_list G quantity) (map_param res ''requests''),
       map_option (to_resource_list G quantity) (map_param res ''limits'')))"

definition build_affinity :: "golib \<Rightarrow> gomap \<Rightarrow> (string \<times> (string \<times> string) list) option" where
  "build_affinity G params =
     Option.bind (map_param params ''affinity'') (\<lambda>aff.
     Option.bind (map_param aff ''pod_affinity'') (\<lambda>pod.
     Option.bind (map_param pod ''required'') (\<lambda>required.
     Option.bind (map_param required ''match_labels'') (\<lambda>labels.
       Some (str_or_empty required ''topology_key'', map (\<lambda>(k, v). (k, sprint G v)) labels)))))"

definition build_job :: "golib \<Rightarrow> (gomap \<Rightarrow> gomap) \<Rightarrow> (string \<Rightarrow> string option) \<Rightarrow> gomap \<Rightarrow> string + job" where
  "build_job G ord quantity params =
     (if str_or_empty params ''_job_name'' = [] then Inl ''_job_name is required''
      else if str_or_empty params ''image'' = [] then Inl ''image is required''
      else
        let (volumes, mounts) = build_volumes params;
            (requests, limits) = build_resources G quantity params
        in Inr \<lparr>jb_name = str_or_empty params ''_job_name'',
             jb_labels = (case mget params ''_labels'' of Some (VSMap m) \<Rightarrow> m | _ \<Rightarrow> []),
             jb_backoff_limit = (case mget params ''backoff_limit'' of None \<Rightarrow> 0 | Some v \<Rightarrow> to_int32 v),
             jb_ttl = (case mget params ''ttl_seconds'' of None \<Rightarrow> 86400 | Some v \<Rightarrow> to_int32 v),
             jb_service_account = str_or_empty params ''service_account'',
             jb_init_containers = build_init_containers G params,
             jb_container = \<lparr>co_name = ''worker'', co_image = str_or_empty params ''image'', co_pull_policy = pull_policy params,
               co_command = to_string_slice G (mget_nil params ''command''),
               co_args = to_string_slice G (mget_nil params ''args''), co_env = build_env_vars G ord params,
               co_env_from = build_env_from params, co_mounts = mounts, co_requests = requests, co_limits = limits\<rparr>,
             jb_volumes = volumes, jb_affinity = build_affinity G params\<rparr>)"

subsection \<open>The cluster\<close>

datatype get_error = Not_Found string | Get_Failed string

record condition =
  cd_type :: string
  cd_true :: bool
  cd_message :: string

text \<open>Creating a job, reading its conditions, waiting for the next poll (an error when the context has
  ended), listing the pods of a job, and reading a pod's log up to a limit.\<close>

record 'w kube =
  ku_create :: "string \<Rightarrow> job \<Rightarrow> 'w \<Rightarrow> (string + string) \<times> 'w"
  ku_get :: "string \<Rightarrow> string \<Rightarrow> 'w \<Rightarrow> (get_error + condition list) \<times> 'w"
  ku_tick :: "'w \<Rightarrow> string option \<times> 'w"
  ku_pods :: "string \<Rightarrow> string \<Rightarrow> 'w \<Rightarrow> string list option \<times> 'w"
  ku_log :: "string \<Rightarrow> string \<Rightarrow> int \<Rightarrow> 'w \<Rightarrow> string option \<times> 'w"
  ku_deadline :: "int \<Rightarrow> 'w \<Rightarrow> 'w"
  ku_quantity :: "string \<Rightarrow> string option"

record job_status =
  jt_status :: string
  jt_done :: bool
  jt_error :: "string option"

fun conditions_status :: "string \<Rightarrow> condition list \<Rightarrow> job_status" where
  "conditions_status name [] = \<lparr>jt_status = ''running'', jt_done = False, jt_error = None\<rparr>"
| "conditions_status name (c # cs) =
     (if cd_type c = ''Complete'' \<and> cd_true c then \<lparr>jt_status = ''completed'', jt_done = True, jt_error = None\<rparr>
      else if cd_type c = ''Failed'' \<and> cd_true c
      then \<lparr>jt_status = ''failed'', jt_done = True, jt_error = Some (''job '' @ name @ '' failed: '' @ cd_message c)\<rparr>
      else conditions_status name cs)"

definition check_job_status :: "'w kube \<Rightarrow> string \<Rightarrow> string \<Rightarrow> bool \<Rightarrow> 'w \<Rightarrow> job_status \<times> 'w" where
  "check_job_status K ns name wait_for_create w = (case ku_get K ns name w of
     (Inl (Not_Found e), w) \<Rightarrow>
       (if wait_for_create then \<lparr>jt_status = ''pending'', jt_done = False, jt_error = None\<rparr>
        else \<lparr>jt_status = ''pending'', jt_done = True, jt_error = Some (''polling job status: '' @ e)\<rparr>, w)
   | (Inl (Get_Failed e), w) \<Rightarrow>
       (\<lparr>jt_status = ''pending'', jt_done = True, jt_error = Some (''polling job status: '' @ e)\<rparr>, w)
   | (Inr cs, w) \<Rightarrow> (conditions_status name cs, w))"

partial_function (option) wait_for_job ::
  "'w kube \<Rightarrow> string \<Rightarrow> string \<Rightarrow> bool \<Rightarrow> 'w \<Rightarrow> ((string \<times> string option) \<times> 'w) option" where
  "wait_for_job K ns name wait_for_create w =
     (case check_job_status K ns name wait_for_create w of (st, w) \<Rightarrow>
        if jt_done st \<or> jt_error st \<noteq> None then Some ((jt_status st, jt_error st), w)
        else (case ku_tick K w of
            (Some e, w) \<Rightarrow> Some ((jt_status st, Some e), w)
          | (None, w) \<Rightarrow> wait_for_job K ns name wait_for_create w))"

definition max_log_bytes :: int where "max_log_bytes = 64 * 1024"

definition job_pod_logs :: "'w kube \<Rightarrow> string \<Rightarrow> string \<Rightarrow> int \<Rightarrow> 'w \<Rightarrow> string \<times> 'w" where
  "job_pod_logs K ns name limit w =
     (let limit = (if limit \<le> 0 then max_log_bytes else limit) in
      case ku_pods K ns (''job-name='' @ name) w of
        (Some (p # ps), w) \<Rightarrow> (case ku_log K ns p limit w of
            (Some t, w) \<Rightarrow> (t, w) | (None, w) \<Rightarrow> ([], w))
      | (_, w) \<Rightarrow> ([], w))"

definition job_namespace :: "string \<Rightarrow> gomap \<Rightarrow> string" where
  "job_namespace ns params = (if str_or_empty params ''namespace'' \<noteq> [] then str_or_empty params ''namespace'' else ns)"

definition with_logs :: "string \<Rightarrow> gomap \<Rightarrow> gomap" where
  "with_logs logs out = (if logs = [] then out else mput ''logs'' (VStr logs) out)"

definition k8s_job :: "golib \<Rightarrow> (gomap \<Rightarrow> gomap) \<Rightarrow> 'w kube \<Rightarrow> string \<Rightarrow> gomap \<Rightarrow> 'w \<Rightarrow> (exec_out \<times> 'w) option" where
  "k8s_job G ord K ns params w = (case build_job G ord (ku_quantity K) params of
     Inl e \<Rightarrow> Some (exec_fails (''k8s_job: building manifest: '' @ e), w)
   | Inr spec \<Rightarrow>
       let ns = job_namespace ns params in
       (case ku_create K ns spec w of
          (Inl e, w) \<Rightarrow> Some (exec_fails (''k8s_job: creating job: '' @ e), w)
        | (Inr name, w) \<Rightarrow> map_option (\<lambda>((status, err), w).
            let (logs, w) = job_pod_logs K ns name max_log_bytes w
            in (\<lparr>xo_output = Some (with_logs logs [(''job_name'', VStr name), (''namespace'', VStr ns)]),
                 xo_error = map_option (\<lambda>e. ''k8s_job: '' @ e) err, xo_notices = [JobMade name ns]\<rparr>, w))
            (wait_for_job K ns name False w)))"

definition k8s_job_wait :: "'w kube \<Rightarrow> string \<Rightarrow> gomap \<Rightarrow> 'w \<Rightarrow> (exec_out \<times> 'w) option" where
  "k8s_job_wait K ns params w =
     (let name = str_or_empty params ''job_name''; ns = job_namespace ns params;
          seconds = to_int64_default (mget_nil params ''timeout'') 3600;
          waiting = (if seconds > 0 then ku_deadline K seconds w else w)
      in if name = [] then Some (exec_fails ''k8s_job_wait: job_name is required'', w)
         else map_option (\<lambda>((status, err), w).
           let (logs, w) = (if to_bool_default (mget_nil params ''tail_logs'') True
                 then job_pod_logs K ns name (to_int64_default (mget_nil params ''log_bytes'') max_log_bytes) w else ([], w))
           in (exec_result (with_logs logs [(''job_name'', VStr name), (''namespace'', VStr ns), (''status'', VStr status)])
                 (map_option (\<lambda>e. ''k8s_job_wait: '' @ e) err), w))
           (wait_for_job K ns name True waiting))"

subsection \<open>Manifests\<close>

text \<open>What the worker mounts is a volume of the pod; for init containers nothing checks it.\<close>

lemma job_mounts_declared:
  assumes "build_job G ord quantity params = Inr j" "m \<in> set (co_mounts (jb_container j))"
  shows "vm_name m \<in> vo_name ` set (jb_volumes j)"
proof -
  from assms have m: "m \<in> set (snd (build_volumes params))" and j: "jb_volumes j = fst (build_volumes params)"
    by (auto simp: build_job_def split: if_splits prod.splits)
  from m obtain v where v: "v \<in> set (map_items (\<lambda>v. str_or_empty v ''name'' \<noteq> []) (list_param params ''volumes''))"
      "m \<in> set (volume_mount v)"
    by (auto simp: build_volumes_def Let_def)
  from v(2) have "vm_name m = vo_name (build_volume v)"
    by (auto simp: volume_mount_def build_volume_def split: if_splits)
  with v(1) show ?thesis by (auto simp: j build_volumes_def Let_def)
qed

lemma init_mount_dangles:
  "vm_name ` set (container_mounts [(''volume_mounts'', VList [VMap [(''mount_path'', VStr ''/x''), (''name'', VStr ''gone'')]])]) = {''gone''}"
  by (simp add: container_mounts_def map_items_def list_param_def mget_def map_filter_simps str_or_empty_def)

text \<open>Limits are 32-bit: a larger number comes out as another one, and may be negative.\<close>

lemma to_int32_range: "- (2 ^ 31) \<le> to_int32 v \<and> to_int32 v < 2 ^ 31"
  using sint_greater_eq [where ?'a = 32] sint_less [where ?'a = 32]
  by (cases v) (auto simp: wrap32_def)

lemma to_int32_wraps: "to_int32 (VInt 2147483648) = - 2147483648"
  by code_simp

subsection \<open>Waiting\<close>

text \<open>What the API says of a job, in its own terms. An answer settles nothing while the job may still be created or has no true
  condition of an end.\<close>

definition ending_condition :: "condition \<Rightarrow> bool" where
  "ending_condition c \<longleftrightarrow> cd_true c \<and> cd_type c \<in> {''Complete'', ''Failed''}"

definition settles_nothing :: "bool \<Rightarrow> get_error + condition list \<Rightarrow> bool" where
  "settles_nothing wait_for_create answer \<longleftrightarrow> (case answer of
     Inl (Not_Found e) \<Rightarrow> wait_for_create
   | Inl (Get_Failed e) \<Rightarrow> False
   | Inr cs \<Rightarrow> \<forall>c\<in>set cs. \<not> ending_condition c)"

text \<open>One poll that settles nothing, and the wait of five seconds after it.\<close>

definition poll_again :: "'w kube \<Rightarrow> string \<Rightarrow> string \<Rightarrow> bool \<Rightarrow> 'w \<Rightarrow> 'w \<Rightarrow> bool" where
  "poll_again K ns name wait_for_create w w1 \<longleftrightarrow> (\<exists>answer v. ku_get K ns name w = (answer, v) \<and>
     settles_nothing wait_for_create answer \<and> ku_tick K v = (None, w1))"

text \<open>The poll that ends the wait: the first condition of an end decides; an error other than the job not being there yet;
  the end of the context after a poll that settled nothing.\<close>

inductive job_verdict :: "'w kube \<Rightarrow> string \<Rightarrow> string \<Rightarrow> bool \<Rightarrow> 'w \<Rightarrow> string \<Rightarrow> string option \<Rightarrow> 'w \<Rightarrow> bool"
  for K ns name wait_for_create w where
  complete: "ku_get K ns name w = (Inr (before @ c # after), w') \<Longrightarrow> \<forall>b\<in>set before. \<not> ending_condition b \<Longrightarrow>
     cd_true c \<Longrightarrow> cd_type c = ''Complete'' \<Longrightarrow> job_verdict K ns name wait_for_create w ''completed'' None w'"
| failed: "ku_get K ns name w = (Inr (before @ c # after), w') \<Longrightarrow> \<forall>b\<in>set before. \<not> ending_condition b \<Longrightarrow>
     cd_true c \<Longrightarrow> cd_type c = ''Failed'' \<Longrightarrow>
     job_verdict K ns name wait_for_create w ''failed'' (Some (''job '' @ name @ '' failed: '' @ cd_message c)) w'"
| unread: "ku_get K ns name w = (Inl e, w') \<Longrightarrow> \<not> settles_nothing wait_for_create (Inl e) \<Longrightarrow>
     msg = (case e of Not_Found t \<Rightarrow> t | Get_Failed t \<Rightarrow> t) \<Longrightarrow>
     job_verdict K ns name wait_for_create w ''pending'' (Some (''polling job status: '' @ msg)) w'"
| stopped: "ku_get K ns name w = (answer, v) \<Longrightarrow> settles_nothing wait_for_create answer \<Longrightarrow> ku_tick K v = (Some e, w') \<Longrightarrow>
     status = (case answer of Inl x \<Rightarrow> ''pending'' | Inr cs \<Rightarrow> ''running'') \<Longrightarrow>
     job_verdict K ns name wait_for_create w status (Some e) w'"

lemma conditions_running:
  "\<forall>c\<in>set cs. \<not> ending_condition c \<Longrightarrow> conditions_status name cs = \<lparr>jt_status = ''running'', jt_done = False, jt_error = None\<rparr>"
  by (induction cs) (auto simp: ending_condition_def)

lemma conditions_first:
  "\<forall>b\<in>set before. \<not> ending_condition b \<Longrightarrow> ending_condition c \<Longrightarrow> conditions_status name (before @ c # after) =
     (if cd_type c = ''Complete'' then \<lparr>jt_status = ''completed'', jt_done = True, jt_error = None\<rparr>
      else \<lparr>jt_status = ''failed'', jt_done = True, jt_error = Some (''job '' @ name @ '' failed: '' @ cd_message c)\<rparr>)"
  by (induction before) (auto simp: ending_condition_def)

lemma first_ending:
  assumes "\<not> (\<forall>c\<in>set cs. \<not> ending_condition c)"
  obtains before c after where "cs = before @ c # after" "\<forall>b\<in>set before. \<not> ending_condition b" "ending_condition c"
  using assms split_list_first_propE [of cs ending_condition] by (metis (no_types, lifting))

lemma check_settles_nothing:
  assumes "ku_get K ns name w = (answer, v)" "settles_nothing wfc answer"
  shows "check_job_status K ns name wfc w =
    (\<lparr>jt_status = (case answer of Inl x \<Rightarrow> ''pending'' | Inr cs \<Rightarrow> ''running''), jt_done = False, jt_error = None\<rparr>, v)"
proof (cases answer)
  case (Inl e)
  then show ?thesis using assms by (cases e) (simp_all add: check_job_status_def settles_nothing_def)
next
  case (Inr cs)
  then show ?thesis using assms by (simp add: check_job_status_def settles_nothing_def conditions_running)
qed

lemma poll_again_wait: "poll_again K ns name wfc w w1 \<Longrightarrow> wait_for_job K ns name wfc w = wait_for_job K ns name wfc w1"
  by (subst wait_for_job.simps) (auto simp: poll_again_def check_settles_nothing)

lemma job_verdict_check:
  "job_verdict K ns name wfc w status err w' \<Longrightarrow>
     (\<exists>st. check_job_status K ns name wfc w = (st, w') \<and> (jt_done st \<or> jt_error st \<noteq> None) \<and> status = jt_status st \<and> err = jt_error st) \<or>
     (\<exists>st v e. check_job_status K ns name wfc w = (st, v) \<and> \<not> jt_done st \<and> jt_error st = None \<and>
        ku_tick K v = (Some e, w') \<and> status = jt_status st \<and> err = Some e)"
proof (induction rule: job_verdict.induct)
  case (complete before c after w')
  then show ?case by (simp add: check_job_status_def conditions_first ending_condition_def)
next
  case (failed before c after w')
  then show ?case by (simp add: check_job_status_def conditions_first ending_condition_def)
next
  case (unread e w' msg)
  then show ?case by (cases e) (simp_all add: check_job_status_def settles_nothing_def)
next
  case (stopped answer v e w' status)
  then show ?case by (simp add: check_settles_nothing)
qed

lemma job_verdict_wait: "job_verdict K ns name wfc w status err w' \<Longrightarrow> wait_for_job K ns name wfc w = Some ((status, err), w')"
  by (subst wait_for_job.simps) (auto dest: job_verdict_check)

text \<open>Every poll ends the wait or is followed by another.\<close>

lemma poll_cases:
  obtains (again) w1 where "poll_again K ns name wfc w w1" | (verdict) status err w' where "job_verdict K ns name wfc w status err w'"
proof -
  obtain answer v where get: "ku_get K ns name w = (answer, v)" by fastforce
  show thesis
  proof (cases "settles_nothing wfc answer")
    case True
    obtain e w1 where "ku_tick K v = (e, w1)" by fastforce
    with get True show thesis
      by (cases e) (auto simp: poll_again_def intro: again verdict job_verdict.stopped)
  next
    case False
    show thesis
    proof (cases answer)
      case (Inl e)
      with get False show thesis by (auto intro: verdict job_verdict.unread)
    next
      case (Inr cs)
      with False have "\<not> (\<forall>c\<in>set cs. \<not> ending_condition c)" by (simp add: settles_nothing_def)
      then obtain before c after where c: "cs = before @ c # after" "\<forall>b\<in>set before. \<not> ending_condition b" "ending_condition c"
        by (rule first_ending)
      show thesis
      proof (cases "cd_type c = ''Complete''")
        case True
        have "job_verdict K ns name wfc w ''completed'' None v"
          by (rule job_verdict.complete [where before = before and c = c and after = after])
            (use c get Inr True in \<open>simp_all add: ending_condition_def\<close>)
        then show thesis by (rule verdict)
      next
        case False
        have "job_verdict K ns name wfc w ''failed'' (Some (''job '' @ name @ '' failed: '' @ cd_message c)) v"
          by (rule job_verdict.failed [where before = before and after = after])
            (use c get Inr False in \<open>simp_all add: ending_condition_def\<close>)
        then show thesis by (rule verdict)
      qed
    qed
  qed
qed

lemma wait_verdict: "wait_for_job K ns name wfc w = Some r \<Longrightarrow>
    \<exists>w1. (poll_again K ns name wfc)\<^sup>*\<^sup>* w w1 \<and> job_verdict K ns name wfc w1 (fst (fst r)) (snd (fst r)) (snd r)"
proof (rule wait_for_job.raw_induct [where P = "\<lambda>K ns name wfc w r.
    \<exists>w1. (poll_again K ns name wfc)\<^sup>*\<^sup>* w w1 \<and> job_verdict K ns name wfc w1 (fst (fst r)) (snd (fst r)) (snd r)"])
  fix wait :: "'w kube \<Rightarrow> string \<Rightarrow> string \<Rightarrow> bool \<Rightarrow> 'w \<Rightarrow> ((string \<times> string option) \<times> 'w) option"
  fix K :: "'w kube" and ns name wfc w r
  let ?step = "\<lambda>wait. case check_job_status K ns name wfc w of (st, w) \<Rightarrow>
        if jt_done st \<or> jt_error st \<noteq> None then Some ((jt_status st, jt_error st), w)
        else (case ku_tick K w of (Some e, w) \<Rightarrow> Some ((jt_status st, Some e), w) | (None, w) \<Rightarrow> wait K ns name wfc w)"
  assume IH: "\<And>K ns name wfc w r. wait K ns name wfc w = Some r \<Longrightarrow>
      \<exists>w1. (poll_again K ns name wfc)\<^sup>*\<^sup>* w w1 \<and> job_verdict K ns name wfc w1 (fst (fst r)) (snd (fst r)) (snd r)"
    and step: "?step wait = Some r"
  show "\<exists>w1. (poll_again K ns name wfc)\<^sup>*\<^sup>* w w1 \<and> job_verdict K ns name wfc w1 (fst (fst r)) (snd (fst r)) (snd r)"
  proof (cases rule: poll_cases [of K ns name wfc w])
    case (again w1)
    then have "wait K ns name wfc w1 = Some r"
      using step by (auto simp: poll_again_def check_settles_nothing)
    with IH again show ?thesis by (meson converse_rtranclp_into_rtranclp)
  next
    case (verdict status err w')
    then have "?step wait = Some ((status, err), w')"
      using job_verdict_check [OF verdict] by auto
    with step verdict show ?thesis by (intro exI [of _ w]) simp
  qed
qed

text \<open>C37. Waiting for a job returns exactly when, after polls that settle nothing, a poll decides, and then with its verdict,
  in the terms of the API: the first true condition \<open>Complete\<close> or \<open>Failed\<close> of the job says completed or failed with its
  message; a job that cannot be read is an error, except one that is not there yet when the wait is for its creation; and
  the end of the context is an error with the last status. Waiting goes on for ever only if no poll ever decides.\<close>

theorem job_wait_first_verdict:
  "wait_for_job K ns name wfc w = Some ((status, err), w') \<longleftrightarrow>
     (\<exists>w1. (poll_again K ns name wfc)\<^sup>*\<^sup>* w w1 \<and> job_verdict K ns name wfc w1 status err w')"
proof
  assume "wait_for_job K ns name wfc w = Some ((status, err), w')"
  from wait_verdict [OF this] show "\<exists>w1. (poll_again K ns name wfc)\<^sup>*\<^sup>* w w1 \<and> job_verdict K ns name wfc w1 status err w'" by simp
next
  assume "\<exists>w1. (poll_again K ns name wfc)\<^sup>*\<^sup>* w w1 \<and> job_verdict K ns name wfc w1 status err w'"
  then obtain w1 where "(poll_again K ns name wfc)\<^sup>*\<^sup>* w w1" "job_verdict K ns name wfc w1 status err w'" by blast
  then show "wait_for_job K ns name wfc w = Some ((status, err), w')"
    by (induction rule: converse_rtranclp_induct) (simp_all add: job_verdict_wait poll_again_wait)
qed

text \<open>A job step succeeds only if the cluster reported the job as complete.\<close>

lemma job_success_complete:
  assumes "wait_for_job K ns name wfc w = Some ((status, None), w')"
  shows "status = ''completed'' \<and> (\<exists>w1 cs. ku_get K ns name w1 = (Inr cs, w') \<and> (\<exists>c\<in>set cs. cd_type c = ''Complete'' \<and> cd_true c))"
proof -
  from wait_verdict [OF assms] obtain w1 where "job_verdict K ns name wfc w1 status None w'" by auto
  then show ?thesis by (cases rule: job_verdict.cases) (auto, force)
qed

end
