(* ===== verification/Callbacks.thy ===== *)
theory Callbacks
  imports Engine_Base
begin

text \<open>
  The destinations of events (\<open>pkg/callback/parse.go\<close>, \<open>http.go\<close>, \<open>jsonl.go\<close>, \<open>grpc.go\<close>): how a
  URL is read, the repeated attempts of the HTTP callback with its queue of events, the file of
  JSON lines, and the transport of the gRPC callback. Opening a file, reading a certificate and
  the exchanges are parameters. The queue is a step relation between the goroutines that send
  events and the one that posts them.
\<close>

subsection \<open>Callback URLs\<close>

datatype callback =
    Jsonl string
  | Http string "(string \<times> string) list" nat
  | Grpc string "string option"

text \<open>Opening a file to append to, reading a certificate, and dialling; each with an error or none.\<close>

record callback_io =
  ci_open :: "string \<Rightarrow> string option"
  ci_cert :: "string \<Rightarrow> string option"
  ci_dial :: "string \<Rightarrow> string option"

definition new_jsonl :: "callback_io \<Rightarrow> string \<Rightarrow> string + callback" where
  "new_jsonl I path = (case ci_open I path of
     Some e \<Rightarrow> Inl (''opening callback file: '' @ e)
   | None \<Rightarrow> Inr (Jsonl path))"

definition buffer_size :: "int \<Rightarrow> nat" where
  "buffer_size n = (if n \<le> 0 then 1000 else nat n)"

text \<open>The credentials of a connection: with a certificate TLS with that root, and without one none,
  whether \<open>insecure\<close> is set or not.\<close>

definition new_grpc :: "callback_io \<Rightarrow> string \<Rightarrow> bool \<Rightarrow> string \<Rightarrow> string + callback" where
  "new_grpc I addr insecure cert =
     (case (if cert \<noteq> [] then ci_cert I cert else None) of
        Some e \<Rightarrow> Inl (''reading TLS cert: '' @ e)
      | None \<Rightarrow>
          let root = (if cert \<noteq> [] then Some cert else if insecure then None else None)
          in case ci_dial I addr of
               Some e \<Rightarrow> Inl (''connecting to gRPC callback server: '' @ e)
             | None \<Rightarrow> Inr (Grpc addr root))"

definition parse_callback_url ::
  "golib \<Rightarrow> callback_io \<Rightarrow> string \<Rightarrow> (string \<times> string) list \<Rightarrow> int \<Rightarrow> bool \<Rightarrow> string \<Rightarrow> string + callback" where
  "parse_callback_url G I raw headers buffer insecure cert =
     (if has_prefix raw ''jsonl://'' then
        let path = trim_prefix raw ''jsonl://'' in
        if path = [] then Inl ''jsonl callback requires a file path: jsonl:///path/to/file.jsonl'' else new_jsonl I path
      else if has_prefix raw ''http://'' \<or> has_prefix raw ''https://'' then
        (case url_parse G raw of
           None \<Rightarrow> Inl ''invalid HTTP callback URL''
         | Some u \<Rightarrow> Inr (Http raw headers (buffer_size buffer)))
      else if has_prefix raw ''grpc://'' \<or> has_prefix raw ''grpcs://'' then
        let tls = has_prefix raw ''grpcs://'';
            addr = (if tls then trim_prefix raw ''grpcs://'' else trim_prefix raw ''grpc://'')
        in if addr = [] then Inl ''gRPC callback requires an address: grpc://host:port''
           else let insecure = (if tls \<and> cert = [] \<and> \<not> insecure then True else insecure)
                in new_grpc I addr (\<not> tls \<or> insecure) cert
      else Inl (''unsupported callback scheme in '' @ quoted raw
             @ '' (supported: jsonl://, http://, https://, grpc://, grpcs://)''))"

text \<open>Without a certificate file a \<open>grpcs\<close> connection is not encrypted.\<close>

lemma grpcs_without_cert_plain:
  assumes "ci_dial I addr = None" "addr \<noteq> []"
  shows "parse_callback_url G I (''grpcs://'' @ addr) headers buffer insecure [] = Inr (Grpc addr None)"
  using assms trim_prefix_append [of "''grpcs://''" addr]
  by (simp add: parse_callback_url_def new_grpc_def Let_def)

lemma parse_callback_url_scheme:
  "parse_callback_url G I raw headers buffer insecure cert = Inr cb \<Longrightarrow>
     (case cb of Jsonl path \<Rightarrow> raw = ''jsonl://'' @ path \<and> path \<noteq> []
      | Http u hs n \<Rightarrow> u = raw \<and> hs = headers \<and> 0 < n
      | Grpc addr root \<Rightarrow> raw \<in> {''grpc://'' @ addr, ''grpcs://'' @ addr} \<and> addr \<noteq> [])"
  by (auto simp: parse_callback_url_def new_jsonl_def new_grpc_def Let_def buffer_size_def has_prefix_iff trim_prefix_def
      split: if_splits option.splits)

subsection \<open>Posting an event\<close>

datatype delivery = Delivered | Dropped | Rejected int

definition backoff_ms :: "nat \<Rightarrow> nat" where
  "backoff_ms attempt = [0, 200, 400] ! attempt"

text \<open>\<open>n\<close> attempts are left of three. The exchange gives an error or a status; the result says how often
  the event was posted and how long the loop slept, in milliseconds.\<close>

primrec send_with_retry :: "nat \<Rightarrow> ('w \<Rightarrow> (string + int) \<times> 'w) \<Rightarrow> 'w \<Rightarrow> (delivery \<times> nat \<times> nat) \<times> 'w" where
  "send_with_retry 0 post w = ((Dropped, 0, 0), w)"
| "send_with_retry (Suc n) post w =
     (let slept = backoff_ms (2 - n);
          again = (\<lambda>w. case send_with_retry n post w of ((d, k, ms), w) \<Rightarrow> ((d, Suc k, slept + ms), w))
      in case post w of
        (Inl e, w) \<Rightarrow> again w
      | (Inr status, w) \<Rightarrow>
          if 200 \<le> status \<and> status < 300 then ((Delivered, 1, slept), w)
          else if status \<ge> 500 then again w
          else ((Rejected status, 1, slept), w))"

lemma send_with_retry_bounds:
  "send_with_retry n post w = ((d, k, ms), w') \<Longrightarrow> k \<le> n \<and> ms \<le> (\<Sum>i<n. backoff_ms (2 - i)) \<and> (0 < n \<longrightarrow> 0 < k)"
proof (induction n arbitrary: w d k ms)
  case (Suc n)
  obtain r w1 where p: "post w = (r, w1)" by (cases "post w")
  obtain d' k' ms' w2 where q: "send_with_retry n post w1 = ((d', k', ms'), w2)"
    by (metis prod.collapse)
  show ?case
  proof (cases r)
    case (Inl e)
    with Suc.prems p q have "k = Suc k'" "ms = backoff_ms (2 - n) + ms'" "w2 = w'" by (auto simp: Let_def)
    with Suc.IH [of w1 d' k' ms'] q show ?thesis by simp
  next
    case (Inr status)
    show ?thesis
    proof (cases "\<not> (200 \<le> status \<and> status < 300) \<and> status \<ge> 500")
      case True
      with Inr Suc.prems p q have "k = Suc k'" "ms = backoff_ms (2 - n) + ms'" "w2 = w'" by (auto simp: Let_def)
      with Suc.IH [of w1 d' k' ms'] q show ?thesis by simp
    next
      case False
      with Inr Suc.prems p have "k = 1" "ms = backoff_ms (2 - n)" by (auto simp: Let_def split: if_splits)
      then show ?thesis by simp
    qed
  qed
qed simp

text \<open>An event is posted at most three times, within 600 milliseconds of sleep.\<close>

lemma send_three_times: "send_with_retry 3 post w = ((d, k, ms), w') \<Longrightarrow> 1 \<le> k \<and> k \<le> 3 \<and> ms \<le> 600"
  using send_with_retry_bounds [of 3 post w d k ms w'] by (simp add: eval_nat_numeral backoff_ms_def)

text \<open>A server that keeps failing drops the event; a client error is not repeated.\<close>

lemma client_error_once: "post w = (Inr 404, w1) \<Longrightarrow> send_with_retry 3 post w = ((Rejected 404, 1, 0), w1)"
  by (simp add: eval_nat_numeral backoff_ms_def)

text \<open>What becomes of an event, by the answers to its attempts.\<close>

fun outcome :: "(string + int) list \<Rightarrow> delivery" where
  "outcome [] = Dropped"
| "outcome (Inl e # as) = outcome as"
| "outcome (Inr status # as) =
     (if 200 \<le> status \<and> status < 300 then Delivered else if status \<ge> 500 then outcome as else Rejected status)"

definition next_answer :: "(string + int) list \<Rightarrow> (string + int) \<times> (string + int) list" where
  "next_answer as = (hd as, tl as)"

lemma send_outcome: "length as = n \<Longrightarrow> fst (fst (send_with_retry n next_answer as)) = outcome as"
  by (induction as arbitrary: n rule: outcome.induct)
    (auto simp: next_answer_def Let_def case_prod_beta)

subsection \<open>The queue of events\<close>

text \<open>The handlers that wait until their event has been posted, and the others, which only queue it.\<close>

fun waits_for_post :: "event \<Rightarrow> bool" where
  "waits_for_post (RunCompletedEv _ _) = True"
| "waits_for_post (RunFailedEv _ _ _) = True"
| "waits_for_post (RunPausedEv _ _ _) = True"
| "waits_for_post _ = False"

text \<open>A queued event has the number of its call: the channel \<open>done\<close> of a call that waits. The state has the
  channel, the event being posted, what was sent, what \<open>sendWithRetry\<close> is done with and what became of it, the calls that
  have returned, and whether the channel is closed.\<close>

type_synonym queued = "event \<times> nat"

record queue =
  qu_channel :: "queued list"
  qu_current :: "queued option"
  qu_sent :: "queued list"
  qu_handled :: "(queued \<times> delivery) list"
  qu_returned :: "nat list"
  qu_closed :: bool

definition empty_queue :: queue where
  "empty_queue = \<lparr>qu_channel = [], qu_current = None, qu_sent = [], qu_handled = [], qu_returned = [], qu_closed = False\<rparr>"

text \<open>Sending blocks while the channel is full, and an event without an encoding is not sent; a call that does not wait returns at once. The one goroutine
  of \<open>sendLoop\<close> takes an event, posts it in up to three attempts, whose answers are arbitrary, and then takes the next one,
  delivered or not, also after the channel is closed.\<close>

inductive queue_step :: "nat \<Rightarrow> queue \<Rightarrow> queue \<Rightarrow> bool" for capacity where
  send: "\<not> qu_closed q \<Longrightarrow> length (qu_channel q) < capacity \<Longrightarrow> i \<notin> snd ` set (qu_sent q) \<Longrightarrow>
     queue_step capacity q (q\<lparr>qu_channel := qu_channel q @ [(e, i)], qu_sent := qu_sent q @ [(e, i)],
       qu_returned := (if waits_for_post e then qu_returned q else i # qu_returned q)\<rparr>)"
| take: "qu_current q = None \<Longrightarrow> qu_channel q = x # xs \<Longrightarrow>
     queue_step capacity q (q\<lparr>qu_channel := xs, qu_current := Some x\<rparr>)"
| post: "qu_current q = Some (e, i) \<Longrightarrow> length answers = 3 \<Longrightarrow> send_with_retry 3 next_answer answers = ((d, k, ms), rest) \<Longrightarrow>
     queue_step capacity q (q\<lparr>qu_current := None, qu_handled := qu_handled q @ [((e, i), d)],
       qu_returned := (if waits_for_post e then i # qu_returned q else qu_returned q)\<rparr>)"
| close: "queue_step capacity q (q\<lparr>qu_closed := True\<rparr>)"

inductive queue_run :: "nat \<Rightarrow> queue \<Rightarrow> bool" for capacity where
  fresh: "queue_run capacity empty_queue"
| later: "queue_run capacity q \<Longrightarrow> queue_step capacity q r \<Longrightarrow> queue_run capacity r"

definition held :: "queue \<Rightarrow> queued list" where
  "held q = (case qu_current q of None \<Rightarrow> [] | Some x \<Rightarrow> [x]) @ qu_channel q"

definition queue_order :: "nat \<Rightarrow> queue \<Rightarrow> bool" where
  "queue_order capacity q \<longleftrightarrow> qu_sent q = map fst (qu_handled q) @ held q \<and> length (qu_channel q) \<le> capacity \<and>
     (\<forall>(x, d)\<in>set (qu_handled q). \<exists>answers. length answers = 3 \<and> d = outcome answers)"

definition queue_calls :: "queue \<Rightarrow> bool" where
  "queue_calls q \<longleftrightarrow> distinct (map snd (qu_sent q)) \<and> snd ` set (qu_sent q) \<supseteq> set (qu_returned q) \<and>
     (\<forall>(e, i)\<in>set (qu_sent q). waits_for_post e \<and> i \<in> set (qu_returned q) \<longrightarrow> (e, i) \<in> fst ` set (qu_handled q))"

lemma queue_step_order: "queue_step capacity q r \<Longrightarrow> queue_order capacity q \<Longrightarrow> queue_order capacity r"
proof (induction rule: queue_step.induct)
  case (post q e i answers d k ms rest)
  then have "d = outcome answers" using send_outcome [of answers 3] by simp
  with post show ?case by (auto simp: queue_order_def held_def)
qed (auto simp: queue_order_def held_def)

lemma distinct_snd_same:
  assumes "distinct (map snd ps)" "(x, i) \<in> set ps" "(y, i) \<in> set ps"
  shows "x = y"
  using assms inj_onD [of snd "set ps" "(x, i)" "(y, i)"] by (simp add: distinct_map)

lemma queue_step_calls:
  "queue_step capacity q r \<Longrightarrow> queue_order capacity q \<Longrightarrow> queue_calls q \<Longrightarrow> queue_calls r"
proof (induction rule: queue_step.induct)
  case (send q i e)
  then have "\<forall>a. (a, i) \<notin> set (qu_sent q)" by force
  with send show ?case by (auto simp: queue_calls_def)
next
  case (take q x xs)
  then show ?case by (simp add: queue_calls_def)
next
  case (post q e i answers d k ms rest)
  then have "(e, i) \<in> set (qu_sent q)" by (simp add: queue_order_def held_def)
  with post have same: "e' = e" if "(e', i) \<in> set (qu_sent q)" for e'
    using that distinct_snd_same [of "qu_sent q" e' i e] by (simp add: queue_calls_def)
  have "i \<in> snd ` set (qu_sent q)" using \<open>(e, i) \<in> set (qu_sent q)\<close> by (metis image_eqI snd_conv)
  with post same show ?case unfolding queue_calls_def by (auto split: if_splits)
qed (simp add: queue_calls_def)

lemma queue_run_order: "queue_run capacity q \<Longrightarrow> queue_order capacity q"
proof (induction rule: queue_run.induct)
  case fresh
  show ?case by (simp add: queue_order_def held_def empty_queue_def)
qed (rule queue_step_order)

lemma queue_run_calls: "queue_run capacity q \<Longrightarrow> queue_calls q"
proof (induction rule: queue_run.induct)
  case fresh
  show ?case by (simp add: queue_calls_def empty_queue_def)
qed (blast intro: queue_step_calls queue_run_order)

lemma list_prefix_member:
  assumes "ps @ rest = before @ x # after" "x \<in> set ps" "x \<notin> set before"
  shows "\<exists>later. ps = before @ x # later"
  using assms by (auto simp: append_eq_append_conv2 append_eq_Cons_conv)

text \<open>C30. The HTTP callback handles the events in the order they were sent, each once, and never holds more than its buffer
  and the event being posted. To handle an event is to post it in up to three attempts: it is delivered, or rejected with a
  status that is not repeated, or dropped when all three failed (\<open>outcome\<close>). When a call for the end or the pause of a run
  returns, its event has been handled, and so has every event sent before it.\<close>

theorem callback_in_order:
  assumes "queue_run capacity q"
  shows "\<exists>rest. qu_sent q = map fst (qu_handled q) @ rest \<and> length rest \<le> capacity + 1 \<and>
    (\<forall>(x, d)\<in>set (qu_handled q). \<exists>answers. length answers = 3 \<and> d = outcome answers) \<and>
    (\<forall>before e i after. qu_sent q = before @ (e, i) # after \<and> waits_for_post e \<and> i \<in> set (qu_returned q) \<longrightarrow>
       (\<exists>later. map fst (qu_handled q) = before @ (e, i) # later))"
proof -
  have order: "qu_sent q = map fst (qu_handled q) @ held q" and len: "length (held q) \<le> capacity + 1"
    and outcomes: "\<forall>(x, d)\<in>set (qu_handled q). \<exists>answers. length answers = 3 \<and> d = outcome answers"
    using queue_run_order [OF assms] by (auto simp: queue_order_def held_def split: option.split)
  have calls: "queue_calls q" by (rule queue_run_calls [OF assms])
  have flushed: "\<exists>later. map fst (qu_handled q) = before @ (e, i) # later"
    if sent: "qu_sent q = before @ (e, i) # after" and w: "waits_for_post e" and r: "i \<in> set (qu_returned q)"
    for before e i after
  proof -
    have "(e, i) \<in> set (qu_sent q)" using sent by simp
    with calls w r have posted: "(e, i) \<in> set (map fst (qu_handled q))" unfolding queue_calls_def set_map by blast
    have new: "(e, i) \<notin> set before" 
    proof
      assume "(e, i) \<in> set before"
      then have "i \<in> set (map snd before)" by (metis image_eqI set_map snd_conv)
      with calls sent show False by (simp add: queue_calls_def)
    qed
    show ?thesis
    proof (rule list_prefix_member)
      show "map fst (qu_handled q) @ held q = before @ (e, i) # after" using order sent by simp
    qed (use posted new in simp_all)
  qed
  show ?thesis
  proof (rule exI [of _ "held q"], intro conjI allI impI)
    show "qu_sent q = map fst (qu_handled q) @ held q" "length (held q) \<le> capacity + 1" by (rule order, rule len)
    show "\<forall>(x, d)\<in>set (qu_handled q). \<exists>answers. length answers = 3 \<and> d = outcome answers" by (rule outcomes)
    fix before e i after
    assume "qu_sent q = before @ (e, i) # after \<and> waits_for_post e \<and> i \<in> set (qu_returned q)"
    then show "\<exists>later. map fst (qu_handled q) = before @ (e, i) # later" by (elim conjE) (rule flushed)
  qed
qed

text \<open>A queue with one place: the first event fails three times and is dropped, the second is delivered.\<close>

theorem callback_in_order_witness:
  "let q = empty_queue\<lparr>qu_sent := [(DebugEv [] [] [] [] [], 0), (RunCompletedEv [] [], 1)],
       qu_handled := [((DebugEv [] [] [] [] [], 0), Dropped), ((RunCompletedEv [] [], 1), Delivered)], qu_returned := [1, 0]\<rparr>
   in queue_run 1 q \<and> (\<exists>rest. qu_sent q = map fst (qu_handled q) @ rest \<and> length rest \<le> 1 + 1)"
proof -
  let ?d = "(DebugEv [] [] [] [] [], 0) :: queued" and ?c = "(RunCompletedEv [] [], 1) :: queued"
  have bad: "send_with_retry 3 next_answer [Inr 503, Inl [], Inr 500] = ((Dropped, 3, 600), [])" by code_simp
  have good: "send_with_retry 3 next_answer [Inr 200, Inr 200, Inr 200] = ((Delivered, 1, 0), [Inr 200, Inr 200])" by code_simp
  have "queue_run 1 (empty_queue\<lparr>qu_channel := [?d], qu_sent := [?d], qu_returned := [0]\<rparr>)"
    using later [OF fresh send [of empty_queue 1 0 "fst ?d"]] by (simp add: empty_queue_def)
  from later [OF this take] have "queue_run 1 (empty_queue\<lparr>qu_current := Some ?d, qu_sent := [?d], qu_returned := [0]\<rparr>)"
    by (simp add: empty_queue_def)
  from later [OF this send [of _ 1 1 "fst ?c"]]
  have "queue_run 1 (empty_queue\<lparr>qu_channel := [?c], qu_current := Some ?d, qu_sent := [?d, ?c], qu_returned := [0]\<rparr>)"
    by (simp add: empty_queue_def)
  from later [OF this post [OF _ _ bad]]
  have "queue_run 1 (empty_queue\<lparr>qu_channel := [?c], qu_sent := [?d, ?c], qu_handled := [(?d, Dropped)], qu_returned := [0]\<rparr>)"
    by (simp add: empty_queue_def)
  from later [OF this take]
  have "queue_run 1 (empty_queue\<lparr>qu_current := Some ?c, qu_sent := [?d, ?c], qu_handled := [(?d, Dropped)], qu_returned := [0]\<rparr>)"
    by (simp add: empty_queue_def)
  from later [OF this post [OF _ _ good]]
  have "queue_run 1 (empty_queue\<lparr>qu_sent := [?d, ?c], qu_handled := [(?d, Dropped), (?c, Delivered)], qu_returned := [1, 0]\<rparr>)"
    by (simp add: empty_queue_def)
  from this callback_in_order [OF this] show ?thesis by (simp only: Let_def) blast
qed

subsection \<open>JSON lines\<close>

text \<open>\<open>Encode\<close> writes the event and a newline, and \<open>Sync\<close> may fail, under the lock of the callback. The
  encoding is the argument \<open>encode\<close>.\<close>

definition jsonl_write :: "('e \<Rightarrow> string + string) \<Rightarrow> string option \<Rightarrow> 'e \<Rightarrow> string \<Rightarrow> string option \<times> string" where
  "jsonl_write encode sync e text_now =
     (case encode e of Inl err \<Rightarrow> (Some err, text_now) | Inr t \<Rightarrow> (sync, text_now @ t @ [CHR 0x0A]))"

lemma jsonl_lines:
  assumes "\<forall>e\<in>set es. encode e = Inr (text_of e) \<and> CHR 0x0A \<notin> set (text_of e)"
  shows "split_on (CHR 0x0A) (fold (\<lambda>e f. snd (jsonl_write encode sync e f)) es []) = map text_of es @ [[]]"
proof -
  have text_eq: "fold (\<lambda>e f. snd (jsonl_write encode sync e f)) es f = f @ concat (map (\<lambda>e. text_of e @ [CHR 0x0A]) es)" for f
    using assms by (induction es arbitrary: f) (auto simp: jsonl_write_def)
  have "split_on (CHR 0x0A) (concat (map (\<lambda>e. text_of e @ [CHR 0x0A]) es)) = map text_of es @ [[]]"
    using assms by (induction es) (simp_all add: split_on_append)
  with text_eq [of "[]"] show ?thesis by simp
qed

end
