(* ===== verification/Ansible.thy ===== *)
theory Ansible
  imports Script_Exec Template_Values
begin

text \<open>
  The executors \<open>ansible_playbook\<close> and \<open>ansible\<close> (\<open>pkg/executor/ansible.go\<close>): the command line built
  from the parameters, the temporary files that keep inventories and variables off the process list,
  and the table of results read from the output. The builder of the code is a record, and its methods
  are actions on the builder and the host's world that end with an error or none. The YAML encoder is
  a parameter. The regular expressions are scanners with the choices of a leftmost, greedy match.
\<close>

subsection \<open>Parameters\<close>

text \<open>A float is a whole number of 64 bits: converted to \<open>int\<close> and back it is itself.\<close>

definition f64_whole :: "f64 \<Rightarrow> bool" where
  "f64_whole b =
     (let m = f64_magnitude b; ex = m div 2 ^ 52; frac = m mod 2 ^ 52;
          sig = (if ex = 0 then frac else 2 ^ 52 + frac)
      in in_int64 (f64_trunc b) \<and> (ex \<ge> 1075 \<or> sig mod 2 ^ (1075 - ex) = 0))"

definition int_param :: "golib \<Rightarrow> string \<Rightarrow> string \<Rightarrow> val \<Rightarrow> string + int" where
  "int_param G name key raw =
     (let bad = Inl (name @ '': '' @ key @ '' must be an integer'') in
      case raw of
        VInt i \<Rightarrow> Inr i
      | VFloat f \<Rightarrow> if f64_whole f then Inr (f64_trunc f) else bad
      | VStr s \<Rightarrow> (case parse_int s of Some i \<Rightarrow> Inr i | None \<Rightarrow> bad)
      | _ \<Rightarrow> bad)"

fun strings_of :: "(nat \<Rightarrow> string) \<Rightarrow> nat \<Rightarrow> val list \<Rightarrow> string + string list" where
  "strings_of bad i [] = Inr []"
| "strings_of bad i (v # vs) = (case as_string v of
     None \<Rightarrow> Inl (bad i)
   | Some s \<Rightarrow> map_sum id ((#) s) (strings_of bad (Suc i) vs))"

definition string_list_param :: "string \<Rightarrow> gomap \<Rightarrow> string \<Rightarrow> string + string list" where
  "string_list_param name params key = (case mget params key of
     None \<Rightarrow> Inr []
   | Some (VStr s) \<Rightarrow> Inr (if s = [] then [] else [s])
   | Some (VStrs ss) \<Rightarrow> Inr ss
   | Some (VList vs) \<Rightarrow> strings_of (\<lambda>i. name @ '': '' @ key @ ''['' @ nat_text i @ ''] must be a string'') 0 vs
   | Some _ \<Rightarrow> Inl (name @ '': '' @ key @ '' must be a string or list of strings''))"

text \<open>The tables of keys and flags: the arguments of each key that is present, up to the first error.\<close>

definition flag_table :: "(string \<Rightarrow> string \<Rightarrow> val \<Rightarrow> string + string list) \<Rightarrow> gomap \<Rightarrow> (string \<times> string) list \<Rightarrow> string + string list" where
  "flag_table arg params fs = map_sum id concat (map_try (\<lambda>(key, flag).
     case mget params key of None \<Rightarrow> Inr [] | Some raw \<Rightarrow> arg key flag raw) fs)"

definition text_arg :: "string \<Rightarrow> string \<Rightarrow> string \<Rightarrow> val \<Rightarrow> string + string list" where
  "text_arg name key flag raw = (case raw of
     VStr (c # s) \<Rightarrow> Inr [flag, c # s]
   | _ \<Rightarrow> Inl (name @ '': '' @ key @ '' must be a non-empty string''))"

definition bool_arg :: "string \<Rightarrow> string \<Rightarrow> string \<Rightarrow> val \<Rightarrow> string + string list" where
  "bool_arg name key flag raw = (case raw of
     VBool b \<Rightarrow> Inr (if b then [flag] else [])
   | _ \<Rightarrow> Inl (name @ '': '' @ key @ '' must be a boolean''))"

definition int_arg :: "golib \<Rightarrow> string \<Rightarrow> string \<Rightarrow> string \<Rightarrow> val \<Rightarrow> string + string list" where
  "int_arg G name key flag raw = map_sum id (\<lambda>n. [flag, int_text n]) (int_param G name key raw)"

text \<open>A parameter that must be a non-empty string when it is there.\<close>

definition text_param :: "string \<Rightarrow> gomap \<Rightarrow> string \<Rightarrow> string \<Rightarrow> string + string" where
  "text_param name params key absent = (case mget params key of
     None \<Rightarrow> Inr absent
   | Some (VStr (c # s)) \<Rightarrow> Inr (c # s)
   | Some _ \<Rightarrow> Inl (name @ '': '' @ key @ '' must be a non-empty string''))"

definition chdir_param :: "fs_view \<Rightarrow> string \<Rightarrow> gomap \<Rightarrow> string + string" where
  "chdir_param E name params = try_then (text_param name params ''chdir'' []) (\<lambda>d.
     if d = [] \<or> (case try_then (fs_eval E d) (fs_node E) of Inr (Folder es) \<Rightarrow> True | _ \<Rightarrow> False) then Inr d
     else Inl (name @ '': chdir '' @ quoted d @ '' is not a directory''))"

definition env_pairs :: "golib \<Rightarrow> string \<Rightarrow> gomap \<Rightarrow> string + string list" where
  "env_pairs G name params = (case mget params ''env'' of
     None \<Rightarrow> Inr []
   | Some raw \<Rightarrow> (case string_map_param G raw of
       None \<Rightarrow> Inl (name @ '': env must be a map of strings'')
     | Some values \<Rightarrow> map_try (\<lambda>(k, v).
         if k = [] \<or> contains k ''='' then Inl (name @ '': env key '' @ quoted k @ '' is invalid'')
         else Inr (k @ ''='' @ v)) values))"

subsection \<open>The builder\<close>

record builder =
  bu_name :: string
  bu_binary :: string
  bu_args :: "string list"
  bu_tmp :: "string list"
  bu_chdir :: string
  bu_env :: "string list"

type_synonym 'w action = "builder \<times> 'w \<Rightarrow> string option \<times> builder \<times> 'w"

definition new_builder :: "string \<Rightarrow> string \<Rightarrow> builder" where
  "new_builder name binary = \<lparr>bu_name = name, bu_binary = binary, bu_args = [], bu_tmp = [], bu_chdir = [], bu_env = []\<rparr>"

text \<open>Methods one after the other, up to the first error.\<close>

fun in_order :: "'w action list \<Rightarrow> 'w action" where
  "in_order [] bw = (None, bw)"
| "in_order (a # as) bw = (case a bw of (None, bw) \<Rightarrow> in_order as bw | stopped \<Rightarrow> stopped)"

definition add_args :: "string + string list \<Rightarrow> 'w action" where
  "add_args r bw = (case r of
     Inl e \<Rightarrow> (Some e, bw)
   | Inr args \<Rightarrow> (None, (fst bw)\<lparr>bu_args := bu_args (fst bw) @ args\<rparr>, snd bw))"

definition cleanup :: "'w host \<Rightarrow> builder \<times> 'w \<Rightarrow> 'w" where
  "cleanup H bw = fold (ho_remove H) (bu_tmp (fst bw)) (snd bw)"

text \<open>A temporary file that only the runner's user can read, and the flag that names it.\<close>

definition temp_file :: "'w host \<Rightarrow> string \<Rightarrow> string \<Rightarrow> (string \<Rightarrow> string list) \<Rightarrow> 'w action" where
  "temp_file H pattern data arg bw = (case bw of (b, w) \<Rightarrow>
     let err = (\<lambda>t e. Some (bu_name b @ '': '' @ t @ e)) in
     case ho_temp H pattern w of
       (Inl e, w) \<Rightarrow> (err ''creating temporary file: '' e, b, w)
     | (Inr path, w) \<Rightarrow>
         let b = b\<lparr>bu_tmp := bu_tmp b @ [path]\<rparr> in
         (case ho_chmod H path w of
            (Some e, w) \<Rightarrow> (err ''securing temporary file: '' e, b, snd (ho_close H path w))
          | (None, w) \<Rightarrow> (case ho_write H path data w of
              (Some e, w) \<Rightarrow> (err ''writing temporary file: '' e, b, snd (ho_close H path w))
            | (None, w) \<Rightarrow> (case ho_close H path w of
                (Some e, w) \<Rightarrow> (err ''closing temporary file: '' e, b, w)
              | (None, w) \<Rightarrow> add_args (Inr (arg path)) (b, w)))))"

definition inventory :: "(gomap \<Rightarrow> string + string) \<Rightarrow> 'w host \<Rightarrow> string \<Rightarrow> val \<Rightarrow> 'w action" where
  "inventory yaml H name raw = (case raw of
     VStr s \<Rightarrow> add_args (if s = [] then Inl (name @ '': inventory must not be empty'') else Inr [''-i'', s])
   | VStrs ss \<Rightarrow> add_args (Inr (concat (map (\<lambda>s. [''-i'', s]) ss)))
   | VList vs \<Rightarrow> add_args (map_sum id (\<lambda>ss. concat (map (\<lambda>s. [''-i'', s]) ss))
       (strings_of (\<lambda>i. name @ '': inventory['' @ nat_text i @ ''] must be a non-empty string'') 0
          (map (\<lambda>v. if v = VStr [] then VNil else v) vs)))
   | VMap m \<Rightarrow> (case yaml m of
       Inl e \<Rightarrow> add_args (Inl (name @ '': encoding inventory: '' @ e))
     | Inr data \<Rightarrow> temp_file H ''markov-ansible-inventory-*.yml'' data (\<lambda>path. [''-i'', path]))
   | _ \<Rightarrow> add_args (Inl (name @ '': inventory must be a string, list of strings, or map'')))"

definition extra_vars :: "golib \<Rightarrow> 'w host \<Rightarrow> string \<Rightarrow> val \<Rightarrow> 'w action" where
  "extra_vars G H name raw = (case raw of
     VStr s \<Rightarrow> add_args (Inr [''-e'', s])
   | VMap m \<Rightarrow> (case marshal G (VMap m) of
       None \<Rightarrow> add_args (Inl (name @ '': encoding extra_vars: '' @ marshal_error G (VMap m)))
     | Some data \<Rightarrow> temp_file H ''markov-ansible-vars-*.json'' data (\<lambda>path. [''-e'', CHR ''@'' # path]))
   | _ \<Rightarrow> add_args (Inl (name @ '': extra_vars must be a string or map'')))"

definition when_given :: "gomap \<Rightarrow> string \<Rightarrow> (val \<Rightarrow> 'w action) \<Rightarrow> 'w action" where
  "when_given params key act = (case mget params key of None \<Rightarrow> add_args (Inr []) | Some raw \<Rightarrow> act raw)"

definition joined_flag :: "string \<Rightarrow> gomap \<Rightarrow> string \<Rightarrow> string \<Rightarrow> string + string list" where
  "joined_flag name params key flag =
     map_sum id (\<lambda>vals. if vals = [] then [] else [flag, join '','' vals]) (string_list_param name params key)"

definition verbosity :: "golib \<Rightarrow> string \<Rightarrow> gomap \<Rightarrow> string + string list" where
  "verbosity G name params = (case mget params ''verbosity'' of
     None \<Rightarrow> Inr []
   | Some raw \<Rightarrow> try_then (int_param G name ''verbosity'' raw) (\<lambda>n.
       if n < 0 \<or> n > 6 then Inl (name @ '': verbosity must be between 0 and 6'')
       else Inr (if n > 0 then [CHR ''-'' # replicate (nat n) (CHR ''v'')] else [])))"

definition set_binary :: "string + string \<Rightarrow> 'w action" where
  "set_binary r bw = (case r of
     Inl e \<Rightarrow> (Some e, bw) | Inr s \<Rightarrow> (None, (fst bw)\<lparr>bu_binary := s\<rparr>, snd bw))"

definition set_chdir :: "string + string \<Rightarrow> 'w action" where
  "set_chdir r bw = (case r of
     Inl e \<Rightarrow> (Some e, bw) | Inr s \<Rightarrow> (None, (fst bw)\<lparr>bu_chdir := s\<rparr>, snd bw))"

definition set_env :: "string + string list \<Rightarrow> 'w action" where
  "set_env r bw = (case r of
     Inl e \<Rightarrow> (Some e, bw) | Inr es \<Rightarrow> (None, (fst bw)\<lparr>bu_env := es\<rparr>, snd bw))"

text \<open>The flags both executors know.\<close>

definition common_flags :: "golib \<Rightarrow> (gomap \<Rightarrow> string + string) \<Rightarrow> 'w host \<Rightarrow> string \<Rightarrow> string \<Rightarrow> gomap \<Rightarrow> 'w action" where
  "common_flags G yaml H name binary params = in_order
     [set_binary (text_param name params ''binary'' binary),
      set_chdir (chdir_param (ho_fs H) name params),
      when_given params ''inventory'' (inventory yaml H name),
      when_given params ''extra_vars'' (extra_vars G H name),
      add_args (map_sum id (\<lambda>fs. concat (map (\<lambda>f. [''-e'', CHR ''@'' # f]) fs)) (string_list_param name params ''extra_vars_files'')),
      add_args (joined_flag name params ''limit'' ''--limit''),
      add_args (flag_table (bool_arg name) params [(''check'', ''--check''), (''diff'', ''--diff''), (''become'', ''--become'')]),
      add_args (flag_table (text_arg name) params
        [(''become_user'', ''--become-user''), (''become_method'', ''--become-method''), (''remote_user'', ''--user''),
         (''connection'', ''--connection''), (''private_key'', ''--private-key''),
         (''vault_password_file'', ''--vault-password-file''), (''vault_id'', ''--vault-id'')]),
      add_args (flag_table (int_arg G name) params [(''forks'', ''--forks''), (''timeout'', ''--timeout'')]),
      add_args (verbosity G name params),
      add_args (string_list_param name params ''extra_args''),
      set_env (map_sum id (\<lambda>es. ho_environ H @ ''ANSIBLE_NOCOLOR=1'' # es) (env_pairs G name params))]"

definition playbook_flags :: "string \<Rightarrow> gomap \<Rightarrow> 'w action" where
  "playbook_flags name params = in_order
     [add_args (joined_flag name params ''tags'' ''--tags''),
      add_args (joined_flag name params ''skip_tags'' ''--skip-tags''),
      add_args (flag_table (text_arg name) params [(''start_at_task'', ''--start-at-task'')])]"

subsection \<open>The output\<close>

text \<open>The class \<open>\s\<close> of a regular expression, and a word: \<open>\S+\<close> as far as it goes.\<close>

definition re_space :: "char \<Rightarrow> bool" where
  "re_space c \<longleftrightarrow> c \<in> {CHR '' '', CHR 0x09, CHR 0x0A, CHR 0x0C, CHR 0x0D}"

definition re_word :: "char \<Rightarrow> bool" where
  "re_word c \<longleftrightarrow> is_digit c \<or> is_upper c \<or> is_lower c \<or> c = CHR ''_''"

definition digits_after :: "string \<Rightarrow> string \<Rightarrow> (string \<times> string) option" where
  "digits_after key s =
     (if has_prefix s (key @ ''='') then
        let t = trim_prefix s (key @ ''=''); ds = takeWhile is_digit t
        in if ds = [] then None else Some (ds, dropWhile is_digit t)
      else None)"

text \<open>\<open>\s+key=(\d+)\<close>.\<close>

definition spaced_field :: "string \<Rightarrow> string \<Rightarrow> (string \<times> string) option" where
  "spaced_field key s = (if s \<noteq> [] \<and> re_space (hd s) then digits_after key (dropWhile re_space s) else None)"

fun spaced_fields :: "string list \<Rightarrow> string \<Rightarrow> (string list \<times> string) option" where
  "spaced_fields [] s = Some ([], s)"
| "spaced_fields (key # keys) s = (case spaced_field key s of
     None \<Rightarrow> None
   | Some (ds, rest) \<Rightarrow> map_option (\<lambda>(dss, r). (ds # dss, r)) (spaced_fields keys rest))"

text \<open>\<open>recapLineRe\<close>. The word takes all it can; the colon follows it after any spaces, or else the word
  gives back its last character, when that is the colon.\<close>

definition recap_line :: "string \<Rightarrow> (string \<times> string list \<times> string) option" where
  "recap_line line =
     (let word = takeWhile (\<lambda>c. \<not> re_space c) line;
          after = dropWhile (\<lambda>c. \<not> re_space c) line;
          colon = dropWhile re_space after;
          fields = spaced_fields [''ok'', ''changed'', ''unreachable'', ''failed''];
          whole = (if word \<noteq> [] \<and> colon \<noteq> [] \<and> hd colon = CHR '':'' then fields (tl colon) else None)
      in case whole of
           Some (ds, rest) \<Rightarrow> Some (word, ds, rest)
         | None \<Rightarrow>
             if length word > 1 \<and> last word = CHR '':'' then map_option (Pair (butlast word)) (fields after) else None)"

text \<open>\<open>recapKVRe\<close>, every match from the left.\<close>

definition recap_kv :: "string \<Rightarrow> (string \<times> string \<times> string) option" where
  "recap_kv s = (case digits_after ''skipped'' s of
     Some (ds, r) \<Rightarrow> Some (''skipped'', ds, r)
   | None \<Rightarrow> (case digits_after ''rescued'' s of
       Some (ds, r) \<Rightarrow> Some (''rescued'', ds, r)
     | None \<Rightarrow> map_option (\<lambda>(ds, r). (''ignored'', ds, r)) (digits_after ''ignored'' s)))"

lemma digits_after_shorter: "digits_after key s = Some (ds, r) \<Longrightarrow> length r < length s"
proof -
  assume some: "digits_after key s = Some (ds, r)"
  then obtain t where s: "s = (key @ ''='') @ t" by (auto simp: digits_after_def has_prefix_iff split: if_splits)
  have "r = dropWhile is_digit t" using some unfolding digits_after_def s trim_prefix_append
    by (simp add: Let_def split: if_splits)
  with length_dropWhile_le [of is_digit t] show ?thesis by (simp add: s)
qed

lemma recap_kv_shorter: "recap_kv s = Some (key, ds, r) \<Longrightarrow> length r < length s"
  using digits_after_shorter by (auto simp: recap_kv_def split: option.splits)

function recap_kvs :: "string \<Rightarrow> (string \<times> string) list" where
  "recap_kvs s = (case recap_kv s of
     Some (key, ds, r) \<Rightarrow> (key, ds) # recap_kvs r
   | None \<Rightarrow> (case s of [] \<Rightarrow> [] | c # t \<Rightarrow> recap_kvs t))"
  by auto
termination by (relation "measure length") (auto dest: recap_kv_shorter)

declare recap_kvs.simps [simp del]

text \<open>\<open>strconv.Atoi\<close> of digits, its error ignored: a number out of range is the largest one.\<close>

definition atoi :: "string \<Rightarrow> int" where
  "atoi s = (case parse_int s of Some n \<Rightarrow> n | None \<Rightarrow> 2 ^ 63 - 1)"

definition host_recap :: "string list \<Rightarrow> string \<Rightarrow> gomap" where
  "host_recap ds rest = mcopy (map (\<lambda>(k, d). (k, VInt (atoi d))) (recap_kvs rest))
     (mcopy (zip [''ok'', ''changed'', ''unreachable'', ''failed''] (map (VInt \<circ> atoi) ds) @
        [(''skipped'', VInt 0), (''rescued'', VInt 0), (''ignored'', VInt 0)]) [])"

fun recap_lines :: "bool \<Rightarrow> string list \<Rightarrow> gomap \<Rightarrow> gomap" where
  "recap_lines inside [] recap = recap"
| "recap_lines inside (l # ls) recap =
     (let line = trim_right_fn (\<lambda>c. c = CHR 0x0D) l in
      if has_prefix line ''PLAY RECAP'' then recap_lines True ls recap
      else if \<not> inside then recap_lines inside ls recap
      else case recap_line line of
        None \<Rightarrow> recap_lines inside ls recap
      | Some (name, ds, rest) \<Rightarrow> recap_lines inside ls (mput name (VMap (host_recap ds rest)) recap))"

definition parse_ansible_recap :: "string \<Rightarrow> gomap" where
  "parse_ansible_recap out = recap_lines False (split_on (CHR 0x0A) out) []"

definition recap_changed :: "gomap \<Rightarrow> bool" where
  "recap_changed recap = list_ex (\<lambda>(k, v). case v of
     VMap host \<Rightarrow> (case mget host ''changed'' of Some (VInt n) \<Rightarrow> n > 0 | _ \<Rightarrow> False) | _ \<Rightarrow> False) recap"

definition adhoc_changed :: "string \<Rightarrow> bool" where
  "adhoc_changed out = list_ex (\<lambda>line.
     let after = dropWhile (\<lambda>c. \<not> re_space c) line; rest = trim_prefix after '' | CHANGED''
     in after \<noteq> line \<and> has_prefix after '' | CHANGED'' \<and> (rest = [] \<or> \<not> re_word (hd rest))) (split_on (CHR 0x0A) out)"

subsection \<open>The executors\<close>

definition run_ansible :: "'w host \<Rightarrow> bool \<Rightarrow> builder \<times> 'w \<Rightarrow> exec_out \<times> 'w" where
  "run_ansible H playbook bw = (case bw of (b, w) \<Rightarrow>
     let (r, w) = ho_start H \<lparr>cl_program = bu_binary b, cl_args = bu_args b, cl_env = Some (bu_env b), cl_stdin = None,
           cl_dir = bu_chdir b\<rparr> w;
         recap = parse_ansible_recap (pr_stdout r);
         extra = (if playbook then [(''recap'', VMap recap), (''changed'', VBool (recap_changed recap))]
                  else [(''changed'', VBool (adhoc_changed (pr_stdout r)))])
     in (exec_result
           (mcopy ([(''stdout'', VStr (pr_stdout r)), (''stderr'', VStr (pr_stderr r)), (''exit_code'', VInt (exit_code r))] @ extra) [])
           (map_option (\<lambda>e. bu_name b @ '': '' @ e @ [newline_char] @ ''stderr: '' @ pr_stderr r) (pr_error r)), w))"

text \<open>The deferred \<open>cleanup\<close> runs on every path.\<close>

definition with_builder :: "'w host \<Rightarrow> string \<Rightarrow> string \<Rightarrow> 'w action \<Rightarrow> bool \<Rightarrow> 'w \<Rightarrow> exec_out \<times> 'w" where
  "with_builder H name binary build playbook w =
     (case build (new_builder name binary, w) of
        (Some e, bw) \<Rightarrow> (exec_fails e, cleanup H bw)
      | (None, bw) \<Rightarrow> (case run_ansible H playbook bw of (out, w) \<Rightarrow> (out, cleanup H (fst bw, w))))"

definition ansible_playbook :: "golib \<Rightarrow> (gomap \<Rightarrow> string + string) \<Rightarrow> 'w host \<Rightarrow> gomap \<Rightarrow> 'w \<Rightarrow> exec_out \<times> 'w" where
  "ansible_playbook G yaml H params w =
     (let name = ''ansible_playbook'' in
      case string_list_param name params ''playbook'' of
        Inl e \<Rightarrow> (exec_fails e, w)
      | Inr [] \<Rightarrow> (exec_fails (name @ '': playbook is required''), w)
      | Inr playbooks \<Rightarrow> with_builder H name ''ansible-playbook'' (in_order
          [common_flags G yaml H name ''ansible-playbook'' params, playbook_flags name params, add_args (Inr playbooks)]) True w)"

definition module_args :: "golib \<Rightarrow> gomap \<Rightarrow> string + string list" where
  "module_args G params = (case mget params ''module_args'' of
     None \<Rightarrow> Inr []
   | Some (VStr s) \<Rightarrow> Inr [''-a'', s]
   | Some (VMap m) \<Rightarrow> (case marshal G (VMap m) of
       None \<Rightarrow> Inl (''ansible: encoding module_args: '' @ marshal_error G (VMap m)) | Some t \<Rightarrow> Inr [''-a'', t])
   | Some (VSMap m) \<Rightarrow> (case marshal G (VSMap m) of
       None \<Rightarrow> Inl (''ansible: encoding module_args: '' @ marshal_error G (VSMap m)) | Some t \<Rightarrow> Inr [''-a'', t])
   | Some _ \<Rightarrow> Inl ''ansible: module_args must be a string or map'')"

definition ansible :: "golib \<Rightarrow> (gomap \<Rightarrow> string + string) \<Rightarrow> 'w host \<Rightarrow> gomap \<Rightarrow> 'w \<Rightarrow> exec_out \<times> 'w" where
  "ansible G yaml H params w =
     (let name = ''ansible''; pattern = str_or_empty params ''pattern'' in
      if pattern = [] then (exec_fails (name @ '': pattern is required''), w)
      else with_builder H name ''ansible'' (in_order
        [add_args (Inr [pattern]), common_flags G yaml H name ''ansible'' params,
         add_args (map_sum id (\<lambda>m. [''-m'', m]) (text_param name params ''module'' ''command'')),
         add_args (module_args G params),
         add_args (flag_table (int_arg G name) params [(''poll'', ''-P''), (''background'', ''-B'')])]) False w)"

subsection \<open>Temporary files\<close>

text \<open>What a host promises: a temporary file has a new name, and only creating and removing one changes
  which there are.\<close>

definition tidy_host :: "('w \<Rightarrow> string set) \<Rightarrow> 'w host \<Rightarrow> bool" where
  "tidy_host live H \<longleftrightarrow>
     (\<forall>pattern w. case ho_temp H pattern w of
        (Inl e, w') \<Rightarrow> live w' = live w
      | (Inr path, w') \<Rightarrow> path \<notin> live w \<and> live w' = insert path (live w)) \<and>
     (\<forall>path w. live (snd (ho_chmod H path w)) = live w) \<and>
     (\<forall>path data w. live (snd (ho_write H path data w)) = live w) \<and>
     (\<forall>path w. live (snd (ho_close H path w)) = live w) \<and>
     (\<forall>command w. live (snd (ho_start H command w)) = live w) \<and>
     (\<forall>path w. live (ho_remove H path w) = live w - {path})"

lemma tidy_hostD:
  assumes "tidy_host live H"
  shows "ho_temp H pattern w = (Inl e, w') \<Longrightarrow> live w' = live w"
    "ho_temp H pattern w = (Inr path, w') \<Longrightarrow> path \<notin> live w \<and> live w' = insert path (live w)"
    "ho_chmod H path w = (r, w') \<Longrightarrow> live w' = live w"
    "ho_write H path data w = (r, w') \<Longrightarrow> live w' = live w"
    "ho_close H path w = (r, w') \<Longrightarrow> live w' = live w"
    "ho_start H command w = (p, w') \<Longrightarrow> live w' = live w"
    "live (ho_remove H path w) = live w - {path}"
    "live (snd (ho_close H path w)) = live w"
proof -
  note tidy = iffD1 [OF tidy_host_def assms]
  show "ho_temp H pattern w = (Inl e, w') \<Longrightarrow> live w' = live w"
    "ho_temp H pattern w = (Inr path, w') \<Longrightarrow> path \<notin> live w \<and> live w' = insert path (live w)"
    using spec [OF spec [OF conjunct1 [OF tidy], of pattern], of w] by simp_all
qed (use assms [unfolded tidy_host_def] in \<open>metis snd_conv\<close>)+

text \<open>The files of a builder are those that are there beside the ones of the start.\<close>

definition tracked :: "('w \<Rightarrow> string set) \<Rightarrow> string set \<Rightarrow> builder \<times> 'w \<Rightarrow> bool" where
  "tracked live start bw \<longleftrightarrow> live (snd bw) = start \<union> set (bu_tmp (fst bw)) \<and> start \<inter> set (bu_tmp (fst bw)) = {}"

definition tracks :: "('w \<Rightarrow> string set) \<Rightarrow> 'w action \<Rightarrow> bool" where
  "tracks live a \<longleftrightarrow> (\<forall>start bw e bw'. tracked live start bw \<longrightarrow> a bw = (e, bw') \<longrightarrow> tracked live start bw')"

lemma tracksD: "tracks live a \<Longrightarrow> tracked live start bw \<Longrightarrow> a bw = (e, bw') \<Longrightarrow> tracked live start bw'"
  unfolding tracks_def by blast

named_theorems tracking

lemma tracks_add_args [tracking]: "tracks live (add_args r)"
  by (auto simp: tracks_def tracked_def add_args_def split: sum.splits)

lemma tracks_set_binary [tracking]: "tracks live (set_binary r)"
  by (auto simp: tracks_def tracked_def set_binary_def split: sum.splits)

lemma tracks_set_chdir [tracking]: "tracks live (set_chdir r)"
  by (auto simp: tracks_def tracked_def set_chdir_def split: sum.splits)

lemma tracks_set_env [tracking]: "tracks live (set_env r)"
  by (auto simp: tracks_def tracked_def set_env_def split: sum.splits)

lemma tracks_in_order: "\<forall>a\<in>set as. tracks live a \<Longrightarrow> tracks live (in_order as)"
proof (induction as)
  case (Cons a as)
  show ?case
    unfolding tracks_def
  proof (intro allI impI)
    fix start bw e bw'
    assume bw: "tracked live start bw" and run: "in_order (a # as) bw = (e, bw')"
    obtain e1 bw1 where a: "a bw = (e1, bw1)" by (cases "a bw")
    have "tracks live a" "tracks live (in_order as)" using Cons by simp_all
    from \<open>tracks live a\<close> bw a have t: "tracked live start bw1" by (rule tracksD)
    show "tracked live start bw'"
    proof (cases e1)
      case None
      with run a have "in_order as bw1 = (e, bw')" by simp
      with \<open>tracks live (in_order as)\<close> t show ?thesis by (rule tracksD)
    qed (use run a t in simp)
  qed
qed (simp add: tracks_def)

lemma tracks_temp_file:
  assumes "tidy_host live H"
  shows "tracks live (temp_file H pattern data arg)"
  unfolding tracks_def
proof (intro allI impI)
  fix start bw e bw'
  assume bw: "tracked live start bw" and run: "temp_file H pattern data arg bw = (e, bw')"
  obtain b w where b: "bw = (b, w)" by (cases bw)
  show "tracked live start bw'"
  proof (cases "ho_temp H pattern w")
    case (Pair r w1)
    show ?thesis
    proof (cases r)
      case (Inl err)
      with Pair run b bw tidy_hostD(1) [OF assms, of pattern w err w1] show ?thesis
        by (auto simp: temp_file_def tracked_def Let_def)
    next
      case (Inr path)
      with Pair tidy_hostD(2) [OF assms, of pattern w path w1] have new: "path \<notin> live w" "live w1 = insert path (live w)" by auto
      obtain c w2 where c: "ho_chmod H path w1 = (c, w2)" by (cases "ho_chmod H path w1")
      obtain d w3 where d: "ho_write H path data w2 = (d, w3)" by (cases "ho_write H path data w2")
      obtain f w4 where f: "ho_close H path w3 = (f, w4)" by (cases "ho_close H path w3")
      have same: "live w2 = live w1" "live w3 = live w1" "live w4 = live w1"
        using tidy_hostD(3) [OF assms c] tidy_hostD(4) [OF assms d] tidy_hostD(5) [OF assms f] by simp_all
      from run b Pair Inr c d f have "live (snd bw') = live w1 \<and> bu_tmp (fst bw') = bu_tmp b @ [path]"
        by (cases c; cases d; cases f) (auto simp: temp_file_def Let_def add_args_def tidy_hostD(8) [OF assms] same)
      with bw new b show ?thesis by (auto simp: tracked_def)
    qed
  qed
qed

lemma tracks_when_given: "(\<And>raw. tracks live (act raw)) \<Longrightarrow> tracks live (when_given params key act)"
  by (auto simp: when_given_def tracking split: option.split)

lemma tracks_inventory: "tidy_host live H \<Longrightarrow> tracks live (inventory yaml H name raw)"
  by (auto simp: inventory_def tracking tracks_temp_file split: val.split sum.split)

lemma tracks_extra_vars: "tidy_host live H \<Longrightarrow> tracks live (extra_vars G H name raw)"
  by (auto simp: extra_vars_def tracking tracks_temp_file split: val.split option.split)

lemma tracks_common_flags [tracking]: "tidy_host live H \<Longrightarrow> tracks live (common_flags G yaml H name binary params)"
  unfolding common_flags_def
  by (rule tracks_in_order) (auto simp: tracking tracks_when_given tracks_inventory tracks_extra_vars)

lemma tracks_playbook_flags [tracking]: "tracks live (playbook_flags name params)"
  unfolding playbook_flags_def by (rule tracks_in_order) (auto simp: tracking)

lemma cleanup_tracked:
  assumes "tidy_host live H" "tracked live start bw"
  shows "live (cleanup H bw) = start"
proof -
  have "live (fold (ho_remove H) ps w) = live w - set ps" for ps w
    by (induction ps arbitrary: w) (auto simp: tidy_hostD(7) [OF assms(1)])
  with assms(2) show ?thesis by (auto simp: cleanup_def tracked_def)
qed

lemma with_builder_tidy:
  assumes "tidy_host live H" "tracks live build"
  shows "live (snd (with_builder H name binary build playbook w)) = live w"
proof -
  obtain e b w1 where build: "build (new_builder name binary, w) = (e, b, w1)" by (metis prod_cases3)
  have "tracked live (live w) (new_builder name binary, w)" by (simp add: tracked_def new_builder_def)
  with build assms(2) have t: "tracked live (live w) (b, w1)" by (metis tracks_def)
  show ?thesis
  proof (cases e)
    case (Some err)
    with build cleanup_tracked [OF assms(1) t] show ?thesis by (simp add: with_builder_def)
  next
    case None
    obtain out w2 where run: "run_ansible H playbook (b, w1) = (out, w2)" by (cases "run_ansible H playbook (b, w1)")
    then have "live w2 = live w1"
      by (auto simp: run_ansible_def Let_def dest: tidy_hostD(6) [OF assms(1)] split: prod.splits)
    with t have "tracked live (live w) (b, w2)" by (simp add: tracked_def)
    with None build run cleanup_tracked [OF assms(1), of "live w" "(b, w2)"] show ?thesis by (simp add: with_builder_def)
  qed
qed

text \<open>C28. The temporary files of \<open>ansible_playbook\<close> and \<open>ansible\<close>, which hold inventories and variables,
  are all removed when a step ends, whatever fails on the way, and no other file is removed.\<close>

theorem ansible_leaves_no_files:
  assumes "tidy_host live H"
  shows "live (snd (ansible_playbook G yaml H params w)) = live w \<and> live (snd (ansible G yaml H params w)) = live w"
proof
  show "live (snd (ansible_playbook G yaml H params w)) = live w"
    by (auto simp: ansible_playbook_def Let_def split: sum.split list.split
      intro!: with_builder_tidy [OF assms] tracks_in_order simp: tracking assms)
  show "live (snd (ansible G yaml H params w)) = live w"
    by (auto simp: ansible_def Let_def intro!: with_builder_tidy [OF assms] tracks_in_order simp: tracking assms)
qed

subsection \<open>The recap read back\<close>

text \<open>A row of the table as ansible prints it, its host and counts padded with spaces.\<close>

record recap_row =
  rr_host :: string
  rr_main :: "nat \<times> nat \<times> nat \<times> nat"
  rr_rest :: "nat \<times> nat \<times> nat"

definition pad :: "nat \<Rightarrow> string \<Rightarrow> string" where
  "pad width s = s @ replicate (width - length s) CHR '' ''"

definition count_text :: "string \<Rightarrow> nat \<Rightarrow> string" where
  "count_text key n = key @ ''='' @ pad 4 (nat_text n)"

fun recap_text :: "recap_row \<Rightarrow> string" where
  "recap_text \<lparr>rr_host = host, rr_main = (ok, ch, un, fa), rr_rest = (sk, re, ig)\<rparr> =
     pad 26 host @ '' : '' @ count_text ''ok'' ok @ '' '' @ count_text ''changed'' ch @ '' '' @
     count_text ''unreachable'' un @ '' '' @ count_text ''failed'' fa @ '' '' @ count_text ''skipped'' sk @ '' '' @
     count_text ''rescued'' re @ '' '' @ count_text ''ignored'' ig"

fun recap_counts :: "recap_row \<Rightarrow> gomap" where
  "recap_counts \<lparr>rr_host = host, rr_main = (ok, ch, un, fa), rr_rest = (sk, re, ig)\<rparr> = mcopy
     [(''ok'', VInt (int ok)), (''changed'', VInt (int ch)), (''unreachable'', VInt (int un)), (''failed'', VInt (int fa)),
      (''skipped'', VInt (int sk)), (''rescued'', VInt (int re)), (''ignored'', VInt (int ig))] []"

fun row_ok :: "recap_row \<Rightarrow> bool" where
  "row_ok \<lparr>rr_host = host, rr_main = (ok, ch, un, fa), rr_rest = (sk, re, ig)\<rparr> \<longleftrightarrow>
     host \<noteq> [] \<and> list_all (\<lambda>c. \<not> re_space c) host \<and> list_all (\<lambda>n. n < 2 ^ 63) [ok, ch, un, fa, sk, re, ig]"

lemma digit_not_space: "is_digit c \<Longrightarrow> \<not> re_space c"
  by (auto simp: is_digit_def re_space_def)

lemma digits_split: "takeWhile is_digit (nat_text n @ t) = nat_text n @ takeWhile is_digit t"
    "dropWhile is_digit (nat_text n @ t) = dropWhile is_digit t"
  using nat_text_digits [of _ n] by (simp_all add: takeWhile_append2 dropWhile_append2)

definition stops :: "string \<Rightarrow> bool" where
  "stops t \<longleftrightarrow> (t = [] \<or> \<not> is_digit (hd t))"

lemma stops_digits: "stops t \<Longrightarrow> takeWhile is_digit t = [] \<and> dropWhile is_digit t = t"
  by (cases t) (auto simp: stops_def)

lemma digits_after_text: "stops t \<Longrightarrow> digits_after key (key @ ''='' @ nat_text n @ t) = Some (nat_text n, t)"
  using trim_prefix_append [of "key @ ''=''" "nat_text n @ t"] has_prefix_append [of "key @ ''=''" "nat_text n @ t"]
  by (simp add: digits_after_def digits_split stops_digits Let_def)

lemma spaced_field_text:
  assumes "stops t" "key \<noteq> []" "\<not> re_space (hd key)"
  shows "spaced_field key (replicate (Suc k) CHR '' '' @ key @ ''='' @ nat_text n @ t) = Some (nat_text n, t)"
proof -
  have sp: "re_space CHR '' ''" by (simp add: re_space_def)
  have "dropWhile re_space (replicate k CHR '' '' @ key @ u) = key @ u" for k u
    using assms(2,3) sp by (induction k) (simp_all add: dropWhile_append3 hd_append dropWhile_eq_self_iff)
  with sp digits_after_text [OF assms(1), of key n] show ?thesis by (simp add: spaced_field_def)
qed

lemma stops_pad: "stops (replicate k CHR '' '' @ '' '' @ t)" "stops (replicate k CHR '' '')"
  by (cases k; simp add: stops_def is_digit_def)+

lemma pad_text: "pad 4 (nat_text n) @ '' '' @ t = nat_text n @ replicate (Suc (4 - length (nat_text n))) CHR '' '' @ t"
  by (simp add: pad_def replicate_append_same [symmetric])

lemma recap_kvs_skip: "recap_kvs (replicate k CHR '' '' @ t) = recap_kvs t"
proof (induction k)
  case (Suc k)
  have "recap_kvs (CHR '' '' # u) = recap_kvs u" for u
    by (subst recap_kvs.simps) (simp add: recap_kv_def digits_after_def)
  with Suc show ?case by simp
qed simp

lemma recap_kv_text:
  assumes "stops t" "key \<in> {''skipped'', ''rescued'', ''ignored''}"
  shows "recap_kvs (key @ ''='' @ nat_text n @ t) = (key, nat_text n) # recap_kvs t"
  using assms(2) digits_after_text [OF assms(1), of key n]
  by (subst recap_kvs.simps) (auto simp: recap_kv_def digits_after_def)

lemma atoi_nat_text: "n < 2 ^ 63 \<Longrightarrow> atoi (nat_text n) = int n"
  using parse_int_int_text [of "int n"] by (simp add: atoi_def in_int64_def int_text.simps)

definition gap :: "nat \<Rightarrow> string" where
  "gap n = replicate (Suc (4 - length (nat_text n))) CHR '' ''"

lemma count_text_then: "count_text key n @ '' '' @ t = key @ ''='' @ nat_text n @ gap n @ t"
  by (simp add: count_text_def gap_def pad_text [of n t, simplified])

lemma stops_gap: "stops (gap n @ t)"
  by (simp add: gap_def stops_def is_digit_def)

lemma spaced_field_gap: "key \<noteq> [] \<Longrightarrow> \<not> re_space (hd key) \<Longrightarrow> stops t \<Longrightarrow>
    spaced_field key (gap m @ key @ ''='' @ nat_text n @ t) = Some (nat_text n, t)"
  using spaced_field_text [of t key "4 - length (nat_text m)" n] by (simp add: gap_def)

definition rest_text :: "nat \<Rightarrow> nat \<times> nat \<times> nat \<Rightarrow> string" where
  "rest_text fa c = (case c of (sk, re, ig) \<Rightarrow>
     gap fa @ count_text ''skipped'' sk @ '' '' @ count_text ''rescued'' re @ '' '' @ count_text ''ignored'' ig)"

lemma recap_kvs_rest:
  "recap_kvs (rest_text fa (sk, re, ig)) =
     [(''skipped'', nat_text sk), (''rescued'', nat_text re), (''ignored'', nat_text ig)]"
proof -
  have last: "recap_kvs (gap re @ count_text ''ignored'' ig) = [(''ignored'', nat_text ig)]"
  proof -
    have stop: "stops (replicate (4 - length (nat_text ig)) CHR '' '')" by (rule stops_pad)
    have "recap_kvs [] = []" by (subst recap_kvs.simps) (simp add: recap_kv_def digits_after_def)
    then have "recap_kvs (replicate k CHR '' '') = []" for k using recap_kvs_skip [of k "[]"] by simp
    with recap_kv_text [OF stop, of "''ignored''" ig] show ?thesis
      unfolding gap_def count_text_def pad_def recap_kvs_skip by simp
  qed
  have two: "recap_kvs (gap sk @ count_text ''rescued'' re @ '' '' @ count_text ''ignored'' ig) =
      [(''rescued'', nat_text re), (''ignored'', nat_text ig)]"
    unfolding count_text_then [of "''rescued''"] gap_def [of sk] recap_kvs_skip
    using recap_kv_text [OF stops_gap, of "''rescued''" re re "count_text ''ignored'' ig"] last by simp
  show ?thesis
    unfolding rest_text_def prod.case count_text_then [of "''skipped''"] gap_def [of fa] recap_kvs_skip
    using recap_kv_text [OF stops_gap, of "''skipped''" sk sk] two by simp
qed

lemma recap_line_text:
  assumes "row_ok \<lparr>rr_host = host, rr_main = (ok, ch, un, fa), rr_rest = rest\<rparr>"
  shows "recap_line (recap_text \<lparr>rr_host = host, rr_main = (ok, ch, un, fa), rr_rest = rest\<rparr>) =
    Some (host, [nat_text ok, nat_text ch, nat_text un, nat_text fa], rest_text fa rest)"
proof -
  obtain sk re ig where rest: "rest = (sk, re, ig)" by (cases rest)
  with assms have host: "host \<noteq> []" "\<forall>c\<in>set host. \<not> re_space c" by (auto simp: list_all_iff)
  have sp: "re_space CHR '' ''" "\<not> re_space CHR '':''" by (simp_all add: re_space_def)
  let ?fields = "'' '' @ ''ok='' @ nat_text ok @ gap ok @ ''changed='' @ nat_text ch @ gap ch @
      ''unreachable='' @ nat_text un @ gap un @ ''failed='' @ nat_text fa @ rest_text fa rest"
  let ?blank = "replicate (Suc (26 - length host)) CHR '' ''"
  have line_eq: "recap_text \<lparr>rr_host = host, rr_main = (ok, ch, un, fa), rr_rest = rest\<rparr> = host @ ?blank @ '':'' @ ?fields"
    using count_text_then [of "''ok''" ok] count_text_then [of "''changed''" ch] count_text_then [of "''unreachable''" un]
      count_text_then [of "''failed''" fa]
    by (simp add: rest rest_text_def pad_def replicate_append_same [symmetric])
  have word: "takeWhile (\<lambda>c. \<not> re_space c) (host @ ?blank @ t) = host"
    "dropWhile (\<lambda>c. \<not> re_space c) (host @ ?blank @ t) = ?blank @ t" for t
    using host(2) sp by (simp_all add: takeWhile_append2 dropWhile_append2)
  have colon: "dropWhile re_space (replicate k CHR '' '' @ CHR '':'' # t) = CHR '':'' # t" for k t
    using sp by (induction k) simp_all
  have ok: "spaced_field ''ok'' ('' '' @ ''ok='' @ nat_text ok @ gap ok @ t) = Some (nat_text ok, gap ok @ t)" for t
    using spaced_field_text [OF stops_gap, of "''ok''" 0 ok ok t] by (simp add: re_space_def)
  have ch: "spaced_field ''changed'' (gap ok @ ''changed='' @ nat_text ch @ gap ch @ t) = Some (nat_text ch, gap ch @ t)" for t
    using spaced_field_gap [OF _ _ stops_gap, of "''changed''" ok ch ch t] by (simp add: re_space_def)
  have un: "spaced_field ''unreachable'' (gap ch @ ''unreachable='' @ nat_text un @ gap un @ t) = Some (nat_text un, gap un @ t)" for t
    using spaced_field_gap [OF _ _ stops_gap, of "''unreachable''" ch un un t] by (simp add: re_space_def)
  have fa: "spaced_field ''failed'' (gap un @ ''failed='' @ nat_text fa @ rest_text fa rest) = Some (nat_text fa, rest_text fa rest)"
    using spaced_field_gap [OF _ _ stops_gap, of "''failed''" un fa fa] by (simp add: re_space_def rest rest_text_def)
  have "spaced_fields [''ok'', ''changed'', ''unreachable'', ''failed''] ?fields =
      Some ([nat_text ok, nat_text ch, nat_text un, nat_text fa], rest_text fa rest)"
    using ok ch un fa by simp
  then show ?thesis
    unfolding line_eq recap_line_def word Let_def using host(1) colon [of "Suc (26 - length host)" ?fields] by simp
qed

lemma host_recap_text:
  assumes "row_ok r"
  shows "\<exists>ds rest. recap_line (recap_text r) = Some (rr_host r, ds, rest) \<and> host_recap ds rest = recap_counts r"
proof -
  obtain host ok ch un fa sk re ig where r: "r = \<lparr>rr_host = host, rr_main = (ok, ch, un, fa), rr_rest = (sk, re, ig)\<rparr>"
    by (metis recap_row.surjective prod_cases3 prod_cases4 old.unit.exhaust)
  from assms have small: "ok < 2 ^ 63" "ch < 2 ^ 63" "un < 2 ^ 63" "fa < 2 ^ 63" "sk < 2 ^ 63" "re < 2 ^ 63" "ig < 2 ^ 63"
    unfolding r row_ok.simps by simp_all
  have "host_recap [nat_text ok, nat_text ch, nat_text un, nat_text fa] (rest_text fa (sk, re, ig)) = recap_counts r"
    unfolding host_recap_def recap_kvs_rest r recap_counts.simps
    by (simp add: small [THEN atoi_nat_text] mcopy_def)
  with recap_line_text [OF assms [unfolded r]] show ?thesis by (auto simp: r)
qed

lemma recap_text_chars: "row_ok r \<Longrightarrow> c \<in> set (recap_text r) \<Longrightarrow> c = CHR '' '' \<or> \<not> re_space c"
proof -
  assume ok: "row_ok r" and c: "c \<in> set (recap_text r)"
  obtain host o1 ch un fa sk re ig where r: "r = \<lparr>rr_host = host, rr_main = (o1, ch, un, fa), rr_rest = (sk, re, ig)\<rparr>"
    by (metis recap_row.surjective prod_cases3 prod_cases4 old.unit.exhaust)
  have host: "\<forall>c\<in>set host. \<not> re_space c" using ok by (auto simp: r list_all_iff)
  have digits: "c \<in> set (nat_text n) \<Longrightarrow> \<not> re_space c" for n by (rule digit_not_space [OF nat_text_digits])
  have letters: "list_all (\<lambda>c. \<not> re_space c) ''ok=changed=unreachable=failed=skipped=rescued=ignored=:''"
    by (simp add: re_space_def)
  have key: "c \<in> set key \<union> {CHR ''=''} \<Longrightarrow> \<not> re_space c"
    if "set key \<subseteq> set ''ok=changed=unreachable=failed=skipped=rescued=ignored=:''" for key
    using that letters by (auto simp: list_all_iff subset_iff)
  have counts: "c \<in> set (count_text key n) \<Longrightarrow> c = CHR '' '' \<or> \<not> re_space c"
    if "set key \<subseteq> set ''ok=changed=unreachable=failed=skipped=rescued=ignored=:''" for key n
    using that key [OF that] digits [of n] by (auto simp: count_text_def pad_def)
  have "c \<in> set host \<or> c = CHR '' '' \<or> c = CHR '':'' \<or> c \<in> set (count_text ''ok'' o1) \<or> c \<in> set (count_text ''changed'' ch) \<or>
      c \<in> set (count_text ''unreachable'' un) \<or> c \<in> set (count_text ''failed'' fa) \<or> c \<in> set (count_text ''skipped'' sk) \<or>
      c \<in> set (count_text ''rescued'' re) \<or> c \<in> set (count_text ''ignored'' ig)"
    using c by (auto simp: r pad_def)
  then show ?thesis
    using host counts [of "''ok''" o1] counts [of "''changed''" ch] counts [of "''unreachable''" un] counts [of "''failed''" fa]
      counts [of "''skipped''" sk] counts [of "''rescued''" re] counts [of "''ignored''" ig]
    by (elim disjE) (simp_all add: re_space_def)
qed

lemma recap_text_start: "row_ok r \<Longrightarrow> \<not> has_prefix (recap_text r) ''PLAY RECAP''"
proof
  assume ok: "row_ok r" and "has_prefix (recap_text r) ''PLAY RECAP''"
  then obtain t where t: "recap_text r = ''PLAY'' @ '' RECAP'' @ t" by (auto simp: has_prefix_iff)
  obtain host main rest where r: "r = \<lparr>rr_host = host, rr_main = main, rr_rest = rest\<rparr>"
    by (metis recap_row.surjective old.unit.exhaust)
  obtain o1 ch un fa sk re ig where parts: "main = (o1, ch, un, fa)" "rest = (sk, re, ig)" by (metis prod_cases3 prod_cases4)
  have host: "\<forall>c\<in>set host. \<not> re_space c" using ok by (auto simp: r parts list_all_iff)
  have sp: "re_space CHR '' ''" by (simp add: re_space_def)
  obtain u where u: "recap_text r = host @ CHR '' '' # u" "u \<noteq> []" "hd u \<noteq> CHR ''R''"
  proof
    let ?v = "'':'' @ drop (length (pad 26 host @ '' :'')) (recap_text r)"
    have "recap_text r = host @ replicate (26 - length host) CHR '' '' @ CHR '' '' # ?v" by (simp add: r parts pad_def)
    then show "recap_text r = host @ CHR '' '' # replicate (26 - length host) CHR '' '' @ ?v"
      by (simp add: replicate_app_Cons_same)
    show "hd (replicate (26 - length host) CHR '' '' @ ?v) \<noteq> CHR ''R''" by (cases "26 - length host") simp_all
  qed simp
  have "takeWhile (\<lambda>c. \<not> re_space c) (recap_text r) = host" unfolding u(1) using host sp by (simp add: takeWhile_append2)
  moreover have "takeWhile (\<lambda>c. \<not> re_space c) (recap_text r) = ''PLAY''" unfolding t by (simp add: re_space_def)
  ultimately have "u = ''RECAP'' @ t" using u(1) t by simp
  with u(3) show False by simp
qed

lemma trim_right_none: "\<forall>c\<in>set s. \<not> P c \<Longrightarrow> trim_right_fn P s = s"
proof -
  assume "\<forall>c\<in>set s. \<not> P c"
  then have "\<forall>c\<in>set (rev s). \<not> P c" by simp
  then have "dropWhile P (rev s) = rev s" by (cases "rev s") simp_all
  then show ?thesis by (simp add: trim_right_fn_def)
qed

lemma trim_right_append: "a \<noteq> [] \<Longrightarrow> \<not> P (last a) \<Longrightarrow> trim_right_fn P (a @ b) = a @ trim_right_fn P b"
  by (cases a rule: rev_cases) (simp_all add: trim_right_fn_def dropWhile_append)

lemma recap_lines_rows:
  assumes "\<forall>r\<in>set rows. row_ok r"
  shows "recap_lines True (map recap_text rows) m = mcopy (map (\<lambda>r. (rr_host r, VMap (recap_counts r))) rows) m"
  using assms
proof (induction rows arbitrary: m)
  case (Cons r rows)
  then have ok: "row_ok r" by simp
  have "\<forall>c\<in>set (recap_text r). c \<noteq> CHR 0x0D" using recap_text_chars [OF ok] by (auto simp: re_space_def)
  then have "trim_right_fn (\<lambda>c. c = CHR 0x0D) (recap_text r) = recap_text r" by (rule trim_right_none)
  with host_recap_text [OF ok] recap_text_start [OF ok] Cons show ?case by (auto simp: mcopy_def Let_def)
qed (simp add: mcopy_def)

lemma recap_lines_before:
  assumes "\<forall>l\<in>set before. \<not> has_prefix (trim_right_fn (\<lambda>c. c = CHR 0x0D) l) ''PLAY RECAP''"
  shows "recap_lines False (before @ ls) m = recap_lines False ls m"
  using assms by (induction before) (simp_all add: Let_def)

text \<open>The recap of a playbook's output is read back: after any other lines, the table printed for
  the hosts gives each host its seven counts, with nothing lost or mixed up.\<close>

theorem recap_read_back:
  assumes "\<forall>r\<in>set rows. row_ok r"
    "\<forall>l\<in>set before. CHR 0x0A \<notin> set l \<and> \<not> has_prefix (trim_right_fn (\<lambda>c. c = CHR 0x0D) l) ''PLAY RECAP''"
    "CHR 0x0A \<notin> set stars"
  shows "parse_ansible_recap (join [CHR 0x0A] (before @ (''PLAY RECAP '' @ stars) # map recap_text rows)) =
    mcopy (map (\<lambda>r. (rr_host r, VMap (recap_counts r))) rows) []"
proof -
  let ?lines = "before @ (''PLAY RECAP '' @ stars) # map recap_text rows"
  have "\<forall>r\<in>set rows. CHR 0x0A \<notin> set (recap_text r)"
    using assms(1) recap_text_chars by (fastforce simp: re_space_def)
  with assms(2,3) have "split_on (CHR 0x0A) (join [CHR 0x0A] ?lines) = ?lines" by (intro split_on_join) auto
  moreover have "has_prefix (trim_right_fn (\<lambda>c. c = CHR 0x0D) (''PLAY RECAP '' @ stars)) ''PLAY RECAP''"
    using trim_right_append [of "''PLAY RECAP ''" "\<lambda>c. c = CHR 0x0D" stars] by simp
  ultimately show ?thesis
    using recap_lines_rows [OF assms(1), of "[]"] recap_lines_before [of before] assms(2)
    by (simp add: parse_ansible_recap_def Let_def)
qed

theorem recap_read_back_witness:
  "parse_ansible_recap (join [CHR 0x0A] ([''ok: [web]''] @ (''PLAY RECAP '' @ ''***'') #
       map recap_text [\<lparr>rr_host = ''web:22'', rr_main = (12, 1, 0, 0), rr_rest = (2, 0, 0)\<rparr>])) =
     mcopy (map (\<lambda>r. (rr_host r, VMap (recap_counts r))) [\<lparr>rr_host = ''web:22'', rr_main = (12, 1, 0, 0), rr_rest = (2, 0, 0)\<rparr>]) []"
  by (rule recap_read_back) (simp_all add: re_space_def trim_right_fn_def)

subsection \<open>A concrete host\<close>

text \<open>Its world is the list of temporary files, each with a name longer than all others.\<close>

definition fresh_name :: "string list \<Rightarrow> string" where
  "fresh_name ps = replicate (Suc (sum_list (map length ps))) CHR ''x''"

definition sample_temps :: "string list host" where
  "sample_temps = \<lparr>ho_temp = (\<lambda>pattern ps. (Inr (fresh_name ps), fresh_name ps # ps)), ho_chmod = (\<lambda>path ps. (None, ps)),
     ho_write = (\<lambda>path data ps. (None, ps)), ho_close = (\<lambda>path ps. (None, ps)), ho_remove = removeAll,
     ho_start = (\<lambda>command ps. (\<lparr>pr_stdout = [], pr_stderr = [], pr_exit = Some 0, pr_error = None\<rparr>, ps)),
     ho_environ = [], ho_fs = sample_fs\<rparr>"

lemma sample_temps_tidy: "tidy_host set sample_temps"
proof -
  have "fresh_name ps \<notin> set ps" for ps
  proof
    assume "fresh_name ps \<in> set ps"
    then have "length (fresh_name ps) \<in> set (map length ps)" by simp
    from member_le_sum_list [OF this] show False by (simp add: fresh_name_def)
  qed
  then show ?thesis by (auto simp: tidy_host_def sample_temps_def)
qed

theorem ansible_leaves_no_files_witness:
  "set (snd (ansible_playbook sample_golib (\<lambda>m. Inr ''all: {}'') sample_temps
      [(''extra_vars'', VMap [(''a'', VStr ''b'')]), (''inventory'', VMap []), (''playbook'', VStr ''site.yml'')] [''other''])) = {''other''}"
  by (simp only: ansible_leaves_no_files [OF sample_temps_tidy, THEN conjunct1] list.set)

text \<open>The playbook of the sample is started with the flags in the order of the code.\<close>

lemma sample_playbook_args:
  "\<exists>w. in_order [common_flags sample_golib (\<lambda>m. Inr ''all: {}'') sample_temps ''ansible_playbook'' ''ansible-playbook''
       [(''check'', VBool True), (''limit'', VList [VStr ''web'', VStr ''db'']), (''tags'', VStr ''x''), (''verbosity'', VInt 2)],
      playbook_flags ''ansible_playbook'' [(''tags'', VStr ''x'')]] (new_builder ''ansible_playbook'' ''ansible-playbook'', []) =
     (None, \<lparr>bu_name = ''ansible_playbook'', bu_binary = ''ansible-playbook'',
        bu_args = [''--limit'', ''web,db'', ''--check'', ''-vv'', ''--tags'', ''x''], bu_tmp = [], bu_chdir = [],
        bu_env = [''ANSIBLE_NOCOLOR=1'']\<rparr>, w)"
  by (intro exI [of _ "[]"]) code_simp

end
