(* ===== verification/Claude.thy ===== *)
theory Claude
  imports Ansible
begin

text \<open>
  The executor \<open>claude\<close> (\<open>pkg/executor/claude.go\<close>): the command line of a non-interactive run, and the
  stream of JSON events it prints, folded line by line into the state that gives the step's output,
  the progress it reports and the limits it enforces. The process, the texts of floats and the clock
  are the record \<open>claude_host\<close>. Numbers of the stream are floats, as \<open>json.Unmarshal\<close> makes them; a float out
  of range converts to the smallest int, as on amd64.
\<close>

subsection \<open>Limits\<close>

definition wrap64 :: "int \<Rightarrow> int" where
  "wrap64 i = sint (word_of_int i :: 64 word)"

definition f64_positive :: "f64 \<Rightarrow> bool" where
  "f64_positive b = (\<not> f64_is_nan b \<and> f64_key b > 0)"

definition f64_below_zero :: "f64 \<Rightarrow> bool" where
  "f64_below_zero b = (\<not> f64_is_nan b \<and> f64_key b < 0)"

definition float_param :: "golib \<Rightarrow> string \<Rightarrow> string \<Rightarrow> val \<Rightarrow> string + f64" where
  "float_param G name key raw =
     (let bad = Inl (name @ '': '' @ key @ '' must be a number'') in
      case raw of
        VFloat f \<Rightarrow> Inr f
      | VInt i \<Rightarrow> Inr (f64_of_int i)
      | VStr s \<Rightarrow> (case parse_float G s of Some f \<Rightarrow> Inr f | None \<Rightarrow> bad)
      | _ \<Rightarrow> bad)"

text \<open>The duration is in nanoseconds, multiplied as a 64-bit number.\<close>

record claude_limits =
  cl_max_turns :: int
  cl_max_tokens :: int
  cl_max_budget :: f64
  cl_max_duration :: int

definition no_limits :: claude_limits where
  "no_limits = \<lparr>cl_max_turns = 0, cl_max_tokens = 0, cl_max_budget = 0, cl_max_duration = 0\<rparr>"

definition set_limit :: "golib \<Rightarrow> string \<times> val \<Rightarrow> claude_limits \<Rightarrow> string + claude_limits" where
  "set_limit G kv l = (case kv of (key, v) \<Rightarrow>
     if key \<in> {''max_turns'', ''max_tokens'', ''max_duration''} then
       try_then (int_param G ''claude'' (''limits.'' @ key) v) (\<lambda>n.
         if n < 0 then Inl (''claude: limits.'' @ key @ '' must not be negative'')
         else Inr (if key = ''max_turns'' then l\<lparr>cl_max_turns := n\<rparr>
                   else if key = ''max_tokens'' then l\<lparr>cl_max_tokens := n\<rparr>
                   else l\<lparr>cl_max_duration := wrap64 (n * 1000000000)\<rparr>))
     else if key = ''max_budget_usd'' then
       try_then (float_param G ''claude'' ''limits.max_budget_usd'' v) (\<lambda>f.
         if f64_below_zero f then Inl ''claude: limits.max_budget_usd must not be negative''
         else Inr (l\<lparr>cl_max_budget := f\<rparr>))
     else Inl (''claude: unknown limit '' @ quoted key))"

fun set_limits :: "golib \<Rightarrow> gomap \<Rightarrow> claude_limits \<Rightarrow> string + claude_limits" where
  "set_limits G [] l = Inr l"
| "set_limits G (kv # m) l = try_then (set_limit G kv l) (set_limits G m)"

definition claude_parse_limits :: "golib \<Rightarrow> gomap \<Rightarrow> string + claude_limits" where
  "claude_parse_limits G params = (case mget params ''limits'' of
     None \<Rightarrow> Inr no_limits
   | Some (VMap m) \<Rightarrow> set_limits G m no_limits
   | Some _ \<Rightarrow> Inl ''claude: limits must be a map'')"

subsection \<open>The command line\<close>

definition claude_prompt :: "gomap \<Rightarrow> string + string" where
  "claude_prompt params = (case (mget params ''prompt'', mget params ''skill'') of
     (Some p, None) \<Rightarrow> (case p of
        VStr s \<Rightarrow> if trim_space s = [] then Inl ''claude: prompt must be a non-empty string'' else Inr s
      | _ \<Rightarrow> Inl ''claude: prompt must be a non-empty string'')
   | (None, Some k) \<Rightarrow> (case k of
        VStr s \<Rightarrow>
          if trim_space s = [] then Inl ''claude: skill must be a non-empty string''
          else let p = CHR ''/'' # trim_prefix (trim_space s) ''/'' in
            (case mget params ''args'' of
               None \<Rightarrow> Inr p
             | Some (VStr a) \<Rightarrow> Inr (if trim_space a = [] then p else p @ '' '' @ trim_space a)
             | Some _ \<Rightarrow> Inl ''claude: args must be a string'')
      | _ \<Rightarrow> Inl ''claude: skill must be a non-empty string'')
   | _ \<Rightarrow> Inl ''claude: exactly one of prompt or skill is required'')"

definition permission_modes :: "(string \<times> string) list" where
  "permission_modes =
     [(''acceptEdits'', ''acceptEdits''), (''auto'', ''auto''), (''bypassPermissions'', ''bypassPermissions''),
      (''bypass'', ''bypassPermissions''), (''manual'', ''manual''), (''dontAsk'', ''dontAsk''), (''plan'', ''plan'')]"

definition mode_args :: "gomap \<Rightarrow> string + string list" where
  "mode_args params = (case mget params ''permission_mode'' of
     None \<Rightarrow> Inr []
   | Some raw \<Rightarrow> (case map_of permission_modes (case raw of VStr s \<Rightarrow> s | _ \<Rightarrow> []) of
       None \<Rightarrow> Inl ''claude: permission_mode must be one of acceptEdits, auto, bypassPermissions (or bypass), manual, dontAsk, plan''
     | Some mode \<Rightarrow> Inr [''--permission-mode'', mode]))"

definition list_args :: "gomap \<Rightarrow> (string \<times> string \<times> bool) list \<Rightarrow> string + string list" where
  "list_args params fs = map_sum id concat (map_try (\<lambda>(key, flag, joined).
     map_sum id (\<lambda>vals. if vals = [] then [] else if joined then [flag, join '','' vals] else concat (map (\<lambda>v. [flag, v]) vals))
       (string_list_param ''claude'' params key)) fs)"

text \<open>The parts of the command line, from left to right.\<close>

fun append_parts :: "(string + string list) list \<Rightarrow> string + string list" where
  "append_parts [] = Inr []"
| "append_parts (p # ps) = try_then p (\<lambda>args. map_sum id ((@) args) (append_parts ps))"

definition claude_args :: "(f64 \<Rightarrow> string) \<Rightarrow> gomap \<Rightarrow> claude_limits \<Rightarrow> string + string list" where
  "claude_args format params limits = append_parts
     [Inr [''-p'', ''--output-format'', ''stream-json'', ''--verbose''],
      mode_args params,
      flag_table (text_arg ''claude'') params
        [(''model'', ''--model''), (''effort'', ''--effort''), (''fallback_model'', ''--fallback-model''),
         (''append_system_prompt'', ''--append-system-prompt''), (''resume'', ''--resume''),
         (''session_id'', ''--session-id''), (''settings'', ''--settings'')],
      flag_table (bool_arg ''claude'') params [(''bare'', ''--bare'')],
      list_args params
        [(''allowed_tools'', ''--allowedTools'', True), (''disallowed_tools'', ''--disallowedTools'', True),
         (''add_dirs'', ''--add-dir'', False), (''mcp_config'', ''--mcp-config'', False)],
      Inr (if f64_positive (cl_max_budget limits) then [''--max-budget-usd'', format (cl_max_budget limits)] else []),
      string_list_param ''claude'' params ''extra_args'']"

subsection \<open>The stream of events\<close>

record usage =
  us_input :: int
  us_output :: int
  us_create :: int
  us_read :: int

definition counted :: "usage \<Rightarrow> int" where
  "counted u = wrap64 (us_input u + us_output u + us_create u)"

record claude_stream =
  cs_session :: string
  cs_model :: string
  cs_turns :: "string list"
  cs_usage :: "(string \<times> usage) list"
  cs_events :: "val list"
  cs_truncated :: bool
  cs_result :: "gomap option"
  cs_breach :: string
  cs_notices :: "notice list"

definition new_stream :: claude_stream where
  "new_stream = \<lparr>cs_session = [], cs_model = [], cs_turns = [], cs_usage = [], cs_events = [], cs_truncated = False,
     cs_result = None, cs_breach = [], cs_notices = []\<rparr>"

definition total_usage :: "claude_stream \<Rightarrow> usage" where
  "total_usage s = (let us = map snd (cs_usage s) in
     \<lparr>us_input = wrap64 (sum_list (map us_input us)), us_output = wrap64 (sum_list (map us_output us)),
      us_create = wrap64 (sum_list (map us_create us)), us_read = wrap64 (sum_list (map us_read us))\<rparr>)"

definition stream_turns :: "claude_stream \<Rightarrow> int" where
  "stream_turns s = int (length (cs_turns s))"

definition stream_tokens :: "claude_stream \<Rightarrow> int" where
  "stream_tokens s = counted (total_usage s)"

definition json_int :: "val \<Rightarrow> int" where
  "json_int v = (case v of
     VFloat f \<Rightarrow> if in_int64 (f64_trunc f) then f64_trunc f else - (2 ^ 63)
   | VInt i \<Rightarrow> i
   | _ \<Rightarrow> 0)"

definition max_string_len :: nat where "max_string_len = 4000"

definition cut_mark :: string where
  "cut_mark = [CHR 0xE2, CHR 0x80, CHR 0xA6] @ ''[truncated]''"

fun truncate_value :: "val \<Rightarrow> val" where
  "truncate_value (VStr s) = VStr (if length s > max_string_len then take max_string_len s @ cut_mark else s)"
| "truncate_value (VMap m) = VMap (map (\<lambda>(k, v). (k, truncate_value v)) m)"
| "truncate_value (VList vs) = VList (map truncate_value vs)"
| "truncate_value v = v"

text \<open>Progress is reported for every call; with \<open>store\<close> the event is kept while there is room.\<close>

definition report_event :: "int \<Rightarrow> bool \<Rightarrow> string \<Rightarrow> gomap \<Rightarrow> claude_stream \<Rightarrow> claude_stream" where
  "report_event limit store kind data s =
     (let data = map (\<lambda>(k, v). (k, truncate_value v)) data;
          s = s\<lparr>cs_notices := cs_notices s @ [Progress kind data]\<rparr>
      in if \<not> store then s
         else if int (length (cs_events s)) \<ge> limit then s\<lparr>cs_truncated := True\<rparr>
         else s\<lparr>cs_events := cs_events s @ [VMap (mcopy data [(''kind'', VStr kind)])]\<rparr>)"

definition exceed :: "int \<Rightarrow> string \<Rightarrow> int \<Rightarrow> int \<Rightarrow> claude_stream \<Rightarrow> claude_stream" where
  "exceed limit what most observed s =
     (if cs_breach s \<noteq> [] then s
      else report_event limit True ''limit_exceeded''
        (mcopy [(''limit'', VStr what), (''max'', VFloat (f64_of_int most)), (''observed'', VFloat (f64_of_int observed))] [])
        (s\<lparr>cs_breach := what\<rparr>))"

definition list_value :: "val \<Rightarrow> val list" where
  "list_value v = (case v of VList vs \<Rightarrow> vs | _ \<Rightarrow> [])"

definition map_value :: "val \<Rightarrow> gomap" where
  "map_value v = (case v of VMap m \<Rightarrow> m | _ \<Rightarrow> [])"

definition text_value :: "val \<Rightarrow> string" where
  "text_value v = (case v of VStr s \<Rightarrow> s | _ \<Rightarrow> [])"

definition pick :: "gomap \<Rightarrow> string list \<Rightarrow> gomap" where
  "pick m ks = mcopy (map (\<lambda>k. (k, mget_nil m k)) ks) []"

definition add_message :: "gomap \<Rightarrow> gomap \<Rightarrow> claude_stream \<Rightarrow> claude_stream" where
  "add_message ev msg s =
     (let id = text_value (mget_nil msg ''id'') in
      if id = [] then s
      else
        let s = (if mget_nil ev ''parent_tool_use_id'' = VNil \<and> id \<notin> set (cs_turns s)
                 then s\<lparr>cs_turns := cs_turns s @ [id]\<rparr> else s)
        in case mget_nil msg ''usage'' of
             VMap u \<Rightarrow> s\<lparr>cs_usage := mput id
               \<lparr>us_input = json_int (mget_nil u ''input_tokens''), us_output = json_int (mget_nil u ''output_tokens''),
                us_create = json_int (mget_nil u ''cache_creation_input_tokens''),
                us_read = json_int (mget_nil u ''cache_read_input_tokens'')\<rparr> (cs_usage s)\<rparr>
           | _ \<Rightarrow> s)"

definition show_block :: "int \<Rightarrow> val \<Rightarrow> claude_stream \<Rightarrow> claude_stream" where
  "show_block limit b s =
     (let block = map_value b; kind = mget_nil block ''type'' in
      if kind = VStr ''text'' then report_event limit True ''text'' (pick block [''text'']) s
      else if kind = VStr ''tool_use'' then report_event limit True ''tool_use'' (pick block [''id'', ''name'', ''input'']) s
      else s)"

definition check_limits :: "claude_limits \<Rightarrow> int \<Rightarrow> claude_stream \<Rightarrow> claude_stream" where
  "check_limits L limit s =
     (if cl_max_turns L > 0 \<and> stream_turns s > cl_max_turns L
      then exceed limit ''max_turns'' (cl_max_turns L) (stream_turns s) s
      else if cl_max_tokens L > 0 \<and> stream_tokens s > cl_max_tokens L
      then exceed limit ''max_tokens'' (cl_max_tokens L) (stream_tokens s) s
      else s)"

definition handle_assistant :: "claude_limits \<Rightarrow> int \<Rightarrow> gomap \<Rightarrow> claude_stream \<Rightarrow> claude_stream" where
  "handle_assistant L limit ev s = (case mget_nil ev ''message'' of
     VMap msg \<Rightarrow>
       let s = fold (show_block limit) (list_value (mget_nil msg ''content'')) (add_message ev msg s);
           s = report_event limit False ''usage'' (mcopy [(''turns'', VInt (stream_turns s)), (''tokens'', VInt (stream_tokens s))] []) s
       in check_limits L limit s
   | _ \<Rightarrow> s)"

definition tool_result_text :: "val \<Rightarrow> string" where
  "tool_result_text v = (case v of
     VStr s \<Rightarrow> s
   | VList items \<Rightarrow> join [newline_char] (List.map_filter (\<lambda>item. as_string (mget_nil (map_value item) ''text'')) items)
   | _ \<Rightarrow> [])"

definition show_result :: "int \<Rightarrow> val \<Rightarrow> claude_stream \<Rightarrow> claude_stream" where
  "show_result limit b s =
     (let block = map_value b in
      if mget_nil block ''type'' \<noteq> VStr ''tool_result'' then s
      else report_event limit True ''tool_result''
        (mput ''content'' (VStr (tool_result_text (mget_nil block ''content''))) (pick block [''tool_use_id'', ''is_error''])) s)"

definition handle_user :: "int \<Rightarrow> gomap \<Rightarrow> claude_stream \<Rightarrow> claude_stream" where
  "handle_user limit ev s =
     fold (show_result limit) (list_value (mget_nil (map_value (mget_nil ev ''message'')) ''content'')) s"

definition handle :: "claude_limits \<Rightarrow> int \<Rightarrow> gomap \<Rightarrow> claude_stream \<Rightarrow> claude_stream" where
  "handle L limit ev s =
     (let kind = mget_nil ev ''type'' in
      if kind = VStr ''system'' then
        if mget_nil ev ''subtype'' = VStr ''init'' then
          let s = s\<lparr>cs_session := text_value (mget_nil ev ''session_id''), cs_model := text_value (mget_nil ev ''model'')\<rparr>
          in report_event limit True ''init''
               (mcopy [(''session_id'', VStr (cs_session s)), (''model'', VStr (cs_model s)), (''cwd'', mget_nil ev ''cwd'')] []) s
        else s
      else if kind = VStr ''assistant'' then handle_assistant L limit ev s
      else if kind = VStr ''user'' then handle_user limit ev s
      else if kind = VStr ''result'' then
        let id = text_value (mget_nil ev ''session_id'');
            s = s\<lparr>cs_result := Some ev, cs_session := (if id \<noteq> [] then id else cs_session s)\<rparr>
        in report_event limit True ''result'' (pick ev [''is_error'', ''num_turns'', ''total_cost_usd'', ''stop_reason'', ''result'']) s
      else s)"

text \<open>One line. After a breach the pipe is drained and nothing counts any more.\<close>

definition one_line :: "golib \<Rightarrow> claude_limits \<Rightarrow> int \<Rightarrow> string \<Rightarrow> claude_stream \<Rightarrow> claude_stream" where
  "one_line G L limit line s =
     (if trim_space line = [] then s
      else case unmarshal G (trim_space line) of
        Some (VMap ev) \<Rightarrow> if cs_breach s = [] then handle L limit ev s else s
      | _ \<Rightarrow> s)"

definition consume :: "golib \<Rightarrow> claude_limits \<Rightarrow> int \<Rightarrow> string \<Rightarrow> claude_stream \<Rightarrow> claude_stream" where
  "consume G L limit out = fold (one_line G L limit) (split_on newline_char out)"

subsection \<open>The executor\<close>

text \<open>What is left when the process is over: its exit code and error, whether its deadline passed, and the
  error of a cancelled run.\<close>

record ended =
  en_exit :: "int option"
  en_error :: "string option"
  en_stderr :: string
  en_deadline :: bool
  en_cancelled :: "string option"

record 'w claude_host =
  ch_pipe :: "'w \<Rightarrow> string option \<times> 'w"
  ch_start :: "command_line \<Rightarrow> int \<Rightarrow> 'w \<Rightarrow> (string + string) \<times> 'w"
  ch_wait :: "bool \<Rightarrow> 'w \<Rightarrow> ended \<times> 'w"
  ch_environ :: "string list"
  ch_fs :: fs_view
  ch_format :: "f64 \<Rightarrow> string"
  ch_seconds :: "int \<Rightarrow> f64"

definition claude_string :: "val \<Rightarrow> string \<Rightarrow> string" where
  "claude_string v fallback = (case v of VStr s \<Rightarrow> if s \<noteq> [] then s else fallback | _ \<Rightarrow> fallback)"

definition result_is_error :: "claude_stream \<Rightarrow> bool" where
  "result_is_error s = (case cs_result s of
     None \<Rightarrow> False | Some m \<Rightarrow> (case mget_nil m ''is_error'' of VBool b \<Rightarrow> b | _ \<Rightarrow> False))"

text \<open>Without events the list is a nil slice, which prints as null.\<close>

definition events_value :: "claude_stream \<Rightarrow> val" where
  "events_value s = (if cs_events s = [] then VStrs [] else VList (cs_events s))"

definition result_fields :: "claude_stream \<Rightarrow> string \<Rightarrow> gomap \<Rightarrow> gomap" where
  "result_fields s breach m =
     [(''result'', VStr (claude_string (mget_nil m ''result'') [])),
      (''is_error'', VBool (breach \<noteq> [] \<or> result_is_error s))] @
     List.map_filter (\<lambda>k. map_option (Pair k) (mget m k)) [''stop_reason'', ''terminal_reason'', ''duration_ms'', ''permission_denials''] @
     (case mget_nil m ''total_cost_usd'' of VFloat f \<Rightarrow> [(''total_cost_usd'', VFloat f)] | _ \<Rightarrow> []) @
     (case mget m ''num_turns'' of None \<Rightarrow> [] | Some n \<Rightarrow> [(''num_turns'', VInt (json_int n))])"

definition claude_output :: "claude_stream \<Rightarrow> int \<Rightarrow> string \<Rightarrow> string \<Rightarrow> gomap" where
  "claude_output s exit stderr breach =
     (let u = total_usage s;
          out = mcopy
            [(''session_id'', VStr (cs_session s)), (''model'', VStr (cs_model s)), (''exit_code'', VInt exit),
             (''stderr'', VStr stderr), (''num_turns'', VInt (stream_turns s)), (''tokens'', VInt (counted u)),
             (''usage'', VMap (mcopy [(''input_tokens'', VInt (us_input u)), (''output_tokens'', VInt (us_output u)),
                (''cache_creation_input_tokens'', VInt (us_create u)), (''cache_read_input_tokens'', VInt (us_read u))] [])),
             (''events'', events_value s), (''events_truncated'', VBool (cs_truncated s)),
             (''limit_exceeded'', VStr breach), (''result'', VStr []), (''is_error'', VBool (breach \<noteq> [])),
             (''total_cost_usd'', VFloat 0)] []
      in case cs_result s of None \<Rightarrow> out | Some m \<Rightarrow> mcopy (result_fields s breach m) out)"

definition with_stderr :: "string \<Rightarrow> string \<Rightarrow> string" where
  "with_stderr e stderr = ''claude: '' @ e @ [newline_char] @ ''stderr: '' @ stderr"

text \<open>The verdict, in the order of the switch.\<close>

definition claude_verdict :: "claude_stream \<Rightarrow> string \<Rightarrow> ended \<Rightarrow> string option" where
  "claude_verdict s breach en =
     (if breach \<noteq> [] then Some (''claude: limit exceeded: '' @ breach)
      else case en_cancelled en of
        Some e \<Rightarrow> Some (''claude: '' @ e)
      | None \<Rightarrow> (case cs_result s of
          None \<Rightarrow> Some (case en_error en of
              Some e \<Rightarrow> with_stderr e (en_stderr en)
            | None \<Rightarrow> with_stderr ''process ended without a result event'' (en_stderr en))
        | Some m \<Rightarrow>
            if result_is_error s then Some (''claude: '' @ claude_string (mget_nil m ''result'') ''run reported an error'')
            else map_option (\<lambda>e. with_stderr e (en_stderr en)) (en_error en)))"

definition finish_claude :: "'w claude_host \<Rightarrow> claude_limits \<Rightarrow> int \<Rightarrow> claude_stream \<Rightarrow> ended \<Rightarrow> exec_out" where
  "finish_claude C L limit s en =
     (let late = (cs_breach s = [] \<and> cl_max_duration L > 0 \<and> en_deadline en \<and> en_cancelled en = None);
          breach = (if late then ''max_duration'' else cs_breach s);
          s = (if late then report_event limit True ''limit_exceeded''
                 (mcopy [(''limit'', VStr breach), (''max'', VFloat (ch_seconds C (cl_max_duration L)))] []) s else s);
          exit = (case en_exit en of None \<Rightarrow> - 1 | Some c \<Rightarrow> c)
      in \<lparr>xo_output = Some (claude_output s exit (en_stderr en) breach), xo_error = claude_verdict s breach en,
          xo_notices = cs_notices s\<rparr>)"

definition events_limit :: "golib \<Rightarrow> gomap \<Rightarrow> string + int" where
  "events_limit G params = (case mget params ''events_limit'' of
     None \<Rightarrow> Inr 200 | Some raw \<Rightarrow> int_param G ''claude'' ''events_limit'' raw)"

definition claude_command :: "golib \<Rightarrow> 'w claude_host \<Rightarrow> gomap \<Rightarrow> string + (command_line \<times> claude_limits \<times> int)" where
  "claude_command G C params =
     try_then (claude_prompt params) (\<lambda>prompt.
     try_then (claude_parse_limits G params) (\<lambda>L.
     try_then (claude_args (ch_format C) params L) (\<lambda>args.
     try_then (text_param ''claude'' params ''binary'' ''claude'') (\<lambda>binary.
     try_then (chdir_param (ch_fs C) ''claude'' params) (\<lambda>chdir.
     try_then (env_pairs G ''claude'' params) (\<lambda>env.
     try_then (events_limit G params) (\<lambda>limit.
       Inr (\<lparr>cl_program = binary, cl_args = args, cl_env = Some (ch_environ C @ env), cl_stdin = Some prompt, cl_dir = chdir\<rparr>,
            L, limit))))))))"

definition claude :: "golib \<Rightarrow> 'w claude_host \<Rightarrow> gomap \<Rightarrow> 'w \<Rightarrow> exec_out \<times> 'w" where
  "claude G C params w = (case claude_command G C params of
     Inl e \<Rightarrow> (exec_fails e, w)
   | Inr (command, L, limit) \<Rightarrow> (case ch_pipe C w of
       (Some e, w) \<Rightarrow> (exec_fails (''claude: '' @ e), w)
     | (None, w) \<Rightarrow> (case ch_start C command (cl_max_duration L) w of
         (Inl e, w) \<Rightarrow> (exec_fails (''claude: starting '' @ cl_program command @ '': '' @ e), w)
       | (Inr out, w) \<Rightarrow>
           let s = consume G L limit out new_stream;
               (en, w) = ch_wait C (cs_breach s \<noteq> []) w
           in (finish_claude C L limit s en, w))))"

subsection \<open>The limits are enforced\<close>

definition within :: "claude_limits \<Rightarrow> claude_stream \<Rightarrow> bool" where
  "within L s \<longleftrightarrow> (cl_max_turns L \<le> 0 \<or> stream_turns s \<le> cl_max_turns L) \<and>
     (cl_max_tokens L \<le> 0 \<or> stream_tokens s \<le> cl_max_tokens L)"

definition over :: "claude_limits \<Rightarrow> string \<Rightarrow> claude_stream \<Rightarrow> bool" where
  "over L what s \<longleftrightarrow>
     what = ''max_turns'' \<and> 0 < cl_max_turns L \<and> cl_max_turns L < stream_turns s \<or>
     what = ''max_tokens'' \<and> 0 < cl_max_tokens L \<and> cl_max_tokens L < stream_tokens s"

named_theorems emitted

lemma report_fields [emitted]:
  "cs_turns (report_event limit store kind data s) = cs_turns s" "cs_usage (report_event limit store kind data s) = cs_usage s"
  "cs_breach (report_event limit store kind data s) = cs_breach s" "cs_result (report_event limit store kind data s) = cs_result s"
  by (simp_all add: report_event_def Let_def)

lemma counts_of_fields:
  "cs_turns s = cs_turns t \<Longrightarrow> stream_turns s = stream_turns t"
  "cs_usage s = cs_usage t \<Longrightarrow> stream_tokens s = stream_tokens t"
  by (simp_all add: stream_turns_def stream_tokens_def total_usage_def)

lemma within_fields: "cs_turns s = cs_turns t \<Longrightarrow> cs_usage s = cs_usage t \<Longrightarrow> within L s = within L t"
  using counts_of_fields [of s t] by (simp add: within_def)

lemma over_fields: "cs_turns s = cs_turns t \<Longrightarrow> cs_usage s = cs_usage t \<Longrightarrow> over L what s = over L what t"
  using counts_of_fields [of s t] by (simp add: over_def)

lemma within_same [emitted]:
  "within L (report_event limit store kind data s) = within L s" "within L (s\<lparr>cs_session := a\<rparr>) = within L s"
  "within L (s\<lparr>cs_model := b\<rparr>) = within L s" "within L (s\<lparr>cs_result := c\<rparr>) = within L s"
  by (rule within_fields; simp add: emitted)+

lemma show_block_fields [emitted]:
  "cs_turns (show_block limit b s) = cs_turns s" "cs_usage (show_block limit b s) = cs_usage s"
  "cs_breach (show_block limit b s) = cs_breach s"
  by (simp_all add: show_block_def Let_def emitted)

lemma show_result_fields [emitted]:
  "cs_turns (show_result limit b s) = cs_turns s" "cs_usage (show_result limit b s) = cs_usage s"
  "cs_breach (show_result limit b s) = cs_breach s"
  by (simp_all add: show_result_def Let_def emitted)

lemma fold_fields:
  assumes "\<And>b s. g (f b s) = g s"
  shows "g (fold f bs s) = g s"
  using assms by (induction bs arbitrary: s) simp_all

lemma add_message_breach [emitted]: "cs_breach (add_message ev msg s) = cs_breach s"
  by (simp add: add_message_def Let_def split: val.split)

lemma exceed_fields:
  "stream_turns (exceed limit what m n s) = stream_turns s" "stream_tokens (exceed limit what m n s) = stream_tokens s"
  "cs_breach (exceed limit what m n s) = (if cs_breach s = [] then what else cs_breach s)"
  by (rule counts_of_fields, simp add: exceed_def emitted)+ (simp add: exceed_def emitted)

lemma check_limits_verdict:
  assumes "cs_breach s = []"
  shows "if cs_breach (check_limits L limit s) = [] then within L (check_limits L limit s)
    else over L (cs_breach (check_limits L limit s)) (check_limits L limit s)"
  using assms by (auto simp: check_limits_def within_def over_def exceed_fields)

lemma handle_verdict:
  assumes "cs_breach s = []" "within L s"
  shows "if cs_breach (handle L limit ev s) = [] then within L (handle L limit ev s)
    else over L (cs_breach (handle L limit ev s)) (handle L limit ev s)"
proof -
  have user: "cs_breach (handle_user limit ev s) = []" "within L (handle_user limit ev s)"
    using assms fold_fields [of cs_breach "show_result limit"]
      within_fields [of "handle_user limit ev s" s L] fold_fields [of cs_turns "show_result limit"] fold_fields [of cs_usage "show_result limit"]
    by (simp_all add: handle_user_def emitted)
  have assistant: "if cs_breach (handle_assistant L limit ev s) = [] then within L (handle_assistant L limit ev s)
    else over L (cs_breach (handle_assistant L limit ev s)) (handle_assistant L limit ev s)"
  proof (cases "mget_nil ev ''message''")
    case (VMap msg)
    have "cs_breach (fold (show_block limit) bs (add_message ev msg s)) = []" for bs
      using assms fold_fields [of cs_breach "show_block limit"] by (simp add: emitted)
    then show ?thesis unfolding handle_assistant_def VMap val.case Let_def
      by (intro check_limits_verdict) (simp add: emitted)
  qed (use assms in \<open>simp_all add: handle_assistant_def\<close>)
  from user assistant assms show ?thesis by (simp add: handle_def Let_def emitted)
qed

lemma one_line_verdict:
  assumes "cs_breach s = []" "within L s"
  shows "if cs_breach (one_line G L limit line s) = [] then within L (one_line G L limit line s)
    else over L (cs_breach (one_line G L limit line s)) (one_line G L limit line s)"
  using assms handle_verdict [OF assms] by (simp add: one_line_def split: option.split val.split)

lemma one_line_frozen: "cs_breach s \<noteq> [] \<Longrightarrow> one_line G L limit line s = s"
  by (simp add: one_line_def split: option.split val.split)

lemma lines_frozen: "cs_breach s \<noteq> [] \<Longrightarrow> fold (one_line G L limit) ls s = s"
  by (induction ls) (simp_all add: one_line_frozen)

lemma lines_verdict:
  assumes "cs_breach s = []" "within L s"
  shows "if cs_breach (fold (one_line G L limit) ls s) = [] then within L (fold (one_line G L limit) ls s)
    else \<exists>pre line post. ls = pre @ line # post \<and>
      cs_breach (fold (one_line G L limit) pre s) = [] \<and> within L (fold (one_line G L limit) pre s) \<and>
      fold (one_line G L limit) ls s = one_line G L limit line (fold (one_line G L limit) pre s) \<and>
      over L (cs_breach (fold (one_line G L limit) ls s)) (fold (one_line G L limit) ls s)"
  using assms
proof (induction ls rule: rev_induct)
  case (snoc line ls)
  let ?run = "\<lambda>ls. fold (one_line G L limit) ls s"
  show ?case
  proof (cases "cs_breach (?run ls) = []")
    case True
    with snoc have w: "within L (?run ls)" by simp
    show ?thesis
    proof (cases "cs_breach (?run (ls @ [line])) = []")
      case False
      with one_line_verdict [OF True w, of G limit line]
      have "over L (cs_breach (?run (ls @ [line]))) (?run (ls @ [line]))" by simp
      with True w False show ?thesis
        by (simp only: if_False) (rule exI [of _ ls], rule exI [of _ line], rule exI [of _ "[]"], simp)
    qed (use one_line_verdict [OF True w, of G limit line] in simp)
  next
    case False
    then have same: "?run (ls @ [line]) = ?run ls" by (simp add: one_line_frozen)
    from snoc False obtain pre l post where split: "ls = pre @ l # post" "cs_breach (?run pre) = []" "within L (?run pre)"
        "?run ls = one_line G L limit l (?run pre)" "over L (cs_breach (?run ls)) (?run ls)" by auto
    have "ls @ [line] = pre @ l # (post @ [line])" using split(1) by simp
    with split(2-5) False show ?thesis unfolding same by (auto simp only: if_False)
  qed
qed simp

text \<open>C29. The limits of a \<open>claude\<close> step hold: while no limit is exceeded the turns and tokens are within them,
  and when one is, the run's state is that of the very line that exceeded it, whatever the process still
  prints, and the step fails with the name of the limit.\<close>

theorem claude_limits_enforced:
  "let s = consume G L limit out new_stream;
       at = (\<lambda>ls. fold (one_line G L limit) ls new_stream)
   in if cs_breach s = [] then within L s
      else xo_error (finish_claude C L limit s en) = Some (''claude: limit exceeded: '' @ cs_breach s) \<and>
        over L (cs_breach s) s \<and>
        (\<exists>pre line post. split_on newline_char out = pre @ line # post \<and>
           cs_breach (at pre) = [] \<and> within L (at pre) \<and> s = one_line G L limit line (at pre))"
proof -
  have fresh: "cs_breach new_stream = []" "within L new_stream"
    by (auto simp: new_stream_def within_def stream_turns_def stream_tokens_def total_usage_def counted_def wrap64_def)
  have verdict: "cs_breach s \<noteq> [] \<Longrightarrow>
      xo_error (finish_claude C L limit s en) = Some (''claude: limit exceeded: '' @ cs_breach s)" for s
    by (simp add: finish_claude_def claude_verdict_def Let_def)
  show ?thesis
    using lines_verdict [OF fresh, of G limit "split_on newline_char out"]
    by (auto simp: Let_def consume_def verdict split: if_splits)
qed

text \<open>The list of events stays within its limit.\<close>

definition has_room :: "int \<Rightarrow> claude_stream \<Rightarrow> bool" where
  "has_room limit s \<longleftrightarrow> int (length (cs_events s)) \<le> max 0 limit"

named_theorems roomy

lemma has_room_report [roomy]: "has_room limit s \<Longrightarrow> has_room limit (report_event limit store kind data s)"
  by (simp add: has_room_def report_event_def Let_def)

lemma has_room_fields [roomy]:
  "has_room limit (s\<lparr>cs_session := a\<rparr>) = has_room limit s" "has_room limit (s\<lparr>cs_model := b\<rparr>) = has_room limit s"
  "has_room limit (s\<lparr>cs_result := c\<rparr>) = has_room limit s" "has_room limit (s\<lparr>cs_breach := d\<rparr>) = has_room limit s"
  "has_room limit (s\<lparr>cs_turns := e\<rparr>) = has_room limit s" "has_room limit (s\<lparr>cs_usage := f\<rparr>) = has_room limit s"
  by (simp_all add: has_room_def)

lemma has_room_add_message [roomy]: "has_room limit (add_message ev msg s) = has_room limit s"
  by (simp add: add_message_def Let_def roomy split: val.split)

lemma has_room_block [roomy]: "has_room limit s \<Longrightarrow> has_room limit (show_block limit b s)"
  by (simp add: show_block_def Let_def roomy)

lemma has_room_shown [roomy]: "has_room limit s \<Longrightarrow> has_room limit (show_result limit b s)"
  by (simp add: show_result_def Let_def roomy)

lemma has_room_check [roomy]: "has_room limit s \<Longrightarrow> has_room limit (check_limits L limit s)"
  by (simp add: check_limits_def exceed_def roomy)

lemma has_room_fold: "(\<And>b s. has_room limit s \<Longrightarrow> has_room limit (f b s)) \<Longrightarrow> has_room limit s \<Longrightarrow> has_room limit (fold f bs s)"
  by (induction bs arbitrary: s) simp_all

lemma has_room_handle: "has_room limit s \<Longrightarrow> has_room limit (handle L limit ev s)"
  by (simp add: handle_def handle_assistant_def handle_user_def Let_def roomy has_room_fold split: val.split)

lemma events_within_limit: "int (length (cs_events (consume G L limit out new_stream))) \<le> max 0 limit"
proof -
  have "has_room limit (one_line G L limit line s)" if "has_room limit s" for line s
    using that by (simp add: one_line_def has_room_handle split: option.split val.split)
  then have "has_room limit (consume G L limit out new_stream)"
    unfolding consume_def by (intro has_room_fold) (simp_all add: has_room_def new_stream_def)
  then show ?thesis by (simp add: has_room_def)
qed

text \<open>A step succeeds only with a result of the run that is no error, no limit exceeded and a process that
  ended well.\<close>

lemma claude_success:
  "xo_error (finish_claude C L limit s en) = None \<longleftrightarrow>
     cs_breach s = [] \<and> (cl_max_duration L \<le> 0 \<or> \<not> en_deadline en) \<and> en_cancelled en = None \<and>
     cs_result s \<noteq> None \<and> \<not> result_is_error s \<and> en_error en = None"
  by (auto simp: finish_claude_def claude_verdict_def Let_def emitted result_is_error_def split: option.splits if_splits)

subsection \<open>Numbers\<close>

lemma f64_of_int_values: "f64_of_int 1 = f64_one" "f64_of_int (- 3) = 0xC008000000000000" "f64_of_int 9007199254740993 = 0x4340000000000000"
  by (simp_all add: f64_of_int_def f64_of_nat_def f64_one_def bit_length.simps Let_def)

text \<open>A large \<open>max_duration\<close> wraps around to a negative one, which sets no deadline.\<close>

lemma max_duration_wraps:
  "\<exists>L. set_limit G (''max_duration'', VInt 9223372037) no_limits = Inr L \<and> cl_max_duration L < 0"
  by (simp add: set_limit_def int_param_def wrap64_def)

text \<open>A sub-agent's message is no turn, and a message that is streamed in parts counts once.\<close>

lemma sample_turns:
  "stream_turns (fold (\<lambda>ev. handle no_limits 5 ev)
     [[(''message'', VMap [(''id'', VStr ''m1'')]), (''type'', VStr ''assistant'')],
      [(''message'', VMap [(''id'', VStr ''m1'')]), (''type'', VStr ''assistant'')],
      [(''message'', VMap [(''id'', VStr ''m2'')]), (''parent_tool_use_id'', VStr ''t''), (''type'', VStr ''assistant'')]] new_stream) = 1"
  by code_simp

end
