(* ===== verification/Workflow_Dir.thy ===== *)
theory Workflow_Dir
  imports Workflow_File Go_Path "HOL-Library.Multiset"
begin

text \<open>
  Reading a workflow from a file or a directory (\<open>pkg/parser/parser.go\<close>, \<open>jev.go\<close>): which files are read
  and in which order, how variables and step types of several files are merged, the included rule
  files, and the validation at the end. The YAML decoder and the answers of the operating system about
  paths are parameters. A decoder gets the zero value of its target when the file is empty.
\<close>

subsection \<open>Files and their decoders\<close>

datatype stat = Absent string | Unreadable string | Is_File | Is_Dir

datatype listing = No_Dir string | Bad_Dir string | Entries "(string \<times> bool) list"

record files =
  fv_stat :: "string \<Rightarrow> stat"
  fv_read :: "string \<Rightarrow> string + string"
  fv_list :: "string \<Rightarrow> listing"

record yaml =
  ya_file :: "string \<Rightarrow> string + workflow_file"
  ya_meta :: "string \<Rightarrow> string + (string \<times> string \<times> int)"
  ya_vars :: "string \<Rightarrow> string + gomap"
  ya_rules :: "string \<Rightarrow> string + rule list"
  ya_types :: "string \<Rightarrow> string + (string \<times> step_type) list"
  ya_workflow :: "string \<Rightarrow> string + workflow"
  ya_rule_file :: "string \<Rightarrow> string + rule list"
  ya_connections :: "string \<Rightarrow> string + (string \<times> connection) list"
  ya_decisions :: "string \<Rightarrow> string + (string \<times> decision) list"

definition read_yaml :: "files \<Rightarrow> (string \<Rightarrow> string + 'a) \<Rightarrow> 'a \<Rightarrow> string \<Rightarrow> string + 'a" where
  "read_yaml F decode zero path = (case fv_read F path of
     Inl e \<Rightarrow> Inl (''reading '' @ quoted path @ '': '' @ e)
   | Inr data \<Rightarrow>
       if data = [] then Inr zero
       else map_sum (\<lambda>e. ''parsing '' @ quoted path @ '': '' @ e) id (decode data))"

definition read_optional_yaml :: "files \<Rightarrow> (string \<Rightarrow> string + 'a) \<Rightarrow> 'a \<Rightarrow> string \<Rightarrow> string + 'a" where
  "read_optional_yaml F decode zero path = (case fv_stat F path of
     Absent e \<Rightarrow> Inr zero
   | Unreadable e \<Rightarrow> Inl e
   | _ \<Rightarrow> read_yaml F decode zero path)"

text \<open>The files of a directory that are read: no directories, with the extension, in the order of names.\<close>

definition yaml_files :: "string \<Rightarrow> (string \<times> bool) list \<Rightarrow> string list" where
  "yaml_files d entries = sort (map (\<lambda>e. path_join d (fst e)) (filter (\<lambda>e. \<not> snd e \<and> ext (fst e) = ''.yaml'') entries))"

subsection \<open>Merging maps\<close>

text \<open>The entries of one file, each under a new name.\<close>

fun add_unique :: "(string \<Rightarrow> string) \<Rightarrow> (string \<times> 'a) list \<Rightarrow> (string \<times> 'a) list \<Rightarrow> string + (string \<times> 'a) list" where
  "add_unique twice [] m = Inr m"
| "add_unique twice ((k, v) # es) m = (if mget m k \<noteq> None then Inl (twice k) else add_unique twice es (mput k v m))"

fun merge_files :: "(string \<Rightarrow> string + (string \<times> 'a) list) \<Rightarrow> (string \<Rightarrow> string \<Rightarrow> string) \<Rightarrow> string list \<Rightarrow>
    (string \<times> 'a) list \<Rightarrow> string + (string \<times> 'a) list" where
  "merge_files load twice [] m = Inr m"
| "merge_files load twice (path # paths) m =
     try_then (load path) (\<lambda>es. try_then (add_unique (\<lambda>k. twice k path) es m) (merge_files load twice paths))"

definition duplicate_text :: "string \<Rightarrow> string \<Rightarrow> string \<Rightarrow> string" where
  "duplicate_text what name path = ''duplicate '' @ what @ '' '' @ quoted name @ '' in '' @ quoted path"

definition read_vars :: "files \<Rightarrow> yaml \<Rightarrow> string \<Rightarrow> string + gomap" where
  "read_vars F Y path = try_then (read_yaml F (ya_vars Y) [] (path_join path ''vars.yaml'')) (\<lambda>vars.
     let d = path_join path ''vars'' in
     case fv_list F d of
       No_Dir e \<Rightarrow> Inr vars
     | Bad_Dir e \<Rightarrow> Inl (''reading vars directory '' @ quoted d @ '': '' @ e)
     | Entries es \<Rightarrow> merge_files (read_yaml F (ya_vars Y) []) (duplicate_text ''variable'') (yaml_files d es) vars)"

definition read_step_types :: "files \<Rightarrow> yaml \<Rightarrow> string \<Rightarrow> string + (string \<times> step_type) list" where
  "read_step_types F Y path =
     (let f = path_join path ''step_types.yaml''; d = path_join path ''step_types'';
          load = read_yaml F (ya_types Y) [];
          merge = merge_files load (duplicate_text ''step type'');
          from_dir = (\<lambda>m. case fv_stat F d of
             Absent e \<Rightarrow> Inr m
           | Is_Dir \<Rightarrow> (case fv_list F d of
               Entries es \<Rightarrow> merge (yaml_files d es) m
             | No_Dir e \<Rightarrow> Inl (''reading step_types directory '' @ quoted d @ '': '' @ e)
             | Bad_Dir e \<Rightarrow> Inl (''reading step_types directory '' @ quoted d @ '': '' @ e))
           | _ \<Rightarrow> Inl (''reading '' @ quoted d @ '': expected directory, got file''))
      in case (fv_stat F f, fv_stat F d) of
           (Unreadable e, _) \<Rightarrow> Inl (''reading '' @ quoted f @ '': '' @ e)
         | (_, Unreadable e) \<Rightarrow> Inl (''reading '' @ quoted d @ '': '' @ e)
         | (Absent e, Absent e') \<Rightarrow> Inl (''reading '' @ quoted f @ '' or '' @ quoted d @ '': step types category not found'')
         | (Is_Dir, _) \<Rightarrow> Inl (''reading '' @ quoted f @ '': expected file, got directory'')
         | (Is_File, _) \<Rightarrow> try_then (merge [f] []) from_dir
         | (Absent e, _) \<Rightarrow> from_dir [])"

subsection \<open>Included rule files\<close>

fun load_rule_files :: "files \<Rightarrow> yaml \<Rightarrow> string \<Rightarrow> rule list \<Rightarrow> string + rule list" where
  "load_rule_files F Y b [] = Inr []"
| "load_rule_files F Y b (r # rs) =
     (if ru_file r \<noteq> [] then
        let path = (if is_abs (ru_file r) then ru_file r else path_join b (ru_file r)) in
        (case fv_read F path of
           Inl e \<Rightarrow> Inl (''loading rule file '' @ quoted (ru_file r) @ '': '' @ e)
         | Inr data \<Rightarrow> (case ya_rule_file Y data of
             Inl e \<Rightarrow> Inl (''parsing rule file '' @ quoted (ru_file r) @ '': '' @ e)
           | Inr included \<Rightarrow> map_sum id ((@) included) (load_rule_files F Y b rs)))
      else map_sum id ((#) r) (load_rule_files F Y b rs))"

text \<open>The checks at the end, after the rules are there.\<close>

definition finish_file :: "golib \<Rightarrow> files \<Rightarrow> yaml \<Rightarrow> string \<Rightarrow> workflow_file \<Rightarrow> string + workflow_file" where
  "finish_file G F Y b f = try_then (load_rule_files F Y b (fi_rules f)) (\<lambda>rs. validate G (f\<lparr>fi_rules := rs\<rparr>))"

definition parse_data :: "golib \<Rightarrow> files \<Rightarrow> yaml \<Rightarrow> string \<Rightarrow> string \<Rightarrow> string + workflow_file" where
  "parse_data G F Y data scripts = (case ya_file Y data of
     Inl e \<Rightarrow> Inl (''parsing workflow YAML: '' @ e)
   | Inr f \<Rightarrow> finish_file G F Y ''.'' (f\<lparr>fi_script_dir := scripts\<rparr>))"

definition parse_bytes :: "golib \<Rightarrow> files \<Rightarrow> yaml \<Rightarrow> string \<Rightarrow> string + workflow_file" where
  "parse_bytes G F Y data = parse_data G F Y data ''scripts''"

subsection \<open>Directories\<close>

definition no_workflow :: workflow where
  "no_workflow = \<lparr>wf_name = [], wf_description = [], wf_vars = [], wf_steps = [], wf_rescue = [], wf_always = []\<rparr>"

definition read_workflows :: "files \<Rightarrow> yaml \<Rightarrow> string \<Rightarrow> string + workflow list" where
  "read_workflows F Y path =
     (let d = path_join path ''workflows'';
          bad = (\<lambda>e. Inl (''reading workflows directory '' @ quoted d @ '': '' @ e)) in
      case fv_list F d of
        No_Dir e \<Rightarrow> bad e
      | Bad_Dir e \<Rightarrow> bad e
      | Entries es \<Rightarrow>
          if yaml_files d es = []
          then Inl (''directory workflow '' @ quoted path @ '': no workflow files found in workflows/*.yaml'')
          else map_try (read_yaml F (ya_workflow Y) no_workflow) (yaml_files d es))"

definition parse_dir :: "golib \<Rightarrow> files \<Rightarrow> yaml \<Rightarrow> string \<Rightarrow> string + workflow_file" where
  "parse_dir G F Y path =
     try_then (read_yaml F (ya_meta Y) ([], [], 0) (path_join path ''meta.yaml'')) (\<lambda>(entry, ns, forks).
     try_then (read_vars F Y path) (\<lambda>vars.
     try_then (read_yaml F (ya_rules Y) [] (path_join path ''rules.yaml'')) (\<lambda>rules.
     try_then (read_step_types F Y path) (\<lambda>types.
     try_then (read_optional_yaml F (ya_connections Y) [] (path_join path ''connections.yaml'')) (\<lambda>connections.
     try_then (read_optional_yaml F (ya_decisions Y) [] (path_join path ''decisions.yaml'')) (\<lambda>decisions.
     try_then (read_workflows F Y path) (\<lambda>ws.
       finish_file G F Y path
         \<lparr>fi_connections = connections, fi_decisions = decisions, fi_entrypoint = entry, fi_namespace = ns, fi_forks = forks,
          fi_vars = vars, fi_rules = rules, fi_step_types = types, fi_workflows = ws,
          fi_script_dir = path_join path ''scripts''\<rparr>)))))))"

definition parse_file :: "golib \<Rightarrow> files \<Rightarrow> yaml \<Rightarrow> string \<Rightarrow> string + workflow_file" where
  "parse_file G F Y path = (case fv_stat F path of
     Absent e \<Rightarrow> Inl (''stat workflow path: '' @ e)
   | Unreadable e \<Rightarrow> Inl (''stat workflow path: '' @ e)
   | Is_Dir \<Rightarrow> parse_dir G F Y path
   | Is_File \<Rightarrow> (case fv_read F path of
       Inl e \<Rightarrow> Inl (''reading workflow file: '' @ e)
     | Inr data \<Rightarrow> parse_data G F Y data (path_join (dir path) ''scripts'')))"

subsection \<open>Nothing is lost or overwritten\<close>

lemma mkeys_mput: "mget m k = None \<Longrightarrow> set (mkeys (mput k v m)) = insert k (set (mkeys m))"
  by (simp add: mkeys_def set_fst_mput)

lemma mget_None_mkeys: "mget m k = None \<longleftrightarrow> k \<notin> set (mkeys m)"
  by (simp add: mget_def mkeys_def map_of_eq_None_iff)

lemma mkeys_mcopy: "set (mkeys (mcopy es m)) = set (mkeys es) \<union> set (mkeys m)"
proof (induction es arbitrary: m)
  case (Cons e es)
  obtain k v where e: "e = (k, v)" by (cases e)
  have "mcopy (e # es) m = mcopy es (mput k v m)" by (simp add: mcopy_def e)
  with Cons [of "mput k v m"] show ?case by (simp add: mkeys_def e set_fst_mput)
qed (simp add: mcopy_def mkeys_def)

lemma add_unique_Inr:
  "add_unique twice es m = Inr r \<longleftrightarrow> distinct (mkeys es) \<and> set (mkeys es) \<inter> set (mkeys m) = {} \<and> r = mcopy es m"
proof (induction twice es m rule: add_unique.induct)
  case (2 twice k v es m)
  have keys: "mget m k = None \<Longrightarrow> set (mkeys (mput k v m)) = insert k (set (mkeys m))" by (rule mkeys_mput)
  show ?case
  proof (cases "mget m k = None")
    case True
    with 2 keys show ?thesis by (auto simp: mget_None_mkeys mkeys_def mcopy_def)
  next
    case False
    then show ?thesis by (auto simp: mget_None_mkeys mkeys_def)
  qed
qed (auto simp: mkeys_def mcopy_def)

text \<open>Merging files succeeds when each is read and no key is in two of them, and then it is their union.\<close>

lemma merge_files_Inr:
  "merge_files load twice paths m = Inr r \<longleftrightarrow>
     (\<exists>ms. map_try load paths = Inr ms \<and> distinct (concat (map mkeys ms)) \<and>
        set (concat (map mkeys ms)) \<inter> set (mkeys m) = {} \<and> r = fold mcopy ms m)"
proof (induction paths arbitrary: m)
  case (Cons path paths)
  show ?case
  proof (cases "load path")
    case (Inr es)
    have maps: "map_try load (path # paths) = Inr ms \<longleftrightarrow> (\<exists>ns. ms = es # ns \<and> map_try load paths = Inr ns)" for ms
      by (cases "map_try load paths") (auto simp: Inr)
    show ?thesis
    proof (cases "add_unique (\<lambda>k. twice k path) es m")
      case (Inl e)
      have "\<not> (distinct (mkeys es) \<and> set (mkeys es) \<inter> set (mkeys m) = {})"
        using add_unique_Inr [of "\<lambda>k. twice k path" es m] Inl by auto
      with Inr Inl show ?thesis unfolding maps by auto
    next
      case unique: (Inr n)
      then have n: "distinct (mkeys es)" "set (mkeys es) \<inter> set (mkeys m) = {}" "n = mcopy es m"
        by (simp_all add: add_unique_Inr)
      have next_file: "merge_files load twice (path # paths) m = merge_files load twice paths (mcopy es m)"
        using Inr unique n by simp
      show ?thesis unfolding next_file Cons.IH maps using n by (auto simp: mkeys_mcopy disjoint_iff; blast)
    qed
  qed auto
qed auto

lemma mget_fold_mcopy:
  assumes "mwf m" "\<forall>n\<in>set ms. mwf n" "distinct (concat (map mkeys ms))" "set (concat (map mkeys ms)) \<inter> set (mkeys m) = {}"
  shows "mget (fold mcopy ms m) k = Some v \<longleftrightarrow> (\<exists>n\<in>set (m # ms). mget n k = Some v)"
  using assms
proof (induction ms arbitrary: m)
  case (Cons n ms)
  have m: "mwf (mcopy n m)" and get: "mget (mcopy n m) = mget m ++ mget n"
    using Cons.prems by (simp_all add: mwf_mcopy mget_mcopy)
  have "mget (mcopy n m) k = Some v \<longleftrightarrow> mget m k = Some v \<or> mget n k = Some v"
    using Cons.prems(4) mget_None_mkeys [of n k] mget_None_mkeys [of m k]
    by (auto simp: get map_add_def split: option.splits)
  with Cons.IH [OF m] Cons.prems show ?case by (auto simp: mkeys_mcopy)
qed simp

text \<open>What a decoder of a map promises: its keys are different.\<close>

definition decodes_maps :: "(string \<Rightarrow> string + (string \<times> 'a) list) \<Rightarrow> bool" where
  "decodes_maps decode \<longleftrightarrow> (\<forall>data m. decode data = Inr m \<longrightarrow> mwf m)"

lemma read_yaml_mwf: "decodes_maps decode \<Longrightarrow> read_yaml F decode [] path = Inr m \<Longrightarrow> mwf m"
proof -
  assume maps: "decodes_maps decode" and read: "read_yaml F decode [] path = Inr m"
  from read obtain data where "fv_read F path = Inr data" by (auto simp: read_yaml_def split: sum.splits)
  with read maps show ?thesis
    by (cases "decode data") (auto simp: read_yaml_def decodes_maps_def split: if_splits)
qed

lemma map_try_mwf:
  assumes "decodes_maps decode" "map_try (read_yaml F decode []) paths = Inr ms"
  shows "\<forall>n\<in>set ms. mwf n"
  using assms(2)
  by (induction paths arbitrary: ms) (auto split: sum.splits dest: read_yaml_mwf [OF assms(1)])

lemma merge_files_unread:
  "map_try load paths = Inl e \<Longrightarrow> isl (merge_files load dup paths m)"
  using merge_files_Inr [of load dup paths m] by (cases "merge_files load dup paths m") auto

text \<open>The outcome of merging files that were all read: their union when no key is in two of them, an error
  otherwise.\<close>

lemma merge_files_read:
  assumes first: "mwf m0" and ms: "map_try load paths = Inr ms" and wf: "\<forall>n\<in>set ms. mwf n"
  shows "if distinct (concat (map mkeys (m0 # ms)))
    then \<exists>vars. merge_files load dup paths m0 = Inr vars \<and>
      (\<forall>k v. mget vars k = Some v \<longleftrightarrow> (\<exists>m\<in>set (m0 # ms). mget m k = Some v))
    else isl (merge_files load dup paths m0)"
proof (cases "distinct (concat (map mkeys (m0 # ms)))")
  case True
  then have parts: "distinct (concat (map mkeys ms))" "set (concat (map mkeys ms)) \<inter> set (mkeys m0) = {}" by auto
  with ms have "merge_files load dup paths m0 = Inr (fold mcopy ms m0)" unfolding merge_files_Inr by auto
  moreover have "mget (fold mcopy ms m0) k = Some v \<longleftrightarrow> (\<exists>m\<in>set (m0 # ms). mget m k = Some v)" for k v
    by (rule mget_fold_mcopy [OF first wf parts])
  ultimately show ?thesis unfolding if_P [OF True] by blast
next
  case False
  have "distinct (mkeys m0)" using first strict_sorted_iff by (auto simp: mwf_def mkeys_def)
  with False ms have "\<not> (\<exists>r. merge_files load dup paths m0 = Inr r)" by (auto simp: merge_files_Inr)
  then have "isl (merge_files load dup paths m0)" by (cases "merge_files load dup paths m0") auto
  then show ?thesis unfolding if_not_P [OF False] .
qed

text \<open>C26. The variables of a directory are exactly those of \<open>vars.yaml\<close> and of the files in \<open>vars\<close>: reading
  them succeeds when every file is read and no variable is in two files, and then each variable
  has the value its one file gives it.\<close>

theorem directory_variables:
  assumes "decodes_maps (ya_vars Y)" "fv_list F (path_join path ''vars'') = Entries es"
  shows "case map_try (read_yaml F (ya_vars Y) []) (path_join path ''vars.yaml'' # yaml_files (path_join path ''vars'') es) of
      Inl e \<Rightarrow> isl (read_vars F Y path)
    | Inr ms \<Rightarrow>
        if distinct (concat (map mkeys ms))
        then \<exists>vars. read_vars F Y path = Inr vars \<and> (\<forall>k v. mget vars k = Some v \<longleftrightarrow> (\<exists>m\<in>set ms. mget m k = Some v))
        else isl (read_vars F Y path)"
proof (cases "read_yaml F (ya_vars Y) [] (path_join path ''vars.yaml'')")
  case (Inr m0)
  then have eq: "read_vars F Y path = merge_files (read_yaml F (ya_vars Y) []) (duplicate_text ''variable'')
      (yaml_files (path_join path ''vars'') es) m0"
    using assms(2) by (simp add: read_vars_def Let_def)
  show ?thesis
  proof (cases "map_try (read_yaml F (ya_vars Y) []) (yaml_files (path_join path ''vars'') es)")
    case (Inl e)
    with Inr show ?thesis by (simp add: eq merge_files_unread)
  next
    case ms: (Inr ms)
    have "map_try (read_yaml F (ya_vars Y) []) (path_join path ''vars.yaml'' # yaml_files (path_join path ''vars'') es)
        = Inr (m0 # ms)"
      using Inr ms by simp
    with merge_files_read [OF read_yaml_mwf [OF assms(1) Inr] ms map_try_mwf [OF assms(1) ms]]
    show ?thesis unfolding eq by (simp only: sum.case)
  qed
qed (use assms in \<open>simp add: read_vars_def\<close>)

text \<open>A directory that is read is a valid file, with one workflow per file, in the order of the files' names.\<close>

lemma parse_dir_workflows:
  assumes "parse_dir G F Y path = Inr f"
  shows "valid_file G f \<and> fi_script_dir f = path_join path ''scripts'' \<and> read_vars F Y path = Inr (fi_vars f) \<and>
    read_step_types F Y path = Inr (fi_step_types f) \<and> read_workflows F Y path = Inr (fi_workflows f)"
  using assms
  by (auto simp: parse_dir_def finish_file_def go_err validate_iff default_forks_def split: prod.splits)

lemma read_workflows_order:
  assumes "read_workflows F Y path = Inr ws"
  shows "\<exists>es paths. fv_list F (path_join path ''workflows'') = Entries es \<and> sorted paths \<and> paths \<noteq> [] \<and>
    mset paths = mset (map (\<lambda>e. path_join (path_join path ''workflows'') (fst e)) (filter (\<lambda>e. \<not> snd e \<and> ext (fst e) = ''.yaml'') es)) \<and>
    list_all2 (\<lambda>p w. read_yaml F (ya_workflow Y) no_workflow p = Inr w) paths ws"
proof -
  let ?d = "path_join path ''workflows''"
  from assms obtain es where es: "fv_list F ?d = Entries es" "yaml_files ?d es \<noteq> []"
      "list_all2 (\<lambda>p w. read_yaml F (ya_workflow Y) no_workflow p = Inr w) (yaml_files ?d es) ws"
    by (auto simp: read_workflows_def Let_def go_err split: listing.splits if_splits)
  show ?thesis
    by (intro exI [of _ es] exI [of _ "yaml_files ?d es"] conjI es) (simp_all add: yaml_files_def)
qed

text \<open>An included file replaces its entry, but an entry of an included file is not replaced: it stays as a
  rule that names a file.\<close>

lemma nested_include_kept:
  assumes "fv_read F (path_join b ''a.yaml'') = Inr data" "ya_rule_file Y data = Inr [r]" "ru_file inc = ''a.yaml''"
  shows "load_rule_files F Y b [inc] = Inr [r]"
  using assms by (simp add: is_abs_def slash_def)

subsection \<open>A concrete directory\<close>

definition sample_yaml :: yaml where
  "sample_yaml = \<lparr>ya_file = Inl, ya_meta = Inl, ya_vars = (\<lambda>data. Inr [(data, VInt 1)]), ya_rules = Inl, ya_types = Inl,
     ya_workflow = Inl, ya_rule_file = Inl, ya_connections = Inl, ya_decisions = Inl\<rparr>"

definition sample_files :: files where
  "sample_files = \<lparr>fv_stat = (\<lambda>p. Is_File), fv_read = Inr,
     fv_list = (\<lambda>p. Entries [(''b.yaml'', False), (''a.yaml'', False), (''notes.md'', False), (''c.yaml'', True)])\<rparr>"

theorem directory_variables_witness:
  "yaml_files ''w/vars'' [(''b.yaml'', False), (''a.yaml'', False), (''notes.md'', False), (''c.yaml'', True)] = [''w/vars/a.yaml'', ''w/vars/b.yaml''] \<and>
   (\<exists>vars. read_vars sample_files sample_yaml ''w'' = Inr vars \<and> mget vars ''w/vars/b.yaml'' = Some (VInt 1))"
proof -
  let ?es = "[(''b.yaml'', False), (''a.yaml'', False), (''notes.md'', False), (''c.yaml'', True)]"
  have maps: "decodes_maps (ya_vars sample_yaml)" by (auto simp: decodes_maps_def sample_yaml_def mwf_def)
  have paths: "yaml_files ''w/vars'' ?es = [''w/vars/a.yaml'', ''w/vars/b.yaml'']"
    "path_join ''w'' ''vars'' = ''w/vars''" "path_join ''w'' ''vars.yaml'' = ''w/vars.yaml''" by code_simp+
  have lists: "fv_list sample_files (path_join ''w'' ''vars'') = Entries ?es" by (simp add: sample_files_def)
  have "map_try (read_yaml sample_files (ya_vars sample_yaml) []) [''w/vars.yaml'', ''w/vars/a.yaml'', ''w/vars/b.yaml''] =
      Inr [[(''w/vars.yaml'', VInt 1)], [(''w/vars/a.yaml'', VInt 1)], [(''w/vars/b.yaml'', VInt 1)]]"
    by (simp add: read_yaml_def sample_files_def sample_yaml_def)
  with directory_variables [OF maps lists] paths show ?thesis by (auto simp: mkeys_def)
qed

end
