(* ===== verification/Write_File.thy ===== *)
theory Write_File
  imports Go_Path Json Engine_Base
begin

text \<open>
  The executor \<open>write_file\<close> (\<open>pkg/executor/write_file.go\<close>). The file system it writes to is a map from the
  elements of a path to directories and files with their modes, and a umask; there are no links in
  it, and the current and the root directory are always there. A record of faults can make any call fail. The
  recursion over \<open>filepath.Dir\<close> goes down the list of a path's elements.
\<close>

subsection \<open>Modes\<close>

unbundle bit_operations_syntax

type_synonym mode = "32 word"

definition mode_setuid :: mode where "mode_setuid = push_bit 23 1"
definition mode_setgid :: mode where "mode_setgid = push_bit 22 1"
definition mode_sticky :: mode where "mode_sticky = push_bit 20 1"

definition is_octal :: "char \<Rightarrow> bool" where
  "is_octal c \<longleftrightarrow> is_digit c \<and> digit_val c < 8"

text \<open>\<open>strconv.ParseUint(text, 8, 32)\<close>.\<close>

definition octal_val :: "string \<Rightarrow> int" where
  "octal_val s = foldl (\<lambda>n c. 8 * n + int (digit_val c)) 0 s"

definition parse_octal :: "string \<Rightarrow> int option" where
  "parse_octal s = (if s \<noteq> [] \<and> list_all is_octal s \<and> octal_val s < 2 ^ 32 then Some (octal_val s) else None)"

definition file_mode :: "int \<Rightarrow> mode" where
  "file_mode n =
     (let m = word_of_int n :: mode;
          fm = m AND 0x1FF in
      (if m AND 0x800 \<noteq> 0 then mode_setuid else 0) OR (if m AND 0x400 \<noteq> 0 then mode_setgid else 0) OR
      (if m AND 0x200 \<noteq> 0 then mode_sticky else 0) OR fm)"

definition mode_param :: "golib \<Rightarrow> gomap \<Rightarrow> string \<Rightarrow> mode \<Rightarrow> string + mode" where
  "mode_param G params name absent =
     (let raw = mget_nil params name in
      if raw = VNil \<or> raw = VStr [] then Inr absent
      else case parse_octal (sprint G raw) of
        Some n \<Rightarrow>
          if n > 0xFFF
          then Inl (''write_file: '' @ name @ '' must be an octal mode such as '' @ quoted ''0644'' @ '', got '' @ quoted (sprint G raw))
          else Inr (file_mode n)
      | None \<Rightarrow> Inl (''write_file: '' @ name @ '' must be an octal mode such as '' @ quoted ''0644'' @ '', got '' @ quoted (sprint G raw)))"

subsection \<open>The content\<close>

text \<open>\<open>json.MarshalIndent\<close> with two spaces: what is empty stays on its line.\<close>

definition line_indent :: "nat \<Rightarrow> string" where
  "line_indent d = CHR 0x0A # replicate (2 * d) CHR '' ''"

fun jindent :: "nat \<Rightarrow> jv \<Rightarrow> string" where
  "jindent d (JArr js) =
     (if js = [] then ''[]''
      else ''['' @ join '','' (map (\<lambda>j. line_indent (Suc d) @ jindent (Suc d) j) js) @ line_indent d @ '']'')"
| "jindent d (JObj es) =
     (if es = [] then ''{}''
      else ''{'' @ join '','' (map (\<lambda>e. line_indent (Suc d) @ jstr (fst e) @ '': '' @ jindent (Suc d) (snd e)) es)
        @ line_indent d @ ''}'')"
| "jindent d j = jtext j"

definition indented :: "golib \<Rightarrow> val \<Rightarrow> string + string" where
  "indented G v = (case jv_of G v of
     None \<Rightarrow> Inl (''write_file: content: '' @ marshal_error G v)
   | Some j \<Rightarrow> Inr (jindent 0 j @ [CHR 0x0A]))"

fun file_content :: "golib \<Rightarrow> val \<Rightarrow> string + string" where
  "file_content G (VStr s) = Inr s"
| "file_content G VNil = Inr []"
| "file_content G (VMap m) = indented G (VMap m)"
| "file_content G (VList vs) = indented G (VList vs)"
| "file_content G (VMaps ms) = indented G (VMaps ms)"
| "file_content G v = Inr (sprint G v)"

subsection \<open>The file system\<close>

datatype entry = Dir_Entry mode | File_Entry mode string

text \<open>A path: rooted or not, and its elements from the last to the first.\<close>

type_synonym path = "bool \<times> string list"

definition path_of :: "string \<Rightarrow> path" where
  "path_of p = (is_abs p, rev (elems p))"

definition path_name :: "path \<Rightarrow> string" where
  "path_name p = path_text (fst p) (rev (snd p))"

record fsys =
  fy_entries :: "path \<Rightarrow> entry option"
  fy_umask :: mode

text \<open>The errors of the operating system that the structure does not give.\<close>

type_synonym faults = "string \<Rightarrow> path \<Rightarrow> string option"

definition fs_lookup :: "fsys \<Rightarrow> path \<Rightarrow> entry option" where
  "fs_lookup fs p = (if snd p = [] then (case fy_entries fs p of Some (Dir_Entry m) \<Rightarrow> Some (Dir_Entry m) | _ \<Rightarrow> Some (Dir_Entry 0x1ED))
     else fy_entries fs p)"

definition fs_put :: "path \<Rightarrow> entry \<Rightarrow> fsys \<Rightarrow> fsys" where
  "fs_put p n fs = fs\<lparr>fy_entries := (fy_entries fs)(p \<mapsto> n)\<rparr>"

definition fs_stat :: "faults \<Rightarrow> path \<Rightarrow> fsys \<Rightarrow> entry option" where
  "fs_stat F p fs = (if F ''stat'' p = None then fs_lookup fs p else None)"

fun up :: "path \<Rightarrow> path" where
  "up (rooted, es) = (rooted, tl es)"

definition is_dir_entry :: "entry option \<Rightarrow> bool" where
  "is_dir_entry n = (case n of Some (Dir_Entry m) \<Rightarrow> True | _ \<Rightarrow> False)"

text \<open>\<open>os.OpenFile\<close> and \<open>os.Chmod\<close> are given the path as it is written, not cleaned: every element but the last has to
  lead to a directory, also those before \<open>..\<close>.\<close>

fun walk :: "fsys \<Rightarrow> path \<Rightarrow> string list \<Rightarrow> string option" where
  "walk fs p (e # f # es) =
     (let q = (fst p, rev (clean_elems (fst p) (snd p) [e])) in
      case fs_lookup fs q of
        None \<Rightarrow> Some ''no such file or directory''
      | Some (File_Entry k data) \<Rightarrow> Some ''not a directory''
      | Some (Dir_Entry k) \<Rightarrow> walk fs q (f # es))"
| "walk fs p es = None"

definition fs_resolve :: "string \<Rightarrow> fsys \<Rightarrow> string + path" where
  "fs_resolve name fs = (case walk fs (is_abs name, []) (split_on slash name) of
     Some e \<Rightarrow> Inl e
   | None \<Rightarrow> Inr (path_of name))"

text \<open>\<open>os.Mkdir\<close>: whether the error says that the path exists, with its text.\<close>

definition fs_mkdir :: "faults \<Rightarrow> path \<Rightarrow> mode \<Rightarrow> fsys \<Rightarrow> (bool \<times> string) option \<times> fsys" where
  "fs_mkdir F p m fs = (case F ''mkdir'' p of
     Some e \<Rightarrow> (Some (False, ''mkdir '' @ path_name p @ '': '' @ e), fs)
   | None \<Rightarrow>
       if fs_lookup fs p \<noteq> None then (Some (True, ''mkdir '' @ path_name p @ '': file exists''), fs)
       else if \<not> is_dir_entry (fs_lookup fs (up p)) then (Some (False, ''mkdir '' @ path_name p @ '': no such file or directory''), fs)
       else (None, fs_put p (Dir_Entry (m AND NOT (fy_umask fs))) fs))"

definition fs_chmod :: "faults \<Rightarrow> string \<Rightarrow> path \<Rightarrow> mode \<Rightarrow> fsys \<Rightarrow> string option \<times> fsys" where
  "fs_chmod F name p m fs = (case (F ''chmod'' p, fs_lookup fs p) of
     (Some e, _) \<Rightarrow> (Some (''chmod '' @ name @ '': '' @ e), fs)
   | (None, None) \<Rightarrow> (Some (''chmod '' @ name @ '': no such file or directory''), fs)
   | (None, Some (Dir_Entry k)) \<Rightarrow> (None, fs_put p (Dir_Entry m) fs)
   | (None, Some (File_Entry k data)) \<Rightarrow> (None, fs_put p (File_Entry m data) fs))"

text \<open>\<open>os.OpenFile\<close> for writing: the file is made or cut, or kept for appending.\<close>

definition fs_open :: "faults \<Rightarrow> string \<Rightarrow> bool \<Rightarrow> path \<Rightarrow> mode \<Rightarrow> fsys \<Rightarrow> string option \<times> fsys" where
  "fs_open F name append_mode p m fs = (case (F ''open'' p, fs_lookup fs p) of
     (Some e, _) \<Rightarrow> (Some (''open '' @ name @ '': '' @ e), fs)
   | (None, Some (Dir_Entry k)) \<Rightarrow> (Some (''open '' @ name @ '': is a directory''), fs)
   | (None, Some (File_Entry k data)) \<Rightarrow> (None, fs_put p (File_Entry k (if append_mode then data else [])) fs)
   | (None, None) \<Rightarrow>
       if is_dir_entry (fs_lookup fs (up p)) then (None, fs_put p (File_Entry (m AND NOT (fy_umask fs)) []) fs)
       else (Some (''open '' @ name @ '': no such file or directory''), fs))"

text \<open>Both a new and an appending descriptor write at the end.\<close>

definition fs_write :: "faults \<Rightarrow> string \<Rightarrow> path \<Rightarrow> string \<Rightarrow> fsys \<Rightarrow> string option \<times> fsys" where
  "fs_write F name p data fs = (case (F ''write'' p, fs_lookup fs p) of
     (None, Some (File_Entry k old)) \<Rightarrow> (None, fs_put p (File_Entry k (old @ data)) fs)
   | (Some e, _) \<Rightarrow> (Some (''write '' @ name @ '': '' @ e), fs)
   | _ \<Rightarrow> (Some (''write '' @ name @ '': bad file descriptor''), fs))"

subsection \<open>Directories\<close>

definition dir_setgid :: "faults \<Rightarrow> path \<Rightarrow> fsys \<Rightarrow> mode" where
  "dir_setgid F p fs = (case fs_stat F (up p) fs of
     Some (Dir_Entry m) \<Rightarrow> m AND mode_setgid | Some (File_Entry m data) \<Rightarrow> m AND mode_setgid | None \<Rightarrow> 0)"

fun mkdir_all :: "faults \<Rightarrow> bool \<Rightarrow> string list \<Rightarrow> mode \<Rightarrow> fsys \<Rightarrow> string option \<times> fsys" where
  "mkdir_all F rooted [] m fs = (None, fs)"
| "mkdir_all F rooted (e # es) m fs =
     (let p = (rooted, e # es) in
      case fs_stat F p fs of
        Some (Dir_Entry k) \<Rightarrow> (None, fs)
      | Some (File_Entry k data) \<Rightarrow> (Some (path_name p @ '' is not a directory''), fs)
      | None \<Rightarrow> (case mkdir_all F rooted es m fs of
          (Some err, fs) \<Rightarrow> (Some err, fs)
        | (None, fs) \<Rightarrow> (case fs_mkdir F p m fs of
            (Some (False, err), fs) \<Rightarrow> (Some err, fs)
          | (_, fs) \<Rightarrow> fs_chmod F (path_name p) p (m OR dir_setgid F p fs) fs)))"

subsection \<open>The executor\<close>

definition write_fails :: "string \<Rightarrow> exec_out" where
  "write_fails e = \<lparr>xo_output = None, xo_error = Some (''write_file: '' @ e), xo_notices = []\<rparr>"

definition write_at :: "faults \<Rightarrow> string \<Rightarrow> string \<Rightarrow> bool \<Rightarrow> mode \<Rightarrow> mode \<Rightarrow> fsys \<Rightarrow> exec_out \<times> fsys" where
  "write_at F name content append_mode fmode dmode fs =
     (let d = path_of (dir name) in
      case mkdir_all F (fst d) (snd d) dmode fs of
        (Some e, fs) \<Rightarrow> (write_fails (''creating '' @ dir name @ '': '' @ e), fs)
      | (None, fs) \<Rightarrow> (case fs_resolve name fs of
          Inl e \<Rightarrow> (write_fails (''open '' @ name @ '': '' @ e), fs)
        | Inr p \<Rightarrow> (case fs_open F name append_mode p fmode fs of
          (Some e, fs) \<Rightarrow> (write_fails e, fs)
        | (None, fs) \<Rightarrow> (case fs_write F name p content fs of
            (Some e, fs) \<Rightarrow> (write_fails (''writing '' @ name @ '': '' @ e), fs)
          | (None, fs) \<Rightarrow> (case F ''close'' p of
              Some e \<Rightarrow> (write_fails (''writing '' @ name @ '': '' @ e), fs)
            | None \<Rightarrow> (case fs_chmod F name p fmode fs of
                (Some e, fs) \<Rightarrow> (write_fails (''chmod '' @ name @ '': '' @ e), fs)
              | (None, fs) \<Rightarrow>
                  (\<lparr>xo_output = Some (mcopy [(''path'', VStr name), (''bytes'', VInt (int (length content)))] []),
                    xo_error = None, xo_notices = []\<rparr>, fs)))))))"

definition write_file :: "golib \<Rightarrow> faults \<Rightarrow> gomap \<Rightarrow> fsys \<Rightarrow> exec_out \<times> fsys" where
  "write_file G F params fs =
     (let name = str_or_empty params ''path'';
          plain = (\<lambda>e. (\<lparr>xo_output = None, xo_error = Some e, xo_notices = []\<rparr>, fs)) in
      if trim_space name = [] then plain ''write_file: path is required''
      else case mget params ''content'' of
        None \<Rightarrow> plain ''write_file: content is required''
      | Some raw \<Rightarrow> (case file_content G raw of
          Inl e \<Rightarrow> plain e
        | Inr content \<Rightarrow> (case mode_param G params ''mode'' 0x1A4 of
            Inl e \<Rightarrow> plain e
          | Inr fmode \<Rightarrow> (case mode_param G params ''dir_mode'' 0x1ED of
              Inl e \<Rightarrow> plain e
            | Inr dmode \<Rightarrow> write_at F name content (mget params ''append'' = Some (VBool True)) fmode dmode fs))))"

subsection \<open>What is written\<close>

text \<open>The elements below which \<open>filepath.Dir\<close> goes are those without the last one.\<close>

lemma join_snoc: "join sep (ys @ [x]) = (if ys = [] then x else join sep ys @ sep @ x)"
proof (induction ys)
  case (Cons y ys)
  then show ?case by (cases ys) simp_all
qed simp

lemma dir_drops_last:
  assumes "\<forall>e\<in>set (es @ [x]). plain_elem e"
  shows "dir (path_text True (es @ [x])) = path_text True es"
proof -
  have no: "slash \<notin> set x" and plain: "\<forall>e\<in>set es. plain_elem e" using assms by (auto simp: plain_elem_def)
  have drop: "dropWhile (\<lambda>c. c \<noteq> slash) (rev (u @ slash # x)) = slash # rev u" for u
  proof -
    have "dropWhile (\<lambda>c. c \<noteq> slash) (rev x @ slash # rev u) = dropWhile (\<lambda>c. c \<noteq> slash) (slash # rev u)"
      using no by (intro dropWhile_append2) auto
    then show ?thesis by simp
  qed
  show ?thesis
  proof (cases "es = []")
    case True
    with drop [of "[]"] show ?thesis by (simp add: dir_def path_text_def clean_def elems_def is_abs_def)
  next
    case False
    let ?u = "slash # join [slash] es"
    have "path_text True (es @ [x]) = ?u @ slash # x" using False join_snoc [of "[slash]" es x] by (simp add: path_text_def)
    then have d: "dir (path_text True (es @ [x])) = clean (?u @ [slash])" using drop [of ?u] by (simp add: dir_def)
    have "split_on slash (join [slash] (es @ [[]])) = es @ [[]]"
      using plain by (intro split_on_join) (auto simp: plain_elem_def)
    then have parts: "split_on slash (join [slash] es @ [slash]) = es @ [[]]" using False join_snoc [of "[slash]" es "[]"] by simp
    have "clean_elems True acc (es @ [[]]) = rev acc @ es" for acc
      using plain by (induction es arbitrary: acc) (auto simp: plain_elem_def)
    with parts show ?thesis unfolding d by (simp add: clean_def elems_def is_abs_def path_text_def)
  qed
qed

definition ancestor :: "path \<Rightarrow> path \<Rightarrow> bool" where
  "ancestor q d \<longleftrightarrow> fst q = fst d \<and> (\<exists>es. snd d = es @ snd q)"

text \<open>What making directories may change: an entry above that was not there becomes a directory.\<close>

definition only_dirs :: "path \<Rightarrow> fsys \<Rightarrow> fsys \<Rightarrow> bool" where
  "only_dirs d fs fs' \<longleftrightarrow> fy_umask fs' = fy_umask fs \<and>
     (\<forall>q. fy_entries fs' q = fy_entries fs q \<or>
        ancestor q d \<and> fy_entries fs q = None \<and> is_dir_entry (fy_entries fs' q))"

lemma only_dirs_refl: "only_dirs d fs fs"
  by (simp add: only_dirs_def)

lemma only_dirs_trans: "only_dirs d fs fs1 \<Longrightarrow> only_dirs d fs1 fs2 \<Longrightarrow> only_dirs d fs fs2"
  unfolding only_dirs_def by (metis is_dir_entry_def option.simps(4))

lemma only_dirs_below: "only_dirs (rooted, es) fs fs' \<Longrightarrow> only_dirs (rooted, e # es) fs fs'"
  unfolding only_dirs_def ancestor_def by (metis append_Cons fst_conv snd_conv)

lemma fs_chmod_changes:
  assumes "fs_chmod F name p m fs = (r, fs')"
  shows "fs' = fs \<or> (\<exists>k. fs_lookup fs p = Some (Dir_Entry k) \<and> fs' = fs_put p (Dir_Entry m) fs) \<or>
     (\<exists>k data. fs_lookup fs p = Some (File_Entry k data) \<and> fs' = fs_put p (File_Entry m data) fs)"
  using assms by (auto simp: fs_chmod_def split: option.splits entry.splits)

lemma fs_lookup_put: "snd p \<noteq> [] \<Longrightarrow> fs_lookup (fs_put p n fs) q = (if q = p then Some n else fs_lookup fs q)"
  by (auto simp: fs_lookup_def fs_put_def)

lemma put_dir_only: "fy_entries fs p = None \<Longrightarrow> only_dirs p fs (fs_put p (Dir_Entry k) fs)"
  by (cases p) (simp add: only_dirs_def fs_put_def ancestor_def is_dir_entry_def)

lemma not_ancestor_below: "\<not> ancestor (rooted, e # es) (rooted, es)"
  by (auto simp: ancestor_def dest: arg_cong [of _ _ length])

lemma mkdir_chmod_only:
  assumes none: "fs_lookup fs p = None" "snd p \<noteq> []"
    and mk: "fs_mkdir F p m fs = (r, fs1)" and ch: "fs_chmod F name p k fs1 = (r', fs2)"
  shows "only_dirs p fs fs1 \<and> only_dirs p fs fs2"
proof -
  have absent: "fy_entries fs p = None" using none by (simp add: fs_lookup_def)
  have "fs1 = fs \<or> (\<exists>j. fs1 = fs_put p (Dir_Entry j) fs)"
    using mk none by (auto simp: fs_mkdir_def split: option.splits if_splits)
  then show ?thesis
  proof
    assume "fs1 = fs"
    with fs_chmod_changes [OF ch] none show ?thesis by (auto simp: only_dirs_refl)
  next
    assume "\<exists>j. fs1 = fs_put p (Dir_Entry j) fs"
    then obtain j where j: "fs1 = fs_put p (Dir_Entry j) fs" by blast
    with fs_chmod_changes [OF ch] none have "\<exists>i. fs2 = fs_put p (Dir_Entry i) fs"
      by (auto simp: fs_lookup_put) (auto simp: fs_put_def)
    with j put_dir_only [OF absent] show ?thesis by auto
  qed
qed

definition stats_work :: "faults \<Rightarrow> bool" where
  "stats_work F \<longleftrightarrow> (\<forall>q. F ''stat'' q = None)"

lemma mkdir_all_only:
  assumes "stats_work F" "mkdir_all F rooted es m fs = (r, fs')"
  shows "only_dirs (rooted, es) fs fs'"
  using assms(2)
proof (induction es arbitrary: r fs')
  case (Cons e es)
  let ?p = "(rooted, e # es)"
  show ?case
  proof (cases "fs_stat F ?p fs")
    case (Some n)
    with Cons.prems show ?thesis by (cases n) (simp_all add: only_dirs_refl)
  next
    case None
    obtain r1 fs1 where up: "mkdir_all F rooted es m fs = (r1, fs1)" by (cases "mkdir_all F rooted es m fs")
    have below: "only_dirs ?p fs fs1" by (rule only_dirs_below [OF Cons.IH [OF up]])
    show ?thesis
    proof (cases r1)
      case (Some err)
      with None up Cons.prems below show ?thesis by simp
    next
      case r1: None
      have "fy_entries fs ?p = None" using None assms(1) by (simp add: fs_stat_def fs_lookup_def stats_work_def)
      then have "fy_entries fs1 ?p = None" using Cons.IH [OF up] not_ancestor_below [of rooted e es] unfolding only_dirs_def by metis
      then have none: "fs_lookup fs1 ?p = None" by (simp add: fs_lookup_def)
      obtain r2 fs2 where mk: "fs_mkdir F ?p m fs1 = (r2, fs2)" by (cases "fs_mkdir F ?p m fs1")
      obtain r3 fs3 where ch: "fs_chmod F (path_name ?p) ?p (m OR dir_setgid F ?p fs2) fs2 = (r3, fs3)"
        by (cases "fs_chmod F (path_name ?p) ?p (m OR dir_setgid F ?p fs2) fs2")
      have "fs' = fs2 \<or> fs' = fs3"
        using Cons.prems None up r1 mk ch by (auto simp: Let_def split: option.splits prod.splits bool.splits)
      with mkdir_chmod_only [OF none _ mk ch] below only_dirs_trans show ?thesis by auto
    qed
  qed
qed (simp add: only_dirs_refl)

text \<open>The calls on the file itself.\<close>

lemma fs_open_file:
  assumes "fs_open F name append_mode p m fs = (None, fs')"
  shows "snd p \<noteq> [] \<and> \<not> is_dir_entry (fy_entries fs p) \<and>
    (\<exists>k. fs' = fs_put p (File_Entry k (case fy_entries fs p of
        Some (File_Entry j data) \<Rightarrow> if append_mode then data else [] | _ \<Rightarrow> [])) fs)"
proof -
  have "snd p \<noteq> []" using assms by (auto simp: fs_open_def fs_lookup_def split: option.splits entry.splits)
  then have "fs_lookup fs p = fy_entries fs p" by (simp add: fs_lookup_def)
  with assms \<open>snd p \<noteq> []\<close> show ?thesis
    by (auto simp: fs_open_def is_dir_entry_def split: option.splits entry.splits if_splits)
qed

lemma fs_write_file:
  assumes "snd p \<noteq> []" "fs_write F name p data (fs_put p (File_Entry k old) fs) = (None, fs')"
  shows "fs' = fs_put p (File_Entry k (old @ data)) fs"
  using assms by (auto simp: fs_write_def fs_lookup_put split: option.splits) (simp add: fs_put_def)

lemma fs_chmod_file:
  assumes "snd p \<noteq> []" "fs_chmod F name p m (fs_put p (File_Entry k data) fs) = (None, fs')"
  shows "fs' = fs_put p (File_Entry m data) fs"
  using assms by (auto simp: fs_chmod_def fs_lookup_put split: option.splits) (simp add: fs_put_def)

lemma fs_resolve_Inr: "fs_resolve name fs = Inr p \<Longrightarrow> p = path_of name"
  by (simp add: fs_resolve_def split: option.splits)

lemma write_at_exact:
  assumes "stats_work F" "write_at F name content append_mode fmode dmode fs = (out, fs')" "xo_error out = None"
  shows "\<exists>fs1. only_dirs (path_of (dir name)) fs fs1 \<and> fy_entries fs1 (path_of name) = fy_entries fs (path_of name) \<and>
    fs' = fs_put (path_of name) (File_Entry fmode ((case fy_entries fs (path_of name) of
        Some (File_Entry j data) \<Rightarrow> if append_mode then data else [] | _ \<Rightarrow> []) @ content)) fs1"
proof -
  let ?p = "path_of name" and ?d = "path_of (dir name)"
  from assms(2,3) obtain fs1 fs2 fs3 where calls: "mkdir_all F (fst ?d) (snd ?d) dmode fs = (None, fs1)"
      "fs_open F name append_mode ?p fmode fs1 = (None, fs2)" "fs_write F name ?p content fs2 = (None, fs3)"
      "fs_chmod F name ?p fmode fs3 = (None, fs')"
    by (auto simp: write_at_def write_fails_def Let_def dest: fs_resolve_Inr split: prod.splits option.splits sum.splits)
  have dirs: "only_dirs ?d fs fs1" using mkdir_all_only [OF assms(1) calls(1)] by simp
  from fs_open_file [OF calls(2)] obtain k where p: "snd ?p \<noteq> []" "\<not> is_dir_entry (fy_entries fs1 ?p)"
    and fs2: "fs2 = fs_put ?p (File_Entry k (case fy_entries fs1 ?p of
        Some (File_Entry j data) \<Rightarrow> if append_mode then data else [] | _ \<Rightarrow> [])) fs1" by blast
  have same: "fy_entries fs1 ?p = fy_entries fs ?p" using dirs p(2) unfolding only_dirs_def by metis
  from fs_write_file [OF p(1) calls(3) [unfolded fs2]] fs_chmod_file [OF p(1)] calls(4)
  have "fs' = fs_put ?p (File_Entry fmode ((case fy_entries fs1 ?p of
        Some (File_Entry j data) \<Rightarrow> if append_mode then data else [] | _ \<Rightarrow> []) @ content)) fs1" by blast
  with dirs same show ?thesis by auto
qed

text \<open>C27. A \<open>write_file\<close> step that succeeds leaves exactly what it was told: the file has the requested mode,
  whatever the umask, and the content, after the old one when appending; of everything else
  only missing directories above the file are new.\<close>

theorem write_file_exact:
  assumes "stats_work F" "write_file G F params fs = (out, fs')" "xo_error out = None"
  shows "\<exists>content m. file_content G (mget_nil params ''content'') = Inr content \<and> mode_param G params ''mode'' 0x1A4 = Inr m \<and>
    (let p = path_of (str_or_empty params ''path'') in
     fy_entries fs' p = Some (File_Entry m ((case fy_entries fs p of
        Some (File_Entry j data) \<Rightarrow> if mget params ''append'' = Some (VBool True) then data else [] | _ \<Rightarrow> []) @ content)) \<and>
     (\<forall>q. q \<noteq> p \<longrightarrow> fy_entries fs' q = fy_entries fs q \<or>
        ancestor q (path_of (dir (str_or_empty params ''path''))) \<and> fy_entries fs q = None \<and> is_dir_entry (fy_entries fs' q)))"
proof -
  from assms(2,3) obtain raw content m dm where parts: "mget params ''content'' = Some raw" "file_content G raw = Inr content"
      "mode_param G params ''mode'' 0x1A4 = Inr m"
      "write_at F (str_or_empty params ''path'') content (mget params ''append'' = Some (VBool True)) m dm fs = (out, fs')"
    by (auto simp: write_file_def Let_def split: if_splits option.splits sum.splits)
  let ?p = "path_of (str_or_empty params ''path'')" and ?d = "path_of (dir (str_or_empty params ''path''))"
  let ?new = "File_Entry m ((case fy_entries fs ?p of
      Some (File_Entry j data) \<Rightarrow> if mget params ''append'' = Some (VBool True) then data else [] | _ \<Rightarrow> []) @ content)"
  from write_at_exact [OF assms(1) parts(4) assms(3)] obtain fs1
    where dirs: "only_dirs ?d fs fs1" and fs': "fs' = fs_put ?p ?new fs1" by blast
  have "fy_entries fs' ?p = Some ?new" by (simp add: fs' fs_put_def)
  moreover have "fy_entries fs' q = fy_entries fs q \<or> ancestor q ?d \<and> fy_entries fs q = None \<and> is_dir_entry (fy_entries fs' q)"
    if "q \<noteq> ?p" for q
  proof -
    have "fy_entries fs' q = fy_entries fs1 q" using that by (simp add: fs' fs_put_def)
    with dirs show ?thesis unfolding only_dirs_def by metis
  qed
  ultimately show ?thesis using parts(1-3)
    by (intro exI [of _ content] exI [of _ m]) (simp add: mget_nil_def Let_def)
qed

definition sample_fsys :: fsys where
  "sample_fsys = \<lparr>fy_entries = Map.empty, fy_umask = 0x12\<rparr>"

theorem write_file_exact_witness:
  "fy_entries (snd (write_file sample_golib (\<lambda>op p. None)
       [(''content'', VMap [(''a'', VInt 1)]), (''mode'', VStr ''0640''), (''path'', VStr ''/d/f'')] sample_fsys))
     (True, [''f'', ''d'']) = Some (File_Entry 0x1A0 (''{'' @ [CHR 0x0A] @ ''  '' @ [dquote] @ ''a'' @ [dquote] @ '': 1'' @ [CHR 0x0A] @ ''}'' @ [CHR 0x0A]))"
proof -
  let ?params = "[(''content'', VMap [(''a'', VInt 1)]), (''mode'', VStr ''0640''), (''path'', VStr ''/d/f'')]"
  let ?F = "\<lambda>op p. None :: string option"
  have F: "stats_work ?F" by (simp add: stats_work_def)
  obtain out fs' where run: "write_file sample_golib ?F ?params sample_fsys = (out, fs')"
    by (cases "write_file sample_golib ?F ?params sample_fsys")
  have "xo_error (fst (write_file sample_golib ?F ?params sample_fsys)) = None" by code_simp
  then have ok: "xo_error out = None" by (simp add: run)
  have vals: "file_content sample_golib (mget_nil ?params ''content'') =
      Inr (''{'' @ [CHR 0x0A] @ ''  '' @ [dquote] @ ''a'' @ [dquote] @ '': 1'' @ [CHR 0x0A] @ ''}'' @ [CHR 0x0A])"
    "mode_param sample_golib ?params ''mode'' 0x1A4 = Inr 0x1A0" "path_of (str_or_empty ?params ''path'') = (True, [''f'', ''d''])"
    by code_simp+
  have new: "fy_entries sample_fsys p = None" for p by (simp add: sample_fsys_def)
  from write_file_exact [OF F run ok] show ?thesis unfolding vals run by (simp add: Let_def new)
qed

text \<open>A new directory has the requested mode and its parent's set-group-id bit, whatever the umask.\<close>

lemma mkdir_all_mode:
  assumes "mkdir_all (\<lambda>op p. None) rooted (e # es) m fs = (None, fs')" "fs_lookup fs (rooted, e # es) = None"
  shows "\<exists>k. fs_lookup fs' (rooted, es) = Some (Dir_Entry k) \<and>
    fy_entries fs' (rooted, e # es) = Some (Dir_Entry (m OR (k AND mode_setgid)))"
proof -
  let ?F = "\<lambda>op p. None :: string option" and ?p = "(rooted, e # es)"
  obtain r1 fs1 where above: "mkdir_all ?F rooted es m fs = (r1, fs1)" by (cases "mkdir_all ?F rooted es m fs")
  have "only_dirs (rooted, es) fs fs1" using mkdir_all_only [OF _ above] by (simp add: stats_work_def)
  then have none: "fs_lookup fs1 ?p = None"
    using assms(2) not_ancestor_below [of rooted e es] unfolding only_dirs_def fs_lookup_def by (metis list.discI snd_conv)
  have "r1 = None" using assms above by (cases r1) (simp_all add: fs_stat_def)
  with assms above none have parent: "is_dir_entry (fs_lookup fs1 (rooted, es))"
    by (auto simp: fs_stat_def fs_mkdir_def Let_def split: if_splits)
  then obtain k where k: "fs_lookup fs1 (rooted, es) = Some (Dir_Entry k)"
    by (auto simp: is_dir_entry_def split: option.splits entry.splits)
  let ?fs2 = "fs_put ?p (Dir_Entry (m AND NOT (fy_umask fs1))) fs1"
  have "fs_lookup ?fs2 (rooted, es) = Some (Dir_Entry k)" "fs_lookup ?fs2 ?p = Some (Dir_Entry (m AND NOT (fy_umask fs1)))"
    using k by (simp_all add: fs_lookup_put)
  with assms above none parent \<open>r1 = None\<close> have "fs' = fs_put ?p (Dir_Entry (m OR (k AND mode_setgid))) ?fs2"
    by (simp add: fs_stat_def fs_mkdir_def fs_chmod_def dir_setgid_def Let_def)
  with k show ?thesis by (auto simp: fs_lookup_put) (simp add: fs_put_def)
qed

end
