(* ===== verification/Prompt.thy ===== *)
theory Prompt
  imports Go_Values Engine_Base
begin

text \<open>
  The executor \<open>prompt\<close> (\<open>pkg/executor/prompt.go\<close>): a question is printed until a line of input is an
  answer. The input is the list of lines that the scanner yields, with the error it ends with, if any;
  the result has what was printed. \<open>strings.EqualFold\<close> on the characters of all languages is a parameter.
\<close>

subsection \<open>Parameters of the step\<close>

definition prompt_string_param :: "gomap \<Rightarrow> string \<Rightarrow> string + string" where
  "prompt_string_param params name = (case mget params name of
     None \<Rightarrow> Inr [] | Some (VStr s) \<Rightarrow> Inr s | Some _ \<Rightarrow> Inl (''prompt: '' @ name @ '' must be a string''))"

definition prompt_bool_param :: "gomap \<Rightarrow> string \<Rightarrow> string + bool" where
  "prompt_bool_param params name = (case mget params name of
     None \<Rightarrow> Inr False | Some (VBool b) \<Rightarrow> Inr b | Some _ \<Rightarrow> Inl (''prompt: '' @ name @ '' must be a boolean''))"

definition bad_choice :: "nat \<Rightarrow> string" where
  "bad_choice i = ''prompt: choices['' @ nat_text i @ ''] must be a non-empty string''"

fun choice_list :: "nat \<Rightarrow> val list \<Rightarrow> string + string list" where
  "choice_list i [] = Inr []"
| "choice_list i (v # vs) = (case v of
     VStr (c # s) \<Rightarrow> map_sum id ((#) (c # s)) (choice_list (Suc i) vs)
   | _ \<Rightarrow> Inl (bad_choice i))"

definition prompt_choices :: "gomap \<Rightarrow> string + string list" where
  "prompt_choices params =
     (let listed = (\<lambda>vs. try_then (choice_list 0 vs) (\<lambda>cs.
        if cs = [] then Inl ''prompt: choices must not be empty'' else Inr cs)) in
      case mget params ''choices'' of
        None \<Rightarrow> Inr []
      | Some (VStrs ss) \<Rightarrow> listed (map VStr ss)
      | Some (VList vs) \<Rightarrow> listed vs
      | Some _ \<Rightarrow> Inl ''prompt: choices must be a list of strings'')"

fun matching_choice :: "(string \<Rightarrow> string \<Rightarrow> bool) \<Rightarrow> string list \<Rightarrow> string \<Rightarrow> bool \<Rightarrow> string option" where
  "matching_choice fold_eq [] v insensitive = None"
| "matching_choice fold_eq (c # cs) v insensitive =
     (if c = v \<or> insensitive \<and> fold_eq c v then Some c else matching_choice fold_eq cs v insensitive)"

subsection \<open>The question\<close>

record question_text =
  qt_message :: string
  qt_choices :: "string list"
  qt_default :: string
  qt_insensitive :: bool

definition prompt_text :: "question_text \<Rightarrow> string" where
  "prompt_text Q = qt_message Q
     @ (if qt_choices Q \<noteq> [] then '' ['' @ join ''/'' (qt_choices Q) @ '']'' else [])
     @ (if qt_default Q \<noteq> [] then '' (default: '' @ qt_default Q @ '')'' else []) @ '': ''"

text \<open>The value of a line: the answer it gives, or what is printed about it.\<close>

definition read_answer :: "(string \<Rightarrow> string \<Rightarrow> bool) \<Rightarrow> question_text \<Rightarrow> string \<Rightarrow> string + string" where
  "read_answer fold_eq Q line =
     (let v = (if trim_space line = [] then qt_default Q else trim_space line) in
      if v = [] then Inl (''Input is required.'' @ [CHR 0x0A])
      else if qt_choices Q \<noteq> [] then
        (case matching_choice fold_eq (qt_choices Q) v (qt_insensitive Q) of
           Some c \<Rightarrow> Inr c
         | None \<Rightarrow> Inl (''Invalid input '' @ quoted v @ ''. Choose one of: '' @ join '', '' (qt_choices Q) @ ''.'' @ [CHR 0x0A]))
      else Inr v)"

text \<open>The loop: the result and the output.\<close>

fun ask :: "(string \<Rightarrow> string \<Rightarrow> bool) \<Rightarrow> question_text \<Rightarrow> string option \<Rightarrow> string list \<Rightarrow> (string + string) \<times> string" where
  "ask fold_eq Q ending [] = (Inl (case ending of
       Some e \<Rightarrow> ''prompt: reading input: '' @ e | None \<Rightarrow> ''prompt: no input received''), prompt_text Q)"
| "ask fold_eq Q ending (l # ls) = (case read_answer fold_eq Q l of
     Inr v \<Rightarrow> (Inr v, prompt_text Q)
   | Inl msg \<Rightarrow> (case ask fold_eq Q ending ls of (r, out) \<Rightarrow> (r, prompt_text Q @ msg @ out)))"

definition prompt_question :: "(string \<Rightarrow> string \<Rightarrow> bool) \<Rightarrow> gomap \<Rightarrow> string + question_text" where
  "prompt_question fold_eq params =
     (if trim_space (str_or_empty params ''message'') = [] then Inl ''prompt: message is required''
      else
        try_then (prompt_string_param params ''default'') (\<lambda>d.
        try_then (prompt_choices params) (\<lambda>cs.
        try_then (prompt_bool_param params ''case_insensitive'') (\<lambda>ci.
          let Q = \<lparr>qt_message = str_or_empty params ''message'', qt_choices = cs, qt_default = d, qt_insensitive = ci\<rparr> in
          if d \<noteq> [] \<and> cs \<noteq> [] then
            (case matching_choice fold_eq cs d ci of
               None \<Rightarrow> Inl (''prompt: default '' @ quoted d @ '' is not one of the configured choices'')
             | Some c \<Rightarrow> Inr (Q\<lparr>qt_default := c\<rparr>))
          else Inr Q))))"

definition prompt :: "(string \<Rightarrow> string \<Rightarrow> bool) \<Rightarrow> bool \<Rightarrow> gomap \<Rightarrow> string option \<Rightarrow> string list \<Rightarrow> exec_out \<times> string" where
  "prompt fold_eq interactive params ending ls =
     (let fails = (\<lambda>e. \<lparr>xo_output = None, xo_error = Some e, xo_notices = []\<rparr>) in
      if \<not> interactive
      then (fails ''prompt: interactive terminal input is required; use gate pause/resume for non-interactive approval'', [])
      else case prompt_question fold_eq params of
        Inl e \<Rightarrow> (fails e, [])
      | Inr Q \<Rightarrow> (case ask fold_eq Q ending ls of
          (Inl e, out) \<Rightarrow> (fails e, out)
        | (Inr v, out) \<Rightarrow> (\<lparr>xo_output = Some [(''value'', VStr v)], xo_error = None, xo_notices = []\<rparr>, out)))"

subsection \<open>The answer\<close>

lemma matching_choice_Some: "matching_choice fold_eq cs v ci = Some c \<Longrightarrow> c \<in> set cs \<and> (c = v \<or> ci \<and> fold_eq c v)"
  by (induction cs) (auto split: if_splits)

text \<open>The loop is the first answer among the lines.\<close>

lemma ask_first:
  "fst (ask fold_eq Q ending ls) = (case List.map_filter (\<lambda>l. case read_answer fold_eq Q l of Inr v \<Rightarrow> Some v | Inl m \<Rightarrow> None) ls of
     v # vs \<Rightarrow> Inr v
   | [] \<Rightarrow> fst (ask fold_eq Q ending []))"
  by (induction ls) (auto split: sum.splits prod.splits)

lemma prompt_question_default:
  assumes "prompt_question fold_eq params = Inr Q" "qt_choices Q \<noteq> []" "qt_default Q \<noteq> []"
  shows "qt_default Q \<in> set (qt_choices Q)"
  using assms by (auto simp: prompt_question_def go_err Let_def dest: matching_choice_Some split: if_splits option.splits)

text \<open>The answer of a prompt with choices is one of them as it was configured, and never empty.\<close>

lemma prompt_answer:
  assumes "ask fold_eq Q ending ls = (Inr v, out)"
  shows "(if qt_choices Q \<noteq> [] then v \<in> set (qt_choices Q) else v \<noteq> []) \<and> (\<exists>l\<in>set ls. read_answer fold_eq Q l = Inr v)"
  using assms
proof (induction ls arbitrary: out)
  case (Cons l ls)
  show ?case
  proof (cases "read_answer fold_eq Q l")
    case (Inl m)
    with Cons.prems obtain out' where "ask fold_eq Q ending ls = (Inr v, out')" by (auto split: prod.splits)
    from Cons.IH [OF this] show ?thesis by auto
  next
    case (Inr c)
    with Cons.prems have "c = v" by simp
    with Inr show ?thesis
      by (auto simp: read_answer_def Let_def dest: matching_choice_Some split: if_splits option.splits)
  qed
qed simp

text \<open>An empty line takes the default; every other input is asked for again.\<close>

lemma matching_canonical:
  assumes "transp fold_eq" "matching_choice fold_eq cs d ci = Some c"
  shows "matching_choice fold_eq cs c ci = Some c"
  using assms(2)
proof (induction cs)
  case (Cons x cs)
  show ?case
  proof (cases "x = d \<or> ci \<and> fold_eq x d")
    case False
    with Cons.prems have c: "matching_choice fold_eq cs d ci = Some c" by simp
    from matching_choice_Some [OF this] have "c = d \<or> ci \<and> fold_eq c d" by blast
    with False assms(1) have "\<not> (x = c \<or> ci \<and> fold_eq x c)" by (auto dest: transpD)
    with Cons.IH [OF c] show ?thesis by simp
  qed (use Cons.prems in auto)
qed simp

lemma empty_line_default:
  assumes "transp fold_eq" "prompt_question fold_eq params = Inr Q" "qt_default Q \<noteq> []"
  shows "read_answer fold_eq Q [] = Inr (qt_default Q)"
proof -
  have blank: "trim_space [] = []" by (simp add: trim_space_def trim_fn_def trim_left_fn_def trim_right_fn_def)
  show ?thesis
  proof (cases "qt_choices Q = []")
    case False
    with assms(2,3) obtain d where "matching_choice fold_eq (qt_choices Q) d (qt_insensitive Q) = Some (qt_default Q)"
      by (auto simp: prompt_question_def go_err Let_def split: if_splits option.splits)
    from matching_canonical [OF assms(1) this] assms(3) False blank show ?thesis by (simp add: read_answer_def)
  qed (use assms(3) blank in \<open>simp add: read_answer_def\<close>)
qed

lemma sample_prompt:
  "prompt (\<lambda>a b. to_lower a = to_lower b) True
     [(''case_insensitive'', VBool True), (''choices'', VList [VStr ''Yes'', VStr ''No'']), (''message'', VStr ''Go on?'')] None
     [''maybe'', '' yes ''] =
   (\<lparr>xo_output = Some [(''value'', VStr ''Yes'')], xo_error = None, xo_notices = []\<rparr>,
    ''Go on? [Yes/No]: Invalid input '' @ quoted ''maybe'' @ ''. Choose one of: Yes, No.'' @ [CHR 0x0A] @ ''Go on? [Yes/No]: '')"
  by code_simp

end
