(* ===== verification/Diagram.thy ===== *)
theory Diagram
  imports State_Store
begin

text \<open>
  The Mermaid diagram of a run (\<open>cmd/markov/diagram.go\<close>): the tree of a run and its sub-runs from the
  store, the steps of a run merged with those that only sub-runs show, and the text. Short names
  for runs come from an allocator that is passed along. Sub-runs are grouped by step in a Go
  map; the order of iteration is taken as that of the keys. \<open>sort.Slice\<close>, which promises nothing
  for this comparison, is a parameter. Names are valid UTF-8.
\<close>

subsection \<open>The tree of runs\<close>

record step_info =
  si_name :: string
  si_status :: step_status
  si_started :: "int option"

datatype run_tree = Run_Tree run_row "step_info list" "(string \<times> run_tree list) list"

fun tree_run :: "run_tree \<Rightarrow> run_row" where
  "tree_run (Run_Tree r ss cs) = r"

fun tree_steps :: "run_tree \<Rightarrow> step_info list" where
  "tree_steps (Run_Tree r ss cs) = ss"

text \<open>The order asked of the sort: a step that has not started comes first.\<close>

definition before_step :: "step_info \<Rightarrow> step_info \<Rightarrow> bool" where
  "before_step a b = (case (si_started a, si_started b) of
     (None, _) \<Rightarrow> True | (Some s, None) \<Rightarrow> False | (Some s, Some t) \<Rightarrow> s < t)"

definition stored_steps :: "step_row list \<Rightarrow> step_info list" where
  "stored_steps = map (\<lambda>r. \<lparr>si_name = sr_step_name r, si_status = sr_status r, si_started = sr_started_at r\<rparr>)"

definition implied_step :: "string \<times> run_tree list \<Rightarrow> step_info" where
  "implied_step c = (case c of (name, kids) \<Rightarrow>
     \<lparr>si_name = name,
      si_status = (if list_ex (\<lambda>k. rn_status (tree_run k) = RunFailed) kids then StepFailed else StepCompleted),
      si_started = Some (rn_started_at (tree_run (hd kids)))\<rparr>)"

definition merge_steps :: "(step_info list \<Rightarrow> step_info list) \<Rightarrow> step_row list \<Rightarrow> (string \<times> run_tree list) list \<Rightarrow> step_info list" where
  "merge_steps sorter rows kids = sorter (stored_steps rows
     @ map implied_step (filter (\<lambda>c. fst c \<notin> sr_step_name ` set rows) kids))"

definition add_kid :: "run_tree \<Rightarrow> (string \<times> run_tree list) list \<Rightarrow> (string \<times> run_tree list) list" where
  "add_kid t m = (let k = rn_parent_step (tree_run t) in
     mput k ((case mget m k of None \<Rightarrow> [] | Some ts \<Rightarrow> ts) @ [t]) m)"

fun collect :: "('a \<Rightarrow> (string + 'b) option) \<Rightarrow> 'a list \<Rightarrow> (string + 'b list) option" where
  "collect f [] = Some (Inr [])"
| "collect f (x # xs) = (case f x of
     None \<Rightarrow> None
   | Some (Inl e) \<Rightarrow> Some (Inl e)
   | Some (Inr y) \<Rightarrow> map_option (map_sum id ((#) y)) (collect f xs))"

text \<open>The recursion ends when the fuel is above the depth of the runs.\<close>

primrec build_run_tree :: "nat \<Rightarrow> (step_info list \<Rightarrow> step_info list) \<Rightarrow> store \<Rightarrow> string \<Rightarrow> (string + run_tree) option" where
  "build_run_tree 0 sorter st i = None"
| "build_run_tree (Suc n) sorter st i = (case get_run st i of
     Inl e \<Rightarrow> Some (Inl e)
   | Inr r \<Rightarrow> map_option (map_sum id (\<lambda>ts.
       let kids = fold add_kid ts [] in Run_Tree r (merge_steps sorter (get_steps st i) kids) kids))
       (collect (\<lambda>c. build_run_tree n sorter st (rn_run_id c)) (get_child_runs st i)))"

subsection \<open>Short names\<close>

record id_allocator =
  ia_ids :: "(string \<times> string) list"
  ia_next :: nat

definition new_ids :: id_allocator where
  "new_ids = \<lparr>ia_ids = [], ia_next = 0\<rparr>"

definition run_id :: "string \<Rightarrow> id_allocator \<Rightarrow> string \<times> id_allocator" where
  "run_id i a = (case mget (ia_ids a) i of
     Some s \<Rightarrow> (s, a)
   | None \<Rightarrow> let s = CHR ''r'' # nat_text (ia_next a)
             in (s, \<lparr>ia_ids = mput i s (ia_ids a), ia_next = Suc (ia_next a)\<rparr>))"

text \<open>Every character that is no ASCII letter or digit is an underscore; the bytes after the first of a
  character give nothing.\<close>

definition sanitize_id :: "string \<Rightarrow> string" where
  "sanitize_id s = map (\<lambda>c. if is_lower c \<or> is_upper c \<or> is_digit c then c else CHR ''_'')
     (filter (\<lambda>c. \<not> (128 \<le> (of_char c :: nat) \<and> (of_char c :: nat) < 192)) s)"

definition step_id :: "string \<Rightarrow> string \<Rightarrow> id_allocator \<Rightarrow> string \<times> id_allocator" where
  "step_id i name a = (case run_id i a of (r, a) \<Rightarrow> (r @ ''_'' @ sanitize_id name, a))"

subsection \<open>The text\<close>

definition status_indicator :: "step_status \<Rightarrow> string" where
  "status_indicator s = (case s of
     StepCompleted \<Rightarrow> ''&#10003;'' | StepFailed \<Rightarrow> ''&#10007;'' | StepSkipped \<Rightarrow> ''&#9675;'' | _ \<Rightarrow> ''&#9711;'')"

definition eol :: string where "eol = [CHR 0x0A]"

text \<open>What is written so far: the text, the nodes with their states, and the names.\<close>

type_synonym drawing = "string \<times> (string \<times> step_status) list \<times> id_allocator"

definition draw_step :: "string \<Rightarrow> step_info \<Rightarrow> drawing \<Rightarrow> drawing" where
  "draw_step i s d = (case d of (t, nodes, a) \<Rightarrow> (case step_id i (si_name s) a of (n, a) \<Rightarrow>
     (t @ ''        '' @ n @ ''['' @ [dquote] @ si_name s @ '' '' @ status_indicator (si_status s) @ [dquote] @ '']'' @ eol,
      nodes @ [(n, si_status s)], a)))"

definition draw_link :: "string \<Rightarrow> step_info \<times> step_info \<Rightarrow> drawing \<Rightarrow> drawing" where
  "draw_link i p d = (case d of (t, nodes, a) \<Rightarrow> (case step_id i (si_name (fst p)) a of (m, a) \<Rightarrow>
     (case step_id i (si_name (snd p)) a of (n, a) \<Rightarrow> (t @ ''        '' @ m @ '' --> '' @ n @ eol, nodes, a))))"

definition draw_run :: "run_row \<Rightarrow> step_info list \<Rightarrow> drawing \<Rightarrow> drawing" where
  "draw_run r ss d = (case d of (t, nodes, a) \<Rightarrow> (case run_id (rn_run_id r) a of (sg, a) \<Rightarrow>
     let d = (t @ ''    subgraph '' @ sg @ ''['' @ [dquote] @ rn_entrypoint r @ '' ['' @ rn_run_id r @ '']'' @ [dquote] @ '']'' @ eol, nodes, a);
         d = fold (draw_step (rn_run_id r)) ss d;
         d = fold (draw_link (rn_run_id r)) (zip ss (tl ss)) d
     in (case d of (t, nodes, a) \<Rightarrow> (t @ ''    end'' @ eol, nodes, a))))"

fun render_subgraph :: "run_tree \<Rightarrow> drawing \<Rightarrow> drawing" where
  "render_subgraph (Run_Tree r ss kids) d =
     fold (\<lambda>c d. case d of (t, nodes, a) \<Rightarrow> (case step_id (rn_run_id r) (fst c) a of (p, a) \<Rightarrow>
       fold (\<lambda>k d. case render_subgraph k d of (t, nodes, a) \<Rightarrow>
         (case tree_steps k of
            [] \<Rightarrow> (t, nodes, a)
          | s # rest \<Rightarrow> (case step_id (rn_run_id (tree_run k)) (si_name s) a of (n, a) \<Rightarrow>
              (t @ ''    '' @ p @ '' --> '' @ n @ eol, nodes, a)))) (snd c) (t, nodes, a)))
       kids (draw_run r ss d)"

definition class_line :: "string \<times> step_status \<Rightarrow> string" where
  "class_line n = (case snd n of
     StepCompleted \<Rightarrow> ''    class '' @ fst n @ '' completed'' @ eol
   | StepFailed \<Rightarrow> ''    class '' @ fst n @ '' failed'' @ eol
   | StepSkipped \<Rightarrow> ''    class '' @ fst n @ '' skipped'' @ eol
   | _ \<Rightarrow> [])"

definition generate_mermaid :: "run_tree \<Rightarrow> string" where
  "generate_mermaid t = (case render_subgraph t (''flowchart TD'' @ eol, [], new_ids) of (text_now, nodes, a) \<Rightarrow>
     text_now @ eol @ concat (map class_line nodes) @ eol
       @ ''    classDef completed fill:#d4edda,stroke:#28a745'' @ eol
       @ ''    classDef failed fill:#f8d7da,stroke:#dc3545'' @ eol
       @ ''    classDef skipped fill:#e2e3e5,stroke:#6c757d,stroke-dasharray:5 5'' @ eol)"

subsection \<open>Names are not mixed up\<close>

definition ids_ok :: "id_allocator \<Rightarrow> bool" where
  "ids_ok a \<longleftrightarrow> mwf (ia_ids a) \<and>
     (\<forall>i s. mget (ia_ids a) i = Some s \<longrightarrow> (\<exists>n<ia_next a. s = CHR ''r'' # nat_text n)) \<and>
     (\<forall>i j s. mget (ia_ids a) i = Some s \<and> mget (ia_ids a) j = Some s \<longrightarrow> i = j)"

lemma new_ids_ok: "ids_ok new_ids"
  by (simp add: ids_ok_def new_ids_def)

lemma run_id_ok:
  assumes "ids_ok a" "run_id i a = (s, b)"
  shows "ids_ok b \<and> mget (ia_ids b) i = Some s \<and> (\<forall>j t. mget (ia_ids a) j = Some t \<longrightarrow> mget (ia_ids b) j = Some t)"
proof (cases "mget (ia_ids a) i")
  case None
  let ?s = "CHR ''r'' # nat_text (ia_next a)"
  from assms(2) None have b: "s = ?s" "b = \<lparr>ia_ids = mput i ?s (ia_ids a), ia_next = Suc (ia_next a)\<rparr>"
    by (auto simp: run_id_def Let_def)
  have wf: "mwf (ia_ids a)" using assms(1) by (simp add: ids_ok_def)
  have new: "mget (ia_ids a) j \<noteq> Some ?s" for j
    using assms(1) unfolding ids_ok_def by (metis less_irrefl list.inject nat_text_inj)
  have get: "mget (ia_ids b) = (mget (ia_ids a))(i \<mapsto> ?s)" by (simp add: b mget_mput [OF wf])
  have "\<exists>n<ia_next b. t = CHR ''r'' # nat_text n" if "mget (ia_ids b) j = Some t" for j t
    using that assms(1) unfolding get by (auto simp: ids_ok_def b less_Suc_eq split: if_splits)
  moreover have "j = k" if "mget (ia_ids b) j = Some t" "mget (ia_ids b) k = Some t" for j k t
    using that assms(1) new unfolding get by (auto simp: ids_ok_def split: if_splits)
  moreover have "mwf (ia_ids b)" by (simp add: b mwf_mput [OF wf])
  ultimately have "ids_ok b" unfolding ids_ok_def by blast
  with None get b(1) show ?thesis by auto
qed (use assms in \<open>auto simp: run_id_def\<close>)

text \<open>Two nodes of a diagram have the same name only if they are of one run and their steps' names
  differ in nothing but the characters that become underscores.\<close>

lemma step_id_run:
  assumes "ids_ok a" "mget (ia_ids a) i = Some r" "mget (ia_ids a) j = Some s"
    "fst (step_id i m a) = fst (step_id j n a)"
  shows "i = j \<and> sanitize_id m = sanitize_id n"
proof -
  obtain p q where pq: "r = CHR ''r'' # nat_text p" "s = CHR ''r'' # nat_text q"
    using assms(1-3) unfolding ids_ok_def by blast
  have eq: "r @ ''_'' @ sanitize_id m = s @ ''_'' @ sanitize_id n"
    using assms(2-4) by (simp add: step_id_def run_id_def)
  have "CHR ''_'' \<notin> set r" "CHR ''_'' \<notin> set s"
    using nat_text_no_char [of "CHR ''_''"] by (auto simp: pq is_digit_def)
  moreover have "takeWhile (\<lambda>c. c \<noteq> CHR ''_'') (x @ CHR ''_'' # t) = x" if "CHR ''_'' \<notin> set x" for x t
    using that by (induction x) auto
  ultimately have word: "takeWhile (\<lambda>c. c \<noteq> CHR ''_'') (x @ ''_'' @ t) = x" if "x \<in> {r, s}" for x t
    using that by auto
  have "takeWhile (\<lambda>c. c \<noteq> CHR ''_'') (r @ ''_'' @ sanitize_id m) = takeWhile (\<lambda>c. c \<noteq> CHR ''_'') (s @ ''_'' @ sanitize_id n)"
    by (simp only: eq)
  then have "r = s" using word [of r] word [of s] by simp
  with eq assms(1-3) show ?thesis unfolding ids_ok_def by auto
qed

text \<open>Steps of one run that differ in punctuation only share a node.\<close>

lemma step_names_collide: "fst (step_id ''x'' ''a-b'' new_ids) = fst (step_id ''x'' ''a_b'' new_ids)"
  by code_simp

text \<open>The comparison is no order: two steps that have not started come before each other.\<close>

lemma before_step_no_order:
  "si_started a = None \<Longrightarrow> si_started b = None \<Longrightarrow> before_step a b \<and> before_step b a"
  by (simp add: before_step_def)

subsection \<open>The tree is complete\<close>

lemma collect_returns: "\<forall>x\<in>set xs. f x \<noteq> None \<Longrightarrow> collect f xs \<noteq> None"
  by (induction xs) (auto split: sum.splits)

text \<open>On a store whose runs can be ranked the tree is built, with fuel above the rank.\<close>

lemma build_run_tree_returns:
  assumes "\<forall>p. \<forall>c\<in>set (get_child_runs st p). rank (rn_run_id c) < rank p" "rank i < n"
  shows "build_run_tree n sorter st i \<noteq> None"
  using assms(2)
proof (induction n arbitrary: i)
  case (Suc n)
  have "build_run_tree n sorter st (rn_run_id c) \<noteq> None" if "c \<in> set (get_child_runs st i)" for c
    using assms(1) that Suc by (meson less_Suc_eq_le order_less_le_trans)
  with collect_returns [of "get_child_runs st i" "\<lambda>c. build_run_tree n sorter st (rn_run_id c)"]
  show ?case by (auto split: sum.split)
qed simp

text \<open>Every stored step and every step that only sub-runs show is a step of the tree, once.\<close>

lemma merge_steps_complete:
  assumes "\<forall>xs. set (sorter xs) = set xs"
  shows "si_name ` set (merge_steps sorter rows kids) = sr_step_name ` set rows \<union> fst ` set kids"
proof -
  have "si_name (implied_step c) = fst c" for c by (cases c) (simp add: implied_step_def)
  then have "si_name ` set (merge_steps sorter rows kids) =
      sr_step_name ` set rows \<union> fst ` set (filter (\<lambda>c. fst c \<notin> sr_step_name ` set rows) kids)"
    using assms by (simp add: merge_steps_def stored_steps_def image_Un image_image)
  then show ?thesis by auto
qed

end
