(* ===== verification/Cli.thy ===== *)
theory Cli
  imports Resume_Props Debug_Control Callbacks Workflow_Dir Diagram
begin

text \<open>
  The commands of the program (\<open>cmd/markov/main.go\<close>) as the composition of the components: flags,
  the workflow file, the store, callbacks, the debugger and the engine. Opening a store, the
  decoders of JSON flags, the files of the host and the engine's parameters for a file are
  arguments, and so is the text of a time or a duration. Names are valid UTF-8.
\<close>

subsection \<open>Flags\<close>

record flags =
  fl_vars :: "string list"
  fl_workflow :: string
  fl_forks :: int
  fl_store :: string
  fl_namespace :: string
  fl_run_id :: string
  fl_callbacks :: "string list"
  fl_headers :: "string list"
  fl_tls_insecure :: bool
  fl_tls_cert :: string
  fl_buffer :: int
  fl_breakpoints :: "string list"
  fl_breakpoints_file :: string
  fl_break :: "string list"
  fl_step :: bool
  fl_control :: string
  fl_integrity :: string
  fl_rewind :: "string list"
  fl_rewind_changed :: bool

definition default_state_store_path :: "string \<Rightarrow> bool \<Rightarrow> string" where
  "default_state_store_path env in_pod =
     (if trim_space env \<noteq> [] then trim_space env
      else if in_pod then ''/tmp/markov-state.db'' else ''./markov-state.db'')"

text \<open>\<open>strings.SplitN(s, "=", 2)\<close>, when it gives two parts.\<close>

definition split_assign :: "string \<Rightarrow> (string \<times> string) option" where
  "split_assign s = (if CHR ''='' \<in> set s
     then Some (takeWhile (\<lambda>c. c \<noteq> CHR ''='') s, tl (dropWhile (\<lambda>c. c \<noteq> CHR ''='') s)) else None)"

definition parse_var_flags :: "golib \<Rightarrow> string list \<Rightarrow> gomap" where
  "parse_var_flags G vars = fold (\<lambda>v m. case split_assign v of
     Some (k, t) \<Rightarrow> mput k (coerce_string G t) m | None \<Rightarrow> m) vars []"

definition callback_headers :: "string list \<Rightarrow> (string \<times> string) list" where
  "callback_headers hs = fold (\<lambda>h m. case split_assign h of Some (k, t) \<Rightarrow> mput k t m | None \<Rightarrow> m) hs []"

definition build_callbacks :: "golib \<Rightarrow> callback_io \<Rightarrow> flags \<Rightarrow> string + callback list" where
  "build_callbacks G I fl = map_try (\<lambda>u.
     map_sum (\<lambda>e. ''parsing callback '' @ quoted u @ '': '' @ e) id
       (parse_callback_url G I u (callback_headers (fl_headers fl)) (fl_buffer fl) (fl_tls_insecure fl) (fl_tls_cert fl)))
     (fl_callbacks fl)"

text \<open>The namespace of the service account is there only inside a pod.\<close>

definition resolve_namespace :: "string \<Rightarrow> string \<Rightarrow> string option \<Rightarrow> string" where
  "resolve_namespace of_file flag account =
     (if of_file \<noteq> [] then of_file else if flag \<noteq> [] then flag
      else case account of Some t \<Rightarrow> trim_space t | None \<Rightarrow> ''default'')"

definition override_file :: "flags \<Rightarrow> workflow_file \<Rightarrow> workflow_file" where
  "override_file fl f =
     (let f = (if fl_forks fl > 0 then f\<lparr>fi_forks := fl_forks fl\<rparr> else f)
      in if fl_namespace fl \<noteq> [] then f\<lparr>fi_namespace := fl_namespace fl\<rparr> else f)"

text \<open>The types that get an executor.\<close>

definition executor_types :: "bool \<Rightarrow> string list" where
  "executor_types cluster =
     [''shell_exec'', ''script_exec'', ''write_file'', ''claude'', ''ansible'', ''ansible_playbook'', ''prompt'', ''http_request'', ''jev'']
     @ (if cluster then [''k8s_job'', ''k8s_job_wait''] else [])"

text \<open>The state store is no part of the workflow's source, unless it is a database server.\<close>

definition source_excludes :: "flags \<Rightarrow> string list" where
  "source_excludes fl = (if is_postgres_dsn (fl_store fl) then [] else [fl_store fl])"

subsection \<open>The debugger\<close>

record debug_io =
  di_read :: "string \<Rightarrow> string + string"
  di_decode :: "string \<Rightarrow> string + breakpoint"
  di_array :: "string \<Rightarrow> string + string list"

fun decode_entries :: "debug_io \<Rightarrow> string \<Rightarrow> nat \<Rightarrow> string list \<Rightarrow> string + breakpoint list" where
  "decode_entries D path i [] = Inr []"
| "decode_entries D path i (raw # raws) = (case di_decode D raw of
     Inl e \<Rightarrow> Inl (''--breakpoints-file '' @ path @ '', entry '' @ nat_text i @ '': '' @ e)
   | Inr bp \<Rightarrow> map_sum id ((#) bp) (decode_entries D path (Suc i) raws))"

definition breakpoints_of_file :: "debug_io \<Rightarrow> string \<Rightarrow> string + breakpoint list" where
  "breakpoints_of_file D path =
     (if path = [] then Inr []
      else case di_read D path of
        Inl e \<Rightarrow> Inl (''--breakpoints-file: '' @ e)
      | Inr data \<Rightarrow> (case di_array D data of
          Inl e \<Rightarrow> Inl (''--breakpoints-file '' @ path @ '': expected a JSON array of breakpoint objects: '' @ e)
        | Inr raws \<Rightarrow> decode_entries D path 0 raws))"

definition wants_breaks :: "flags \<Rightarrow> bool" where
  "wants_breaks fl \<longleftrightarrow> fl_breakpoints fl \<noteq> [] \<or> fl_break fl \<noteq> [] \<or> fl_breakpoints_file fl \<noteq> [] \<or> fl_step fl"

definition given_breakpoints :: "debug_io \<Rightarrow> workflow_file \<Rightarrow> flags \<Rightarrow> string + breakpoint list" where
  "given_breakpoints D f fl =
     try_then (map_try (\<lambda>raw. map_sum (\<lambda>e. ''--breakpoint '' @ raw @ '': '' @ e) id (di_decode D raw)) (fl_breakpoints fl)) (\<lambda>given.
     try_then (breakpoints_of_file D (fl_breakpoints_file fl)) (\<lambda>filed.
     try_then (map_try (resolve_shorthand f) (fl_break fl)) (\<lambda>short. Inr (given @ filed @ short))))"

definition build_debugger :: "debug_io \<Rightarrow> workflow_file \<Rightarrow> flags \<Rightarrow> string + debugger option" where
  "build_debugger D f fl =
     (if fl_control fl \<noteq> [] \<and> fl_control fl \<noteq> ''stdin''
      then Inl (''--control '' @ quoted (fl_control fl) @ '' is not supported (use stdin)'')
      else if \<not> wants_breaks fl \<and> fl_control fl = [] then Inr None
      else if wants_breaks fl \<and> fl_control fl \<noteq> ''stdin''
      then Inl ''breakpoints and --step need --control stdin, so a paused run can be continued''
      else try_then (given_breakpoints D f fl) (\<lambda>bps.
        case set_breakpoints f bps new_debugger of
          ((resolved, rejected), d) \<Rightarrow>
            if rejected \<noteq> [] then Inl (''unresolved breakpoint(s): '' @ join ''; '' (map snd rejected))
            else Inr (Some (set_step_mode (fl_step fl) d))))"

subsection \<open>The commands\<close>

text \<open>What is printed to the two streams, and the error the process ends with.\<close>

record cli_result =
  cr_out :: string
  cr_err :: string
  cr_error :: "string option"

definition cli_fails :: "string \<Rightarrow> cli_result" where
  "cli_fails e = \<lparr>cr_out = [], cr_err = [], cr_error = Some e\<rparr>"

definition run_report :: "string \<Rightarrow> gerr option \<Rightarrow> cli_result" where
  "run_report i err = (case err of
     None \<Rightarrow> \<lparr>cr_out = ''run '' @ i @ '' completed successfully'' @ [CHR 0x0A], cr_err = [], cr_error = None\<rparr>
   | Some e \<Rightarrow>
       if pause_error e \<noteq> None
       then \<lparr>cr_out = ''run '' @ i @ '' paused; inspect its gate receipt and resume with --var approval input'' @ [CHR 0x0A],
              cr_err = [], cr_error = None\<rparr>
       else \<lparr>cr_out = [], cr_err = ''run '' @ i @ '' failed: '' @ err_text e @ [CHR 0x0A], cr_error = Some (err_text e)\<rparr>)"

definition resume_report :: "string \<Rightarrow> gerr option \<Rightarrow> cli_result" where
  "resume_report i err = (case err of
     None \<Rightarrow> \<lparr>cr_out = [], cr_err = [], cr_error = None\<rparr>
   | Some e \<Rightarrow>
       if pause_error e \<noteq> None
       then \<lparr>cr_out = ''run '' @ i @ '' remains paused; supply different --var approval input to resume'' @ [CHR 0x0A],
              cr_err = [], cr_error = None\<rparr>
       else cli_fails (err_text e))"

definition start_report :: "string + string \<times> gerr option \<Rightarrow> cli_result" where
  "start_report r = (case r of
     Inl e \<Rightarrow> \<lparr>cr_out = [], cr_err = ''run  failed: '' @ e @ [CHR 0x0A], cr_error = Some e\<rparr>
   | Inr o1 \<Rightarrow> run_report (fst o1) (snd o1))"

definition resumed_report :: "string \<Rightarrow> string + gerr option \<Rightarrow> cli_result" where
  "resumed_report i r = (case r of Inl e \<Rightarrow> cli_fails e | Inr err \<Rightarrow> resume_report i err)"

text \<open>The parameters of a command: the libraries, whether the store takes the last update of a run, the opened store as an engine's state, and the
  engine's parameters for a file with its callbacks and its debugger (theory Assembly builds the engine of a
  command from the executors).\<close>

record 'w program =
  pg_lib :: golib
  pg_files :: files
  pg_yaml :: yaml
  pg_callbacks :: callback_io
  pg_debug :: debug_io
  pg_open :: "string \<Rightarrow> string + 'w eng"
  pg_engine :: "workflow_file \<Rightarrow> string \<Rightarrow> callback list \<Rightarrow> debugger option \<Rightarrow> 'w ext"
  pg_rewind :: "string \<Rightarrow> string + rewind_target"
  pg_fresh_id :: string
  pg_tree :: "string \<Rightarrow> string list \<Rightarrow> string + string"
  pg_end_saved :: bool

definition run_settings :: "'w program \<Rightarrow> flags \<Rightarrow> string \<Rightarrow> settings" where
  "run_settings Q fl path = \<lparr>se_run_id = fl_run_id fl, se_fresh_id = pg_fresh_id Q, se_tree = pg_tree Q path (source_excludes fl),
     se_integrity = None, se_rewind = [], se_rewind_changed = False, se_end_saved = pg_end_saved Q\<rparr>"

text \<open>The result, with the engine's state once the store is open; \<open>None\<close> when the fuel is too small. \<open>buildExecutors\<close> has an
  error in its type but never returns one. What a \<open>prompt\<close> step writes to the terminal is not part of the result.\<close>

definition run_workflow_command ::
  "nat \<Rightarrow> 'w program \<Rightarrow> flags \<Rightarrow> string \<Rightarrow> (cli_result \<times> 'w eng option) option" where
  "run_workflow_command n Q fl path =
     (case parse_file (pg_lib Q) (pg_files Q) (pg_yaml Q) path of
        Inl e \<Rightarrow> Some (cli_fails e, None)
      | Inr f \<Rightarrow> (case pg_open Q (fl_store fl) of
          Inl e \<Rightarrow> Some (cli_fails e, None)
        | Inr s \<Rightarrow> (case build_callbacks (pg_lib Q) (pg_callbacks Q) fl of
            Inl e \<Rightarrow> Some (cli_fails e, Some s)
          | Inr cbs \<Rightarrow> (case build_debugger (pg_debug Q) (override_file fl f) fl of
              Inl e \<Rightarrow> Some (cli_fails e, Some s)
            | Inr dbg \<Rightarrow>
                map_option (map_prod start_report Some)
                (start_run n (pg_engine Q (override_file fl f) path cbs (map_option set_cancel dbg))
                  (run_settings Q fl path) (fl_workflow fl) (parse_var_flags (pg_lib Q) (fl_vars fl)) s)))))"

definition rewind_flag :: "'w program \<Rightarrow> string \<Rightarrow> string + rewind_target" where
  "rewind_flag Q raw = (case pg_rewind Q raw of
     Inl e \<Rightarrow> Inl (''--rewind '' @ raw @ '': '' @ e)
   | Inr t \<Rightarrow>
       if rt_workflow t = [] \<or> rt_step t = [] then Inl (''--rewind '' @ raw @ '': needs a workflow and a step'') else Inr t)"

definition resume_workflow_command ::
  "nat \<Rightarrow> nat \<Rightarrow> 'w program \<Rightarrow> flags \<Rightarrow> string \<Rightarrow> (cli_result \<times> 'w eng option) option" where
  "resume_workflow_command m n Q fl i =
     (case parse_integrity (fl_integrity fl) of
        Inl e \<Rightarrow> Some (cli_fails e, None)
      | Inr mode \<Rightarrow> (case pg_open Q (fl_store fl) of
          Inl e \<Rightarrow> Some (cli_fails e, None)
        | Inr s \<Rightarrow>
            (case try_then (get_run (en_store s) i) (\<lambda>r.
                  try_then (parse_file (pg_lib Q) (pg_files Q) (pg_yaml Q) (rn_workflow_file r)) (\<lambda>f.
                  try_then (map_try (rewind_flag Q) (fl_rewind fl)) (\<lambda>targets.
                  try_then (build_callbacks (pg_lib Q) (pg_callbacks Q) fl) (\<lambda>cbs.
                  map_sum id (\<lambda>dbg. (r, override_file fl f, targets, cbs, dbg)) (build_debugger (pg_debug Q) (override_file fl f) fl))))) of
               Inl e \<Rightarrow> Some (cli_fails e, Some s)
             | Inr (r, f, targets, cbs, dbg) \<Rightarrow>
                 map_option (map_prod (resumed_report i) Some)
                 (resume_with_vars m n (pg_engine Q f (rn_workflow_file r) cbs (map_option set_cancel dbg))
                    ((run_settings Q fl (rn_workflow_file r))\<lparr>se_run_id := [], se_integrity := Some mode, se_rewind := targets,
                       se_rewind_changed := fl_rewind_changed fl\<rparr>)
                    i (parse_var_flags (pg_lib Q) (fl_vars fl)) s))))"

subsection \<open>Commands that only read\<close>

text \<open>\<open>%-10s\<close> counts characters, not bytes.\<close>

definition rune_count :: "string \<Rightarrow> nat" where
  "rune_count s = length (filter (\<lambda>c. \<not> (digit7 c \<and> \<not> digit6 c)) s)"

definition pad :: "nat \<Rightarrow> string \<Rightarrow> string" where
  "pad w s = s @ replicate (w - rune_count s) CHR '' ''"

record clock_text =
  ct_time :: "int \<Rightarrow> string"
  ct_duration :: "int \<Rightarrow> string"

fun step_status_text :: "step_status \<Rightarrow> string" where
  "step_status_text StepPending = ''pending''"
| "step_status_text StepRunning = ''running''"
| "step_status_text StepPaused = ''paused''"
| "step_status_text StepCompleted = ''completed''"
| "step_status_text StepFailed = ''failed''"
| "step_status_text StepSkipped = ''skipped''"

definition run_lines :: "clock_text \<Rightarrow> run_row \<Rightarrow> string" where
  "run_lines C r =
     ''Run:        '' @ rn_run_id r @ eol @ ''Workflow:   '' @ rn_entrypoint r @ eol
     @ ''Status:     '' @ run_status_text (rn_status r) @ eol
     @ (if rn_source_digest r \<noteq> [] then ''Source:     '' @ rn_source_digest r @ eol
        else ''Source:     unavailable (legacy run)'' @ eol)
     @ ''Started:    '' @ ct_time C (rn_started_at r) @ eol
     @ (case rn_completed_at r of Some t \<Rightarrow> ''Completed:  '' @ ct_time C t @ eol | None \<Rightarrow> [])"

definition check_lines :: "clock_text \<Rightarrow> source_check list \<Rightarrow> string" where
  "check_lines C checks =
     (if checks = [] then []
      else let c = last checks in
        ''Source check: '' @ sc_mode c @ '' ('' @ ct_time C (sc_checked_at c) @ '')''
        @ (if sc_source_drifted c
           then '' '' @ [CHR 0xE2, CHR 0x80, CHR 0x94] @ '' drift detected ('' @ sc_observed_digest c @ '')'' @ eol
           else eol))"

definition step_lines :: "clock_text \<Rightarrow> step_row \<Rightarrow> string" where
  "step_lines C r =
     pad 30 (sr_step_name r) @ '' '' @ pad 12 (step_status_text (sr_status r)) @ '' ''
     @ (case (sr_started_at r, sr_completed_at r) of
          (Some a, Some b) \<Rightarrow> ct_duration C (b - a) | _ \<Rightarrow> []) @ eol
     @ (if sr_error r \<noteq> [] then ''  error: '' @ sr_error r @ eol else [])
     @ (if sr_status r = StepPaused \<and> sr_output_json r \<noteq> [] then ''  gate receipt: '' @ sr_output_json r @ eol else [])"

definition show_status :: "clock_text \<Rightarrow> bool \<Rightarrow> store \<Rightarrow> string \<Rightarrow> cli_result" where
  "show_status C steps st i = (case get_run st i of
     Inl e \<Rightarrow> cli_fails e
   | Inr r \<Rightarrow> \<lparr>cr_out = run_lines C r @ check_lines C (get_source_checks st i)
        @ (if steps
           then eol @ pad 30 ''STEP'' @ '' '' @ pad 12 ''STATUS'' @ '' DURATION'' @ eol
             @ pad 30 ''----'' @ '' '' @ pad 12 ''------'' @ '' --------'' @ eol
             @ concat (map (step_lines C) (get_steps st i))
           else []), cr_err = [], cr_error = None\<rparr>)"

definition list_line :: "clock_text \<Rightarrow> run_row \<Rightarrow> string" where
  "list_line C r = pad 10 (rn_run_id r) @ '' '' @ pad 25 (rn_entrypoint r) @ '' '' @ pad 12 (run_status_text (rn_status r))
     @ '' '' @ pad 20 (ct_time C (rn_started_at r)) @ '' ''
     @ (case rn_completed_at r of Some t \<Rightarrow> ct_duration C (t - rn_started_at r) | None \<Rightarrow> []) @ eol"

definition list_command :: "clock_text \<Rightarrow> store \<Rightarrow> cli_result" where
  "list_command C st = \<lparr>cr_out =
     (if list_runs st = [] then ''No runs found.'' @ eol
      else pad 10 ''RUN ID'' @ '' '' @ pad 25 ''WORKFLOW'' @ '' '' @ pad 12 ''STATUS'' @ '' '' @ pad 20 ''STARTED'' @ '' DURATION'' @ eol
        @ pad 10 ''------'' @ '' '' @ pad 25 ''--------'' @ '' '' @ pad 12 ''------'' @ '' '' @ pad 20 ''-------'' @ '' --------'' @ eol
        @ concat (map (list_line C) (list_runs st))), cr_err = [], cr_error = None\<rparr>"

definition show_diagram :: "nat \<Rightarrow> (step_info list \<Rightarrow> step_info list) \<Rightarrow> store \<Rightarrow> string \<Rightarrow> cli_result option" where
  "show_diagram n sorter st i = map_option (\<lambda>r. case r of
     Inl e \<Rightarrow> cli_fails e
   | Inr t \<Rightarrow> \<lparr>cr_out = generate_mermaid t, cr_err = [], cr_error = None\<rparr>) (build_run_tree n sorter st i)"

definition validate_command :: "'w program \<Rightarrow> string \<Rightarrow> cli_result" where
  "validate_command Q path = (case parse_file (pg_lib Q) (pg_files Q) (pg_yaml Q) path of
     Inl e \<Rightarrow> cli_fails e
   | Inr f \<Rightarrow> \<lparr>cr_out = ''valid'' @ eol, cr_err = [], cr_error = None\<rparr>)"

subsection \<open>What the flags give\<close>

text \<open>The last \<open>--var\<close> of a name counts, and one without an equals sign is ignored.\<close>

lemma parse_var_flags_get:
  "mget (parse_var_flags G vars) = map_of (rev (List.map_filter (\<lambda>v. map_option (\<lambda>(k, t). (k, coerce_string G t)) (split_assign v)) vars))"
proof -
  have "mwf m \<Longrightarrow> mget (fold (\<lambda>v m. case split_assign v of Some (k, t) \<Rightarrow> mput k (coerce_string G t) m | None \<Rightarrow> m) vars m) =
      mget m ++ map_of (rev (List.map_filter (\<lambda>v. map_option (\<lambda>(k, t). (k, coerce_string G t)) (split_assign v)) vars))" for m
  proof (induction vars arbitrary: m)
    case (Cons v vars)
    then show ?case
      by (cases "split_assign v") (auto simp: mwf_mput mget_mput List.map_filter_simps)
  qed (simp add: List.map_filter_def)
  from this [of "[]"] show ?thesis by (simp add: parse_var_flags_def mget_def)
qed

lemma split_assign_join: "CHR ''='' \<notin> set k \<Longrightarrow> split_assign (k @ ''='' @ v) = Some (k, v)"
  by (induction k) (auto simp: split_assign_def)

text \<open>A namespace flag wins over the file, since the file is overridden before the executors are made.\<close>

lemma namespace_flag_wins:
  "fl_namespace fl \<noteq> [] \<Longrightarrow>
     resolve_namespace (fi_namespace (override_file fl f)) (fl_namespace fl) account = fl_namespace fl"
  by (simp add: resolve_namespace_def override_file_def)

text \<open>Every primitive type has an executor or is handled by the engine, but for \<open>llm_invoke\<close>, which has none.\<close>

lemma primitives_executed:
  "set primitives = set (executor_types True) \<union> {''gate'', ''load_artifact'', ''set_fact'', ''assert'', ''llm_invoke''}"
  by (auto simp: primitives_def executor_types_def)

lemma resolve_all_counts: "resolve_all f bps = (ok, bad) \<Longrightarrow> length ok + length bad = length bps \<and>
    list_all (\<lambda>b. \<exists>w. get_workflow (fi_workflows f) (bp_workflow b) = Some w \<and> bp_step b \<in> set (map st_name (section_steps w (bp_section b)))) ok"
proof (induction bps arbitrary: ok bad)
  case (Cons bp bps)
  obtain ok' bad' where rest: "resolve_all f bps = (ok', bad')" by (cases "resolve_all f bps")
  show ?case
  proof (cases "resolve f bp")
    case (Inr r)
    then have "\<exists>w. get_workflow (fi_workflows f) (bp_workflow r) = Some w \<and> bp_step r \<in> set (map st_name (section_steps w (bp_section r)))"
      by (auto simp: resolve_def find_point_def go_err Let_def split: if_splits option.splits)
    with Cons.IH [OF rest] Cons.prems rest Inr show ?thesis by auto
  qed (use Cons.IH [OF rest] Cons.prems rest in auto)
qed simp

text \<open>A debugger that may pause a run has a channel to continue it, and every breakpoint that was asked
  for, none of them on a step that does not exist.\<close>

lemma debugger_has_control:
  assumes "build_debugger D f fl = Inr (Some d)"
  shows "fl_control fl = ''stdin'' \<and> dg_step_mode d = fl_step fl \<and>
    length (fl_breakpoints fl) + length (fl_break fl) \<le> length (dg_bps d) \<and>
    list_all (\<lambda>b. \<exists>w. get_workflow (fi_workflows f) (bp_workflow b) = Some w \<and>
      bp_step b \<in> set (map st_name (section_steps w (bp_section b)))) (dg_bps d)"
proof -
  from assms have control: "fl_control fl = ''stdin''"
    by (auto simp: build_debugger_def wants_breaks_def split: if_splits)
  obtain bps where given: "given_breakpoints D f fl = Inr bps"
    using assms by (cases "given_breakpoints D f fl") (auto simp: build_debugger_def wants_breaks_def split: if_splits)
  obtain resolved rejected d0 where set: "set_breakpoints f bps new_debugger = ((resolved, rejected), d0)"
    by (metis prod.collapse)
  have bps: "given_breakpoints D f fl = Inr bps" "set_breakpoints f bps new_debugger = ((resolved, []), d0)"
      "d = set_step_mode (fl_step fl) d0"
    using assms given set by (simp_all add: build_debugger_def control split: if_splits)
  have "length (fl_breakpoints fl) + length (fl_break fl) \<le> length bps"
    using bps(1) by (auto simp: given_breakpoints_def try_then_Inr map_try_Inr dest!: list_all2_lengthD)
  moreover obtain ok bad where res: "resolve_all f bps = (ok, bad)" by (cases "resolve_all f bps")
  ultimately show ?thesis
    using bps(2,3) control resolve_all_counts [OF res] by (auto simp: set_breakpoints_def set_step_mode_def new_debugger_def)
qed

subsection \<open>Exit statuses\<close>

lemma outcome_report:
  "cr_error (run_report i err) = None \<longleftrightarrow> outcome_status err \<in> {RunCompleted, RunPaused}"
  "cr_error (resume_report i err) = None \<longleftrightarrow> outcome_status err \<in> {RunCompleted, RunPaused}"
  by (auto simp: run_report_def resume_report_def cli_fails_def outcome_status_def is_paused_def split: option.splits)

lemma run_command_cases:
  assumes "run_workflow_command n Q fl path = Some (res, t)"
  shows "(\<exists>e. res = cli_fails e) \<or>
    (\<exists>X vars s r u. start_run n X (run_settings Q fl path) (fl_workflow fl) vars s = Some (r, u) \<and> t = Some u \<and> res = start_report r)"
  using assms by (auto simp: run_workflow_command_def map_option_eq_Some map_prod_def split: sum.splits prod.splits) blast+

lemma resume_command_cases:
  assumes "resume_workflow_command m n Q fl i = Some (res, t)"
  shows "(\<exists>e. res = cli_fails e) \<or>
    (\<exists>X path g w c vars s r u. resume_with_vars m n X (run_settings Q fl path\<lparr>se_run_id := [], se_integrity := g, se_rewind := w,
         se_rewind_changed := c\<rparr>) i vars s = Some (r, u) \<and> t = Some u \<and> res = resumed_report i r)"
  using assms by (auto simp: resume_workflow_command_def map_prod_def split: sum.splits prod.splits) blast+

lemma run_settings_saved: "se_end_saved (run_settings Q fl path) = pg_end_saved Q"
  by (simp add: run_settings_def)


definition sample_flags :: flags where
  "sample_flags = \<lparr>fl_vars = [], fl_workflow = [], fl_forks = 0, fl_store = ''state.db'', fl_namespace = [], fl_run_id = ''r'',
     fl_callbacks = [], fl_headers = [], fl_tls_insecure = False, fl_tls_cert = [], fl_buffer = 0, fl_breakpoints = [],
     fl_breakpoints_file = [], fl_break = [], fl_step = False, fl_control = [], fl_integrity = [], fl_rewind = [],
     fl_rewind_changed = False\<rparr>"

definition sample_program :: "nat program" where
  "sample_program = \<lparr>pg_lib = sample_golib, pg_files = sample_files,
     pg_yaml = sample_yaml\<lparr>ya_file := (\<lambda>data. Inr sample_file)\<rparr>,
     pg_callbacks = \<lparr>ci_open = (\<lambda>p. None), ci_cert = (\<lambda>p. None), ci_dial = (\<lambda>a. None)\<rparr>,
     pg_debug = \<lparr>di_read = Inl, di_decode = Inl, di_array = Inl\<rparr>,
     pg_open = (\<lambda>dsn. Inr sample_eng), pg_engine = (\<lambda>f path cbs dbg. sample_ext sample_file),
     pg_rewind = Inl, pg_fresh_id = ''0a1b2c3d'', pg_tree = (\<lambda>path excludes. Inr ''d1''), pg_end_saved = True\<rparr>"

lemma sample_parsed:
  "parse_file sample_golib sample_files (sample_yaml\<lparr>ya_file := (\<lambda>data. Inr sample_file)\<rparr>) ''w.yaml'' =
     Inr (sample_file\<lparr>fi_forks := 5, fi_script_dir := ''scripts''\<rparr>)"
  by code_simp


text \<open>The same of \<open>markov resume\<close>, for the run it was given.\<close>

lemma resume_command_truthful:
  assumes "resume_workflow_command m n Q fl i = Some (res, t)" "cr_error res = None"
  shows "\<exists>u q. t = Some u \<and> get_run (en_store u) i = Inr q \<and>
    (if pg_end_saved Q then rn_status q \<in> {RunCompleted, RunPaused} else rn_status q = RunRunning)"
  using resume_command_cases [OF assms(1)]
proof (elim disjE exE conjE)
  fix X path g w c vars s r u
  let ?S = "run_settings Q fl path\<lparr>se_run_id := [], se_integrity := g, se_rewind := w, se_rewind_changed := c\<rparr>"
  assume run: "resume_with_vars m n X ?S i vars s = Some (r, u)" and t: "t = Some u" and res: "res = resumed_report i r"
  have saved: "se_end_saved ?S = pg_end_saved Q" by (simp add: run_settings_saved)
  show ?thesis
  proof (cases r)
    case (Inr err)
    from resumed_run_row [OF run [unfolded Inr], unfolded saved] t outcome_report(2) [of i err] assms(2) show ?thesis
      by (auto simp: res resumed_report_def Inr)
  qed (use assms(2) in \<open>simp add: res resumed_report_def cli_fails_def\<close>)
qed (use assms(2) in \<open>simp add: cli_fails_def\<close>)

subsection \<open>What is shown\<close>

lemma pad_length: "rune_count (pad w s) = max w (rune_count s)"
  by (simp add: pad_def rune_count_def)

text \<open>A file that \<open>markov validate\<close> accepts is one that \<open>markov run\<close> starts from: a run of a file it refuses fails
  before a store is opened.\<close>

lemma validated_or_refused:
  "cr_error (validate_command Q path) = Some e \<longleftrightarrow>
     (\<exists>e'. parse_file (pg_lib Q) (pg_files Q) (pg_yaml Q) path = Inl e' \<and> e = e')"
  by (auto simp: validate_command_def cli_fails_def split: sum.splits)

lemma invalid_never_runs:
  "cr_error (validate_command Q path) = Some e \<Longrightarrow> run_workflow_command n Q fl path = Some (cli_fails e, None)"
  by (auto simp: validated_or_refused run_workflow_command_def)

end
