(* ===== verification/Sql_Tables.thy ===== *)
theory Sql_Tables
  imports State_Store
begin

text \<open>
  The tables of the state store as the SQL statements of \<open>pkg/state/postgres.go\<close> see them (those of
  \<open>sqlite.go\<close> differ in the position of NULLs only): nullable columns for empty texts, a serial
  number for source checks, \<open>ON CONFLICT\<close> for steps, and a migration that adds columns to the
  tables of an older version. The store of \<open>State_Store\<close>, which the engine is modelled over, is
  what these tables implement. Rows of equal start times are taken in the order of the table, which SQL leaves
  open. A driver that fails is not modelled; a status column holds a status.
\<close>

subsection \<open>Columns\<close>

record sql_run_v1 =
  q_run_id :: string
  q_workflow_file :: string
  q_entrypoint :: string
  q_status :: run_status
  q_vars_json :: string
  q_parent_run_id :: "string option"
  q_parent_step :: "string option"
  q_for_each_key :: "string option"
  q_started_at :: int
  q_completed_at :: "int option"

record sql_run = sql_run_v1 +
  q_source_digest :: "string option"

record sql_step_v1 =
  p_run_id :: string
  p_workflow_name :: string
  p_step_name :: string
  p_status :: step_status
  p_output_json :: "string option"
  p_artifacts_json :: "string option"
  p_error :: "string option"
  p_started_at :: "int option"
  p_completed_at :: "int option"

record sql_step = sql_step_v1 +
  p_definition_hash :: "string option"

record sql_check =
  k_id :: nat
  k_run_id :: string
  k_checked_at :: int
  k_mode :: string
  k_expected_digest :: "string option"
  k_observed_digest :: "string option"
  k_source_drifted :: bool

text \<open>The tables with the next serial number.\<close>

record tables =
  tb_runs :: "sql_run list"
  tb_steps :: "sql_step list"
  tb_checks :: "sql_check list"
  tb_next :: nat

text \<open>What is there when a database is opened: no table, a table of an older version, or one of this version.\<close>

datatype ('old, 'new) found = No_Table | Older "'old list" | Current "'new list"

definition add_source_digest :: "sql_run_v1 \<Rightarrow> sql_run" where
  "add_source_digest r = sql_run_v1.extend r (sql_run.fields None)"

definition add_definition_hash :: "sql_step_v1 \<Rightarrow> sql_step" where
  "add_definition_hash r = sql_step_v1.extend r (sql_step.fields None)"

fun migrated :: "('old \<Rightarrow> 'new) \<Rightarrow> ('old, 'new) found \<Rightarrow> 'new list" where
  "migrated f No_Table = []"
| "migrated f (Older rs) = map f rs"
| "migrated f (Current rs) = rs"

definition migrate_postgres ::
  "(sql_run_v1, sql_run) found \<Rightarrow> (sql_step_v1, sql_step) found \<Rightarrow> (sql_check list \<times> nat) option \<Rightarrow> tables" where
  "migrate_postgres runs stps checks =
     \<lparr>tb_runs = migrated add_source_digest runs, tb_steps = migrated add_definition_hash stps,
      tb_checks = (case checks of None \<Rightarrow> [] | Some (cs, n) \<Rightarrow> cs),
      tb_next = (case checks of None \<Rightarrow> 1 | Some (cs, n) \<Rightarrow> n)\<rparr>"

definition null_str :: "string \<Rightarrow> string option" where
  "null_str s = (if s = [] then None else Some s)"

text \<open>The field \<open>String\<close> of a \<open>sql.NullString\<close>.\<close>

definition of_null :: "string option \<Rightarrow> string" where
  "of_null v = (case v of None \<Rightarrow> [] | Some s \<Rightarrow> s)"

subsection \<open>Runs\<close>

definition run_columns :: "run_row \<Rightarrow> sql_run" where
  "run_columns r = \<lparr>q_run_id = rn_run_id r, q_workflow_file = rn_workflow_file r, q_entrypoint = rn_entrypoint r,
     q_status = rn_status r, q_vars_json = rn_vars_json r, q_parent_run_id = null_str (rn_parent_run_id r),
     q_parent_step = null_str (rn_parent_step r), q_for_each_key = null_str (rn_for_each_key r),
     q_started_at = rn_started_at r, q_completed_at = None, q_source_digest = null_str (rn_source_digest r)\<rparr>"

text \<open>\<open>duplicate\<close> is the driver's text for a key that is taken.\<close>

definition sql_create_run :: "string \<Rightarrow> run_row \<Rightarrow> tables \<Rightarrow> string + tables" where
  "sql_create_run duplicate r t =
     (if list_ex (\<lambda>q. q_run_id q = rn_run_id r) (tb_runs t) then Inl (''creating run: '' @ duplicate)
      else Inr (t\<lparr>tb_runs := tb_runs t @ [run_columns r]\<rparr>))"

definition sql_update_run :: "run_row \<Rightarrow> tables \<Rightarrow> tables" where
  "sql_update_run r t = t\<lparr>tb_runs := map (\<lambda>q. if q_run_id q = rn_run_id r
     then q\<lparr>q_status := rn_status r, q_completed_at := rn_completed_at r\<rparr> else q) (tb_runs t)\<rparr>"

definition scan_run :: "sql_run \<Rightarrow> run_row" where
  "scan_run q = \<lparr>rn_run_id = q_run_id q, rn_workflow_file = q_workflow_file q, rn_source_digest = of_null (q_source_digest q),
     rn_entrypoint = q_entrypoint q, rn_status = q_status q, rn_vars_json = q_vars_json q,
     rn_parent_run_id = of_null (q_parent_run_id q), rn_parent_step = of_null (q_parent_step q),
     rn_for_each_key = of_null (q_for_each_key q), rn_started_at = q_started_at q, rn_completed_at = q_completed_at q\<rparr>"

definition sql_get_run :: "tables \<Rightarrow> string \<Rightarrow> string + run_row" where
  "sql_get_run t i = (case filter (\<lambda>q. q_run_id q = i) (tb_runs t) of
     [] \<Rightarrow> Inl (''run '' @ quoted i @ '' not found'')
   | q # qs \<Rightarrow> Inr (scan_run q))"

definition sql_list_runs :: "tables \<Rightarrow> run_row list" where
  "sql_list_runs t = map scan_run (sort_key (\<lambda>q. - q_started_at q) (tb_runs t))"

text \<open>A comparison with NULL is never true.\<close>

definition sql_get_child_runs :: "tables \<Rightarrow> string \<Rightarrow> run_row list" where
  "sql_get_child_runs t p = map scan_run (sort_key q_started_at (filter (\<lambda>q. q_parent_run_id q = Some p) (tb_runs t)))"

subsection \<open>Source checks\<close>

definition sql_save_source_check :: "source_check \<Rightarrow> tables \<Rightarrow> tables" where
  "sql_save_source_check c t = t\<lparr>tb_checks := tb_checks t @
     [\<lparr>k_id = tb_next t, k_run_id = sc_run_id c, k_checked_at = sc_checked_at c, k_mode = sc_mode c,
       k_expected_digest = null_str (sc_expected_digest c), k_observed_digest = null_str (sc_observed_digest c),
       k_source_drifted = sc_source_drifted c\<rparr>], tb_next := Suc (tb_next t)\<rparr>"

definition scan_check :: "sql_check \<Rightarrow> source_check" where
  "scan_check k = \<lparr>sc_run_id = k_run_id k, sc_checked_at = k_checked_at k, sc_mode = k_mode k,
     sc_expected_digest = of_null (k_expected_digest k), sc_observed_digest = of_null (k_observed_digest k),
     sc_source_drifted = k_source_drifted k\<rparr>"

definition sql_get_source_checks :: "tables \<Rightarrow> string \<Rightarrow> source_check list" where
  "sql_get_source_checks t i = map scan_check (sort_key k_id (filter (\<lambda>k. k_run_id k = i) (tb_checks t)))"

subsection \<open>Steps\<close>

definition sql_step_key :: "sql_step \<Rightarrow> step_key" where
  "sql_step_key q = (p_run_id q, p_workflow_name q, p_step_name q)"

definition step_columns :: "step_row \<Rightarrow> sql_step" where
  "step_columns r = \<lparr>p_run_id = sr_run_id r, p_workflow_name = sr_workflow_name r, p_step_name = sr_step_name r,
     p_status = sr_status r, p_output_json = null_str (sr_output_json r), p_artifacts_json = null_str (sr_artifacts_json r),
     p_error = null_str (sr_error r), p_started_at = sr_started_at r, p_completed_at = sr_completed_at r,
     p_definition_hash = null_str (sr_definition_hash r)\<rparr>"

definition set_excluded :: "sql_step \<Rightarrow> sql_step \<Rightarrow> sql_step" where
  "set_excluded new q = q\<lparr>p_status := p_status new, p_output_json := p_output_json new, p_artifacts_json := p_artifacts_json new,
     p_error := p_error new, p_started_at := p_started_at new, p_completed_at := p_completed_at new,
     p_definition_hash := p_definition_hash new\<rparr>"

definition sql_save_step :: "step_row \<Rightarrow> tables \<Rightarrow> tables" where
  "sql_save_step r t =
     (let new = step_columns r; same = (\<lambda>q. sql_step_key q = sql_step_key new) in
      t\<lparr>tb_steps := (if list_ex same (tb_steps t)
         then map (\<lambda>q. if same q then set_excluded new q else q) (tb_steps t)
         else tb_steps t @ [new])\<rparr>)"

definition scan_step :: "sql_step \<Rightarrow> step_row" where
  "scan_step q = \<lparr>sr_run_id = p_run_id q, sr_workflow_name = p_workflow_name q, sr_step_name = p_step_name q,
     sr_status = p_status q, sr_output_json = of_null (p_output_json q), sr_artifacts_json = of_null (p_artifacts_json q),
     sr_error = of_null (p_error q), sr_started_at = p_started_at q, sr_completed_at = p_completed_at q,
     sr_definition_hash = of_null (p_definition_hash q)\<rparr>"

text \<open>\<open>ORDER BY started_at\<close> of PostgreSQL: NULLs last.\<close>

definition sql_get_steps :: "tables \<Rightarrow> string \<Rightarrow> step_row list" where
  "sql_get_steps t i =
     (let rs = filter (\<lambda>q. p_run_id q = i) (tb_steps t) in
      map scan_step (sort_key (\<lambda>q. the (p_started_at q)) (filter (\<lambda>q. p_started_at q \<noteq> None) rs)
        @ filter (\<lambda>q. p_started_at q = None) rs))"

text \<open>The same query in \<open>sqlite.go\<close>, where NULLs come first.\<close>

definition sqlite_get_steps :: "tables \<Rightarrow> string \<Rightarrow> step_row list" where
  "sqlite_get_steps t i =
     (let rs = filter (\<lambda>q. p_run_id q = i) (tb_steps t) in
      map scan_step (filter (\<lambda>q. p_started_at q = None) rs
        @ sort_key (\<lambda>q. the (p_started_at q)) (filter (\<lambda>q. p_started_at q \<noteq> None) rs)))"

definition sql_get_step :: "tables \<Rightarrow> string \<Rightarrow> string \<Rightarrow> string \<Rightarrow> step_row option" where
  "sql_get_step t i w s = (case filter (\<lambda>q. p_run_id q = i \<and> p_workflow_name q = w \<and> p_step_name q = s) (tb_steps t) of
     [] \<Rightarrow> None
   | q # qs \<Rightarrow> Some (scan_step q))"

primrec sql_delete_steps :: "string \<Rightarrow> string list \<Rightarrow> tables \<Rightarrow> tables" where
  "sql_delete_steps i [] t = t"
| "sql_delete_steps i (n # ns) t =
     sql_delete_steps i ns (t\<lparr>tb_steps := filter (\<lambda>q. \<not> (p_run_id q = i \<and> p_step_name q = n)) (tb_steps t)\<rparr>)"

subsection \<open>Sequences of writes\<close>

datatype store_op =
    Create_Run run_row
  | Update_Run run_row
  | Save_Check source_check
  | Save_Step step_row
  | Delete_Steps string "string list"

text \<open>Whether the write failed, and the tables after it.\<close>

fun sql_apply :: "string \<Rightarrow> store_op \<Rightarrow> tables \<Rightarrow> bool \<times> tables" where
  "sql_apply dup (Create_Run r) t = (case sql_create_run dup r t of Inl e \<Rightarrow> (True, t) | Inr u \<Rightarrow> (False, u))"
| "sql_apply dup (Update_Run r) t = (False, sql_update_run r t)"
| "sql_apply dup (Save_Check c) t = (False, sql_save_source_check c t)"
| "sql_apply dup (Save_Step r) t = (False, sql_save_step r t)"
| "sql_apply dup (Delete_Steps i ns) t = (False, sql_delete_steps i ns t)"

fun store_apply :: "store_op \<Rightarrow> store \<Rightarrow> bool \<times> store" where
  "store_apply (Create_Run r) s = (case create_run r s of Inl e \<Rightarrow> (True, s) | Inr u \<Rightarrow> (False, u))"
| "store_apply (Update_Run r) s = (False, update_run r s)"
| "store_apply (Save_Check c) s = (False, save_source_check c s)"
| "store_apply (Save_Step r) s = (False, save_step r s)"
| "store_apply (Delete_Steps i ns) s = (False, delete_steps i ns s)"

fun all_writes :: "('op \<Rightarrow> 's \<Rightarrow> bool \<times> 's) \<Rightarrow> 'op list \<Rightarrow> 's \<Rightarrow> bool list \<times> 's" where
  "all_writes f [] s = ([], s)"
| "all_writes f (op # ops) s = (case f op s of (failed, s) \<Rightarrow> map_prod ((#) failed) id (all_writes f ops s))"

subsection \<open>The invariant and the abstraction\<close>

definition tables_ok :: "tables \<Rightarrow> bool" where
  "tables_ok t \<longleftrightarrow> distinct (map q_run_id (tb_runs t)) \<and> distinct (map sql_step_key (tb_steps t)) \<and>
     (\<forall>q\<in>set (tb_runs t). q_parent_run_id q \<noteq> Some []) \<and>
     sorted (map k_id (tb_checks t)) \<and> (\<forall>k\<in>set (tb_checks t). k_id k < tb_next t)"

definition abs_tables :: "tables \<Rightarrow> store" where
  "abs_tables t = \<lparr>db_runs = map scan_run (tb_runs t), db_steps = map scan_step (tb_steps t), db_checks = map scan_check (tb_checks t)\<rparr>"

named_theorems abs_simps \<open>how a table row is read back\<close>

lemma of_null_null_str [abs_simps, simp]: "of_null (null_str s) = s"
  by (simp add: of_null_def null_str_def)

lemma scan_run_simps [abs_simps, simp]:
  "rn_run_id (scan_run q) = q_run_id q" "rn_started_at (scan_run q) = q_started_at q"
  "rn_parent_run_id (scan_run q) = of_null (q_parent_run_id q)"
  by (simp_all add: scan_run_def)

lemma scan_step_simps [abs_simps, simp]:
  "sr_run_id (scan_step q) = p_run_id q" "sr_started_at (scan_step q) = p_started_at q"
  "sr_step_name (scan_step q) = p_step_name q" "step_key (scan_step q) = sql_step_key q"
  by (simp_all add: scan_step_def step_key_def sql_step_key_def)

lemma scan_columns [abs_simps]:
  "scan_run (run_columns r) = r\<lparr>rn_completed_at := None\<rparr>" "scan_step (step_columns s) = s"
  "sql_step_key (step_columns s) = step_key s"
  by (simp_all add: scan_run_def run_columns_def scan_step_def step_columns_def sql_step_key_def step_key_def)

lemma scan_excluded [abs_simps]:
  "sql_step_key q = step_key r \<Longrightarrow> scan_step (set_excluded (step_columns r) q) = r"
  "sql_step_key (set_excluded n q) = sql_step_key q"
  by (simp_all add: set_excluded_def step_columns_def scan_step_def sql_step_key_def step_key_def)

text \<open>A row of an older version reads as one without a digest, or without a hash.\<close>

lemma migrated_reads_empty:
  "rn_source_digest (scan_run (add_source_digest r)) = []" "sr_definition_hash (scan_step (add_definition_hash s)) = []"
  "q_run_id (add_source_digest r) = q_run_id r" "q_parent_run_id (add_source_digest r) = q_parent_run_id r"
  by (simp_all add: add_source_digest_def add_definition_hash_def scan_run_def scan_step_def of_null_def
      sql_run_v1.defs sql_run.defs sql_step_v1.defs sql_step.defs)

subsection \<open>Every statement implements its operation\<close>

lemma insort_key_map: "insort_key f (g x) (map g xs) = map g (insort_key (\<lambda>x. f (g x)) x xs)"
  by (induction xs) auto

lemma sort_key_map: "sort_key f (map g xs) = map g (sort_key (\<lambda>x. f (g x)) xs)"
  by (induction xs) (simp_all add: insort_key_map)

lemma find_run_scan: "find_run (map scan_run qs) i = (case filter (\<lambda>q. q_run_id q = i) qs of [] \<Rightarrow> None | q # rest \<Rightarrow> Some (scan_run q))"
  by (induction qs) auto

lemma find_step_row_scan: "find_step_row (map scan_step qs) (i, w, s) =
    (case filter (\<lambda>q. p_run_id q = i \<and> p_workflow_name q = w \<and> p_step_name q = s) qs of [] \<Rightarrow> None | q # rest \<Rightarrow> Some (scan_step q))"
  by (induction qs) (auto simp: sql_step_key_def)

lemma sorted_ids_filter: "sorted (map k_id ks) \<Longrightarrow> sort_key k_id (filter P ks) = filter P ks"
  by (intro sort_key_id_if_sorted sorted_filter)

lemma upsert_scan:
  assumes "distinct (map sql_step_key qs)"
  shows "map scan_step (if list_ex (\<lambda>q. sql_step_key q = step_key r) qs
      then map (\<lambda>q. if sql_step_key q = step_key r then set_excluded (step_columns r) q else q) qs
      else qs @ [step_columns r]) = upsert r (map scan_step qs)"
  using assms
proof (induction qs)
  case (Cons q qs)
  show ?case
  proof (cases "sql_step_key q = step_key r")
    case True
    with Cons.prems have "\<forall>p\<in>set qs. sql_step_key p \<noteq> step_key r" by (auto simp: image_iff)
    with True show ?thesis by (auto simp: abs_simps)
  qed (use Cons in auto)
qed (simp add: abs_simps)

lemma sql_queries:
  assumes "tables_ok t"
  shows "sql_get_run t i = get_run (abs_tables t) i" "sql_list_runs t = list_runs (abs_tables t)"
    "sql_get_child_runs t i = get_child_runs (abs_tables t) i"
    "sql_get_source_checks t i = get_source_checks (abs_tables t) i"
    "sqlite_get_steps t i = get_steps (abs_tables t) i"
    "sql_get_steps t i = get_steps_postgres (abs_tables t) i" "sql_get_step t i w s = get_step (abs_tables t) i w s"
proof -
  show "sql_get_run t i = get_run (abs_tables t) i"
    by (simp add: sql_get_run_def get_run_def abs_tables_def find_run_scan split: list.splits)
  show "sql_list_runs t = list_runs (abs_tables t)"
    by (simp add: sql_list_runs_def list_runs_def abs_tables_def sort_key_map)
  have "(q_parent_run_id q = Some i) = (i \<noteq> [] \<and> of_null (q_parent_run_id q) = i)" if "q \<in> set (tb_runs t)" for q
    using that assms by (auto simp: tables_ok_def of_null_def split: option.splits)
  then show "sql_get_child_runs t i = get_child_runs (abs_tables t) i"
    by (simp add: sql_get_child_runs_def get_child_runs_def abs_tables_def sort_key_map filter_map o_def cong: filter_cong)
  show "sql_get_source_checks t i = get_source_checks (abs_tables t) i"
    using assms by (simp add: sql_get_source_checks_def get_source_checks_def abs_tables_def tables_ok_def sorted_ids_filter
        filter_map o_def scan_check_def)
  show "sqlite_get_steps t i = get_steps (abs_tables t) i"
    by (simp add: sqlite_get_steps_def get_steps_def order_by_nullable_def abs_tables_def sort_key_map filter_map o_def Let_def)
  show "sql_get_steps t i = get_steps_postgres (abs_tables t) i"
    by (simp add: sql_get_steps_def get_steps_postgres_def abs_tables_def sort_key_map filter_map o_def Let_def)
  show "sql_get_step t i w s = get_step (abs_tables t) i w s"
    by (simp add: sql_get_step_def get_step_def abs_tables_def find_step_row_scan)
qed

lemma sql_delete_steps_filter: "sql_delete_steps i ns t =
    t\<lparr>tb_steps := filter (\<lambda>q. \<not> (p_run_id q = i \<and> p_step_name q \<in> set ns)) (tb_steps t)\<rparr>"
proof (induction ns arbitrary: t)
  case (Cons n ns)
  have "filter (\<lambda>q. (p_run_id q = i \<longrightarrow> p_step_name q \<noteq> n) \<and> (p_run_id q = i \<longrightarrow> p_step_name q \<notin> set ns)) (tb_steps t) =
      filter (\<lambda>q. p_run_id q = i \<longrightarrow> p_step_name q \<noteq> n \<and> p_step_name q \<notin> set ns) (tb_steps t)"
    by (rule filter_cong) auto
  then show ?case by (simp add: Cons.IH)
qed simp

lemma sql_writes:
  assumes "tables_ok t"
  shows "tables_ok (snd (sql_apply dup op t))"
    "map_prod id abs_tables (sql_apply dup op t) = store_apply op (abs_tables t)"
proof -
  note ok = assms [unfolded tables_ok_def]
  have both: "tables_ok (snd (sql_apply dup op t)) \<and> map_prod id abs_tables (sql_apply dup op t) = store_apply op (abs_tables t)"
  proof (cases op)
    case (Create_Run r)
    have "(find_run (map scan_run (tb_runs t)) (rn_run_id r) = None) = (\<not> list_ex (\<lambda>q. q_run_id q = rn_run_id r) (tb_runs t))"
      by (force simp: find_run_None list_ex_iff image_image)
    then have "create_run r (abs_tables t) = (if list_ex (\<lambda>q. q_run_id q = rn_run_id r) (tb_runs t)
        then Inl ''creating run: UNIQUE constraint failed'' else Inr (abs_tables (t\<lparr>tb_runs := tb_runs t @ [run_columns r]\<rparr>)))"
      by (simp add: create_run_def abs_tables_def abs_simps)
    moreover have "tables_ok (t\<lparr>tb_runs := tb_runs t @ [run_columns r]\<rparr>)" if "\<not> list_ex (\<lambda>q. q_run_id q = rn_run_id r) (tb_runs t)"
      using that ok by (simp add: tables_ok_def run_columns_def null_str_def list_ex_iff image_iff) metis
    ultimately show ?thesis
      using assms by (simp add: Create_Run sql_create_run_def)
  next
    case (Update_Run r)
    have keys: "map q_run_id (tb_runs (sql_update_run r t)) = map q_run_id (tb_runs t)"
      by (simp add: sql_update_run_def)
    have "tables_ok (sql_update_run r t)"
      using ok unfolding tables_ok_def keys by (auto simp: sql_update_run_def)
    moreover have "abs_tables (sql_update_run r t) = update_run r (abs_tables t)"
      by (simp add: sql_update_run_def update_run_def abs_tables_def scan_run_def)
    ultimately show ?thesis by (simp add: Update_Run)
  next
    case (Save_Check c)
    then show ?thesis
      using ok by (auto simp: tables_ok_def sql_save_source_check_def save_source_check_def abs_tables_def scan_check_def
          sorted_append less_Suc_eq)
  next
    case (Save_Step r)
    have "distinct (map sql_step_key (tb_steps (sql_save_step r t)))"
      using ok by (auto simp: sql_save_step_def Let_def abs_simps list_ex_iff o_def if_distrib cong: if_cong)
    then show ?thesis
      using ok upsert_scan [of "tb_steps t" r]
      by (auto simp: Save_Step tables_ok_def sql_save_step_def save_step_def abs_tables_def abs_simps Let_def)
  next
    case (Delete_Steps i ns)
    then show ?thesis
      using ok by (simp add: tables_ok_def sql_delete_steps_filter delete_steps_filter abs_tables_def filter_map o_def distinct_map_filter)
  qed
  then show "tables_ok (snd (sql_apply dup op t))"
    "map_prod id abs_tables (sql_apply dup op t) = store_apply op (abs_tables t)" by blast+
qed

lemma sql_all_writes:
  "tables_ok t \<Longrightarrow> tables_ok (snd (all_writes (sql_apply dup) ops t)) \<and>
     map_prod id abs_tables (all_writes (sql_apply dup) ops t) = all_writes store_apply ops (abs_tables t)"
proof (induction ops arbitrary: t)
  case (Cons op ops)
  obtain failed u where step: "sql_apply dup op t = (failed, u)" by (metis prod.collapse)
  with sql_writes [OF Cons.prems, of dup op] have "tables_ok u" "store_apply op (abs_tables t) = (failed, abs_tables u)"
    by simp_all
  with Cons.IH [of u] step show ?case by (simp add: map_prod_def case_prod_beta prod_eq_iff)
qed simp

text \<open>What is asked of a database that is opened: its primary keys are keys, no parent is the empty text, and the serial numbers of
  its checks, if it has any, were given in order.\<close>

fun numbered :: "(sql_check list \<times> nat) option \<Rightarrow> bool" where
  "numbered None \<longleftrightarrow> True"
| "numbered (Some (cs, n)) \<longleftrightarrow> sorted (map k_id cs) \<and> (\<forall>c\<in>set cs. k_id c < n)"

lemma migrated_ok:
  assumes "distinct (map q_run_id (migrated add_source_digest runs))" "distinct (map sql_step_key (migrated add_definition_hash stps))"
    and "\<forall>q\<in>set (migrated add_source_digest runs). q_parent_run_id q \<noteq> Some []" "numbered checks"
  shows "tables_ok (migrate_postgres runs stps checks)"
  using assms by (cases checks rule: numbered.cases) (auto simp: tables_ok_def migrate_postgres_def)

subsection \<open>The contract of the step table\<close>

definition sql_find :: "tables \<Rightarrow> step_key \<Rightarrow> step_row option" where
  "sql_find t k = sql_get_step t (fst k) (fst (snd k)) (snd (snd k))"

definition sql_delete_sel :: "string \<times> string list \<Rightarrow> tables \<Rightarrow> tables" where
  "sql_delete_sel d t = sql_delete_steps (fst d) (snd d) t"

lemma sql_find_row: "sql_find t k = find_step_row (map scan_step (tb_steps t)) k"
  by (cases k) (simp add: sql_find_def sql_get_step_def find_step_row_scan)

lemma find_upserted: "find_step_row (map scan_step (tb_steps (sql_save_step r t))) k =
    (if k = step_key r then Some r else find_step_row (map scan_step (tb_steps t)) k)"
proof -
  have present: "find_step_row (map scan_step (map (\<lambda>q. if sql_step_key q = step_key r then set_excluded (step_columns r) q else q) qs)) k =
      (if k = step_key r \<and> list_ex (\<lambda>q. sql_step_key q = step_key r) qs then Some r else find_step_row (map scan_step qs) k)" for qs
    by (induction qs) (auto simp: abs_simps)
  have absent: "find_step_row (map scan_step (qs @ [step_columns r])) k =
      (if k = step_key r then Some r else find_step_row (map scan_step qs) k)" if "\<not> list_ex (\<lambda>q. sql_step_key q = step_key r) qs" for qs
    using that by (induction qs) (auto simp: abs_simps)
  have rows: "tb_steps (sql_save_step r t) = (if list_ex (\<lambda>q. sql_step_key q = step_key r) (tb_steps t)
      then map (\<lambda>q. if sql_step_key q = step_key r then set_excluded (step_columns r) q else q) (tb_steps t)
      else tb_steps t @ [step_columns r])"
    by (simp add: sql_save_step_def abs_simps Let_def)
  show ?thesis
  proof (cases "list_ex (\<lambda>q. sql_step_key q = step_key r) (tb_steps t)")
    case True
    then show ?thesis unfolding rows if_P [OF True] present by simp
  next
    case False
    then show ?thesis unfolding rows if_not_P [OF False] absent [OF False] by simp
  qed
qed

interpretation sql_steps: step_table sql_save_step sql_find step_key sql_delete_sel deletes
proof unfold_locales
  show "sql_find (sql_save_step r t) = (sql_find t)(step_key r \<mapsto> r)" for r t
    by (simp add: fun_eq_iff sql_find_row find_upserted)
  show "sql_find (sql_delete_sel d t) k = (if deletes d k then None else sql_find t k)" for d t k
    using find_step_row_filter [of "\<lambda>r. \<not> (sr_run_id r = fst d \<and> sr_step_name r \<in> set (snd d))"
        "\<lambda>k. \<not> deletes d k" "map scan_step (tb_steps t)" k]
    by (simp add: sql_find_row sql_delete_sel_def sql_delete_steps_filter deletes_def step_key_def filter_map o_def)
qed

text \<open>C23. The SQL tables implement the store of the engine. From an empty database or one of any version (with or without the
  added columns, with or without a table of source checks) whose keys are distinct, the same sequence of writes
  succeeds and fails alike on the tables and on the store, and the queries give the same: runs, children, checks and
  single steps on both back ends, and the list of a run's steps on SQLite. PostgreSQL, which puts NULL times last, lists the same
  steps, and in the same order when each has a start time.\<close>

theorem sql_store_refines:
  assumes "distinct (map q_run_id (migrated add_source_digest runs))" "distinct (map sql_step_key (migrated add_definition_hash stps))"
    and "\<forall>q\<in>set (migrated add_source_digest runs). q_parent_run_id q \<noteq> Some []" "numbered checks"
    and "all_writes (sql_apply dup) ops (migrate_postgres runs stps checks) = (failed, t)"
    and "all_writes store_apply ops (abs_tables (migrate_postgres runs stps checks)) = (failed', s)"
  shows "failed = failed' \<and> sql_get_run t i = get_run s i \<and> sql_list_runs t = list_runs s \<and>
    sql_get_child_runs t i = get_child_runs s i \<and> sql_get_source_checks t i = get_source_checks s i \<and>
    sql_get_step t i w n = get_step s i w n \<and> sqlite_get_steps t i = get_steps s i \<and>
    mset (sql_get_steps t i) = mset (get_steps s i) \<and>
    ((\<forall>q\<in>set (tb_steps t). p_started_at q \<noteq> None) \<longrightarrow> sql_get_steps t i = get_steps s i)"
proof -
  have "tables_ok (migrate_postgres runs stps checks)" by (rule migrated_ok) fact+
  from sql_all_writes [OF this, of dup ops] have t: "tables_ok t" "failed = failed'" "s = abs_tables t"
    using assms(5,6) by auto
  have "(\<forall>r\<in>set (db_steps s). sr_started_at r \<noteq> None) \<longleftrightarrow> (\<forall>q\<in>set (tb_steps t). p_started_at q \<noteq> None)"
    by (simp add: t(3) abs_tables_def scan_step_def)
  with backends_list_steps [of s i] sql_queries [OF t(1)] t show ?thesis by simp
qed

definition old_run :: sql_run_v1 where
  "old_run = \<lparr>q_run_id = ''r0'', q_workflow_file = ''wf.yaml'', q_entrypoint = ''main'', q_status = RunFailed,
     q_vars_json = ''{}'', q_parent_run_id = None, q_parent_step = None, q_for_each_key = None, q_started_at = 5,
     q_completed_at = Some 9\<rparr>"

text \<open>A database of an older version with one run; a new run, a second attempt to create it, and a step saved twice.\<close>

theorem sql_store_refines_witness:
  "let t = snd (all_writes (sql_apply ''duplicate key'')
         [Create_Run sample_run, Create_Run sample_run, Save_Step (blank_row\<lparr>sr_status := StepRunning\<rparr>), Save_Step blank_row]
         (migrate_postgres (Older [old_run]) No_Table None))
   in sql_get_run t ''r0'' = Inr (scan_run (add_source_digest old_run)) \<and> sqlite_get_steps t ''r1'' = [blank_row]"
proof -
  let ?ops = "[Create_Run sample_run, Create_Run sample_run, Save_Step (blank_row\<lparr>sr_status := StepRunning\<rparr>), Save_Step blank_row]"
  let ?t0 = "migrate_postgres (Older [old_run]) No_Table None"
  obtain failed t where t: "all_writes (sql_apply ''duplicate key'') ?ops ?t0 = (failed, t)" by (metis prod.collapse)
  obtain failed' s where s: "all_writes store_apply ?ops (abs_tables ?t0) = (failed', s)" by (metis prod.collapse)
  have old: "\<forall>q\<in>set (migrated add_source_digest (Older [old_run])). q_parent_run_id q \<noteq> Some []"
    by (simp add: migrated_reads_empty old_run_def)
  have "get_run s ''r0'' = Inr (scan_run (add_source_digest old_run))" "get_steps s ''r1'' = [blank_row]"
    using s by (auto simp: migrate_postgres_def abs_tables_def create_run_def save_step_def step_key_def sample_run_def blank_row_def
        get_run_def migrated_reads_empty get_steps_def order_by_nullable_def old_run_def)
  with sql_store_refines [OF _ _ old _ t s, of "''r0''"] sql_store_refines [OF _ _ old _ t s, of "''r1''"]
  have "sql_get_run t ''r0'' = Inr (scan_run (add_source_digest old_run)) \<and> sqlite_get_steps t ''r1'' = [blank_row]"
    by simp
  then show ?thesis by (simp only: t snd_conv Let_def)
qed

end
