(* ===== verification/Pod_Files.thy ===== *)
theory Pod_Files
  imports Artifacts_Md
begin

text \<open>
  Reading an artifact through the pods of a namespace (\<open>readFromK8s\<close> and \<open>execCat\<close> in
  \<open>pkg/engine/artifacts.go\<close>): the first ready container of a running pod that can print the file. The
  answers of the cluster are parameters; the list of pods is cut off at twenty by the server.
\<close>

record pod =
  po_name :: string
  po_containers :: "(string \<times> bool) list"

text \<open>The running pods of a namespace, whether there is a REST configuration, an error of making an executor,
  and the two output streams of a command with its error.\<close>

record cluster =
  cl_running :: "string \<Rightarrow> string + pod list"
  cl_rest :: bool
  cl_executor :: "string \<Rightarrow> string \<Rightarrow> string \<Rightarrow> string option"
  cl_stream :: "string \<Rightarrow> string \<Rightarrow> string \<Rightarrow> string list \<Rightarrow> string \<times> string \<times> string option"

definition list_pods :: "cluster \<Rightarrow> string \<Rightarrow> string + pod list" where
  "list_pods C ns = map_sum id (take 20) (cl_running C ns)"

definition exec_cat :: "cluster \<Rightarrow> string \<Rightarrow> string \<Rightarrow> string \<Rightarrow> string \<Rightarrow> string + string" where
  "exec_cat C ns pod container path =
     (if \<not> cl_rest C then Inl ''REST config not set''
      else case cl_executor C ns pod container of
        Some e \<Rightarrow> Inl e
      | None \<Rightarrow> (case cl_stream C ns pod container [''cat'', path] of
          (out, err, None) \<Rightarrow> Inr out
        | (out, err, Some e) \<Rightarrow> Inl (''exec cat '' @ path @ '': '' @ err @ '': '' @ e)))"

fun first_container :: "(string \<Rightarrow> string + string) \<Rightarrow> (string \<times> bool) list \<Rightarrow> string option" where
  "first_container cat [] = None"
| "first_container cat ((c, ready) # cs) =
     (if \<not> ready then first_container cat cs
      else case cat c of Inr data \<Rightarrow> Some data | Inl e \<Rightarrow> first_container cat cs)"

fun first_pod :: "(string \<Rightarrow> string \<Rightarrow> string + string) \<Rightarrow> pod list \<Rightarrow> string option" where
  "first_pod cat [] = None"
| "first_pod cat (p # ps) = (case first_container (cat (po_name p)) (po_containers p) of
     Some data \<Rightarrow> Some data | None \<Rightarrow> first_pod cat ps)"

definition read_from_k8s :: "cluster \<Rightarrow> string \<Rightarrow> string \<Rightarrow> string + string" where
  "read_from_k8s C ns path = (case list_pods C ns of
     Inl e \<Rightarrow> Inl (''listing pods in '' @ ns @ '': '' @ e)
   | Inr pods \<Rightarrow> (case first_pod (\<lambda>pod c. exec_cat C ns pod c path) pods of
       Some data \<Rightarrow> Inr data
     | None \<Rightarrow> Inl (''artifact not found at '' @ path @ '' in any running pod in '' @ ns)))"

subsection \<open>The first that answers\<close>

definition ready_containers :: "pod list \<Rightarrow> (string \<times> string) list" where
  "ready_containers pods = concat (map (\<lambda>p. map (\<lambda>c. (po_name p, fst c)) (filter snd (po_containers p))) pods)"

lemma first_container_ready: "first_container cat cs =
    (case filter (\<lambda>c. \<not> isl (cat (fst c))) (filter snd cs) of [] \<Rightarrow> None | c # rest \<Rightarrow> Some (projr (cat (fst c))))"
  by (induction cat cs rule: first_container.induct) (auto split: sum.splits list.splits)

lemma first_pod_ready: "first_pod cat ps =
    (case filter (\<lambda>c. \<not> isl (cat (fst c) (snd c))) (ready_containers ps) of
       [] \<Rightarrow> None | c # rest \<Rightarrow> Some (projr (cat (fst c) (snd c))))"
  by (induction ps) (auto simp: ready_containers_def first_container_ready filter_map o_def split: list.splits)

lemma read_from_k8s_first:
  assumes "list_pods C ns = Inr pods"
  shows "read_from_k8s C ns path = Inr data \<longleftrightarrow>
    (\<exists>before c after. ready_containers pods = before @ c # after \<and> exec_cat C ns (fst c) (snd c) path = Inr data \<and>
       (\<forall>b\<in>set before. \<exists>e. exec_cat C ns (fst b) (snd b) path = Inl e))"
proof -
  let ?ok = "\<lambda>c. \<not> isl (exec_cat C ns (fst c) (snd c) path)"
  have failed: "isl r \<longleftrightarrow> (\<exists>e. r = Inl e)" for r :: "string + string" by (cases r) auto
  have "read_from_k8s C ns path = Inr data \<longleftrightarrow>
      (\<exists>c rest. filter ?ok (ready_containers pods) = c # rest \<and> exec_cat C ns (fst c) (snd c) path = Inr data)"
    unfolding read_from_k8s_def assms first_pod_ready
    by (auto split: list.splits dest!: filter_eq_ConsD)
  also have "\<dots> \<longleftrightarrow> (\<exists>before c after. ready_containers pods = before @ c # after \<and> exec_cat C ns (fst c) (snd c) path = Inr data \<and>
      (\<forall>b\<in>set before. \<exists>e. exec_cat C ns (fst b) (snd b) path = Inl e))"
    unfolding filter_eq_Cons_iff failed by (auto, metis Inr_not_Inl)
  finally show ?thesis .
qed

text \<open>Whatever kept the containers from answering, an optional artifact is taken as missing.\<close>

definition pods_io :: "cluster \<Rightarrow> string \<Rightarrow> artifact_io \<Rightarrow> artifact_io" where
  "pods_io C ns A = A\<lparr>ai_read_k8s := read_from_k8s C ns, ai_has_k8s := True\<rparr>"

lemma optional_hides_denied:
  assumes "list_pods C ns = Inr pods" "ns \<noteq> []" "render P (ar_path art) ctx = Inr path" "ar_source art \<noteq> ''local''"
    and "ar_optional art" "\<forall>c\<in>set (ready_containers pods). \<exists>e. exec_cat C ns (fst c) (snd c) path = Inl e"
  shows "load_artifact (pods_io C ns A) P ns ctx (name, art) = Inr (name, VNil)"
proof -
  have "filter (\<lambda>c. \<not> isl (exec_cat C ns (fst c) (snd c) path)) (ready_containers pods) = []"
    using assms(6) by (fastforce simp: filter_empty_conv)
  then have "read_from_k8s C ns path = Inl (''artifact not found at '' @ path @ '' in any running pod in '' @ ns)"
    by (simp add: read_from_k8s_def assms(1) first_pod_ready)
  moreover have "contains (''artifact not found at '' @ s) ''not found''" for s
    by (simp add: contains_iff) (metis append_Cons append_Nil)
  ultimately show ?thesis
    using assms by (simp add: load_artifact_def read_artifact_def pods_io_def)
qed

end
