(* ===== verification/Event_Wire.thy ===== *)
theory Event_Wire
  imports Callbacks
begin

text \<open>
  What is written of an event (\<open>pkg/callback/callback.go\<close>, \<open>jsonl.go\<close>, \<open>grpc.go\<close>): the JSON object of its struct
  with the header's fields first, one line of a file, and the message of a gRPC call. The engine's
  events have neither their time nor their duration; both come with the event as a stamp, as
  the texts \<open>encoding/json\<close> gives them.
\<close>

subsection \<open>The object of an event\<close>

record stamp =
  sm_time :: string
  sm_seconds :: string

fun event_type :: "event \<Rightarrow> string" where
  "event_type (RunStarted _ _ _ _ _ _ _) = ''run_started''"
| "event_type (RunCompletedEv _ _) = ''run_completed''"
| "event_type (RunFailedEv _ _ _) = ''run_failed''"
| "event_type (RunPausedEv _ _ _) = ''run_paused''"
| "event_type (RunResumed _ _ _ _ _ _ _ _ _ _) = ''run_resumed''"
| "event_type (StepStarted _ _ _ _ _ _) = ''step_started''"
| "event_type (StepCompletedEv _ _ _ _ _) = ''step_completed''"
| "event_type (StepFailedEv _ _ _ _ _) = ''step_failed''"
| "event_type (StepSkippedEv _ _ _ _) = ''step_skipped''"
| "event_type (JobCreated _ _ _ _ _ _) = ''job_created''"
| "event_type (StepProgress _ _ _ _ _ _) = ''step_progress''"
| "event_type (DebugEv _ _ _ _ _) = ''debug''"
| "event_type (GateEvaluated _ _ _ _ _ _) = ''gate_evaluated''"
| "event_type (SubRunStarted _ _ _ _ _) = ''sub_run_started''"
| "event_type (SubRunCompleted _ _ _ _ _) = ''sub_run_completed''"
| "event_type (SubRunFailed _ _ _ _ _ _) = ''sub_run_failed''"

fun event_run :: "event \<Rightarrow> string" where
  "event_run (RunStarted i _ _ _ _ _ _) = i"
| "event_run (RunCompletedEv i _) = i"
| "event_run (RunFailedEv i _ _) = i"
| "event_run (RunPausedEv i _ _) = i"
| "event_run (RunResumed i _ _ _ _ _ _ _ _ _) = i"
| "event_run (StepStarted i _ _ _ _ _) = i"
| "event_run (StepCompletedEv i _ _ _ _) = i"
| "event_run (StepFailedEv i _ _ _ _) = i"
| "event_run (StepSkippedEv i _ _ _) = i"
| "event_run (JobCreated i _ _ _ _ _) = i"
| "event_run (StepProgress i _ _ _ _ _) = i"
| "event_run (DebugEv i _ _ _ _) = i"
| "event_run (GateEvaluated i _ _ _ _ _) = i"
| "event_run (SubRunStarted i _ _ _ _) = i"
| "event_run (SubRunCompleted i _ _ _ _) = i"
| "event_run (SubRunFailed i _ _ _ _ _) = i"

text \<open>Fields: a text, one that is left out when empty (\<open>omitempty\<close>), a map left out when empty.\<close>

type_synonym fields = "(string \<times> jv) list"

definition text_field :: "string \<Rightarrow> string \<Rightarrow> fields" where
  "text_field k s = [(k, JStr s)]"

definition text_if :: "string \<Rightarrow> string \<Rightarrow> fields" where
  "text_if k s = (if s = [] then [] else [(k, JStr s)])"

definition map_if :: "golib \<Rightarrow> string \<Rightarrow> gomap \<Rightarrow> fields option" where
  "map_if G k m = (if m = [] then Some [] else map_option (\<lambda>j. [(k, j)]) (jv_of G (VMap m)))"

definition seconds_field :: "stamp \<Rightarrow> fields" where
  "seconds_field m = [(''duration_seconds'', JNum (sm_seconds m))]"

definition step_fields :: "string \<Rightarrow> string \<Rightarrow> string \<Rightarrow> fields" where
  "step_fields w s t = text_field ''workflow_name'' w @ text_field ''step_name'' s @ text_field ''step_type'' t"

definition sub_fields :: "string \<Rightarrow> string \<Rightarrow> string \<Rightarrow> string \<Rightarrow> fields" where
  "sub_fields p s w key = text_field ''parent_run_id'' p @ text_field ''parent_step'' s
     @ text_field ''workflow_name'' w @ text_if ''for_each_key'' key"

definition changed_json :: "string \<times> string \<times> string \<Rightarrow> jv" where
  "changed_json c = JObj [(''run_id'', JStr (fst c)), (''workflow'', JStr (fst (snd c))), (''step'', JStr (snd (snd c)))]"

definition flag_if :: "string \<Rightarrow> bool \<Rightarrow> fields" where
  "flag_if k b = (if b then [(k, JBool True)] else [])"

fun event_body :: "golib \<Rightarrow> stamp \<Rightarrow> event \<Rightarrow> fields option" where
  "event_body G m (RunStarted i w path digest vars forks ns) = map_option (\<lambda>j.
     text_field ''workflow_name'' w @ text_field ''workflow_file'' path @ text_if ''source_digest'' digest
     @ [(''vars'', j), (''forks'', JNum (int_text forks)), (''namespace'', JStr ns)]) (jv_of G (VMap vars))"
| "event_body G m (RunCompletedEv i w) = Some (text_field ''workflow_name'' w @ seconds_field m)"
| "event_body G m (RunFailedEv i w e) = Some (text_field ''workflow_name'' w @ text_field ''error'' e @ seconds_field m)"
| "event_body G m (RunPausedEv i w p) = map_option (\<lambda>facts.
     text_field ''workflow_name'' w @ text_field ''step_name'' (pi_step p) @ [(''fired_rules'', jstrs (pi_fired p))] @ facts @ seconds_field m)
     (map_if G ''facts'' (pi_facts p))"
| "event_body G m (RunResumed i w completed left mode wanted seen drift changed rewound) = Some (
     text_field ''workflow_name'' w
     @ [(''completed_steps'', JNum (int_text completed)), (''remaining_steps'', JNum (int_text left))]
     @ text_if ''source_integrity_mode'' mode @ text_if ''expected_source_digest'' wanted
     @ text_if ''observed_source_digest'' seen @ [(''source_drifted'', JBool drift)]
     @ (if changed = [] then [] else [(''changed_steps'', JArr (map changed_json changed))]) @ flag_if ''rewound'' rewound)"
| "event_body G m (StepStarted i w s t resolved params) = map_option (\<lambda>ps.
     step_fields w s t @ text_field ''resolved_type'' resolved @ ps) (map_if G ''params'' params)"
| "event_body G m (StepCompletedEv i w s t output) = map_option (\<lambda>fs. step_fields w s t @ fs @ seconds_field m)
     (map_if G ''output'' (case output of None \<Rightarrow> [] | Some out \<Rightarrow> out))"
| "event_body G m (StepFailedEv i w s t e) = Some (step_fields w s t @ text_field ''error'' e @ seconds_field m)"
| "event_body G m (StepSkippedEv i w s r) =
     Some (text_field ''workflow_name'' w @ text_field ''step_name'' s @ text_field ''reason'' r)"
| "event_body G m (JobCreated i w s t job ns) = Some (step_fields w s t @ text_field ''job_name'' job
     @ text_field ''namespace'' ns @ text_field ''pod_selector'' (''job-name='' @ job))"
| "event_body G m (StepProgress i w s t kind data) = map_option (\<lambda>fs. step_fields w s t @ text_field ''kind'' kind @ fs)
     (map_if G ''data'' data)"
| "event_body G m (DebugEv i w s kind data) = map_option (\<lambda>fs.
     text_if ''workflow_name'' w @ text_if ''step_name'' s @ text_field ''kind'' kind @ fs) (map_if G ''data'' data)"
| "event_body G m (GateEvaluated i w s action fired facts) = map_option (\<lambda>fs.
     text_field ''workflow_name'' w @ text_field ''step_name'' s @ text_field ''action'' action
     @ [(''fired_rules'', jstrs fired)] @ fs) (map_if G ''facts'' facts)"
| "event_body G m (SubRunStarted i p s w key) = Some (sub_fields p s w key)"
| "event_body G m (SubRunCompleted i p s w key) = Some (sub_fields p s w key @ seconds_field m)"
| "event_body G m (SubRunFailed i p s w key e) = Some (sub_fields p s w key @ text_field ''error'' e @ seconds_field m)"

definition event_header :: "stamp \<Rightarrow> event \<Rightarrow> fields" where
  "event_header m e = [(''timestamp'', JStr (sm_time m)), (''run_id'', JStr (event_run e)), (''event_type'', JStr (event_type e))]"

text \<open>\<open>None\<close> when a value has no JSON form.\<close>

definition event_json :: "golib \<Rightarrow> stamp \<times> event \<Rightarrow> jv option" where
  "event_json G me = map_option (\<lambda>b. JObj (event_header (fst me) (snd me) @ b)) (event_body G (fst me) (snd me))"

subsection \<open>Files and calls\<close>

definition encode_event :: "golib \<Rightarrow> stamp \<times> event \<Rightarrow> string + string" where
  "encode_event G me = (case event_json G me of
     None \<Rightarrow> Inl ''json: unsupported value'' | Some j \<Rightarrow> Inr (jtext j))"

definition jsonl_on :: "golib \<Rightarrow> string option \<Rightarrow> stamp \<times> event \<Rightarrow> string \<Rightarrow> string option \<times> string" where
  "jsonl_on G sync = jsonl_write (encode_event G) sync"

record grpc_message =
  gm_event_type :: string
  gm_run_id :: string
  gm_timestamp :: string
  gm_payload :: string

definition grpc_send :: "golib \<Rightarrow> (string \<Rightarrow> grpc_message \<Rightarrow> 'w \<Rightarrow> string option \<times> 'w) \<Rightarrow> stamp \<times> event \<Rightarrow> 'w \<Rightarrow> string option \<times> 'w" where
  "grpc_send G invoke me w = (case encode_event G me of
     Inl e \<Rightarrow> (Some (''marshaling event: '' @ e), w)
   | Inr payload \<Rightarrow> invoke ''/markov.MarkovCallback/SendEvent''
       \<lparr>gm_event_type = event_type (snd me), gm_run_id = event_run (snd me), gm_timestamp = sm_time (fst me), gm_payload = payload\<rparr> w)"

subsection \<open>One line per event\<close>

text \<open>What \<open>encoding/json\<close> documents of floats: the text of one is a number of JSON.\<close>

definition prints_numbers :: "golib \<Rightarrow> bool" where
  "prints_numbers G \<longleftrightarrow> (\<forall>x. scan_number (json_float G x) = Some (json_float G x, []))"

lemma sequence_Some: "sequence xs = Some ys \<Longrightarrow> xs = map Some ys"
  by (induction xs arbitrary: ys) (auto simp: sequence_def split: if_splits)

lemma jv_entries_ok:
  assumes "sequence (map (\<lambda>e. map_option (Pair (fst e)) (jv_of G (snd e))) m) = Some es"
    and "\<And>e j. e \<in> set m \<Longrightarrow> jv_of G (snd e) = Some j \<Longrightarrow> jv_ok j"
  shows "jv_ok (JObj es)"
proof -
  have "\<exists>d\<in>set m. map_option (Pair (fst d)) (jv_of G (snd d)) = Some e" if "e \<in> set es" for e
    using sequence_Some [OF assms(1)] that by (metis (no_types, lifting) image_iff set_map)
  with assms(2) show ?thesis by (fastforce simp: list_all_iff)
qed

lemma jv_of_ok: "prints_numbers G \<Longrightarrow> jv_of G v = Some j \<Longrightarrow> jv_ok j"
proof (induction G v arbitrary: j rule: jv_of.induct)
  case (6 G vs)
  then obtain js where js: "sequence (map (jv_of G) vs) = Some js" "j = JArr js" by auto
  have "\<exists>v\<in>set vs. jv_of G v = Some i" if "i \<in> set js" for i
    using sequence_Some [OF js(1)] that by (metis (no_types, lifting) image_iff set_map)
  with 6 js(2) show ?case by (fastforce simp: list_all_iff)
next
  case (7 G m)
  then show ?case by (auto simp del: jv_ok.simps intro: jv_entries_ok)
next
  case (9 G ms)
  show ?case
  proof (cases "ms = []")
    case False
    let ?f = "\<lambda>m. map_option JObj (sequence (map (\<lambda>e. map_option (Pair (fst e)) (jv_of G (snd e))) m))"
    from 9(3) False obtain js where js: "sequence (map ?f ms) = Some js" "j = JArr js" by auto
    have "\<exists>m\<in>set ms. ?f m = Some i" if "i \<in> set js" for i
      using sequence_Some [OF js(1)] that by (metis (no_types, lifting) image_iff set_map)
    moreover have "jv_ok i" if "m \<in> set ms" "?f m = Some i" for m i
      using that 9(1) [OF False that(1)] 9(2) by (auto simp del: jv_ok.simps intro: jv_entries_ok)
    ultimately show ?thesis using js(2) by (auto simp: list_all_iff)
  qed (use 9 in simp)
qed (auto simp: prints_numbers_def scan_number_int_text list_all_iff split: if_splits)

lemma scan_digits_chars: "scan_digits s = (a, b) \<Longrightarrow> c \<in> set a \<Longrightarrow> is_digit c"
  by (induction s arbitrary: a b) (auto simp: Let_def split: if_splits, metis prod.collapse)

definition number_part :: "string \<Rightarrow> bool" where
  "number_part s \<longleftrightarrow> (\<forall>c\<in>set s. is_digit c \<or> c \<in> set ''+-.eE'')"

lemma scan_number_chars: "scan_number s = Some (t, r) \<Longrightarrow> number_part t"
proof -
  have digits: "number_part a" if "scan_digits s = (a, b)" for s a b
    using scan_digits_chars [OF that] by (simp add: number_part_def)
  have cons: "number_part (c # a) \<longleftrightarrow> (is_digit c \<or> c \<in> set ''+-.eE'') \<and> number_part a" for c a
    by (auto simp: number_part_def)
  have none: "number_part []" by (simp add: number_part_def)
  have int: "number_part a" if "scan_int s = Some (a, b)" for s a b
    using that digits by (auto simp: scan_int_def cons none is_digit_def simp del: scan_digits.simps split: list.splits if_splits)
  have frac: "number_part a" if "scan_frac s = Some (a, b)" for s a b
  proof (cases s)
    case (Cons c t)
    obtain x y where "scan_digits t = (x, y)" by (cases "scan_digits t")
    with digits [OF this] that Cons show ?thesis by (auto simp: scan_frac_def cons none Let_def split: if_splits)
  qed (use that in \<open>simp add: scan_frac_def none\<close>)
  have exp: "number_part a" if "scan_exp s = Some (a, b)" for s a b
  proof (cases s)
    case (Cons c t)
    let ?sg = "if t \<noteq> [] \<and> (hd t = CHR ''+'' \<or> hd t = CHR ''-'') then [hd t] else []"
    obtain x y where "scan_digits (drop (length ?sg) t) = (x, y)" by (cases "scan_digits (drop (length ?sg) t)")
    with digits [OF this] that Cons show ?thesis
      by (auto simp: scan_exp_def cons none Let_def simp del: scan_digits.simps split: if_splits)
  qed (use that in \<open>simp add: scan_exp_def none\<close>)
  have sign: "number_part (minus_sign s)" for s by (simp add: minus_sign_def number_part_def)
  have app: "number_part (a @ b) \<longleftrightarrow> number_part a \<and> number_part b" for a b
    by (auto simp: number_part_def)
  assume "scan_number s = Some (t, r)"
  then show ?thesis
    using sign by (auto simp: scan_number_def app dest!: int frac exp split: option.splits)
qed

lemma escape_newline: "CHR 0x0A \<notin> set (escape s)"
proof -
  have hex: "hex_digit n \<noteq> CHR 0x0A" if "n < 16" for n
  proof -
    have "of_char (hex_digit n) \<noteq> (of_char (CHR 0x0A) :: nat)" using that by (simp add: hex_digit_def)
    then show ?thesis by auto
  qed
  have "CHR 0x0A \<notin> set (escape_char c)" for c
    by (simp add: escape_char_def byte_escape_def hex hex [symmetric] backslash_def dquote_def)
  then show ?thesis by (induction s rule: escape.induct) (simp_all add: backslash_def)
qed

lemma join_absent: "x \<notin> set sep \<Longrightarrow> \<forall>e\<in>set es. x \<notin> set e \<Longrightarrow> x \<notin> set (join sep es)"
  by (induction sep es rule: join.induct) auto

lemma jtext_newline: "jv_ok j \<Longrightarrow> CHR 0x0A \<notin> set (jtext j)"
proof (induction j)
  case (JNum n)
  then have "number_part n" by (auto dest: scan_number_chars)
  then show ?case by (auto simp: number_part_def is_digit_def)
next
  case (JArr js)
  then have "CHR 0x0A \<notin> set (join '','' (map jtext js))" by (intro join_absent) (auto simp: list_all_iff)
  then show ?case by simp
next
  case (JObj es)
  have "CHR 0x0A \<notin> set (jstr (fst e) @ '':'' @ jtext (snd e))" if "e \<in> set es" for e
    using JObj.IH [OF that, of "snd e"] JObj.prems that escape_newline
    by (cases e) (auto simp: list_all_iff jstr_def dquote_def)
  then have "CHR 0x0A \<notin> set (join '','' (map (\<lambda>e. jstr (fst e) @ '':'' @ jtext (snd e)) es))"
    by (intro join_absent) auto
  then show ?case by simp
qed (simp_all add: jstr_def escape_newline dquote_def)

definition fields_good :: "fields \<Rightarrow> bool" where
  "fields_good fs \<longleftrightarrow> jv_ok (JObj fs)"

lemma fields_good_simps [simp]:
  "fields_good []" "fields_good (f # fs) \<longleftrightarrow> jv_ok (snd f) \<and> fields_good fs"
  "fields_good (fs @ gs) \<longleftrightarrow> fields_good fs \<and> fields_good gs"
  by (simp_all add: fields_good_def)

lemma fields_good_parts [simp]:
  "fields_good (text_field k s)" "fields_good (text_if k s)" "fields_good (step_fields w s t)"
  "fields_good (sub_fields p s w key)" "fields_good (flag_if k b)" "jv_ok (jstrs ss)" "jv_ok (changed_json c)"
  by (simp_all add: text_field_def text_if_def step_fields_def sub_fields_def flag_if_def jstrs_def changed_json_def list_all_iff)

lemma map_if_good: "prints_numbers G \<Longrightarrow> map_if G k m = Some fs \<Longrightarrow> fields_good fs"
  using jv_of_ok [of G "VMap m"] by (auto simp: map_if_def simp del: jv_of.simps jv_ok.simps split: if_splits)

lemma event_body_good:
  assumes G: "prints_numbers G" and m: "scan_number (sm_seconds m) = Some (sm_seconds m, [])" and e: "event_body G m e = Some b"
  shows "fields_good b"
proof -
  have seconds: "fields_good (seconds_field m)" by (simp add: seconds_field_def m)
  have vars: "jv_of G (VMap vars) = Some j \<Longrightarrow> jv_ok j" for vars j by (rule jv_of_ok [OF G])
  show ?thesis
    using e by (cases e) (auto simp: seconds scan_number_int_text list_all_iff
        simp del: jv_of.simps dest: vars map_if_good [OF G] split: if_splits)
qed

lemma event_json_ok:
  assumes "prints_numbers G" "scan_number (sm_seconds (fst me)) = Some (sm_seconds (fst me), [])" "event_json G me = Some j"
  shows "jv_ok j"
  using assms event_body_good [OF assms(1,2)] by (auto simp: event_json_def event_header_def fields_good_def)

text \<open>What a receiver can rely on: the kind of an event and its run stand in the object and in the gRPC message alike.\<close>

lemma event_json_header:
  "event_json G me = Some j \<Longrightarrow> \<exists>b. j = JObj (event_header (fst me) (snd me) @ b)"
  by (auto simp: event_json_def)

lemma grpc_payload:
  assumes "prints_numbers G" "scan_number (sm_seconds (fst me)) = Some (sm_seconds (fst me), [])" "event_json G me = Some j"
  shows "grpc_send G (\<lambda>path g w. (None, w @ [g])) me [] =
      (None, [\<lparr>gm_event_type = event_type (snd me), gm_run_id = event_run (snd me), gm_timestamp = sm_time (fst me), gm_payload = jtext j\<rparr>])"
    "parse_json (jtext j) = Some (j, [])"
  using assms by (simp_all add: grpc_send_def encode_event_def parse_json_jtext [OF event_json_ok])

lemma jsonl_file:
  "fold (\<lambda>me f. snd (jsonl_on G sync me f)) es f = f @ concat (map (\<lambda>j. jtext j @ [CHR 0x0A]) (List.map_filter (event_json G) es))"
  by (induction es arbitrary: f)
    (auto simp: jsonl_on_def jsonl_write_def encode_event_def List.map_filter_simps split: option.splits)

lemma split_lines: "\<forall>l\<in>set ls. CHR 0x0A \<notin> set l \<Longrightarrow> split_on (CHR 0x0A) (concat (map (\<lambda>l. l @ [CHR 0x0A]) ls)) = ls @ [[]]"
  by (induction ls) (simp_all add: split_on_append)

text \<open>C33. The file of JSON lines is a faithful record: split at its newlines and parsed line by line it gives back the
  objects of the events that have an encoding, in the order they were fired, whatever texts and values
  they hold; an event without an encoding leaves no line.\<close>

theorem event_log_read_back:
  assumes "prints_numbers G" "\<forall>me\<in>set es. scan_number (sm_seconds (fst me)) = Some (sm_seconds (fst me), [])"
  shows "\<exists>lines. split_on (CHR 0x0A) (fold (\<lambda>me f. snd (jsonl_on G sync me f)) es []) = lines @ [[]] \<and>
    map parse_json lines = map (\<lambda>j. Some (j, [])) (List.map_filter (event_json G) es)"
proof (intro exI conjI)
  let ?js = "List.map_filter (event_json G) es"
  have ok: "\<forall>j\<in>set ?js. jv_ok j"
    using assms(2) event_json_ok [OF assms(1)] by (auto simp: List.map_filter_def)
  then have "\<forall>l\<in>set (map jtext ?js). CHR 0x0A \<notin> set l" by (auto dest: jtext_newline)
  from split_lines [OF this] show "split_on (CHR 0x0A) (fold (\<lambda>me f. snd (jsonl_on G sync me f)) es []) = map jtext ?js @ [[]]"
    by (simp add: jsonl_file o_def)
  show "map parse_json (map jtext ?js) = map (\<lambda>j. Some (j, [])) ?js" using ok by (simp add: parse_json_jtext)
qed

definition sample_stamp :: stamp where
  "sample_stamp = \<lparr>sm_time = ''2026-01-01T00:00:00Z'', sm_seconds = ''0.5''\<rparr>"

theorem event_log_read_back_witness:
  "\<exists>line. split_on (CHR 0x0A) (snd (jsonl_on sample_golib None
       (sample_stamp, RunFailedEv ''r'' ''main'' (''two'' @ [CHR 0x0A] @ ''lines'')) [])) = [line, []] \<and>
     parse_json line = Some (JObj [(''timestamp'', JStr ''2026-01-01T00:00:00Z''), (''run_id'', JStr ''r''),
       (''event_type'', JStr ''run_failed''), (''workflow_name'', JStr ''main''),
       (''error'', JStr (''two'' @ [CHR 0x0A] @ ''lines'')), (''duration_seconds'', JNum ''0.5'')], [])"
proof -
  let ?me = "(sample_stamp, RunFailedEv ''r'' ''main'' (''two'' @ [CHR 0x0A] @ ''lines''))"
  have number: "scan_number ''0'' = Some (''0'', [])" "scan_number ''0.5'' = Some (''0.5'', [])" by code_simp+
  then have G: "prints_numbers sample_golib" by (simp add: prints_numbers_def sample_golib_def)
  have "\<forall>me\<in>set [?me]. scan_number (sm_seconds (fst me)) = Some (sm_seconds (fst me), [])"
    using number by (simp add: sample_stamp_def)
  from event_log_read_back [OF G this, of None] show ?thesis
    by (auto simp: List.map_filter_simps event_json_def event_header_def text_field_def seconds_field_def sample_stamp_def)
qed

end
