(* ===== verification/Schema.thy ===== *)
theory Schema
  imports Workflow_File
begin

text \<open>
  What \<open>markov schema\<close> prints (\<open>pkg/schema/schema.go\<close>): the fields the parser's structs have by their YAML
  tags, and the table of step types with their parameters. A struct, which the code reads by reflection, is a list of
  tags and kinds, as \<open>pkg/parser/types.go\<close> declares them.
\<close>

datatype go_kind = KString | KInt | KBool | KMap | KSlice | KStruct

fun kind_name :: "go_kind \<Rightarrow> string" where
  "kind_name KString = ''string''"
| "kind_name KInt = ''int''"
| "kind_name KBool = ''bool''"
| "kind_name KMap = ''map''"
| "kind_name KSlice = ''list''"
| "kind_name KStruct = ''object''"

record field =
  fd_name :: string
  fd_type :: string

definition fields_of :: "(string \<times> go_kind) list \<Rightarrow> field list" where
  "fields_of fs = List.map_filter (\<lambda>(tag, k).
     let name = hd (split_on (CHR '','') tag) in
     if name = [] \<or> name = ''-'' then None else Some \<lparr>fd_name = name, fd_type = kind_name k\<rparr>) fs"

definition file_struct :: "(string \<times> go_kind) list" where
  "file_struct = [(''connections'', KMap), (''decisions'', KMap), (''entrypoint'', KString), (''namespace'', KString),
     (''forks'', KInt), (''vars'', KMap), (''rules'', KSlice), (''step_types'', KMap), (''workflows'', KSlice), (''-'', KString)]"

definition workflow_struct :: "(string \<times> go_kind) list" where
  "workflow_struct = [(''name'', KString), (''description'', KString), (''vars'', KMap), (''steps'', KSlice),
     (''rescue'', KSlice), (''always'', KSlice)]"

definition step_struct :: "(string \<times> go_kind) list" where
  "step_struct = [(''name'', KString), (''description'', KString), (''type'', KString), (''params'', KMap), (''when'', KString),
     (''register'', KString), (''timeout'', KInt), (''for_each'', KString), (''for_each_key'', KString), (''for_each_sort'', KString),
     (''for_each_when'', KString), (''as'', KString), (''concurrency'', KInt), (''workflow'', KString), (''workflow_names'', KSlice),
     (''vars'', KMap), (''artifacts'', KMap), (''that'', KSlice), (''msg'', KString), (''rules'', KSlice), (''facts'', KMap),
     (''ignore_errors'', KBool), (''failed_when'', KString)]"

record param_spec =
  pm_name :: string
  pm_required :: bool
  pm_doc :: string

record type_spec =
  tp_name :: string
  tp_inputs :: string
  tp_step_fields :: "string list"
  tp_params :: "param_spec list"
  tp_summary :: string

definition optional :: "string \<Rightarrow> string \<Rightarrow> param_spec" where
  "optional name doc = \<lparr>pm_name = name, pm_required = False, pm_doc = doc\<rparr>"

definition needed :: "string \<Rightarrow> string \<Rightarrow> param_spec" where
  "needed name doc = \<lparr>pm_name = name, pm_required = True, pm_doc = doc\<rparr>"

definition with_params :: "string \<Rightarrow> string \<Rightarrow> param_spec list \<Rightarrow> type_spec" where
  "with_params name summary ps = \<lparr>tp_name = name, tp_inputs = ''params'', tp_step_fields = [], tp_params = ps, tp_summary = summary\<rparr>"

definition with_fields :: "string \<Rightarrow> string list \<Rightarrow> string \<Rightarrow> type_spec" where
  "with_fields name fs summary = \<lparr>tp_name = name, tp_inputs = ''step'', tp_step_fields = fs, tp_params = [], tp_summary = summary\<rparr>"

definition in_quotes :: "string \<Rightarrow> string" where
  "in_quotes s = [dquote] @ s @ [dquote]"

definition undocumented :: "string list \<Rightarrow> param_spec list" where
  "undocumented = map (\<lambda>n. optional n [])"

definition step_types :: "type_spec list" where
  "step_types =
   [with_params ''shell_exec'' ''Run a shell command.'' [needed ''command'' ''Shell command to execute''],
    with_params ''script_exec'' ''Run an inline script or a script from scripts/.''
      [needed ''interpreter'' ''Interpreter executable, such as python3 or bash'', optional ''content'' ''Inline script body (or path)'',
       optional ''path'' ''Script path relative to the workflow scripts/ directory (or content)'',
       optional ''args'' ''Arguments passed to the script'', optional ''env'' ''Environment variables'',
       optional ''stdin'' ''Standard input; a map or list is sent as JSON''],
    with_params ''write_file'' ''Write content to a file on the runner, creating parent directories.''
      [needed ''path'' ''File to write'', needed ''content'' ''Text, or a map or list written as indented JSON'',
       optional ''mode'' (''Octal file mode as a string, default '' @ in_quotes ''0644''),
       optional ''dir_mode'' (''Octal mode for created directories, default '' @ in_quotes ''0755''),
       optional ''append'' ''Append instead of replacing''],
    with_params ''claude'' ''Run Claude Code with a prompt or skill, streaming its output, with limits enforced by Markov.''
      ([optional ''prompt'' ''The prompt text (or skill)'', optional ''skill'' ''Skill or command name (or prompt)'',
        optional ''args'' ''Arguments appended after skill'', optional ''chdir'' ''Directory to run in'']
       @ undocumented [''model'', ''effort'', ''fallback_model'']
       @ [optional ''permission_mode'' ''acceptEdits, auto, bypassPermissions, manual, dontAsk, or plan'']
       @ undocumented [''allowed_tools'', ''disallowed_tools'', ''append_system_prompt'']
       @ [optional ''add_dirs'' ''Extra directories the run may access'', optional ''mcp_config'' [], optional ''settings'' [],
          optional ''resume'' ''Resume a session'', optional ''session_id'' [],
          optional ''bare'' ''Skip hooks, plugins and CLAUDE.md discovery (needs an API key)'',
          optional ''limits'' ''max_turns, max_tokens, max_duration, max_budget_usd'',
          optional ''events_limit'' ''Maximum events kept in the output'']
       @ undocumented [''env'', ''extra_args'', ''binary'']),
    with_params ''ansible_playbook'' ''Run ansible-playbook.''
      ([needed ''playbook'' ''Playbook path(s)'', optional ''chdir'' [],
        optional ''inventory'' ''Path, inline host list, list, or inline inventory map'']
       @ undocumented [''limit'', ''tags'', ''skip_tags'', ''start_at_task'']
       @ [optional ''extra_vars'' ''Map (written to a private temp file) or string'']
       @ undocumented [''extra_vars_files'', ''check'', ''diff'', ''become'', ''become_user'', ''become_method'', ''remote_user'',
           ''connection'', ''private_key'', ''vault_password_file'', ''vault_id'', ''forks'']
       @ [optional ''timeout'' ''SSH timeout'', optional ''verbosity'' ''0 to 6'']
       @ undocumented [''env'', ''extra_args'', ''binary'']),
    with_params ''ansible'' ''Run an ad-hoc ansible module.''
      ([needed ''pattern'' ''Host pattern'', optional ''module'' ''Module name (default command)'', optional ''module_args'' ''String or map'']
       @ undocumented [''chdir'', ''inventory'', ''limit'', ''become'', ''forks'', ''poll'', ''background'', ''env'', ''extra_args'']),
    with_params ''http_request'' ''Make an HTTP request.''
      [optional ''method'' ''Default GET'', optional ''url'' ''Full URL (or base_url)'', optional ''base_url'' [], optional ''path'' [],
       optional ''body'' ''JSON-encoded automatically'', optional ''headers'' [], optional ''basic_auth'' ''username and password'',
       optional ''ignore_status'' ''true or a list of status codes treated as success'', optional ''tls_insecure'' [],
       optional ''tls_ca_cert'' []],
    with_params ''k8s_job'' ''Run a Kubernetes Job and wait for it.''
      (needed ''image'' ''Container image'' # undocumented [''command'', ''args'', ''env'', ''secrets'', ''volumes'', ''init_containers'',
         ''resources'', ''affinity'', ''service_account'', ''backoff_limit'', ''ttl_seconds'', ''image_pull_policy'', ''namespace'', ''name_prefix'']),
    with_params ''k8s_job_wait'' ''Wait for an existing Kubernetes Job.''
      [needed ''job_name'' ''Name of the Job to watch'', optional ''namespace'' [],
       optional ''timeout'' ''Seconds to wait (0 relies on the step timeout)'', optional ''tail_logs'' [], optional ''log_bytes'' []],
    with_params ''prompt'' ''Ask for input.''
      (needed ''message'' ''Text shown before the prompt'' # undocumented [''choices'', ''default'', ''case_insensitive'']),
    with_fields ''gate'' [''rules'', ''facts''] ''Evaluate named rules against the context and decide: continue, skip, or pause.'',
    with_fields ''set_fact'' [''vars''] ''Set variables for the steps after it; values may be templates.'',
    with_fields ''load_artifact'' [''artifacts''] ''Load files (YAML, markdown, tables) into the context.'',
    with_fields ''assert'' [''that'', ''msg''] ''Fail unless every condition holds.'',
    with_params ''jev'' ''Ask a Jev decision service.'' [],
    with_params ''llm_invoke'' ''Invoke a language model.'' []]"

record schema =
  sh_version :: int
  sh_file :: "field list"
  sh_workflow :: "field list"
  sh_step :: "field list"
  sh_step_types :: "type_spec list"

definition build_schema :: schema where
  "build_schema = \<lparr>sh_version = 1, sh_file = fields_of file_struct, sh_workflow = fields_of workflow_struct,
     sh_step = fields_of step_struct, sh_step_types = step_types\<rparr>"

text \<open>The parameters a type must be given.\<close>

definition required_params :: "string \<Rightarrow> string list" where
  "required_params ty = concat (map (\<lambda>t. map pm_name (filter pm_required (tp_params t))) (filter (\<lambda>t. tp_name t = ty) step_types))"

lemmas step_types_defs = step_types_def with_params_def with_fields_def needed_def optional_def undocumented_def in_quotes_def

text \<open>Every primitive type is described once, and the step fields of a type are fields of a step.\<close>

lemma schema_describes_primitives:
  "set (map tp_name (sh_step_types build_schema)) = set primitives" "distinct (map tp_name (sh_step_types build_schema))"
proof -
  have names: "map tp_name step_types = [''shell_exec'', ''script_exec'', ''write_file'', ''claude'', ''ansible_playbook'', ''ansible'',
      ''http_request'', ''k8s_job'', ''k8s_job_wait'', ''prompt'', ''gate'', ''set_fact'', ''load_artifact'', ''assert'', ''jev'', ''llm_invoke'']"
    by (simp add: step_types_defs)
  show "set (map tp_name (sh_step_types build_schema)) = set primitives"
    by (auto simp: build_schema_def names primitives_def)
  show "distinct (map tp_name (sh_step_types build_schema))"
    by (simp add: build_schema_def names)
qed

lemma schema_step_fields:
  "list_all (\<lambda>t. list_all (\<lambda>n. n \<in> set (map fd_name (sh_step build_schema))) (tp_step_fields t)) (sh_step_types build_schema)"
  by code_simp

end
