(* ===== verification/Executors.thy ===== *)
theory Executors
  imports Cli Schema Step_Engine Script_Exec Ansible Claude Write_File Prompt Http_Request K8s_Jobs Jev_Client
begin

text \<open>
  The executors as the engine gets them (\<open>buildExecutors\<close> in \<open>cmd/markov/main.go\<close>): every executor of the
  library put under its type, over one world. The world's parts are reached through the hosts of the executors; a host is
  given for the timeout of a step, which ends its processes and exchanges. The two executors of Kubernetes jobs may poll forever; here
  they are given as functions that agree with \<open>k8s_job\<close> and \<open>k8s_job_wait\<close> wherever those return.
\<close>

record 'w hosts =
  he_process :: "'w host"
  he_claude :: "'w claude_host"
  he_http :: "'w http_net"
  he_jev :: "'w jev_net"
  he_yaml :: "gomap \<Rightarrow> string + string"
  he_faults :: faults
  he_files :: "'w \<Rightarrow> fsys"
  he_set_files :: "fsys \<Rightarrow> 'w \<Rightarrow> 'w"
  he_same_letters :: "string \<Rightarrow> string \<Rightarrow> bool"
  he_terminal :: bool
  he_input :: "'w \<Rightarrow> string option \<times> string list"
  he_asked :: "string \<Rightarrow> 'w \<Rightarrow> 'w"
  he_ranges :: "string list \<Rightarrow> string list"
  he_job :: "gomap \<Rightarrow> 'w \<Rightarrow> exec_out \<times> 'w"
  he_job_wait :: "gomap \<Rightarrow> 'w \<Rightarrow> exec_out \<times> 'w"

definition write_file_exec :: "golib \<Rightarrow> 'w hosts \<Rightarrow> gomap \<Rightarrow> 'w \<Rightarrow> exec_out \<times> 'w" where
  "write_file_exec G H params w =
     (let (res, fs) = write_file G (he_faults H) params (he_files H w) in (res, he_set_files H fs w))"

text \<open>Without a question nothing is written to the terminal.\<close>

definition prompt_exec :: "'w hosts \<Rightarrow> gomap \<Rightarrow> 'w \<Rightarrow> exec_out \<times> 'w" where
  "prompt_exec H params w =
     (let (res, shown) = prompt (he_same_letters H) (he_terminal H) params (fst (he_input H w)) (snd (he_input H w))
      in (res, if shown = [] then w else he_asked H shown w))"

definition build_executors ::
  "golib \<Rightarrow> (string \<times> connection) list \<Rightarrow> bool \<Rightarrow> (int \<Rightarrow> 'w hosts) \<Rightarrow> (string \<times> (gomap \<Rightarrow> int \<Rightarrow> 'w \<Rightarrow> exec_out \<times> 'w)) list" where
  "build_executors G conns cluster H =
     [(''shell_exec'', \<lambda>ps t. shell_exec (he_process (H t)) ps),
      (''script_exec'', \<lambda>ps t. script_exec G (he_process (H t)) ps),
      (''write_file'', \<lambda>ps t. write_file_exec G (H t) ps),
      (''claude'', \<lambda>ps t. claude G (he_claude (H t)) ps),
      (''ansible'', \<lambda>ps t. ansible G (he_yaml (H t)) (he_process (H t)) ps),
      (''ansible_playbook'', \<lambda>ps t. ansible_playbook G (he_yaml (H t)) (he_process (H t)) ps),
      (''prompt'', \<lambda>ps t. prompt_exec (H t) ps),
      (''http_request'', \<lambda>ps t. http_request G (he_http (H t)) ps),
      (''jev'', \<lambda>ps t. jev_exec G (he_ranges (H t)) (he_jev (H t)) conns ps)]
     @ (if cluster then [(''k8s_job'', \<lambda>ps t. he_job (H t) ps), (''k8s_job_wait'', \<lambda>ps t. he_job_wait (H t) ps)] else [])"

lemma build_executors_types: "map fst (build_executors G conns cluster H) = executor_types cluster"
  by (simp add: build_executors_def executor_types_def)

text \<open>The functions for jobs agree with the executors over a cluster wherever those return; what is read of the files and put
  back changes nothing.\<close>

definition jobs_agree :: "golib \<Rightarrow> (gomap \<Rightarrow> gomap) \<Rightarrow> 'w kube \<Rightarrow> string \<Rightarrow> 'w hosts \<Rightarrow> bool" where
  "jobs_agree G ord K ns H \<longleftrightarrow> (\<forall>ps w r. (k8s_job G ord K ns ps w = Some r \<longrightarrow> he_job H ps w = r) \<and>
     (k8s_job_wait K ns ps w = Some r \<longrightarrow> he_job_wait H ps w = r))"

definition files_put_back :: "'w hosts \<Rightarrow> bool" where
  "files_put_back H \<longleftrightarrow> (\<forall>w. he_set_files H (he_files H w) w = w)"

subsection \<open>Required parameters\<close>

text \<open>An executor refuses parameters when it fails with an error and does nothing, in every world.\<close>

definition refuses :: "(gomap \<Rightarrow> 'w \<Rightarrow> exec_out \<times> 'w) \<Rightarrow> gomap \<Rightarrow> bool" where
  "refuses exec ps \<longleftrightarrow> (\<forall>w. \<exists>e. exec ps w = (exec_fails e, w))"

lemma missing_text: "mget ps k = None \<Longrightarrow> str_or_empty ps k = []"
  by (simp add: str_or_empty_def)

lemma trim_space_Nil: "trim_space [] = []"
  by code_simp

lemma missing_refused:
  "mget ps ''command'' = None \<Longrightarrow> refuses (shell_exec P) ps"
  "mget ps ''interpreter'' = None \<Longrightarrow> refuses (script_exec G P) ps"
  "mget ps ''playbook'' = None \<Longrightarrow> refuses (ansible_playbook G yaml P) ps"
  "mget ps ''pattern'' = None \<Longrightarrow> refuses (ansible G yaml P) ps"
  "mget ps ''message'' = None \<Longrightarrow> refuses (prompt_exec H) ps"
  by (auto simp: refuses_def missing_text shell_exec_def script_exec_def ansible_playbook_def ansible_def prompt_exec_def
      prompt_def prompt_question_def string_list_param_def exec_fails_def Let_def trim_space_Nil)

lemma missing_write_file:
  assumes "files_put_back H" "mget ps ''path'' = None \<or> mget ps ''content'' = None"
  shows "refuses (write_file_exec G H) ps"
proof -
  have "\<exists>e. write_file G (he_faults H) ps fs = (exec_fails e, fs)" for fs
    using assms(2) by (auto simp: write_file_def missing_text exec_fails_def Let_def trim_space_Nil)
  with assms(1) show ?thesis
    unfolding refuses_def write_file_exec_def files_put_back_def by (metis (no_types, lifting) case_prod_conv)
qed

lemma missing_job:
  assumes "jobs_agree G ord K ns H"
  shows "mget ps ''image'' = None \<Longrightarrow> refuses (he_job H) ps" "mget ps ''job_name'' = None \<Longrightarrow> refuses (he_job_wait H) ps"
proof -
  assume "mget ps ''image'' = None"
  then have "\<exists>e. k8s_job G ord K ns ps w = Some (exec_fails e, w)" for w
    by (auto simp: k8s_job_def build_job_def missing_text)
  with assms show "refuses (he_job H) ps" unfolding refuses_def jobs_agree_def by metis
next
  assume "mget ps ''job_name'' = None"
  then have "k8s_job_wait K ns ps w = Some (exec_fails ''k8s_job_wait: job_name is required'', w)" for w
    by (simp add: k8s_job_wait_def missing_text Let_def)
  with assms show "refuses (he_job_wait H) ps" unfolding refuses_def jobs_agree_def by metis
qed

lemma required_table:
  "map (\<lambda>t. (tp_name t, map pm_name (filter pm_required (tp_params t)))) step_types =
     [(''shell_exec'', [''command'']), (''script_exec'', [''interpreter'']), (''write_file'', [''path'', ''content'']), (''claude'', []),
      (''ansible_playbook'', [''playbook'']), (''ansible'', [''pattern'']), (''http_request'', []), (''k8s_job'', [''image'']),
      (''k8s_job_wait'', [''job_name'']), (''prompt'', [''message'']), (''gate'', []), (''set_fact'', []), (''load_artifact'', []),
      (''assert'', []), (''jev'', []), (''llm_invoke'', [])]"
  by code_simp

lemma required_params_in:
  "k \<in> set (required_params ty) \<longleftrightarrow>
     (\<exists>p\<in>set (map (\<lambda>t. (tp_name t, map pm_name (filter pm_required (tp_params t)))) step_types). fst p = ty \<and> k \<in> set (snd p))"
  by (auto simp: required_params_def)

lemma build_executors_get:
  "map_of (build_executors G conns cluster H) ''shell_exec'' = Some (\<lambda>ps t. shell_exec (he_process (H t)) ps)"
  "map_of (build_executors G conns cluster H) ''script_exec'' = Some (\<lambda>ps t. script_exec G (he_process (H t)) ps)"
  "map_of (build_executors G conns cluster H) ''write_file'' = Some (\<lambda>ps t. write_file_exec G (H t) ps)"
  "map_of (build_executors G conns cluster H) ''ansible'' = Some (\<lambda>ps t. ansible G (he_yaml (H t)) (he_process (H t)) ps)"
  "map_of (build_executors G conns cluster H) ''ansible_playbook'' = Some (\<lambda>ps t. ansible_playbook G (he_yaml (H t)) (he_process (H t)) ps)"
  "map_of (build_executors G conns cluster H) ''prompt'' = Some (\<lambda>ps t. prompt_exec (H t) ps)"
  "map_of (build_executors G conns cluster H) ''k8s_job'' = (if cluster then Some (\<lambda>ps t. he_job (H t) ps) else None)"
  "map_of (build_executors G conns cluster H) ''k8s_job_wait'' = (if cluster then Some (\<lambda>ps t. he_job_wait (H t) ps) else None)"
  by (simp_all add: build_executors_def)

lemma executor_refuses:
  assumes exec: "map_of (build_executors G conns cluster H) ty = Some exec" and k: "k \<in> set (required_params ty)" "mget ps k = None"
    and H: "files_put_back (H t)" "jobs_agree G ord K ns (H t)"
  shows "refuses (\<lambda>ps. exec ps t) ps"
proof -
  have "list_all (\<lambda>p. list_all (\<lambda>k. \<forall>exec ps. map_of (build_executors G conns cluster H) (fst p) = Some exec \<longrightarrow>
      mget ps k = None \<longrightarrow> refuses (\<lambda>ps. exec ps t) ps) (snd p))
      (map (\<lambda>t. (tp_name t, map pm_name (filter pm_required (tp_params t)))) step_types)"
    unfolding required_table list.pred_inject fst_conv snd_conv build_executors_get
    by (simp add: missing_refused missing_write_file [OF H(1)] missing_job [OF H(2)])
  with exec k show ?thesis unfolding required_params_in list_all_iff by blast
qed

text \<open>The schema lists no parameter of \<open>jev\<close>, whose executor needs a state.\<close>

lemma jev_state_undeclared:
  "required_params ''jev'' = []" "mget ps ''state'' = None \<Longrightarrow> refuses (jev_exec G ord N conns) ps"
proof -
  show "required_params ''jev'' = []" by code_simp
  show "mget ps ''state'' = None \<Longrightarrow> refuses (jev_exec G ord N conns) ps"
    by (simp add: refuses_def jev_exec_def mget_nil_def exec_fails_def Let_def)
qed

subsection \<open>Steps that lack a parameter\<close>

lemma required_no_meta:
  assumes "k \<in> set (required_params ty)"
  shows "k \<notin> {''_script_dir'', ''_job_name'', ''_labels''}"
proof -
  have "list_all (\<lambda>p. list_all (\<lambda>k. hd k \<noteq> CHR ''_'') (snd p))
      (map (\<lambda>t. (tp_name t, map pm_name (filter pm_required (tp_params t)))) step_types)"
    unfolding required_table by code_simp
  with assms have "hd k \<noteq> CHR ''_''" unfolding required_params_in list_all_iff by blast
  then show ?thesis by auto
qed

lemma step_params_missing:
  assumes "k \<in> set (required_params ty)" "mget ps k = None"
  shows "mget (step_params X run wname st ty ps) k = None"
  using assms(2) required_no_meta [OF assms(1)]
  by (simp add: step_params_def inject_job_meta_def mget_mput_any Let_def)

lemma save_row_world [simp]: "en_world (save_row X r s) = en_world s"
  by (simp add: save_row_def)

lemma failed_with_world:
  "\<exists>u. failed_with X run wname sname ty t0 err ctx s = (Some err, ctx, u) \<and> en_world u = en_world s"
  by (simp add: failed_with_def fail_step_def now_def Let_def)

lemma announce_world: "en_world (announce_wait X run wname st ty ps s) = en_world s"
  by (simp add: announce_wait_def)

text \<open>C21. The schema's required parameters are enforced before anything happens: a step without \<open>failed_when\<close> or
  \<open>ignore_errors\<close> whose rendered parameters lack one fails with an error, and no process, file, request or job of the world
  is touched, whatever executor its type has. Of the host it needs that putting its own files back leaves it as it is, and of the job executors that they give
  what their models return (\<open>jobs_agree\<close>).\<close>

theorem missing_param_fails_step:
  assumes exec: "x_exec X = build_executors G conns cluster H" and k: "k \<in> set (required_params ty)"
    and params: "render_map (x_lib X) (x_pongo X) merged ctx = Inr rendered" "mget rendered k = None"
    and strict: "st_failed_when st = []" "\<not> st_ignore_errors st"
    and H: "files_put_back (H (st_timeout st))" "jobs_agree G ord K ns (H (st_timeout st))"
  shows "\<exists>e u. run_executor X run wname st sname ty merged t0 ctx s = (Some (Msg e), ctx, u) \<and> en_world u = en_world s"
proof -
  define s1 where "s1 = save_row X (new_row run wname sname StepRunning t0 None) s"
  define ps where "ps = step_params X run wname st ty rendered"
  have world: "en_world s1 = en_world s" by (simp add: s1_def)
  show ?thesis
  proof (cases "map_of (x_exec X) ty")
    case None
    obtain u where "failed_with X run wname sname ty t0 (Msg (''no executor for type '' @ quoted ty)) ctx s1 =
        (Some (Msg (''no executor for type '' @ quoted ty)), ctx, u)" "en_world u = en_world s1"
      using failed_with_world by blast
    with None world show ?thesis
      by (simp add: run_executor_def params(1) s1_def [symmetric])
  next
    case (Some exec)
    have "mget ps k = None" unfolding ps_def by (rule step_params_missing [OF k params(2)])
    from executor_refuses [OF Some [unfolded exec] k this H] obtain e where
      e: "exec ps (st_timeout st) (en_world s1) = (exec_fails e, en_world s1)"
      unfolding refuses_def by blast
    let ?s = "set_world (en_world s1) (announce_wait X run wname st ty ps s1)"
    obtain u where u: "failed_with X run wname sname ty t0 (Msg e) ctx ?s = (Some (Msg e), ctx, u)" "en_world u = en_world ?s"
      using failed_with_world by blast
    have "run_executor X run wname st sname ty merged t0 ctx s = (Some (Msg e), ctx, u)"
      using e Some strict u(1)
      by (simp add: run_executor_def params(1) s1_def [symmetric] ps_def [symmetric] announce_world exec_fails_def Let_def)
    moreover have "en_world u = en_world s" using u(2) world by (simp add: set_world_def)
    ultimately show ?thesis by blast
  qed
qed

definition sample_kube :: "nat kube" where
  "sample_kube = \<lparr>ku_create = (\<lambda>ns j w. (Inl ''denied'', Suc w)), ku_get = (\<lambda>ns n w. (Inr [], w)), ku_tick = (\<lambda>w. (Some ''cancelled'', w)),
     ku_pods = (\<lambda>ns n w. (None, w)), ku_log = (\<lambda>ns p n w. (None, w)), ku_deadline = (\<lambda>t w. w), ku_quantity = Some\<rparr>"

text \<open>A world that counts what is done to it.\<close>

definition sample_hosts :: "nat hosts" where
  "sample_hosts = \<lparr>
     he_process = \<lparr>ho_temp = (\<lambda>p w. (Inr ''/tmp/x'', Suc w)), ho_chmod = (\<lambda>p w. (None, Suc w)), ho_write = (\<lambda>p d w. (None, Suc w)),
       ho_close = (\<lambda>p w. (None, Suc w)), ho_remove = (\<lambda>p w. Suc w),
       ho_start = (\<lambda>c w. (\<lparr>pr_stdout = [], pr_stderr = [], pr_exit = Some 0, pr_error = None\<rparr>, Suc w)), ho_environ = [],
       ho_fs = sample_fs\<rparr>,
     he_claude = \<lparr>ch_pipe = (\<lambda>w. (None, w)), ch_start = (\<lambda>c t w. (Inl ''no claude'', Suc w)),
       ch_wait = (\<lambda>b w. (\<lparr>en_exit = None, en_error = None, en_stderr = [], en_deadline = False, en_cancelled = None\<rparr>, w)),
       ch_environ = [], ch_fs = sample_fs, ch_format = (\<lambda>x. ''0''), ch_seconds = (\<lambda>n. 0)\<rparr>,
     he_http = \<lparr>hn_refused = (\<lambda>m u. None), hn_ca_cert = (\<lambda>p. Inr True), hn_order = id, hn_do = (\<lambda>r w. (Inl ''refused'', Suc w))\<rparr>,
     he_jev = \<lparr>jn_getenv = (\<lambda>n. []), jn_read_file = Inr, jn_acquire = (\<lambda>n k w. (None, Suc w)), jn_release = (\<lambda>n w. w),
       jn_post = (\<lambda>r w. (Inl ''refused'', Suc w)), jn_wait = (\<lambda>n w. (None, w)), jn_elapsed = (\<lambda>w. 0)\<rparr>,
     he_yaml = (\<lambda>m. Inr ''{}''), he_faults = (\<lambda>c p. None), he_files = (\<lambda>w. \<lparr>fy_entries = Map.empty, fy_umask = 0\<rparr>),
     he_set_files = (\<lambda>fs w. w), he_same_letters = (=), he_terminal = True, he_input = (\<lambda>w. (None, [''yes''])),
     he_asked = (\<lambda>out w. Suc w), he_ranges = id,
     he_job = (\<lambda>ps w. the (k8s_job sample_golib id sample_kube ''ns'' ps w)),
     he_job_wait = (\<lambda>ps w. the (k8s_job_wait sample_kube ''ns'' ps w))\<rparr>"

theorem missing_param_fails_step_witness:
  "\<exists>e u. run_executor ((sample_ext sample_file)\<lparr>x_exec := build_executors sample_golib [] True (\<lambda>t. sample_hosts)\<rparr>) ''r'' ''main''
     (blank_step\<lparr>st_name := ''run'', st_type := ''script_exec''\<rparr>) ''run'' ''script_exec'' [(''content'', VStr ''echo'')] 0 [] sample_eng
     = (Some (Msg e), [], u) \<and> en_world u = 0"
proof -
  let ?X = "(sample_ext sample_file)\<lparr>x_exec := build_executors sample_golib [] True (\<lambda>t. sample_hosts)\<rparr>"
  let ?st = "blank_step\<lparr>st_name := ''run'', st_type := ''script_exec''\<rparr>"
  have X: "x_exec ?X = build_executors sample_golib [] True (\<lambda>t. sample_hosts)" by simp
  have k: "''interpreter'' \<in> set (required_params ''script_exec'')" by code_simp
  have render: "render_map (x_lib ?X) (x_pongo ?X) [(''content'', VStr ''echo'')] [] = Inr [(''content'', VStr ''echo'')]"
    by (simp add: sample_ext_def) code_simp
  have missing: "mget [(''content'', VStr ''echo'')] ''interpreter'' = None" by simp
  have st: "st_failed_when ?st = []" "\<not> st_ignore_errors ?st" by (simp_all add: blank_step_def)
  have files: "files_put_back sample_hosts" by (simp add: files_put_back_def sample_hosts_def)
  have jobs: "jobs_agree sample_golib id sample_kube ''ns'' sample_hosts" by (simp add: jobs_agree_def sample_hosts_def)
  have zero: "en_world sample_eng = 0" by (simp add: sample_eng_def)
  from missing_param_fails_step [OF X k render missing st files jobs, of "''r''" "''main''" "''run''" 0 sample_eng]
  show ?thesis unfolding zero .
qed

end
