(* ===== verification/Assembly.thy ===== *)
theory Assembly
  imports Executors Fan_Out
begin

text \<open>
  The engine of a command put together: \<open>New\<close> and the setters of \<open>pkg/engine/engine.go\<close>, called by
  \<open>runWorkflow\<close> and \<open>resumeWorkflow\<close> of \<open>cmd/markov/main.go\<close> with the executors of \<open>buildExecutors\<close>. The
  lemmas show what holds of every engine a command runs: which steps of a valid file find an executor, that
  decisions always find theirs, and that a for_each loop has a slot.
\<close>

subsection \<open>engine.New\<close>

type_synonym 'w executors = "(string \<times> (gomap \<Rightarrow> int \<Rightarrow> 'w \<Rightarrow> exec_out \<times> 'w)) list"

definition add_jev :: "golib \<Rightarrow> (string \<times> connection) list \<Rightarrow> (int \<Rightarrow> 'w hosts) \<Rightarrow> 'w executors \<Rightarrow> 'w executors" where
  "add_jev G conns H execs =
     (if map_of execs ''jev'' = None
      then execs @ [(''jev'', \<lambda>ps t. jev_exec G (he_ranges (H t)) (he_jev (H t)) conns ps)] else execs)"

definition default_slots :: "int \<Rightarrow> int" where
  "default_slots forks = (if forks \<le> 0 then 5 else forks)"

text \<open>The libraries come with \<open>X\<close>; everything else is what a new engine has.\<close>

definition new_engine :: "'w ext \<Rightarrow> (int \<Rightarrow> 'w hosts) \<Rightarrow> workflow_file \<Rightarrow> 'w executors \<Rightarrow> 'w ext" where
  "new_engine X H f execs = X\<lparr>x_file := f, x_exec := add_jev (x_lib X) (fi_connections f) H execs,
     x_forks := default_slots (fi_forks f), x_artifacts := (x_artifacts X)\<lparr>ai_has_k8s := False\<rparr>,
     x_debug := None, x_source_path := [], x_source_digest := []\<rparr>"

definition set_k8s_client :: "'w ext \<Rightarrow> 'w ext" where
  "set_k8s_client X = X\<lparr>x_artifacts := (x_artifacts X)\<lparr>ai_has_k8s := True\<rparr>\<rparr>"

text \<open>The engine of a run: the path, the cluster when there is one, and the debugger when it is asked for.\<close>

definition command_engine ::
  "'w ext \<Rightarrow> (int \<Rightarrow> 'w hosts) \<Rightarrow> bool \<Rightarrow> (debug_point \<Rightarrow> gomap \<Rightarrow> gomap option \<Rightarrow> 'w \<Rightarrow> string option \<times> 'w) option
     \<Rightarrow> workflow_file \<Rightarrow> string \<Rightarrow> 'w ext" where
  "command_engine X H cluster hook f path =
     (let e = (new_engine X H f (build_executors (x_lib X) (fi_connections f) cluster H))\<lparr>x_source_path := path\<rparr>;
          e = (if cluster then set_k8s_client e else e)
      in e\<lparr>x_debug := hook\<rparr>)"

text \<open>The slots of a loop: its own \<open>concurrency\<close>, or the engine's \<open>forks\<close>.\<close>

definition loop_slots :: "'w ext \<Rightarrow> step \<Rightarrow> nat" where
  "loop_slots X st = nat (if st_concurrency st \<le> 0 then x_forks X else st_concurrency st)"

subsection \<open>What every engine of a command has\<close>

lemma add_jev_types: "dom (map_of (add_jev G conns H execs)) = insert ''jev'' (dom (map_of execs))"
  by (auto simp: add_jev_def map_of_append map_add_def split: option.splits if_splits)

lemma command_engine_parts [simp]:
  "x_file (command_engine X H cluster hook f path) = f" "x_debug (command_engine X H cluster hook f path) = hook"
  "x_source_path (command_engine X H cluster hook f path) = path" "x_lib (command_engine X H cluster hook f path) = x_lib X"
  "x_forks (command_engine X H cluster hook f path) = default_slots (fi_forks f)"
  "ai_has_k8s (x_artifacts (command_engine X H cluster hook f path)) = cluster"
  by (simp_all add: command_engine_def new_engine_def set_k8s_client_def Let_def)

text \<open>\<open>buildExecutors\<close> has put in its own \<open>jev\<close>, so \<open>New\<close> adds none.\<close>

lemma command_engine_exec [simp]:
  "x_exec (command_engine X H cluster hook f path) = build_executors (x_lib X) (fi_connections f) cluster H"
proof -
  have "map_of (build_executors (x_lib X) (fi_connections f) cluster H) ''jev'' \<noteq> None"
    by (simp add: build_executors_def)
  then show ?thesis by (simp add: command_engine_def new_engine_def set_k8s_client_def add_jev_def Let_def del: not_None_eq)
qed

lemma command_engine_types:
  "map_of (x_exec (command_engine X H cluster hook f path)) ty \<noteq> None \<longleftrightarrow> ty \<in> set (executor_types cluster)"
  unfolding command_engine_exec map_of_eq_None_iff set_map [symmetric] build_executors_types by simp

lemma loop_slots_positive: "0 < loop_slots (command_engine X H cluster hook f path) st"
  by (simp add: loop_slots_def default_slots_def)

text \<open>So the loop of a command's engine is a schedule of its own number of slots.\<close>

lemma command_loop_schedule:
  assumes "X = command_engine X0 H cluster hook f path"
    and "for_each_loop X p run wname st 0 items ctx [] s = Some (err, results, t)"
  shows "\<exists>q. pool_run (length items) (loop_slots X st) (item_verdict X st ctx items) (item_ending X p run wname st ctx items) q \<and>
    pool_over q \<and> po_error q = err \<and> po_results q = results"
proof (rule loop_schedule [where i = 0 and results = "[]" and s = s and t = t])
  show "0 < loop_slots X st" unfolding assms(1) by (rule loop_slots_positive)
  show "pool_run (length items) (loop_slots X st) (item_verdict X st ctx items) (item_ending X p run wname st ctx items) pool_start"
    by (rule pool_run.begin_run)
qed (use assms(2) in \<open>simp_all add: pool_start_def\<close>)

subsection \<open>Which steps find an executor\<close>

definition engine_types :: "string list" where
  "engine_types = [''set_fact'', ''assert'', ''gate'', ''load_artifact'']"

lemma primitives_split:
  "set primitives = set engine_types \<union> set (executor_types True) \<union> {''llm_invoke''}"
  unfolding primitives_executed engine_types_def by auto

lemma resolved_base_primitive:
  assumes "primitive_bases f" "st_type st \<in> set primitives \<or> st_type st \<in> dom (mget (fi_step_types f))"
  shows "fst (resolve_step_type (fi_step_types f) st) \<in> set primitives"
  using assms
  by (auto simp: primitive_bases_def resolve_step_type_def is_primitive_def Let_def split: option.splits)

text \<open>In a valid file whose step types have primitive bases, every typed step is run by the engine or has an executor;
  the exceptions are the reserved type and, without a cluster, the types of Kubernetes jobs.\<close>

lemma typed_step_dispatched:
  assumes "valid_file G f" "primitive_bases f" "w \<in> set (fi_workflows f)" "st \<in> set (all_steps w)" "st_type st \<noteq> []"
  shows "fst (resolve_step_type (fi_step_types f) st) \<in> set engine_types \<union> {''llm_invoke''} \<or>
    map_of (x_exec (command_engine X H cluster hook f path)) (fst (resolve_step_type (fi_step_types f) st)) \<noteq> None \<or>
    \<not> cluster \<and> fst (resolve_step_type (fi_step_types f) st) \<in> {''k8s_job'', ''k8s_job_wait''}"
proof -
  have "st_type st \<in> set primitives \<or> st_type st \<in> dom (mget (fi_step_types f))"
    using assms by (auto simp: valid_file_def workflow_valid_def step_valid_def step_kind_valid_def)
  from resolved_base_primitive [OF assms(2) this] show ?thesis
    unfolding command_engine_types primitives_split by (cases cluster) (auto simp: executor_types_def)
qed

text \<open>A step whose base has no executor always fails, after its row was saved and before anything runs.\<close>

lemma unknown_base_fails:
  assumes "ty \<notin> set (executor_types cluster)"
    and "render_map (x_lib X) (x_pongo X) merged ctx = Inr rendered" "X = command_engine X0 H cluster hook f path"
  shows "\<exists>u. run_executor X run wname st sname ty merged t0 ctx s =
      (Some (Msg (''no executor for type '' @ quoted ty)), ctx, u) \<and> en_world u = en_world s"
proof -
  have none: "map_of (x_exec X) ty = None" using assms(1,3) command_engine_types by blast
  define s1 where "s1 = save_row X (new_row run wname sname StepRunning t0 None) s"
  have "en_world s1 = en_world s" by (simp add: s1_def)
  moreover obtain u where "failed_with X run wname sname ty t0 (Msg (''no executor for type '' @ quoted ty)) ctx s1 =
      (Some (Msg (''no executor for type '' @ quoted ty)), ctx, u)" "en_world u = en_world s1"
    using failed_with_world by blast
  ultimately show ?thesis by (simp add: run_executor_def assms(2) s1_def [symmetric] none)
qed

subsection \<open>What validation leaves unchecked\<close>

text \<open>A custom type whose base is another custom type, or no type at all, is accepted, and so is a step with both a type and a
  sub-workflow.\<close>

definition chained_file :: workflow_file where
  "chained_file = blank_file\<lparr>fi_entrypoint := ''main'', fi_forks := 5,
     fi_step_types := [(''inner'', \<lparr>ty_base = ''shell_exec'', ty_description = [], ty_defaults = [], ty_job = [], ty_params = []\<rparr>),
       (''outer'', \<lparr>ty_base = ''inner'', ty_description = [], ty_defaults = [], ty_job = [], ty_params = []\<rparr>)],
     fi_workflows := [\<lparr>wf_name = ''main'', wf_description = [], wf_vars = [],
       wf_steps = [blank_step\<lparr>st_name := ''run'', st_type := ''outer''\<rparr>,
         blank_step\<lparr>st_name := ''again'', st_type := ''shell_exec'', st_workflow := ''main''\<rparr>],
       wf_rescue = [], wf_always = []\<rparr>]\<rparr>"

lemma chained_base_accepted:
  "validate sample_golib chained_file = Inr chained_file" "\<not> primitive_bases chained_file"
  "fst (resolve_step_type (fi_step_types chained_file) (blank_step\<lparr>st_name := ''run'', st_type := ''outer''\<rparr>)) = ''inner''"
  "''inner'' \<notin> set (executor_types cluster)"
proof -
  show "validate sample_golib chained_file = Inr chained_file" by code_simp
  have "mget (fi_step_types chained_file) ''outer'' =
      Some \<lparr>ty_base = ''inner'', ty_description = [], ty_defaults = [], ty_job = [], ty_params = []\<rparr>" by code_simp
  moreover have "''inner'' \<notin> set primitives" by code_simp
  ultimately show "\<not> primitive_bases chained_file" by (force simp: primitive_bases_def)
  show "fst (resolve_step_type (fi_step_types chained_file) (blank_step\<lparr>st_name := ''run'', st_type := ''outer''\<rparr>)) = ''inner''"
    by code_simp
  show "''inner'' \<notin> set (executor_types cluster)" by (simp add: executor_types_def)
qed

text \<open>The rules of a gate are looked up only when the step's type is literally \<open>gate\<close>, not when it is based on it.\<close>

definition custom_gate_file :: workflow_file where
  "custom_gate_file = blank_file\<lparr>fi_entrypoint := ''main'', fi_forks := 5,
     fi_step_types := [(''review'', \<lparr>ty_base = ''gate'', ty_description = [], ty_defaults = [], ty_job = [], ty_params = []\<rparr>)],
     fi_workflows := [\<lparr>wf_name = ''main'', wf_description = [], wf_vars = [],
       wf_steps = [blank_step\<lparr>st_name := ''ask'', st_type := ''review'', st_rules := [''lost'']\<rparr>], wf_rescue = [], wf_always = []\<rparr>]\<rparr>"

lemma custom_gate_rules_unchecked:
  "validate sample_golib custom_gate_file = Inr custom_gate_file" "get_rule (fi_rules custom_gate_file) ''lost'' = None"
  "fst (resolve_step_type (fi_step_types custom_gate_file) (blank_step\<lparr>st_name := ''ask'', st_type := ''review'', st_rules := [''lost'']\<rparr>)) = ''gate''"
  by code_simp+

text \<open>Neither is the reserved type refused.\<close>

lemma reserved_type_has_no_executor:
  "''llm_invoke'' \<in> set primitives" "''llm_invoke'' \<notin> set (executor_types cluster)" "''llm_invoke'' \<notin> set engine_types"
  by (simp_all add: primitives_def executor_types_def engine_types_def)

end
