(* ===== verification/Engine_Maps.thy ===== *)
theory Engine_Maps
  imports Engine_Relations
begin

text \<open>
  Maps between states of the engine that an execution does not notice: \<open>engine_map\<close> asks that a map keeps what
  the engine reads (the clock, the world, the rows of some runs) and commutes with each operation on the state;
  inside it every function of the step engine commutes with the map, so an execution from the mapped state
  has the same outcome and ends in the mapped state. The instances say what an execution does not read.
\<close>

definition on_state :: "('s \<Rightarrow> 's) \<Rightarrow> 'a \<times> 'b \<times> 's \<Rightarrow> 'a \<times> 'b \<times> 's" where
  "on_state F r = (fst r, fst (snd r), F (snd (snd r)))"

lemma on_state_simps [simp]:
  "on_state F (a, b, s) = (a, b, F s)" "fst (on_state F r) = fst r" "fst (snd (on_state F r)) = fst (snd r)"
  "snd (snd (on_state F r)) = F (snd (snd r))"
  by (simp_all add: on_state_def)

lemma on_state_if: "on_state F (if b then r else q) = (if b then on_state F r else on_state F q)"
  by simp

lemma on_state_case:
  "(case on_state F r of (a, b, s) \<Rightarrow> (f a b, g a b, s)) = on_state F (case r of (a, b, s) \<Rightarrow> (f a b, g a b, s))"
  "(case on_state F r of (a, x) \<Rightarrow> (h a, x)) = on_state F (case r of (a, x) \<Rightarrow> (h a, x))"
  by (cases r; simp)+

fun on_guard :: "('s \<Rightarrow> 's) \<Rightarrow> ('a \<times> 'b \<times> 's) + 's \<Rightarrow> ('a \<times> 'b \<times> 's) + 's" where
  "on_guard F (Inl r) = Inl (on_state F r)"
| "on_guard F (Inr s) = Inr (F s)"

locale engine_map =
  fixes F :: "'w eng \<Rightarrow> 'w eng"
    and region :: "string \<Rightarrow> bool"
    and X :: "'w ext"
  assumes fires: "F (fire e s) = fire e (F s)"
    and clock: "en_clock (F s) = en_clock s"
    and ticks: "F (snd (now s)) = snd (now (F s))"
    and world: "en_world (F s) = en_world s"
    and acts: "F (set_world w s) = set_world w (F s)"
    and saves: "region (sr_run_id r) \<Longrightarrow> F (save_row X r s) = save_row X r (F s)"
    and creates: "region (rn_run_id q) \<Longrightarrow> F (create_run_ignored q s) = create_run_ignored q (F s)"
    and closes: "region (rn_run_id q) \<Longrightarrow> F (close_run q st c s) = close_run q st c (F s)"
    and rows: "region run \<Longrightarrow> row_of (F s) run wname sname = row_of s run wname sname"
    and runs: "region run \<Longrightarrow> get_run (en_store (F s)) run = get_run (en_store s) run"
    and subs: "region run \<Longrightarrow> region (run @ ''-'' @ k)"
begin

lemma now_map: "now (F s) = apsnd F (now s)"
  using ticks [of s] by (simp add: now_def clock)

lemma save_map: "region run \<Longrightarrow> sr_run_id r = run \<Longrightarrow> save_row X r (F s) = F (save_row X r s)"
  using saves by simp

lemmas outward = fires [symmetric] acts [symmetric] now_map world

lemma fail_step_map: "region run \<Longrightarrow>
    fail_step X run wname sname ty t0 err (F s) = apsnd F (fail_step X run wname sname ty t0 err s)"
  by (simp add: fail_step_def Let_def case_prod_beta outward save_map [where run = run])

lemma failed_with_map: "region run \<Longrightarrow>
    failed_with X run wname sname b t0 err ctx (F s) = on_state F (failed_with X run wname sname b t0 err ctx s)"
  by (simp add: failed_with_def case_prod_beta fail_step_map)

lemma finish_step_map: "region run \<Longrightarrow>
    finish_step X run wname st sname t0 a b out ctx (F s) = on_state F (finish_step X run wname st sname t0 a b out ctx s)"
  by (simp add: finish_step_def Let_def case_prod_beta outward save_map [where run = run])

lemma ask_decision_map: "region run \<Longrightarrow> ask_decision X run wname sname name d input key hash timeout (F s) =
    apsnd F (ask_decision X run wname sname name d input key hash timeout s)"
  by (simp add: ask_decision_def Let_def case_prod_beta outward save_map [where run = run] receipt_row_def fail_step_map
      split: option.split sum.split)

lemma decision_map: "region run \<Longrightarrow>
    decision X run wname sname name input refresh timeout (F s) = apsnd F (decision X run wname sname name input refresh timeout s)"
  by (simp add: decision_def Let_def ask_decision_map rows split: option.split)

lemma decision_facts_map: "region run \<Longrightarrow>
    decision_facts X run wname sname timeout ns facts (F s) = apsnd F (decision_facts X run wname sname timeout ns facts s)"
proof (induction ns arbitrary: facts s)
  case (Cons n ns)
  then show ?case
    by (simp add: Let_def decision_map split: option.split val.split prod.split sum.split)
qed simp

lemma resolve_decision_facts_map: "region run \<Longrightarrow>
    resolve_decision_facts X run wname sname facts ctx timeout (F s) =
      apsnd F (resolve_decision_facts X run wname sname facts ctx timeout s)"
  by (simp add: resolve_decision_facts_def decision_facts_map split: sum.split)

lemma answer_kind_map: "region run \<Longrightarrow>
    answer_kind X run wname sname timeout kind name input refresh (F s) =
      apsnd F (answer_kind X run wname sname timeout kind name input refresh s)"
  by (simp add: answer_kind_def decision_map split: option.split prod.split sum.split)

lemma run_cond_map: "region run \<Longrightarrow>
    run_cond X run wname sname timeout p (F s) = apsnd F (run_cond X run wname sname timeout p s)"
  by (induction p arbitrary: s) (simp_all add: Let_def answer_kind_map)

lemma eval_decision_bool_map: "region run \<Longrightarrow>
    eval_decision_bool X run wname sname expr ctx timeout (F s) = apsnd F (eval_decision_bool X run wname sname expr ctx timeout s)"
  by (simp add: eval_decision_bool_def run_cond_map)

lemma run_set_fact_map: "region run \<Longrightarrow>
    run_set_fact X run wname st sname b t0 ctx (F s) = on_state F (run_set_fact X run wname st sname b t0 ctx s)"
  by (simp add: run_set_fact_def failed_with_map finish_step_map split: prod.split sum.split)

lemma check_assertions_map: "region run \<Longrightarrow>
    check_assertions X run wname st sname ctx es (F s) = apsnd F (check_assertions X run wname st sname ctx es s)"
  by (induction es arbitrary: s) (simp_all add: eval_decision_bool_map split: prod.split sum.split)

lemma run_assert_map: "region run \<Longrightarrow>
    run_assert X run wname st sname b t0 ctx (F s) = on_state F (run_assert X run wname st sname b t0 ctx s)"
  by (simp add: run_assert_def failed_with_map finish_step_map check_assertions_map split: prod.split option.split)

lemma run_gate_map: "region run \<Longrightarrow>
    run_gate X run wname st sname b t0 ctx (F s) = on_state F (run_gate X run wname st sname b t0 ctx s)"
  by (simp add: run_gate_def Let_def case_prod_beta resolve_decision_facts_map failed_with_map finish_step_map outward
      save_map [where run = run] on_state_if split: sum.split)

lemma run_load_artifact_map: "region run \<Longrightarrow>
    run_load_artifact X run wname st sname b t0 ctx (F s) = on_state F (run_load_artifact X run wname st sname b t0 ctx s)"
  by (simp add: run_load_artifact_def failed_with_map finish_step_map split: sum.split)

lemma record_result_map: "region run \<Longrightarrow>
    record_result X run wname st sname b t0 out ctx (F s) = on_state F (record_result X run wname st sname b t0 out ctx s)"
  by (simp add: record_result_def Let_def failed_with_map finish_step_map split: sum.split)

lemma fire_notices_map: "fold (fire_notice run wname st) ns (F s) = F (fold (fire_notice run wname st) ns s)"
  by (induction ns arbitrary: s) (simp_all add: fire_notice_def outward split: notice.split)

lemma announce_wait_map: "announce_wait X run wname st b ps (F s) = F (announce_wait X run wname st b ps s)"
  by (simp add: announce_wait_def outward)

lemma run_executor_map: "region run \<Longrightarrow>
    run_executor X run wname st sname b merged t0 ctx (F s) = on_state F (run_executor X run wname st sname b merged t0 ctx s)"
  by (simp add: run_executor_def Let_def case_prod_beta failed_with_map record_result_map fire_notices_map announce_wait_map
      outward save_map [where run = run] split: sum.split option.split)

lemma run_typed_step_map: "region run \<Longrightarrow>
    run_typed_step X run wname st sname ctx (F s) = on_state F (run_typed_step X run wname st sname ctx s)"
  by (simp add: run_typed_step_def Let_def case_prod_beta run_set_fact_map run_assert_map run_gate_map
      run_load_artifact_map run_executor_map outward on_state_if)

subsection \<open>Guards and calls\<close>

lemma debug_pause_map:
  "debug_pause X run wname st sname phase ctx out (F s) = apsnd F (debug_pause X run wname st sname phase ctx out s)"
  by (simp add: debug_pause_def Let_def case_prod_beta outward split: option.split)

lemma skip_step_map: "region run \<Longrightarrow> skip_step X run wname st sname (F s) = F (skip_step X run wname st sname s)"
  by (simp add: skip_step_def Let_def case_prod_beta outward save_map [where run = run] new_row_def)

lemma check_when_map: "region run \<Longrightarrow>
    check_when X run wname st sname ctx (F s) = apsnd F (check_when X run wname st sname ctx s)"
  by (simp add: check_when_def eval_decision_bool_map)

lemma step_start_map: "region run \<Longrightarrow>
    step_start X run wname st sname ctx (F s) = on_guard F (step_start X run wname st sname ctx s)"
  by (simp add: step_start_def Let_def case_prod_beta check_when_map debug_pause_map failed_with_map skip_step_map outward
      split: sum.split option.split)

lemma step_guards_map: "region run \<Longrightarrow>
    step_guards X run wname st sname force ctx (F s) = on_guard F (step_guards X run wname st sname force ctx s)"
  by (simp add: step_guards_def rows step_start_map split: option.split)

text \<open>A runner of sub-workflows that does not notice the map.\<close>

definition runner_maps :: "'w runner \<Rightarrow> bool" where
  "runner_maps run_wf \<longleftrightarrow>
     (\<forall>run w ctx s. region run \<longrightarrow> run_wf run w ctx (F s) = map_option (on_state F) (run_wf run w ctx s))"

lemma start_sub_run_map: "region sub \<Longrightarrow>
    start_sub_run X sub run st w key vars (F s) = apsnd F (start_sub_run X sub run st w key vars s)"
  by (simp add: start_sub_run_def Let_def case_prod_beta outward creates [symmetric] sub_run_row_def)

lemma check_sub_run_map: "region sub \<Longrightarrow> check_sub_run sub st name (F s) = check_sub_run sub st name s"
  by (simp add: check_sub_run_def runs)

lemma end_call_map: "region (rn_run_id row) \<Longrightarrow>
    end_call run st w row ctx (on_state F res) = on_state F (end_call run st w row ctx res)"
  by (simp add: end_call_def Let_def case_prod_beta outward closes [symmetric] split: option.split)

lemma end_iteration_map: "region (rn_run_id row) \<Longrightarrow>
    end_iteration run st w key row (on_state F res) = on_state F (end_iteration run st w key row res)"
  by (simp add: end_iteration_def Let_def case_prod_beta outward closes [symmetric] split: option.split)

lemma started_region: "rn_run_id (fst (start_sub_run X sub run st w key vars s)) = sub"
  by (simp add: start_sub_run_def Let_def case_prod_beta sub_run_row_def)

lemma sub_region: "region run \<Longrightarrow> region (run @ CHR ''-'' # k)"
  using subs by simp

lemma call_sub_workflow_map:
  assumes "runner_maps run_wf" "region run"
  shows "call_sub_workflow X run_wf run st ctx (F s) = map_option (on_state F) (call_sub_workflow X run_wf run st ctx s)"
  using assms
  by (simp add: call_sub_workflow_def Let_def runner_maps_def start_sub_run_map check_sub_run_map sub_region
      option.map_comp comp_def end_call_map started_region split: sum.split option.split)

lemma iterate_workflow_map:
  assumes "runner_maps run_wf" "region run"
  shows "iterate_workflow X run_wf run st i item ctx (F s) = map_option (on_state F) (iterate_workflow X run_wf run st i item ctx s)"
  using assms
  by (simp add: iterate_workflow_def Let_def runner_maps_def start_sub_run_map check_sub_run_map sub_region
      option.map_comp comp_def end_iteration_map started_region split: sum.split option.split)

lemma close_step_event_map: "close_step_event run wname st (on_state F res) = on_state F (close_step_event run wname st res)"
  by (cases res) (simp add: close_step_event_def outward split: option.split)

lemma run_call_step_map:
  assumes "runner_maps run_wf" "region run"
  shows "run_call_step X run_wf run wname st ctx (F s) = map_option (on_state F) (run_call_step X run_wf run wname st ctx s)"
  by (simp add: run_call_step_def outward call_sub_workflow_map [OF assms] option.map_comp comp_def close_step_event_map)

lemma run_plain_step_map:
  assumes "runner_maps run_wf" "region run"
  shows "run_plain_step X run_wf run wname st sname force ctx (F s) =
    map_option (on_state F) (run_plain_step X run_wf run wname st sname force ctx s)"
  by (cases "step_guards X run wname st sname force ctx s")
    (simp_all add: run_plain_step_def step_guards_map [OF assms(2)] run_call_step_map [OF assms] run_typed_step_map [OF assms(2)])

lemma pause_after_map: "region run \<Longrightarrow>
    pause_after X run wname st sname before ctx (F s) = on_state F (pause_after X run wname st sname before ctx s)"
  by (simp add: pause_after_def Let_def case_prod_beta rows debug_pause_map on_state_if split: option.split)

lemma with_debugger_map:
  assumes "region run" "\<And>s. core (F s) = map_option (on_state F) (core s)"
  shows "with_debugger X run wname st sname core (F s) = map_option (on_state F) (with_debugger X run wname st sname core s)"
  by (simp add: with_debugger_def assms(2) rows [OF assms(1)] pause_after_map [OF assms(1)] split: option.split)

subsection \<open>Loops, sections, workflows\<close>

lemma plain_debugged_map:
  assumes "runner_maps run_wf" "region run"
  shows "with_debugger X run wname st sname (run_plain_step X run_wf run wname st sname force ctx) (F s) =
    map_option (on_state F) (with_debugger X run wname st sname (run_plain_step X run_wf run wname st sname force ctx) s)"
  by (rule with_debugger_map [OF assms(2)]) (rule run_plain_step_map [OF assms])

lemma iterate_step_map:
  assumes "runner_maps run_wf" "region run"
  shows "iterate_step X run_wf run wname st i item ctx (F s) =
    map_option (on_state F) (iterate_step X run_wf run wname st i item ctx s)"
  by (simp add: iterate_step_def Let_def plain_debugged_map [OF assms] split: option.split)

lemma iterate_map:
  assumes "runner_maps run_wf" "region run"
  shows "iterate X run_wf run wname st i item ctx (F s) = map_option (on_state F) (iterate X run_wf run wname st i item ctx s)"
  by (simp add: iterate_def iterate_workflow_map [OF assms] iterate_step_map [OF assms])

lemma for_each_loop_map:
  assumes "runner_maps run_wf" "region run"
  shows "for_each_loop X run_wf run wname st i items ctx results (F s) =
    map_option (on_state F) (for_each_loop X run_wf run wname st i items ctx results s)"
proof (induction items arbitrary: i results s)
  case (Cons item items)
  then show ?case
    by (simp add: iterate_map [OF assms] Let_def split: sum.split bool.split option.split)
qed simp

lemma run_for_each_map:
  assumes "runner_maps run_wf" "region run"
  shows "run_for_each X run_wf run wname st ctx (F s) = map_option (on_state F) (run_for_each X run_wf run wname st ctx s)"
  by (simp add: run_for_each_def Let_def for_each_loop_map [OF assms] option.map_comp comp_def on_state_case
      split: sum.split option.split)

lemma run_step_core_map:
  assumes "runner_maps run_wf" "region run"
  shows "run_step_core X run_wf run wname st sname force ctx (F s) =
    map_option (on_state F) (run_step_core X run_wf run wname st sname force ctx s)"
  by (simp add: run_step_core_def run_plain_step_map [OF assms] step_guards_map [OF assms(2)] run_for_each_map [OF assms]
      outward option.map_comp comp_def close_step_event_map split: sum.split)

lemma run_step_map:
  assumes "runner_maps run_wf" "region run"
  shows "run_step X run_wf run wname st sname force ctx (F s) = map_option (on_state F) (run_step X run_wf run wname st sname force ctx s)"
  unfolding run_step_def by (rule with_debugger_map [OF assms(2)]) (rule run_step_core_map [OF assms])

lemma run_steps_map:
  assumes "runner_maps run_wf" "region run"
  shows "run_steps X run_wf run wname sts ctx (F s) = map_option (on_state F) (run_steps X run_wf run wname sts ctx s)"
  by (induction sts arbitrary: ctx s) (simp_all add: run_step_map [OF assms] split: option.split)

lemma run_terminal_map:
  assumes "runner_maps run_wf" "region run"
  shows "run_terminal X run_wf run wname section sts ctx (F s) =
    map_option (on_state F) (run_terminal X run_wf run wname section sts ctx s)"
  by (induction sts arbitrary: ctx s)
    (simp_all add: run_step_map [OF assms] option.map_comp comp_def on_state_case split: option.split)

lemma execute_workflow_map:
  assumes "runner_maps run_wf"
  shows "runner_maps (execute_workflow X run_wf)"
  unfolding runner_maps_def execute_workflow_def
  by (simp add: run_steps_map [OF assms] run_terminal_map [OF assms] option.map_comp comp_def on_state_case
      split: option.split)

lemma run_workflow_maps: "runner_maps (run_workflow n X)"
  by (induction n) (simp_all add: execute_workflow_map, simp add: runner_maps_def)

lemma run_workflow_map: "region run \<Longrightarrow>
    run_workflow n X run w ctx (F s) = map_option (on_state F) (run_workflow n X run w ctx s)"
  using run_workflow_maps unfolding runner_maps_def by blast

end

end
