(* ===== verification/Run_Views.thy ===== *)
theory Run_Views
  imports Engine_Maps Engine_Props
begin

text \<open>
  What an execution reads. A run sees the rows of its own id and of the runs below it, the clock and the world;
  two instances of \<open>engine_map\<close> show that it reads no other row and no event, and that what other runs write
  can therefore not change what it does.
\<close>

subsection \<open>The rows of some runs\<close>

definition only_rows :: "(string \<Rightarrow> bool) \<Rightarrow> 'w eng \<Rightarrow> 'w eng" where
  "only_rows P s = s\<lparr>en_store := \<lparr>db_runs = filter (\<lambda>r. P (rn_run_id r)) (db_runs (en_store s)),
     db_steps = filter (\<lambda>r. P (sr_run_id r)) (db_steps (en_store s)), db_checks = []\<rparr>\<rparr>"

lemma filter_upsert: "P (sr_run_id r) \<Longrightarrow>
    filter (\<lambda>r. P (sr_run_id r)) (upsert r qs) = upsert r (filter (\<lambda>r. P (sr_run_id r)) qs)"
  by (induction qs) (auto simp: step_key_def)

lemma find_run_filter: "P i \<Longrightarrow> find_run (filter (\<lambda>r. P (rn_run_id r)) rs) i = find_run rs i"
  by (induction rs) auto

lemma find_row_filter: "P i \<Longrightarrow> find_step_row (filter (\<lambda>r. P (sr_run_id r)) rs) (i, w, n) = find_step_row rs (i, w, n)"
  by (induction rs) (auto simp: step_key_def)

lemma stamp_row_id [simp]: "sr_run_id (stamp_row G f r) = sr_run_id r"
  by (simp add: stamp_row_def split: option.split prod.split)

lemma filter_map_ids:
  "(\<And>r. rn_run_id (f r) = rn_run_id r) \<Longrightarrow>
     filter (\<lambda>r. P (rn_run_id r)) (map f rs) = map f (filter (\<lambda>r. P (rn_run_id r)) rs)"
  by (induction rs) auto

lemma only_rows_save: "P (sr_run_id r) \<Longrightarrow> only_rows P (save_row X r s) = save_row X r (only_rows P s)"
  using filter_upsert [of P "stamp_row (x_lib X) (x_file X) r"]
  by (simp add: only_rows_def save_row_def with_store_def save_step_def)

lemma only_rows_create: "P (rn_run_id q) \<Longrightarrow> only_rows P (create_run_ignored q s) = create_run_ignored q (only_rows P s)"
  using find_run_filter [of P "rn_run_id q" "db_runs (en_store s)"]
  by (auto simp: only_rows_def create_run_ignored_def create_run_def with_store_def)

lemma only_rows_close: "only_rows P (close_run q st c s) = close_run q st c (only_rows P s)"
  by (simp add: only_rows_def close_run_def with_store_def update_run_def filter_map_ids)

lemma below_closed: "below run r \<Longrightarrow> below run (r @ ''-'' @ k)"
  by (auto simp: below_def has_prefix_iff)

interpretation own_rows: engine_map "only_rows (below run0)" "below run0" X for run0 and X :: "'w ext"
proof unfold_locales
  show "below run0 (run @ ''-'' @ k)" if "below run0 run" for run k using that by (rule below_closed)
  show "row_of (only_rows (below run0) s) run wname sname = row_of s run wname sname" if "below run0 run"
    for run wname sname and s :: "'w eng"
    using that by (simp add: row_of_def get_step_def only_rows_def find_row_filter)
  show "get_run (en_store (only_rows (below run0) s)) run = get_run (en_store s) run" if "below run0 run"
    for run and s :: "'w eng"
    using that by (simp add: get_run_def only_rows_def find_run_filter)
qed (simp_all add: only_rows_save only_rows_create only_rows_close, simp_all add: only_rows_def fire_def now_def set_world_def)

subsection \<open>Events\<close>

definition after_events :: "event list \<Rightarrow> 'w eng \<Rightarrow> 'w eng" where
  "after_events es s = s\<lparr>en_events := es @ en_events s\<rparr>"

lemma after_events_store: "after_events es (with_store f s) = with_store f (after_events es s)"
  "en_store (after_events es s) = en_store s"
  by (simp_all add: after_events_def with_store_def)

interpretation past_events: engine_map "after_events es" "\<lambda>r. True" X for es and X :: "'w ext"
  by unfold_locales
    (simp_all add: save_row_def create_run_ignored_def close_run_def after_events_store row_of_def,
     simp_all add: after_events_def fire_def now_def set_world_def)

subsection \<open>What a run sees\<close>

definition view :: "string \<Rightarrow> 'w eng \<Rightarrow> 'w eng" where
  "view run s = (only_rows (below run) s)\<lparr>en_events := []\<rparr>"

lemma only_rows_events [simp]: "en_events (only_rows P s) = en_events s"
  by (simp add: only_rows_def)

lemma view_then_events: "after_events (en_events s) (view run s) = only_rows (below run) s"
  by (simp add: after_events_def view_def)

lemma view_events: "after_events es t0 = only_rows (below run) t \<Longrightarrow>
    view run t = t0\<lparr>en_events := []\<rparr> \<and> en_events t = es @ en_events t0"
proof -
  assume eq: "after_events es t0 = only_rows (below run) t"
  have "en_events t = en_events (after_events es t0)" using eq by simp
  then show ?thesis by (simp add: view_def eq [symmetric]) (simp add: after_events_def)
qed

text \<open>An execution from the view alone, with the rest of the state put back.\<close>

lemma run_on_view:
  "map_option (on_state (only_rows (below run))) (run_workflow n X run w ctx s) =
     map_option (on_state (after_events (en_events s))) (run_workflow n X run w ctx (view run s))"
  using own_rows.run_workflow_map [where run = run and ?run0.0 = run and s = s]
    past_events.run_workflow_map [where es = "en_events s" and s = "view run s" and run = run]
  by (simp add: view_then_events below_def)

text \<open>C6. A run reads only its own rows: two executions of a workflow for a run, from states with the same rows of
  that run and of the runs below it, the same clock and the same world, return the same error and the same variables,
  fire the same events and leave the same view, whatever else the store holds.\<close>

theorem run_reads_own_rows:
  assumes "view run s = view run s'" "run_workflow n X run w ctx s = Some (err, ctx', t)"
  shows "\<exists>t' es. run_workflow n X run w ctx s' = Some (err, ctx', t') \<and> view run t = view run t' \<and>
    en_events t = en_events s @ es \<and> en_events t' = en_events s' @ es"
proof -
  have "map_option (on_state (after_events (en_events s))) (run_workflow n X run w ctx (view run s)) =
      Some (err, ctx', only_rows (below run) t)"
    using run_on_view [of run n X w ctx s] assms(2) by simp
  then obtain t0 where t0: "run_workflow n X run w ctx (view run s) = Some (err, ctx', t0)"
    "after_events (en_events s) t0 = only_rows (below run) t"
    by (auto simp: on_state_def)
  have "map_option (on_state (only_rows (below run))) (run_workflow n X run w ctx s') =
      Some (err, ctx', after_events (en_events s') t0)"
    using run_on_view [of run n X w ctx s'] t0(1) assms(1) by simp
  then obtain t' where t': "run_workflow n X run w ctx s' = Some (err, ctx', t')"
    "after_events (en_events s') t0 = only_rows (below run) t'"
    by (auto simp: on_state_def)
  show ?thesis using view_events [OF t0(2)] view_events [OF t'(2)] t'(1) by auto
qed

theorem run_reads_own_rows_witness:
  "\<exists>e c t t'. run_workflow 2 (sample_ext sample_file) ''r'' sample_main [] sample_eng = Some (e, c, t) \<and>
     run_workflow 2 (sample_ext sample_file) ''r'' sample_main [] (with_store (save_step blank_row) sample_eng) = Some (e, c, t') \<and>
     view ''r'' t = view ''r'' t'"
proof (rule sample_main_returns [of "''r''" sample_eng])
  fix e c t
  assume run: "run_workflow 2 (sample_ext sample_file) ''r'' sample_main [] sample_eng = Some (e, c, t)"
  have "\<not> below ''r'' ''r1''" by (simp add: below_def)
  then have "view ''r'' sample_eng = view ''r'' (with_store (save_step blank_row) sample_eng)"
    by (simp add: view_def only_rows_def sample_eng_def empty_store_def save_step_def with_store_def blank_row_def)
  from run_reads_own_rows [OF this run] run show ?thesis by blast
qed

end
