(* ===== verification/Interleave.thy ===== *)
theory Interleave
  imports Fan_Out Run_Views
begin

text \<open>
  What the goroutines of a for_each loop do to the engine they share (the body of the \<open>go\<close> statement in
  \<open>executeForEach\<close>). Everything an execution does to the engine is a sequence of single operations: an event, a
  reading of the clock, an act on the world, a row saved, a run created or closed. Each operation is atomic, for the
  store has one connection or a server that runs a statement at a time, and callbacks and executors
  keep their own locks; the operations of several iterations may come in any order. The theorem says that
  the rows of the store do not depend on that order.
\<close>

subsection \<open>Single operations\<close>

datatype 'w eng_op =
    Fire_Op event | Tick_Op | Act_Op 'w
  | Save_Op step_row | Create_Op run_row | Close_Op run_row run_status "int option"

fun apply_op :: "'w ext \<Rightarrow> 'w eng_op \<Rightarrow> 'w eng \<Rightarrow> 'w eng" where
  "apply_op X (Fire_Op e) s = fire e s"
| "apply_op X Tick_Op s = snd (now s)"
| "apply_op X (Act_Op w) s = set_world w s"
| "apply_op X (Save_Op r) s = save_row X r s"
| "apply_op X (Create_Op q) s = create_run_ignored q s"
| "apply_op X (Close_Op q st c) s = close_run q st c s"

text \<open>The places of the store, and the one an operation writes.\<close>

datatype place = Row_Place string string string | Run_Place string

fun writes :: "'w eng_op \<Rightarrow> place option" where
  "writes (Save_Op r) = Some (Row_Place (sr_run_id r) (sr_workflow_name r) (sr_step_name r))"
| "writes (Create_Op q) = Some (Run_Place (rn_run_id q))"
| "writes (Close_Op q st c) = Some (Run_Place (rn_run_id q))"
| "writes op = None"

definition owned :: "(place \<Rightarrow> bool) \<Rightarrow> 'w eng_op \<Rightarrow> bool" where
  "owned P op \<longleftrightarrow> (\<forall>p. writes op = Some p \<longrightarrow> P p)"

definition apply_all :: "'w ext \<Rightarrow> 'w eng_op list \<Rightarrow> 'w eng \<Rightarrow> 'w eng" where
  "apply_all X ops s = fold (apply_op X) ops s"

definition performs :: "'w ext \<Rightarrow> (place \<Rightarrow> bool) \<Rightarrow> 'w eng \<Rightarrow> 'w eng \<Rightarrow> bool" where
  "performs X P s t \<longleftrightarrow> (\<exists>ops. list_all (owned P) ops \<and> t = apply_all X ops s)"

lemma apply_all_append: "apply_all X (ops @ rest) s = apply_all X rest (apply_all X ops s)"
  by (simp add: apply_all_def)

lemma performs_one: "owned P op \<Longrightarrow> performs X P s (apply_op X op s)"
  unfolding performs_def by (intro exI [of _ "[op]"]) (simp add: apply_all_def)

lemma performs_refl: "performs X P s s"
  unfolding performs_def by (intro exI [of _ "[]"]) (simp add: apply_all_def)

lemma performs_trans: "performs X P s t \<Longrightarrow> performs X P t u \<Longrightarrow> performs X P s u"
  unfolding performs_def by (metis apply_all_append list_all_append)

lemma performs_mono: "performs X P s t \<Longrightarrow> (\<And>p. P p \<Longrightarrow> Q p) \<Longrightarrow> performs X Q s t"
  unfolding performs_def by (auto simp: list_all_iff owned_def)

lemma performs_silent:
  "performs X P s (fire e s)" "performs X P s (snd (now s))" "performs X P s (set_world w s)"
  using performs_one [of P "Fire_Op e" X s] performs_one [of P Tick_Op X s] performs_one [of P "Act_Op w" X s]
  by (simp_all add: owned_def)

lemma performs_writes:
  "P (Row_Place (sr_run_id r) (sr_workflow_name r) (sr_step_name r)) \<Longrightarrow> performs X P s (save_row X r s)"
  "P (Run_Place (rn_run_id q)) \<Longrightarrow> performs X P s (create_run_ignored q s)"
  "P (Run_Place (rn_run_id q)) \<Longrightarrow> performs X P s (close_run q st c s)"
  using performs_one [of P "Save_Op r" X s] performs_one [of P "Create_Op q" X s] performs_one [of P "Close_Op q st c" X s]
  by (simp_all add: owned_def)

subsection \<open>What an execution performs\<close>

text \<open>The places of a run and of the runs below it, and those of a step.\<close>

fun run_places :: "string \<Rightarrow> place \<Rightarrow> bool" where
  "run_places run (Row_Place i w n) \<longleftrightarrow> below run i"
| "run_places run (Run_Place i) \<longleftrightarrow> below run i"

fun step_places :: "string \<Rightarrow> string \<Rightarrow> string \<Rightarrow> place \<Rightarrow> bool" where
  "step_places run wname sname (Row_Place i w n) \<longleftrightarrow> i = run \<and> w = wname \<and> row_of_step sname n"
| "step_places run wname sname (Run_Place i) \<longleftrightarrow> False"

lemma below_refl [simp]: "below run run"
  by (simp add: below_def)

lemma below_dash [simp]: "below run (run @ CHR ''-'' # k)"
  by (simp add: below_def has_prefix_iff)

lemma run_places_sub: "run_places (run @ ''-'' @ k) p \<Longrightarrow> run_places run p"
  using below_sub by (cases p) auto

text \<open>Whatever the engine executes for a run, it performs as operations on the places of that run; what it executes of a step
  without a call, on the places of that step.\<close>

interpretation work: engine_relation "\<lambda>run. performs X (run_places run)" X for X :: "'w ext"
proof unfold_locales
  show "performs X (run_places run) s t" if "performs X (run_places (run @ ''-'' @ k)) s t" for run k and s t :: "'w eng"
    using that run_places_sub by (rule performs_mono)
  show "performs X (run_places run) s u" if "performs X (run_places run) s t" "performs X (run_places run) t u"
    for run and s t u :: "'w eng"
    using that by (rule performs_trans)
qed (auto intro: performs_refl performs_silent performs_writes)

interpretation step_work: step_relation "\<lambda>run wname sname. performs X (step_places run wname sname)" X for X :: "'w ext"
proof unfold_locales
  show "performs X (step_places run wname sname) s u"
    if "performs X (step_places run wname sname) s t" "performs X (step_places run wname sname) t u"
    for run wname sname and s t u :: "'w eng"
    using that by (rule performs_trans)
qed (auto intro: performs_refl performs_silent performs_writes)

text \<open>The run of an iteration that calls a workflow, the row of one that does not, and the places of both.\<close>

definition iteration_run :: "golib \<Rightarrow> string \<Rightarrow> step \<Rightarrow> nat \<Rightarrow> val \<Rightarrow> string" where
  "iteration_run G run st i item = run @ ''-'' @ st_name st @ ''-'' @ iteration_key G st i item"

definition iteration_row :: "golib \<Rightarrow> step \<Rightarrow> nat \<Rightarrow> val \<Rightarrow> string" where
  "iteration_row G st i item = st_name st @ ''['' @ iteration_key G st i item @ '']''"

definition iteration_places :: "golib \<Rightarrow> string \<Rightarrow> string \<Rightarrow> step \<Rightarrow> nat \<Rightarrow> val \<Rightarrow> place \<Rightarrow> bool" where
  "iteration_places G run wname st i item =
     (if st_workflow st \<noteq> [] then run_places (iteration_run G run st i item)
      else step_places run wname (iteration_row G st i item))"

lemma performs_end_iteration:
  assumes "rn_run_id row = sub" "performs X (run_places sub) s (snd (snd res))"
  shows "performs X (run_places sub) s (snd (snd (end_iteration run st w key row res)))"
proof -
  obtain err vars u where res: "res = (err, vars, u)" by (cases res)
  have tick: "performs X (run_places sub) s (snd (now u))" using work.step.step_now assms(2) res by simp
  have close: "performs X (run_places sub) v (close_run row rs c v)" for v rs c
    using assms(1) by (intro performs_writes) simp
  have event: "performs X (run_places sub) s (fire ev (snd (now u)))" for ev
    using work.step.step_fire tick by blast
  show ?thesis
    using performs_trans [OF event close]
    by (simp add: end_iteration_def res Let_def case_prod_beta split: option.split)
qed

lemma start_sub_run_performs:
  "performs X (run_places sub) s (snd (start_sub_run X sub run st w key vars s))"
proof -
  let ?q = "sub_run_row X sub run st w key vars (fst (now s))"
  have "performs X (run_places sub) s (create_run_ignored ?q (snd (now s)))"
    by (rule performs_trans [OF performs_silent(2) performs_writes(2)]) (simp add: sub_run_row_def)
  then show ?thesis by (simp add: start_sub_run_def Let_def case_prod_beta work.step.step_fire)
qed

lemma call_performs:
  assumes "st_workflow st \<noteq> []" "iterate X (run_workflow n X) run wname st i item ctx s = Some (err, res, t)"
  shows "performs X (run_places (iteration_run (x_lib X) run st i item)) s t"
proof -
  define sub where "sub = iteration_run (x_lib X) run st i item"
  let ?key = "iteration_key (x_lib X) st i item"
  have it: "iterate_workflow X (run_workflow n X) run st i item ctx s = Some (err, res, t)"
    using assms by (simp add: iterate_def)
  have sub: "run @ CHR ''-'' # st_name st @ CHR ''-'' # ?key = sub" by (simp add: sub_def iteration_run_def)
  show ?thesis unfolding sub_def [symmetric]
  proof (cases "resolve_sub_workflow X st (mput (st_as st) item (mcopy ctx []))")
    case (Inl e)
    then have "t = s" using it by (simp add: iterate_workflow_def)
    then show "performs X (run_places sub) s t" by (simp add: work.refl)
  next
    case w: (Inr w)
    show "performs X (run_places sub) s t"
    proof (cases "iteration_vars X st w item ctx")
      case (Inl e)
      then have "t = s" using it w by (simp add: iterate_workflow_def)
      then show ?thesis by (simp add: work.refl)
    next
      case vars: (Inr vars)
      show ?thesis
      proof (cases "check_sub_run sub st (wf_name w) s")
        case (Some e)
        then have "t = s" using it w vars by (simp add: iterate_workflow_def sub Let_def)
        then show ?thesis by (simp add: work.refl)
      next
        case None
        let ?p = "start_sub_run X sub run st w ?key vars s"
        from it w vars None obtain out where out: "run_workflow n X sub w vars (snd ?p) = Some out"
          "end_iteration run st w ?key (fst ?p) out = (err, res, t)"
          by (auto simp: iterate_workflow_def sub Let_def)
        have "performs X (run_places sub) (snd ?p) (snd (snd out))" using out(1) work.run_workflow_R by (cases out) auto
        then have "performs X (run_places sub) s (snd (snd out))" by (rule performs_trans [OF start_sub_run_performs])
        then have "performs X (run_places sub) s (snd (snd (end_iteration run st w ?key (fst ?p) out)))"
          by (rule performs_end_iteration [OF work.start_sub_run_id])
        then show ?thesis using out(2) by simp
      qed
    qed
  qed
qed

lemma iteration_performs:
  assumes "iterate X (run_workflow n X) run wname st i item ctx s = Some (err, res, t)"
  shows "performs X (iteration_places (x_lib X) run wname st i item) s t"
proof (cases "st_workflow st = []")
  case True
  with assms have "iterate_step X (run_workflow n X) run wname st i item ctx s = Some (err, res, t)" by (simp add: iterate_def)
  from step_work.iterate_step_rel [OF True performs_refl _ this, of "iteration_row (x_lib X) st i item"] True
  show ?thesis by (simp add: iteration_places_def iteration_row_def)
qed (use call_performs assms in \<open>simp add: iteration_places_def\<close>)

subsection \<open>Operations on different places commute\<close>

text \<open>Two states that hold the same at a place.\<close>

fun same_at :: "place \<Rightarrow> 'w eng \<Rightarrow> 'w eng \<Rightarrow> bool" where
  "same_at (Row_Place i w n) s t \<longleftrightarrow> row_of s i w n = row_of t i w n"
| "same_at (Run_Place i) s t \<longleftrightarrow> get_run (en_store s) i = get_run (en_store t) i"

lemma same_at_refl [simp]: "same_at p s s"
  by (cases p) simp_all

lemma same_at_trans: "same_at p s t \<Longrightarrow> same_at p t u \<Longrightarrow> same_at p s u"
  by (cases p) simp_all

lemma same_at_sym: "same_at p s t \<Longrightarrow> same_at p t s"
  by (cases p) simp_all

lemma get_run_create: "get_run (en_store (create_run_ignored q s)) i =
    (case get_run (en_store s) i of Inr r \<Rightarrow> Inr r
     | Inl e \<Rightarrow> if rn_run_id q = i then Inr (q\<lparr>rn_completed_at := None\<rparr>) else Inl e)"
  by (simp add: get_run_def find_run_create split: option.split)

lemma get_run_frames [simp]:
  "get_run (en_store (snd (now s))) i = get_run (en_store s) i" "get_run (en_store (set_world w s)) i = get_run (en_store s) i"
  by (simp_all add: now_def set_world_def)

lemma get_run_close_other: "i \<noteq> rn_run_id q \<Longrightarrow> get_run (en_store (close_run q st c s)) i = get_run (en_store s) i"
  by (cases "get_run (en_store s) i") (simp_all add: get_run_close)

lemma apply_op_same: "same_at p s t \<Longrightarrow> same_at p (apply_op X op s) (apply_op X op t)"
  by (cases p; cases op) (simp_all add: row_of_save_row get_run_create get_run_close)

text \<open>An operation leaves every place but its own as it is.\<close>

lemma apply_op_other: "writes op \<noteq> Some p \<Longrightarrow> same_at p (apply_op X op s) s"
  by (cases p; cases op)
    (auto simp: row_of_save_row step_key_def get_run_create intro: get_run_close_other split: sum.split)

text \<open>So a place ends as the operations on it leave it.\<close>

lemma apply_all_place: "same_at p (apply_all X ops s) (apply_all X (filter (\<lambda>op. writes op = Some p) ops) s)"
proof (induction ops rule: rev_induct)
  case (snoc op ops)
  let ?own = "apply_all X (filter (\<lambda>op. writes op = Some p) ops) s"
  have "same_at p (apply_all X (ops @ [op]) s) (apply_op X op ?own)"
    using apply_op_same [OF snoc] by (simp add: apply_all_def)
  moreover have "writes op \<noteq> Some p \<Longrightarrow> same_at p (apply_op X op ?own) ?own" by (rule apply_op_other)
  ultimately show ?case using same_at_trans by (cases "writes op = Some p") (simp_all add: apply_all_def, blast)
qed simp

text \<open>What a run reads of the store (its view) does not change by an operation of a run that shares no id with it.\<close>

lemma filter_upsert_other: "\<not> P (sr_run_id r) \<Longrightarrow>
    filter (\<lambda>q. P (sr_run_id q)) (upsert r qs) = filter (\<lambda>q. P (sr_run_id q)) qs"
  by (induction qs) (auto simp: step_key_def)

lemma filter_update_other:
  "\<not> P i \<Longrightarrow> filter (\<lambda>q. P (rn_run_id q)) (map (\<lambda>q. if rn_run_id q = i then q\<lparr>rn_status := st, rn_completed_at := c\<rparr> else q) rs) =
     filter (\<lambda>q. P (rn_run_id q)) rs"
  by (induction rs) auto

lemma apply_op_view:
  assumes "owned (run_places j) op" "\<And>r. below j r \<Longrightarrow> \<not> below i r"
  shows "en_store (view i (apply_op X op s)) = en_store (view i s)"
proof (cases op)
  case (Save_Op r)
  then show ?thesis
    using assms filter_upsert_other [of "below i" "stamp_row (x_lib X) (x_file X) r" "db_steps (en_store s)"]
    by (simp add: view_def only_rows_def save_row_def save_step_def owned_def)
next
  case (Create_Op q)
  then show ?thesis using assms by (simp add: view_def only_rows_def create_run_ignored_def create_run_def owned_def)
next
  case (Close_Op q st c)
  then show ?thesis using assms filter_update_other [of "below i" "rn_run_id q"]
    by (simp add: view_def only_rows_def close_run_def update_run_def owned_def)
qed (simp_all add: view_def only_rows_def set_world_def now_def)

subsection \<open>Iterations have no place in common\<close>

lemma takeWhile_not:
  "c \<notin> set k \<Longrightarrow> takeWhile (\<lambda>d. d \<noteq> c) k = k" "c \<notin> set k \<Longrightarrow> takeWhile (\<lambda>d. d \<noteq> c) (k @ c # t) = k"
  by (induction k) auto

lemma below_key:
  assumes "below (b @ ''-'' @ k) r" "CHR ''-'' \<notin> set k"
  shows "k = takeWhile (\<lambda>c. c \<noteq> CHR ''-'') (drop (Suc (length b)) r)"
proof -
  from assms(1) consider "r = b @ CHR ''-'' # k" | t where "r = b @ CHR ''-'' # k @ CHR ''-'' # t"
    by (auto simp: below_def has_prefix_iff)
  then show ?thesis using assms(2) by cases (simp_all add: takeWhile_not)
qed

text \<open>Keys that keep iterations apart: they differ, they have no dash where they continue a run id, and the step's name is not one of a
  decision's receipt, which validation refuses.\<close>

definition apart_keys :: "golib \<Rightarrow> step \<Rightarrow> val list \<Rightarrow> bool" where
  "apart_keys G st items \<longleftrightarrow> distinct (map (\<lambda>i. iteration_key G st i (items ! i)) [0..<length items]) \<and>
     (if st_workflow st \<noteq> [] then \<forall>i<length items. CHR ''-'' \<notin> set (iteration_key G st i (items ! i))
      else \<not> has_prefix (st_name st) ''__jev__/'')"

lemma index_keys_apart:
  "st_for_each_key st = [] \<Longrightarrow> \<not> has_prefix (st_name st) ''__jev__/'' \<Longrightarrow> apart_keys G st items"
  using nat_text_digits by (fastforce simp: apart_keys_def iteration_key_def distinct_map inj_on_def nat_text_inj is_digit_def)

lemma apart_keys_inj:
  "apart_keys G st items \<Longrightarrow> i < length items \<Longrightarrow> j < length items \<Longrightarrow>
     iteration_key G st i (items ! i) = iteration_key G st j (items ! j) \<Longrightarrow> i = j"
  by (simp add: apart_keys_def distinct_conv_nth) (metis add_0)

lemma decision_key_inj: "decision_key m i = decision_key n j \<Longrightarrow> m = n"
  by (simp add: decision_key_def append_eq_append_conv length_sha_hex)

lemma row_not_decision:
  assumes "\<not> has_prefix name ''__jev__/''"
  shows "name @ ''['' @ k \<noteq> decision_key n identity"
proof
  assume "name @ ''['' @ k = decision_key n identity"
  then have "name @ (CHR ''['' # k) = ''__jev__/'' @ (n @ ''/'' @ sha_hex identity)" by (simp add: decision_key_def)
  from iffD1 [OF append_eq_append_conv2 this]
  consider us where "name = ''__jev__/'' @ us" | us where "name @ us = ''__jev__/''" "CHR ''['' # k = us @ n @ ''/'' @ sha_hex identity"
    by blast
  then show False
  proof cases
    case 1
    then show ?thesis using assms by (simp add: has_prefix_iff)
  next
    case 2
    show ?thesis
    proof (cases us)
      case Nil
      then show ?thesis using 2(1) assms by (simp add: has_prefix_iff)
    next
      case (Cons c cs)
      then have "CHR ''['' \<in> set ''__jev__/''" using 2 by (metis Cons_eq_appendI in_set_conv_decomp list.inject)
      then show ?thesis by simp
    qed
  qed
qed

lemma row_of_step_inj:
  assumes "\<not> has_prefix name ''__jev__/''" "row_of_step (name @ ''['' @ k) n" "row_of_step (name @ ''['' @ l) n"
  shows "k = l"
  using assms(2,3) row_not_decision [OF assms(1)] decision_key_inj unfolding row_of_step_def
  by (metis append_same_eq same_append_eq)

lemma iteration_places_disjoint:
  assumes "apart_keys G st items" "i < length items" "j < length items"
    and "iteration_places G run wname st i (items ! i) p" "iteration_places G run wname st j (items ! j) p"
  shows "i = j"
proof (rule apart_keys_inj [OF assms(1-3)])
  show "iteration_key G st i (items ! i) = iteration_key G st j (items ! j)"
  proof (cases "st_workflow st = []")
    case True
    then obtain run' w n where p: "p = Row_Place run' w n" using assms(4) by (cases p) (auto simp: iteration_places_def)
    have "\<not> has_prefix (st_name st) ''__jev__/''" using assms(1) True by (simp add: apart_keys_def)
    from row_of_step_inj [OF this, of "iteration_key G st i (items ! i) @ '']''" n "iteration_key G st j (items ! j) @ '']''"]
    show ?thesis using assms(4,5) p True by (simp add: iteration_places_def iteration_row_def)
  next
    case False
    define r where "r = (case p of Row_Place a w n \<Rightarrow> a | Run_Place a \<Rightarrow> a)"
    have key: "iteration_key G st k (items ! k) =
        takeWhile (\<lambda>c. c \<noteq> CHR ''-'') (drop (Suc (length (run @ ''-'' @ st_name st))) r)"
      if "k < length items" "iteration_places G run wname st k (items ! k) p" for k
    proof (rule below_key)
      show "below ((run @ ''-'' @ st_name st) @ ''-'' @ iteration_key G st k (items ! k)) r"
        using that(2) False by (cases p) (simp_all add: iteration_places_def iteration_run_def r_def)
    qed (use assms(1) False that(1) in \<open>simp add: apart_keys_def\<close>)
    show ?thesis using key [OF assms(2,4)] key [OF assms(3,5)] by simp
  qed
qed

subsection \<open>The order of the operations does not matter\<close>

text \<open>The operations of one iteration, in their order.\<close>

definition ops_of :: "nat \<Rightarrow> (nat \<times> 'w eng_op) list \<Rightarrow> 'w eng_op list" where
  "ops_of i tops = map snd (filter (\<lambda>p. fst p = i) tops)"

definition serial :: "nat list \<Rightarrow> (nat \<times> 'w eng_op) list \<Rightarrow> (nat \<times> 'w eng_op) list" where
  "serial order tops = concat (map (\<lambda>i. filter (\<lambda>p. fst p = i) tops) order)"

lemma serial_ops: "map snd (serial order tops) = concat (map (\<lambda>i. ops_of i tops) order)"
  by (simp add: serial_def ops_of_def map_concat comp_def)

lemma filter_serial:
  assumes "distinct order"
  shows "filter (\<lambda>p. fst p = i) (serial order tops) = (if i \<in> set order then filter (\<lambda>p. fst p = i) tops else [])"
  using assms
proof (induction order)
  case (Cons j order)
  have "filter (\<lambda>p. fst p = i) (filter (\<lambda>p. fst p = j) tops) = (if i = j then filter (\<lambda>p. fst p = i) tops else [])"
    by (auto simp: filter_empty_conv)
  with Cons show ?case by (auto simp: serial_def)
qed (simp add: serial_def)

lemma filter_tag:
  "\<forall>q\<in>set tops. Q q \<longrightarrow> fst q = j \<Longrightarrow> filter Q tops = filter Q (filter (\<lambda>q. fst q = j) tops)"
  by (induction tops) auto

lemma interleaving_serial:
  assumes own: "\<forall>q\<in>set tops. owned (region (fst q)) (snd q)"
    and one: "\<forall>i\<in>set order. \<forall>j\<in>set order. region i p \<and> region j p \<longrightarrow> i = j"
    and order: "distinct order" "set (map fst tops) \<subseteq> set order"
  shows "same_at p (apply_all X (map snd tops) s) (apply_all X (map snd (serial order tops)) s)"
proof -
  let ?Q = "\<lambda>q. writes (snd q) = Some p"
  have tags: "set (serial order tops) \<subseteq> set tops" by (auto simp: serial_def)
  have "filter ?Q tops = filter ?Q (serial order tops)"
  proof (cases "\<exists>q\<in>set tops. ?Q q")
    case True
    then obtain q where q: "q \<in> set tops" "?Q q" by blast
    have place: "region (fst x) p \<and> fst x \<in> set order" if "x \<in> set tops" "?Q x" for x
      using own order(2) that by (auto simp: owned_def)
    have all: "\<forall>x\<in>set tops. ?Q x \<longrightarrow> fst x = fst q" using one place [OF q] place by blast
    with tags have ser: "\<forall>x\<in>set (serial order tops). ?Q x \<longrightarrow> fst x = fst q" by blast
    have "fst q \<in> set order" using q(1) order(2) by auto
    then have "filter (\<lambda>x. fst x = fst q) (serial order tops) = filter (\<lambda>x. fst x = fst q) tops"
      by (simp add: filter_serial [OF order(1)])
    with filter_tag [OF all] filter_tag [OF ser] show ?thesis by argo
  next
    case False
    then have "filter ?Q tops = []" "filter ?Q (serial order tops) = []" using tags by (auto simp: filter_empty_conv)
    then show ?thesis by simp
  qed
  then have "filter (\<lambda>op. writes op = Some p) (map snd tops) = filter (\<lambda>op. writes op = Some p) (map snd (serial order tops))"
    by (simp add: filter_map comp_def)
  then show ?thesis
    using apply_all_place [of p X "map snd tops" s] apply_all_place [of p X "map snd (serial order tops)" s] same_at_trans same_at_sym
    by metis
qed

subsection \<open>The iterations one after the other\<close>

text \<open>The engine after the iterations of the given indices have run one after the other.\<close>

fun one_by_one :: "'w ext \<Rightarrow> nat \<Rightarrow> string \<Rightarrow> string \<Rightarrow> step \<Rightarrow> val list \<Rightarrow> gomap \<Rightarrow> nat list \<Rightarrow> 'w eng \<Rightarrow> 'w eng option" where
  "one_by_one X n run wname st items ctx [] s = Some s"
| "one_by_one X n run wname st items ctx (i # order) s =
     (case iterate X (run_workflow n X) run wname st i (items ! i) ctx s of
        None \<Rightarrow> None
      | Some (err, res, t) \<Rightarrow> one_by_one X n run wname st items ctx order t)"

lemma one_by_one_append:
  "one_by_one X n run wname st items ctx (is @ js) s =
     Option.bind (one_by_one X n run wname st items ctx is s) (one_by_one X n run wname st items ctx js)"
  by (induction "is" arbitrary: s) (simp_all split: option.split prod.split)

text \<open>Each iteration of such a run does operations on its own places.\<close>

lemma one_by_one_ops:
  assumes "distinct order" "one_by_one X n run wname st items ctx order s = Some t"
  shows "\<exists>ops. (\<forall>i\<in>set order. list_all (owned (iteration_places (x_lib X) run wname st i (items ! i))) (ops i)) \<and>
    (\<forall>done rest. order = done @ rest \<longrightarrow>
       one_by_one X n run wname st items ctx done s = Some (apply_all X (concat (map ops done)) s))"
  using assms
proof (induction order arbitrary: t rule: rev_induct)
  case Nil
  then show ?case by (simp add: apply_all_def)
next
  case (snoc i order)
  have distinct: "distinct order" and fresh: "i \<notin> set order" using snoc.prems(1) by simp_all
  from snoc.prems(2) obtain u err res where u: "one_by_one X n run wname st items ctx order s = Some u"
    and run: "iterate X (run_workflow n X) run wname st i (items ! i) ctx u = Some (err, res, t)"
    by (auto simp: one_by_one_append bind_eq_Some_conv split: option.splits)
  obtain ops where ops: "\<forall>j\<in>set order. list_all (owned (iteration_places (x_lib X) run wname st j (items ! j))) (ops j)"
    "\<forall>done rest. order = done @ rest \<longrightarrow>
       one_by_one X n run wname st items ctx done s = Some (apply_all X (concat (map ops done)) s)"
    using snoc.IH [OF distinct u] by (elim exE conjE)
  obtain new where new: "list_all (owned (iteration_places (x_lib X) run wname st i (items ! i))) new" "t = apply_all X new u"
    using iteration_performs [OF run] unfolding performs_def by (elim exE conjE)
  let ?ops = "ops(i := new)"
  have old: "map ?ops dn = map ops dn" if "set dn \<subseteq> set order" for dn
    using that fresh by (intro map_cong) auto
  have "u = apply_all X (concat (map ops order)) s" using ops(2) u by simp
  moreover have "map ?ops (order @ [i]) = map ops order @ [new]" using fresh by auto
  ultimately have all: "t = apply_all X (concat (map ?ops (order @ [i]))) s"
    using new(2) by (simp add: apply_all_append del: map_append)
  show ?case
  proof (intro exI [of _ ?ops] conjI ballI allI impI)
    show "list_all (owned (iteration_places (x_lib X) run wname st j (items ! j))) (?ops j)" if "j \<in> set (order @ [i])" for j
      using that ops(1) new(1) by auto
  next
    fix dn rest assume "order @ [i] = dn @ rest"
    then consider "dn = order @ [i]" | more where "order = dn @ more" by (cases rest rule: rev_cases) auto
    then show "one_by_one X n run wname st items ctx dn s = Some (apply_all X (concat (map ?ops dn)) s)"
    proof cases
      case 2
      have "map ?ops dn = map ops dn" by (rule old) (use 2 in auto)
      then show ?thesis using ops(2) 2 by (simp only:)
    qed (use snoc.prems(2) all in simp)
  qed
qed

text \<open>C7. The iterations of a loop do not disturb each other under any interleaving, when their keys keep them apart
  (\<open>apart_keys\<close>: they differ, have no dash where the iteration is a run of a sub-workflow, and the step's name does not
  begin with \<open>__jev__/\<close>; the indices of a loop without \<open>for_each_key\<close> are such keys). Let the iterations run one after the
  other, in some order. What each of them does is a sequence of operations on its own places of the store: the
  rows of its sub-run and of the runs below it, or the row of its step and the receipts of its decisions. None of these
  operations changes what is at the places of another iteration. And in whatever way the operations
  of the iterations come in between each other, each keeping its own order, every step row and every run row ends
  as it did when the iterations ran one after the other.\<close>

theorem interleaved_iterations_serializable:
  assumes apart: "apart_keys (x_lib X) st items"
    and order: "distinct order" "set order \<subseteq> {..<length items}"
    and run: "one_by_one X n run wname st items ctx order s = Some t"
  shows "\<exists>ops. (\<forall>done rest. order = done @ rest \<longrightarrow>
       one_by_one X n run wname st items ctx done s = Some (apply_all X (concat (map ops done)) s)) \<and>
    (\<forall>i\<in>set order. list_all (owned (iteration_places (x_lib X) run wname st i (items ! i))) (ops i)) \<and>
    (\<forall>i\<in>set order. \<forall>op\<in>set (ops i). \<forall>j<length items. j \<noteq> i \<longrightarrow>
       (\<forall>p u. iteration_places (x_lib X) run wname st j (items ! j) p \<longrightarrow> same_at p (apply_op X op u) u)) \<and>
    (\<forall>tops. (\<forall>q\<in>set tops. fst q \<in> set order) \<and> (\<forall>i\<in>set order. ops_of i tops = ops i) \<longrightarrow>
       (\<forall>p. same_at p (apply_all X (map snd tops) s) t))"
proof -
  let ?places = "\<lambda>i. iteration_places (x_lib X) run wname st i (items ! i)"
  from one_by_one_ops [OF order(1) run] obtain ops where ops: "\<forall>i\<in>set order. list_all (owned (?places i)) (ops i)"
    "\<forall>done rest. order = done @ rest \<longrightarrow>
       one_by_one X n run wname st items ctx done s = Some (apply_all X (concat (map ops done)) s)"
    by blast
  then have t: "t = apply_all X (concat (map ops order)) s" using run by simp
  have "same_at p (apply_op X op u) u"
    if "i \<in> set order" "op \<in> set (ops i)" "j < length items" "j \<noteq> i" "?places j p" for i op j p u
  proof (rule apply_op_other)
    have "owned (?places i) op" using ops(1) that(1,2) by (auto simp: list_all_iff)
    then show "writes op \<noteq> Some p"
      using that order(2) iteration_places_disjoint [OF apart] by (fastforce simp: owned_def)
  qed
  moreover have "same_at p (apply_all X (map snd tops) s) t"
    if tags: "\<forall>q\<in>set tops. fst q \<in> set order" and per: "\<forall>i\<in>set order. ops_of i tops = ops i" for tops p
  proof -
    have own: "owned (?places (fst q)) (snd q)" if "q \<in> set tops" for q
    proof -
      have i: "fst q \<in> set order" using tags that by blast
      have "snd q \<in> set (ops_of (fst q) tops)" using that by (auto simp: ops_of_def)
      then show ?thesis using ops(1) per i by (simp add: list_all_iff)
    qed
    have same: "map (\<lambda>i. ops_of i tops) order = map ops order" using per by simp
    have "same_at p (apply_all X (map snd tops) s) (apply_all X (map snd (serial order tops)) s)"
    proof (rule interleaving_serial [where region = ?places, OF _ _ order(1)])
      show "\<forall>i\<in>set order. \<forall>j\<in>set order. ?places i p \<and> ?places j p \<longrightarrow> i = j"
        using iteration_places_disjoint [OF apart] order(2) by blast
    qed (use own tags in auto)
    then show ?thesis by (simp add: serial_ops same t)
  qed
  ultimately show ?thesis using ops by (intro exI [of _ ops] conjI) blast+
qed

definition sample_loop :: step where
  "sample_loop = blank_step\<lparr>st_name := ''call'', st_workflow := ''child''\<rparr>"

theorem interleaved_iterations_serializable_witness:
  "\<exists>t ops. one_by_one (sample_ext sample_file) 2 ''r'' ''main'' sample_loop [VInt 4, VInt 5] [] [1, 0] sample_eng = Some t \<and>
     t = apply_all (sample_ext sample_file) (ops 1 @ ops (0::nat)) sample_eng \<and>
     same_at (Run_Place ''r-call-0'') (apply_all (sample_ext sample_file) (ops 0 @ ops 1) sample_eng) t"
proof -
  let ?X = "sample_ext sample_file" and ?items = "[VInt 4, VInt 5]"
  have key: "st_for_each_key sample_loop = []" "\<not> has_prefix (st_name sample_loop) ''__jev__/''"
    by (simp_all add: sample_loop_def blank_step_def has_prefix_iff)
  have "resolve_sub_workflow ?X sample_loop c = Inr sample_child" for c
    by (simp add: resolve_sub_workflow_def sample_ext_def sample_loop_def sample_defs is_templated_def)
  moreover have "run_workflow 2 ?X run sample_child c s \<noteq> None" for run c s
    using ranked_returns [OF sample_ranked, of sample_child 2] by (simp add: sample_ext_def sample_defs)
  ultimately have "returns_on (may_call ?X sample_loop) (run_workflow 2 ?X)" by (simp add: returns_on_def may_call_def)
  then have "iterate ?X (run_workflow 2 ?X) ''r'' ''main'' sample_loop i v [] s \<noteq> None" for i v s
    using iterate_returns by blast
  then have "\<exists>t. one_by_one ?X 2 ''r'' ''main'' sample_loop ?items [] order s = Some t" for order s
    by (induction order arbitrary: s) (auto split: option.split)
  then obtain t where t: "one_by_one ?X 2 ''r'' ''main'' sample_loop ?items [] [1, 0] sample_eng = Some t" by blast
  have "distinct [1::nat, 0]" "set [1, 0] \<subseteq> {..<length ?items}" by simp_all
  from interleaved_iterations_serializable [OF index_keys_apart [OF key] this t] obtain ops where
    seq: "\<forall>done rest. [1, 0] = done @ rest \<longrightarrow> one_by_one ?X 2 ''r'' ''main'' sample_loop ?items [] done sample_eng =
       Some (apply_all ?X (concat (map ops done)) sample_eng)" and
    inter: "\<forall>tops. (\<forall>q\<in>set tops. fst q \<in> set [1, 0]) \<and> (\<forall>i\<in>set [1, 0]. ops_of i tops = ops i) \<longrightarrow>
       (\<forall>p. same_at p (apply_all ?X (map snd tops) sample_eng) t)"
    by (elim exE conjE)
  let ?tops = "map (Pair (0::nat)) (ops 0) @ map (Pair 1) (ops 1)"
  have tops: "(\<forall>q\<in>set ?tops. fst q \<in> set [1, 0]) \<and> (\<forall>i\<in>set [1, 0]. ops_of i ?tops = ops i)"
    by (auto simp: ops_of_def filter_map comp_def)
  have "same_at (Run_Place ''r-call-0'') (apply_all ?X (map snd ?tops) sample_eng) t"
    by (rule inter [THEN spec, THEN mp, OF tops, THEN spec])
  then show ?thesis using t seq [rule_format, of "[1, 0]" "[]"] by (intro exI [of _ t] exI [of _ ops]) (simp add: comp_def)
qed

end
