(* ===== verification/Main_Command.thy ===== *)
theory Main_Command
  imports Cli Schema Write_File
begin

text \<open>
  The entry point (\<open>main\<close> in \<open>cmd/markov/main.go\<close>): the commands with the flags each registers and their
  defaults, the binding of given flags to the program's variables, the choice of the command, and the exit code. Splitting the
  arguments into a command, flag settings and the rest is cobra's, a parameter; what is relied on is that it gives only
  flags the command registers and a number of arguments the command allows.
\<close>

subsection \<open>Commands and flags\<close>

datatype args_rule = Exact_Args nat | No_Args

datatype flag_default = List_Flag | Text_Flag string | Int_Flag int | Bool_Flag bool

record command =
  co_name :: string
  co_args :: args_rule
  co_flags :: "(string \<times> flag_default) list"

definition callback_flags :: "(string \<times> flag_default) list" where
  "callback_flags = [(''callback'', List_Flag), (''callback-header'', List_Flag), (''callback-tls-insecure'', Bool_Flag False),
     (''callback-tls-cert'', Text_Flag []), (''callback-buffer-size'', Int_Flag 1000)]"

definition debug_flags :: "(string \<times> flag_default) list" where
  "debug_flags = [(''breakpoint'', List_Flag), (''breakpoints-file'', Text_Flag []), (''break'', List_Flag),
     (''step'', Bool_Flag False), (''control'', Text_Flag [])]"

definition state_store_flag :: "string \<Rightarrow> (string \<times> flag_default) list" where
  "state_store_flag store = [(''state-store'', Text_Flag store)]"

text \<open>What \<open>--help\<close> shows as the default of \<open>--state-store\<close>.\<close>

definition shown_default :: "golib \<Rightarrow> string \<Rightarrow> string" where
  "shown_default G store = redact_store_location G store"

definition run_command_flags :: "string \<Rightarrow> (string \<times> flag_default) list" where
  "run_command_flags store =
     [(''var'', List_Flag), (''workflow'', Text_Flag []), (''forks'', Int_Flag 0)] @ state_store_flag store
     @ [(''namespace'', Text_Flag []), (''kubeconfig'', Text_Flag []), (''verbose'', Bool_Flag False), (''debug'', Bool_Flag False),
        (''run-id'', Text_Flag [])] @ callback_flags @ debug_flags"

definition resume_command_flags :: "string \<Rightarrow> (string \<times> flag_default) list" where
  "resume_command_flags store =
     state_store_flag store @ [(''var'', List_Flag), (''namespace'', Text_Flag []), (''kubeconfig'', Text_Flag []),
       (''verbose'', Bool_Flag False), (''debug'', Bool_Flag False), (''forks'', Int_Flag 0), (''source-integrity'', Text_Flag ''warn''),
       (''rewind'', List_Flag), (''rewind-changed'', Bool_Flag False)] @ callback_flags @ debug_flags"

definition commands :: "string \<Rightarrow> command list" where
  "commands store =
     [\<lparr>co_name = ''run'', co_args = Exact_Args 1, co_flags = run_command_flags store\<rparr>,
      \<lparr>co_name = ''resume'', co_args = Exact_Args 1, co_flags = resume_command_flags store\<rparr>,
      \<lparr>co_name = ''status'', co_args = Exact_Args 1, co_flags = state_store_flag store @ [(''steps'', Bool_Flag False)]\<rparr>,
      \<lparr>co_name = ''list'', co_args = No_Args, co_flags = state_store_flag store\<rparr>,
      \<lparr>co_name = ''validate'', co_args = Exact_Args 1, co_flags = []\<rparr>,
      \<lparr>co_name = ''diagram'', co_args = Exact_Args 1, co_flags = state_store_flag store\<rparr>,
      \<lparr>co_name = ''schema'', co_args = No_Args, co_flags = []\<rparr>]"

subsection \<open>The program's variables\<close>

record main_flags = flags +
  mf_kubeconfig :: string
  mf_verbose :: bool
  mf_debug :: bool
  mf_steps :: bool

text \<open>Registering a flag gives its variable the default; every command is registered before one runs.\<close>

definition default_flags :: "string \<Rightarrow> main_flags" where
  "default_flags store = \<lparr>fl_vars = [], fl_workflow = [], fl_forks = 0, fl_store = store, fl_namespace = [], fl_run_id = [],
     fl_callbacks = [], fl_headers = [], fl_tls_insecure = False, fl_tls_cert = [], fl_buffer = 1000, fl_breakpoints = [],
     fl_breakpoints_file = [], fl_break = [], fl_step = False, fl_control = [], fl_integrity = ''warn'', fl_rewind = [],
     fl_rewind_changed = False, mf_kubeconfig = [], mf_verbose = False, mf_debug = False, mf_steps = False\<rparr>"

text \<open>One setting of a flag: a repeatable flag collects, any other keeps the last value.\<close>

definition set_text :: "string \<Rightarrow> string \<Rightarrow> main_flags \<Rightarrow> main_flags" where
  "set_text n t fl =
     (if n = ''var'' then fl\<lparr>fl_vars := fl_vars fl @ [t]\<rparr>
      else if n = ''callback'' then fl\<lparr>fl_callbacks := fl_callbacks fl @ [t]\<rparr>
      else if n = ''callback-header'' then fl\<lparr>fl_headers := fl_headers fl @ [t]\<rparr>
      else if n = ''breakpoint'' then fl\<lparr>fl_breakpoints := fl_breakpoints fl @ [t]\<rparr>
      else if n = ''break'' then fl\<lparr>fl_break := fl_break fl @ [t]\<rparr>
      else if n = ''rewind'' then fl\<lparr>fl_rewind := fl_rewind fl @ [t]\<rparr>
      else if n = ''workflow'' then fl\<lparr>fl_workflow := t\<rparr>
      else if n = ''state-store'' then fl\<lparr>fl_store := t\<rparr>
      else if n = ''namespace'' then fl\<lparr>fl_namespace := t\<rparr>
      else if n = ''kubeconfig'' then fl\<lparr>mf_kubeconfig := t\<rparr>
      else if n = ''run-id'' then fl\<lparr>fl_run_id := t\<rparr>
      else if n = ''callback-tls-cert'' then fl\<lparr>fl_tls_cert := t\<rparr>
      else if n = ''breakpoints-file'' then fl\<lparr>fl_breakpoints_file := t\<rparr>
      else if n = ''control'' then fl\<lparr>fl_control := t\<rparr>
      else if n = ''source-integrity'' then fl\<lparr>fl_integrity := t\<rparr>
      else fl)"

definition set_int :: "string \<Rightarrow> int \<Rightarrow> main_flags \<Rightarrow> main_flags" where
  "set_int n i fl =
     (if n = ''forks'' then fl\<lparr>fl_forks := i\<rparr>
      else if n = ''callback-buffer-size'' then fl\<lparr>fl_buffer := i\<rparr>
      else fl)"

definition set_bool :: "string \<Rightarrow> bool \<Rightarrow> main_flags \<Rightarrow> main_flags" where
  "set_bool n b fl =
     (if n = ''verbose'' then fl\<lparr>mf_verbose := b\<rparr>
      else if n = ''debug'' then fl\<lparr>mf_debug := b\<rparr>
      else if n = ''steps'' then fl\<lparr>mf_steps := b\<rparr>
      else if n = ''callback-tls-insecure'' then fl\<lparr>fl_tls_insecure := b\<rparr>
      else if n = ''step'' then fl\<lparr>fl_step := b\<rparr>
      else if n = ''rewind-changed'' then fl\<lparr>fl_rewind_changed := b\<rparr>
      else fl)"

datatype setting = Given_Text string string | Given_Int string int | Given_Bool string bool

fun bind_flag :: "setting \<Rightarrow> main_flags \<Rightarrow> main_flags" where
  "bind_flag (Given_Text n t) fl = set_text n t fl"
| "bind_flag (Given_Int n i) fl = set_int n i fl"
| "bind_flag (Given_Bool n b) fl = set_bool n b fl"

text \<open>\<open>eng.Verbose\<close>: \<open>--debug\<close> implies \<open>--verbose\<close>, but only in \<open>runWorkflow\<close>.\<close>

definition verbose_flag :: "string \<Rightarrow> main_flags \<Rightarrow> bool" where
  "verbose_flag name fl \<longleftrightarrow> name = ''run'' \<and> mf_debug fl \<or> mf_verbose fl"

subsection \<open>The Kubernetes client\<close>

text \<open>\<open>getK8sClient\<close>: the configuration inside a cluster goes before any kubeconfig; the loading of both and the making of the
  client are the library's.\<close>

definition get_k8s_client ::
  "(string + 'c) \<Rightarrow> (string option \<Rightarrow> string + 'c) \<Rightarrow> ('c \<Rightarrow> string + 'k) \<Rightarrow> string \<Rightarrow> string \<Rightarrow> string + 'k \<times> 'c" where
  "get_k8s_client in_cluster load new_client flag env =
     (case in_cluster of
        Inr cfg \<Rightarrow> map_sum id (\<lambda>k. (k, cfg)) (new_client cfg)
      | Inl _ \<Rightarrow>
          let kubeconfig = (if flag = [] then env else flag) in
          try_then (load (if kubeconfig \<noteq> [] then Some kubeconfig else None)) (\<lambda>cfg.
            map_sum id (\<lambda>k. (k, cfg)) (new_client cfg)))"

subsection \<open>The schema command\<close>

definition json_field :: "field \<Rightarrow> jv" where
  "json_field f = JObj [(''name'', JStr (fd_name f)), (''type'', JStr (fd_type f))]"

definition json_param :: "param_spec \<Rightarrow> jv" where
  "json_param p = JObj ([(''name'', JStr (pm_name p))] @ (if pm_required p then [(''required'', JBool True)] else [])
     @ (if pm_doc p \<noteq> [] then [(''doc'', JStr (pm_doc p))] else []))"

definition json_type :: "type_spec \<Rightarrow> jv" where
  "json_type t = JObj ([(''name'', JStr (tp_name t)), (''inputs'', JStr (tp_inputs t))]
     @ (if tp_step_fields t \<noteq> [] then [(''step_fields'', JArr (map JStr (tp_step_fields t)))] else [])
     @ (if tp_params t \<noteq> [] then [(''params'', JArr (map json_param (tp_params t)))] else [])
     @ [(''summary'', JStr (tp_summary t))])"

definition json_schema :: "schema \<Rightarrow> jv" where
  "json_schema s = JObj [(''version'', JNum (int_text (sh_version s))), (''file'', JArr (map json_field (sh_file s))),
     (''workflow'', JArr (map json_field (sh_workflow s))), (''step'', JArr (map json_field (sh_step s))),
     (''step_types'', JArr (map json_type (sh_step_types s)))]"

definition schema_command :: cli_result where
  "schema_command = \<lparr>cr_out = jindent 0 (json_schema build_schema) @ eol, cr_err = [], cr_error = None\<rparr>"

subsection \<open>main\<close>

text \<open>What cobra makes of the arguments: a usage error, a request it answers itself (no command, \<open>help\<close>, shell
  completion), or a command with the settings of its flags and its arguments.\<close>

record cobra =
  cb_parse :: "command list \<Rightarrow> string list \<Rightarrow> string + (string \<times> setting list \<times> string list) option"
  cb_help :: "string list \<Rightarrow> string"

fun args_allowed :: "args_rule \<Rightarrow> string list \<Rightarrow> bool" where
  "args_allowed (Exact_Args n) args \<longleftrightarrow> length args = n"
| "args_allowed No_Args args \<longleftrightarrow> args = []"

fun registered :: "(string \<times> flag_default) list \<Rightarrow> setting \<Rightarrow> bool" where
  "registered fs (Given_Text n t) \<longleftrightarrow> (case map_of fs n of Some List_Flag \<Rightarrow> True | Some (Text_Flag d) \<Rightarrow> True | _ \<Rightarrow> False)"
| "registered fs (Given_Int n i) \<longleftrightarrow> (case map_of fs n of Some (Int_Flag d) \<Rightarrow> True | _ \<Rightarrow> False)"
| "registered fs (Given_Bool n b) \<longleftrightarrow> (case map_of fs n of Some (Bool_Flag d) \<Rightarrow> True | _ \<Rightarrow> False)"

text \<open>What cobra promises of a command line it accepts.\<close>

definition checks_line :: "cobra \<Rightarrow> bool" where
  "checks_line B \<longleftrightarrow> (\<forall>cs argv name sets args. cb_parse B cs argv = Inr (Some (name, sets, args)) \<longrightarrow>
     (\<exists>c\<in>set cs. co_name c = name \<and> args_allowed (co_args c) args \<and> (\<forall>s\<in>set sets. registered (co_flags c) s)))"

definition on_store :: "'w program \<Rightarrow> main_flags \<Rightarrow> (store \<Rightarrow> cli_result option) \<Rightarrow> (cli_result \<times> 'w eng option) option" where
  "on_store Q fl show = (case pg_open Q (fl_store fl) of
     Inl e \<Rightarrow> Some (cli_fails e, None)
   | Inr s \<Rightarrow> map_option (\<lambda>r. (r, Some s)) (show (en_store s)))"

definition main_command ::
  "nat \<Rightarrow> nat \<Rightarrow> 'w program \<Rightarrow> clock_text \<Rightarrow> (step_info list \<Rightarrow> step_info list) \<Rightarrow> string \<Rightarrow> string \<times> setting list \<times> string list
     \<Rightarrow> (cli_result \<times> 'w eng option) option" where
  "main_command m n Q C sorter store line = (case line of (name, sets, args) \<Rightarrow>
     let fl = fold bind_flag sets (default_flags store); arg = (case args of [] \<Rightarrow> [] | a # _ \<Rightarrow> a) in
     if name = ''run'' then run_workflow_command n Q (flags.truncate fl) arg
     else if name = ''resume'' then resume_workflow_command m n Q (flags.truncate fl) arg
     else if name = ''status'' then on_store Q fl (\<lambda>st. Some (show_status C (mf_steps fl) st arg))
     else if name = ''list'' then on_store Q fl (\<lambda>st. Some (list_command C st))
     else if name = ''diagram'' then on_store Q fl (\<lambda>st. show_diagram m sorter st arg)
     else if name = ''validate'' then Some (validate_command Q arg, None)
     else Some (schema_command, None))"

text \<open>A command that returns an error ends the process with code 1; a usage error does too.\<close>

definition exit_code :: "cli_result \<Rightarrow> int" where
  "exit_code r = (if cr_error r = None then 0 else 1)"

definition main_exit ::
  "nat \<Rightarrow> nat \<Rightarrow> 'w program \<Rightarrow> clock_text \<Rightarrow> (step_info list \<Rightarrow> step_info list) \<Rightarrow> cobra \<Rightarrow> string \<Rightarrow> bool \<Rightarrow> string list
     \<Rightarrow> (int \<times> cli_result \<times> 'w eng option) option" where
  "main_exit m n Q C sorter B env in_pod argv =
     (let store = default_state_store_path env in_pod in
      case cb_parse B (commands store) argv of
        Inl e \<Rightarrow> Some (1, cli_fails e, None)
      | Inr None \<Rightarrow> Some (0, \<lparr>cr_out = cb_help B argv, cr_err = [], cr_error = None\<rparr>, None)
      | Inr (Some line) \<Rightarrow> map_option (\<lambda>(r, s). (exit_code r, r, s)) (main_command m n Q C sorter store line))"

subsection \<open>What is registered\<close>

lemmas flag_tables = run_command_flags_def resume_command_flags_def state_store_flag_def callback_flags_def debug_flags_def

text \<open>A resumed run takes every setting of the original but the two that choose what runs, with the same default.\<close>

lemma resume_has_run_settings:
  "set (run_command_flags store) \<subseteq>
     set (resume_command_flags store) \<union> {(''workflow'', Text_Flag []), (''run-id'', Text_Flag [])}"
  by (simp add: flag_tables)

lemma flag_names_distinct: "\<forall>c\<in>set (commands store). distinct (map fst (co_flags c))"
  by (simp add: commands_def flag_tables)

lemma accepted_command:
  assumes "checks_line B" "cb_parse B (commands store) argv = Inr (Some (name, sets, args))"
  obtains c where "c \<in> set (commands store)" "co_name c = name" "args_allowed (co_args c) args"
    "\<And>s. s \<in> set sets \<Longrightarrow> registered (co_flags c) s"
  using assms unfolding checks_line_def by blast

text \<open>Every accepted line reaches a command of the table, with one argument unless it is \<open>list\<close> or \<open>schema\<close>: the handlers'
  \<open>args[0]\<close> is in range.\<close>

lemma accepted_arguments:
  assumes "checks_line B" "cb_parse B (commands store) argv = Inr (Some (name, sets, args))"
  shows "name \<in> {''run'', ''resume'', ''status'', ''list'', ''validate'', ''diagram'', ''schema''} \<and>
    length args = (if name \<in> {''list'', ''schema''} then 0 else 1)"
proof -
  obtain c where "c \<in> set (commands store)" "co_name c = name" "args_allowed (co_args c) args"
    using accepted_command [OF assms] by metis
  then show ?thesis unfolding commands_def by auto
qed

subsection \<open>What the settings give\<close>

lemmas set_defs = set_text_def set_int_def set_bool_def

text \<open>A setting changes at most the variable its flag is bound to. The fields that only one command's flags reach keep
  their default under the others.\<close>

lemma run_setting_keeps:
  assumes "registered (run_command_flags store) s"
  shows "fl_integrity (bind_flag s fl) = fl_integrity fl" "fl_rewind (bind_flag s fl) = fl_rewind fl"
    "fl_rewind_changed (bind_flag s fl) = fl_rewind_changed fl" "mf_steps (bind_flag s fl) = mf_steps fl"
  using assms by (cases s; auto simp: set_defs flag_tables split: if_splits)+

lemma resume_setting_keeps:
  assumes "registered (resume_command_flags store) s"
  shows "fl_workflow (bind_flag s fl) = fl_workflow fl" "fl_run_id (bind_flag s fl) = fl_run_id fl"
  using assms by (cases s; auto simp: set_defs flag_tables split: if_splits)+

lemma fold_keeps:
  assumes "\<And>s fl. s \<in> set sets \<Longrightarrow> g (f s fl) = g fl"
  shows "g (fold f sets fl) = g fl"
  using assms by (induction sets arbitrary: fl) auto

lemma default_choices:
  "fl_rewind (default_flags store) = []" "\<not> fl_rewind_changed (default_flags store)"
  "fl_workflow (default_flags store) = []" "fl_run_id (default_flags store) = []" "fl_store (default_flags store) = store"
  by (simp_all add: default_flags_def)

lemma run_never_rewinds:
  assumes "\<And>s. s \<in> set sets \<Longrightarrow> registered (run_command_flags store) s"
  shows "fl_rewind (fold bind_flag sets (default_flags store)) = []"
    "\<not> fl_rewind_changed (fold bind_flag sets (default_flags store))"
proof -
  have "fl_rewind (fold bind_flag sets (default_flags store)) = fl_rewind (default_flags store)"
    by (rule fold_keeps) (rule run_setting_keeps [OF assms])
  moreover have "fl_rewind_changed (fold bind_flag sets (default_flags store)) = fl_rewind_changed (default_flags store)"
    by (rule fold_keeps) (rule run_setting_keeps [OF assms])
  ultimately show "fl_rewind (fold bind_flag sets (default_flags store)) = []"
    "\<not> fl_rewind_changed (fold bind_flag sets (default_flags store))"
    by (simp_all add: default_choices)
qed

lemma resume_keeps_workflow:
  assumes "\<And>s. s \<in> set sets \<Longrightarrow> registered (resume_command_flags store) s"
  shows "fl_workflow (fold bind_flag sets (default_flags store)) = []" "fl_run_id (fold bind_flag sets (default_flags store)) = []"
proof -
  have "fl_workflow (fold bind_flag sets (default_flags store)) = fl_workflow (default_flags store)"
    by (rule fold_keeps) (rule resume_setting_keeps [OF assms])
  moreover have "fl_run_id (fold bind_flag sets (default_flags store)) = fl_run_id (default_flags store)"
    by (rule fold_keeps) (rule resume_setting_keeps [OF assms])
  ultimately show "fl_workflow (fold bind_flag sets (default_flags store)) = []"
    "fl_run_id (fold bind_flag sets (default_flags store)) = []"
    by (simp_all add: default_choices)
qed

text \<open>The store a command opens is the last one given, or the default path.\<close>

fun names_store :: "setting \<Rightarrow> string option" where
  "names_store (Given_Text n t) = (if n = ''state-store'' then Some t else None)"
| "names_store _ = None"

lemma bound_store: "fl_store (bind_flag s fl) = (case names_store s of None \<Rightarrow> fl_store fl | Some t \<Rightarrow> t)"
  by (cases s) (simp_all add: set_defs)

lemma store_opened:
  "fl_store (fold bind_flag sets fl) = last (fl_store fl # List.map_filter names_store sets)"
  by (induction sets arbitrary: fl) (auto simp: bound_store map_filter_simps split: option.splits)

text \<open>A repeatable flag keeps what it was given, in order.\<close>

lemma vars_collected:
  "fl_vars (fold bind_flag (map (Given_Text ''var'') ts) fl) = fl_vars fl @ ts"
  by (induction ts arbitrary: fl) (simp_all add: set_text_def)

text \<open>The values given with \<open>--var\<close> are read as numbers and booleans where they look like it.\<close>

lemma var_coerced:
  "CHR ''='' \<notin> set k \<Longrightarrow> parse_var_flags G [k @ ''='' @ t] = mput k (coerce_string G t) []"
  using split_assign_join [of k t] by (simp add: parse_var_flags_def)

text \<open>A resumed run with \<open>--debug\<close> alone prints no details of the steps, unlike the run itself.\<close>

lemma debug_resume_quiet:
  "verbose_flag ''run'' (bind_flag (Given_Bool ''debug'' True) (default_flags store))"
  "\<not> verbose_flag ''resume'' (bind_flag (Given_Bool ''debug'' True) (default_flags store))"
  by (simp_all add: verbose_flag_def set_bool_def default_flags_def)

subsection \<open>The exit code\<close>

text \<open>The commands that only look leave the store as they found it.\<close>

lemma looking_changes_nothing:
  assumes "name \<in> {''status'', ''list'', ''diagram''}"
    "main_command m n Q C sorter store (name, sets, args) = Some (r, Some s)"
  shows "pg_open Q (fl_store (fold bind_flag sets (default_flags store))) = Inr s"
  using assms by (auto simp: main_command_def Let_def on_store_def split: sum.splits)

text \<open>\<open>validate\<close> and \<open>schema\<close> open no store.\<close>

lemma storeless_commands:
  assumes "name \<in> {''validate'', ''schema''}" "main_command m n Q C sorter store (name, sets, args) = Some (r, s)"
  shows "s = None"
  using assms by (auto simp: main_command_def Let_def)

text \<open>A paused run exits with 0, like a completed one; a failed run with 1.\<close>

lemma run_exit_code:
  "exit_code (run_report i err) = (if outcome_status err \<in> {RunCompleted, RunPaused} then 0 else 1)"
  "exit_code (resume_report i err) = (if outcome_status err \<in> {RunCompleted, RunPaused} then 0 else 1)"
  using outcome_report by (simp_all add: exit_code_def)

lemma main_exit_code:
  assumes "main_exit m n Q C sorter B env in_pod argv = Some (x, r, s)"
  shows "x = (if cr_error r = None then 0 else 1)"
  using assms by (auto simp: main_exit_def Let_def exit_code_def cli_fails_def split: sum.splits option.splits prod.splits)

text \<open>What the environment variable names goes before the pod's and the local path, and a given flag before it.\<close>

lemma store_from_environment:
  assumes "cb_parse B (commands (default_state_store_path env in_pod)) argv = Inr (Some (name, sets, args))"
    "List.map_filter names_store sets = []" "trim_space env \<noteq> []"
    "main_exit m n Q C sorter B env in_pod argv = Some (x, r, Some s)" "name \<in> {''status'', ''list'', ''diagram''}"
  shows "pg_open Q (trim_space env) = Inr s"
proof -
  have "default_state_store_path env in_pod = trim_space env" by (simp add: default_state_store_path_def assms(3))
  with assms obtain r' where
    "main_command m n Q C sorter (trim_space env) (name, sets, args) = Some (r', Some s)"
    by (auto simp: main_exit_def Let_def)
  from looking_changes_nothing [OF assms(5) this] show ?thesis
    by (simp add: store_opened assms(2) default_choices)
qed

lemma in_cluster_wins: "get_k8s_client (Inr c) load new flag env = map_sum id (\<lambda>k. (k, c)) (new c)"
  by (simp add: get_k8s_client_def)

lemma kubeconfig_flag_wins:
  "flag \<noteq> [] \<Longrightarrow> get_k8s_client (Inl e) load new flag env = get_k8s_client (Inl e') load new flag env'"
  by (simp add: get_k8s_client_def)

end
