(* ===== verification/Callback_Close.thy ===== *)
theory Callback_Close
  imports Callbacks
begin

text \<open>
  The end of the callbacks (\<open>Close\<close> in \<open>pkg/callback/http.go\<close>, \<open>jsonl.go\<close>, \<open>grpc.go\<close>, \<open>CloseCallbacks\<close> in
  \<open>pkg/engine/engine.go\<close>): closing the HTTP callback closes its channel and waits for the goroutine of \<open>sendLoop\<close>, for ten
  seconds at most. The wait is a step relation over the steps of the queue and a clock in milliseconds.
\<close>

subsection \<open>Closing\<close>

text \<open>The goroutine of \<open>sendLoop\<close> leaves its loop when the channel is closed and empty.\<close>

definition loop_ended :: "queue \<Rightarrow> bool" where
  "loop_ended q \<longleftrightarrow> qu_closed q \<and> qu_channel q = [] \<and> qu_current q = None"

text \<open>Whether \<open>Close\<close> was called, when its wait began, and whether it ended with the loop or with the timer.\<close>

datatype closing = Open | Waiting int | Flushed | Gave_Up

record closer =
  cl_queue :: queue
  cl_phase :: closing
  cl_now :: int

definition close_limit :: int where "close_limit = 10000"

inductive close_step :: "nat \<Rightarrow> closer \<Rightarrow> closer \<Rightarrow> bool" for capacity where
  queue: "queue_step capacity (cl_queue c) q \<Longrightarrow> qu_closed q = qu_closed (cl_queue c) \<Longrightarrow>
     close_step capacity c (c\<lparr>cl_queue := q\<rparr>)"
| begin_close: "cl_phase c = Open \<Longrightarrow>
     close_step capacity c (c\<lparr>cl_queue := (cl_queue c)\<lparr>qu_closed := True\<rparr>, cl_phase := Waiting (cl_now c)\<rparr>)"
| flushed: "cl_phase c = Waiting t \<Longrightarrow> loop_ended (cl_queue c) \<Longrightarrow> close_step capacity c (c\<lparr>cl_phase := Flushed\<rparr>)"
| gave_up: "cl_phase c = Waiting t \<Longrightarrow> t + close_limit \<le> cl_now c \<Longrightarrow> close_step capacity c (c\<lparr>cl_phase := Gave_Up\<rparr>)"
| tick: "0 \<le> d \<Longrightarrow> close_step capacity c (c\<lparr>cl_now := cl_now c + d\<rparr>)"

definition open_callback :: "int \<Rightarrow> closer" where
  "open_callback t0 = \<lparr>cl_queue = empty_queue, cl_phase = Open, cl_now = t0\<rparr>"

inductive close_run :: "nat \<Rightarrow> closer \<Rightarrow> bool" for capacity where
  made: "close_run capacity (open_callback t0)"
| next_step: "close_run capacity c \<Longrightarrow> close_step capacity c d \<Longrightarrow> close_run capacity d"

text \<open>What \<open>Close\<close> returns: the HTTP callback always succeeds, the others give the error of the file or connection. The engine
  closes every callback and only logs the errors.\<close>

fun close_result :: "(string \<Rightarrow> string option) \<Rightarrow> (string \<Rightarrow> string option) \<Rightarrow> callback \<Rightarrow> string option" where
  "close_result close_file close_conn (Jsonl path) = close_file path"
| "close_result close_file close_conn (Http url headers capacity) = None"
| "close_result close_file close_conn (Grpc addr root) = close_conn addr"

definition close_callbacks :: "(string \<Rightarrow> string option) \<Rightarrow> (string \<Rightarrow> string option) \<Rightarrow> callback list \<Rightarrow> string list" where
  "close_callbacks close_file close_conn cbs = List.map_filter (\<lambda>cb.
     map_option (\<lambda>e. ''callback close error: '' @ e) (close_result close_file close_conn cb)) cbs"

subsection \<open>What a closed callback has handled\<close>

lemma queue_step_closed: "queue_step capacity q r \<Longrightarrow> qu_closed q \<Longrightarrow> qu_closed r \<and> qu_sent r = qu_sent q"
  by (induction rule: queue_step.induct) simp_all

definition closing_ok :: "closer \<Rightarrow> bool" where
  "closing_ok c \<longleftrightarrow> (case cl_phase c of
     Open \<Rightarrow> \<not> qu_closed (cl_queue c)
   | Waiting t \<Rightarrow> qu_closed (cl_queue c) \<and> t \<le> cl_now c
   | Flushed \<Rightarrow> loop_ended (cl_queue c)
   | Gave_Up \<Rightarrow> qu_closed (cl_queue c))"

lemma loop_stays_ended: "queue_step capacity q r \<Longrightarrow> loop_ended q \<Longrightarrow> loop_ended r"
  by (induction rule: queue_step.induct) (simp_all add: loop_ended_def)

lemma close_step_ok: "close_step capacity c d \<Longrightarrow> closing_ok c \<Longrightarrow> closing_ok d"
proof (induction rule: close_step.induct)
  case (queue c q)
  then show ?case by (auto simp: closing_ok_def dest: loop_stays_ended split: closing.splits)
qed (auto simp: closing_ok_def split: closing.splits)

lemma close_run_ok: "close_run capacity c \<Longrightarrow> closing_ok c"
  by (induction rule: close_run.induct)
    (simp add: closing_ok_def open_callback_def empty_queue_def, rule close_step_ok)

lemma close_step_queue:
  "close_step capacity c d \<Longrightarrow> queue_run capacity (cl_queue c) \<Longrightarrow> queue_run capacity (cl_queue d)"
  by (induction rule: close_step.induct) (auto intro: later queue_step.close)

lemma close_run_queue: "close_run capacity c \<Longrightarrow> queue_run capacity (cl_queue c)"
  by (induction rule: close_run.induct) (simp add: open_callback_def fresh, rule close_step_queue)

text \<open>When the wait ended with the loop, every event ever sent has been handled, in order.\<close>

theorem close_flushes:
  assumes "close_run capacity c" "cl_phase c = Flushed"
  shows "map fst (qu_handled (cl_queue c)) = qu_sent (cl_queue c)"
proof -
  have "loop_ended (cl_queue c)" using close_run_ok [OF assms(1)] assms(2) by (simp add: closing_ok_def)
  moreover have "queue_order capacity (cl_queue c)" using assms(1) close_run_queue queue_run_order by blast
  ultimately show ?thesis by (simp add: queue_order_def held_def loop_ended_def)
qed

text \<open>Even when it ended with the timer, the end or pause of a run is handled if its handler returned.\<close>

lemma run_end_posted:
  assumes "close_run capacity c" "(e, i) \<in> set (qu_sent (cl_queue c))" "waits_for_post e" "i \<in> set (qu_returned (cl_queue c))"
  shows "(e, i) \<in> fst ` set (qu_handled (cl_queue c))"
  using queue_run_calls [OF close_run_queue [OF assms(1)]] assms(2-4) unfolding queue_calls_def by blast

text \<open>At most \<open>capacity + 1\<close> events are lost with the timer.\<close>

lemma lost_bounded:
  assumes "close_run capacity c"
  shows "length (qu_sent (cl_queue c)) \<le> length (qu_handled (cl_queue c)) + capacity + 1"
  using arg_cong [of "qu_sent (cl_queue c)" _ length] queue_run_order [OF close_run_queue [OF assms]]
  by (auto simp: queue_order_def held_def split: option.splits)

subsection \<open>The wait ends\<close>

text \<open>A closed queue takes and posts only so often, and while its loop runs one of the two is possible.\<close>

definition queue_work :: "queue \<Rightarrow> nat" where
  "queue_work q = 2 * length (qu_channel q) + (if qu_current q = None then 0 else 1)"

lemma closed_queue_works: "queue_step capacity q r \<Longrightarrow> qu_closed q \<Longrightarrow> r = q \<or> queue_work r < queue_work q"
  by (induction rule: queue_step.induct) (auto simp: queue_work_def)

lemma closed_queue_goes_on:
  assumes "qu_closed q" "\<not> loop_ended q"
  shows "\<exists>r. queue_step capacity q r \<and> queue_work r < queue_work q"
proof (cases "qu_current q")
  case None
  then obtain x xs where "qu_channel q = x # xs" using assms by (cases "qu_channel q") (auto simp: loop_ended_def)
  with None show ?thesis by (intro exI conjI, rule queue_step.take) (auto simp: queue_work_def)
next
  case (Some x)
  obtain e i where x: "qu_current q = Some (e, i)" using Some by (cases x) simp
  obtain d k ms rest where "send_with_retry 3 next_answer [Inr 200, Inr 200, Inr 200] = ((d, k, ms), rest)" by (metis prod.collapse)
  from queue_step.post [OF x _ this, of capacity] obtain r where "queue_step capacity q r" "r = q\<lparr>qu_current := None,
      qu_handled := qu_handled q @ [((e, i), d)], qu_returned := (if waits_for_post e then i # qu_returned q else qu_returned q)\<rparr>"
    by simp
  with x show ?thesis by (intro exI [of _ r]) (simp add: queue_work_def)
qed

text \<open>Nothing can hold \<open>Close\<close> beyond its limit, and a wait in which the loop keeps posting ends flushed.\<close>

lemma close_can_end:
  assumes "cl_phase c = Waiting t" "t + close_limit \<le> cl_now c \<or> loop_ended (cl_queue c)"
  shows "\<exists>d. close_step capacity c d \<and> cl_phase d \<in> {Flushed, Gave_Up}"
  using assms close_step.flushed close_step.gave_up by fastforce

lemma close_can_flush:
  assumes "cl_phase c = Waiting t" "qu_closed (cl_queue c)"
  shows "\<exists>d. (close_step capacity)\<^sup>*\<^sup>* c d \<and> cl_phase d = Flushed \<and> cl_now d = cl_now c"
  using assms
proof (induction "queue_work (cl_queue c)" arbitrary: c rule: less_induct)
  case less
  show ?case
  proof (cases "loop_ended (cl_queue c)")
    case True
    have "close_step capacity c (c\<lparr>cl_phase := Flushed\<rparr>)" by (rule close_step.flushed [OF less.prems(1) True])
    then show ?thesis by (intro exI [of _ "c\<lparr>cl_phase := Flushed\<rparr>"]) simp
  next
    case False
    obtain r where r: "queue_step capacity (cl_queue c) r" "queue_work r < queue_work (cl_queue c)"
      using closed_queue_goes_on [OF less.prems(2) False] by blast
    have closed: "qu_closed r" using queue_step_closed [OF r(1) less.prems(2)] by simp
    have step: "close_step capacity c (c\<lparr>cl_queue := r\<rparr>)" using close_step.queue [OF r(1)] closed less.prems(2) by simp
    have "\<exists>d. (close_step capacity)\<^sup>*\<^sup>* (c\<lparr>cl_queue := r\<rparr>) d \<and> cl_phase d = Flushed \<and> cl_now d = cl_now (c\<lparr>cl_queue := r\<rparr>)"
      using r closed less.prems(1) by (intro less.hyps) simp_all
    with step show ?thesis by (auto intro: converse_rtranclp_into_rtranclp)
  qed
qed

text \<open>An event whose posting takes the three attempts can outlast the limit: \<open>Close\<close> then returns with the event lost.\<close>

lemma close_may_lose:
  "\<exists>c. close_run 1 c \<and> cl_phase c = Gave_Up \<and> qu_handled (cl_queue c) = [] \<and> length (qu_sent (cl_queue c)) = 1"
proof -
  let ?e = "DebugEv [] [] [] [] []"
  let ?q = "empty_queue\<lparr>qu_channel := [(?e, 0)], qu_sent := [(?e, 0)], qu_returned := [0]\<rparr>"
  let ?c = "open_callback 0"
  have sent: "queue_step 1 empty_queue ?q" using send [of empty_queue 1 0 ?e] by (simp add: empty_queue_def)
  have "close_step 1 ?c (?c\<lparr>cl_queue := ?q\<rparr>)"
    by (rule close_step.queue) (use sent in \<open>simp_all add: open_callback_def empty_queue_def\<close>)
  then have "close_run 1 (?c\<lparr>cl_queue := ?q\<rparr>)" by (rule next_step [OF made])
  from next_step [OF next_step [OF this begin_close] tick [of close_limit]]
  have waiting: "close_run 1 \<lparr>cl_queue = ?q\<lparr>qu_closed := True\<rparr>, cl_phase = Waiting 0, cl_now = close_limit\<rparr>" (is "close_run 1 ?w")
    by (simp add: open_callback_def close_limit_def)
  have "close_run 1 (?w\<lparr>cl_phase := Gave_Up\<rparr>)" by (rule next_step [OF waiting], rule close_step.gave_up [of _ 0]) simp_all
  then show ?thesis by (intro exI [of _ "?w\<lparr>cl_phase := Gave_Up\<rparr>"]) (simp add: empty_queue_def)
qed

end
