(* ===== verification/Jev_Slots.thy ===== *)
theory Jev_Slots
  imports Jev_Client
begin

text \<open>
  The slots of the decision service's connections (\<open>New\<close> and the start of \<open>Execute\<close> in \<open>pkg/jev/client.go\<close>): a
  connection has a channel as large as its \<open>concurrency\<close>, a call sends to it before its request and receives from it at its
  end, and one that waits longer than its timeout gives up. The calls are the goroutines of any number of
  steps, as a step relation over one client and a clock in nanoseconds.
\<close>

subsection \<open>Limits and deadlines\<close>

definition slots_of :: "int \<Rightarrow> nat" where
  "slots_of n = (if n \<le> 0 then 1 else nat n)"

definition new_limits :: "(string \<times> connection) list \<Rightarrow> (string \<times> nat) list" where
  "new_limits conns = map (\<lambda>(name, c). (name, slots_of (cn_concurrency c))) conns"

definition call_seconds :: "connection \<Rightarrow> int" where
  "call_seconds c = (if cn_timeout c = 0 then 120 else cn_timeout c)"

text \<open>\<open>context.WithTimeout\<close> keeps the deadline of the context it extends when that comes first.\<close>

definition with_timeout :: "int option \<Rightarrow> int \<Rightarrow> int \<Rightarrow> int" where
  "with_timeout outer t seconds = (case outer of
     None \<Rightarrow> t + nanoseconds seconds
   | Some d \<Rightarrow> min d (t + nanoseconds seconds))"

subsection \<open>Calls\<close>

datatype call_phase = Queued | Asking | Ended | Timed_Out

record call =
  ca_conn :: string
  ca_deadline :: int
  ca_phase :: call_phase

text \<open>The number of values in each connection's channel, the calls so far, and the time.\<close>

record slots =
  sl_held :: "string \<Rightarrow> nat"
  sl_calls :: "call list"
  sl_time :: int

definition new_client :: "int \<Rightarrow> slots" where
  "new_client t = \<lparr>sl_held = (\<lambda>name. 0), sl_calls = [], sl_time = t\<rparr>"

abbreviation set_phase :: "nat \<Rightarrow> call_phase \<Rightarrow> slots \<Rightarrow> slots" where
  "set_phase i ph s \<equiv> s\<lparr>sl_calls := (sl_calls s)[i := (sl_calls s ! i)\<lparr>ca_phase := ph\<rparr>]\<rparr>"

text \<open>A \<open>select\<close> with both cases ready takes either, so a late call may still get a slot.\<close>

inductive slot_step :: "(string \<times> connection) list \<Rightarrow> slots \<Rightarrow> slots \<Rightarrow> bool" for conns where
  arrive: "mget conns name = Some c \<Longrightarrow> slot_step conns s (s\<lparr>sl_calls := sl_calls s @
     [\<lparr>ca_conn = name, ca_deadline = with_timeout outer (sl_time s) (call_seconds c), ca_phase = Queued\<rparr>]\<rparr>)"
| acquire: "i < length (sl_calls s) \<Longrightarrow> ca_phase (sl_calls s ! i) = Queued \<Longrightarrow> name = ca_conn (sl_calls s ! i) \<Longrightarrow>
     mget (new_limits conns) name = Some n \<Longrightarrow> sl_held s name < n \<Longrightarrow>
     slot_step conns s (set_phase i Asking (s\<lparr>sl_held := (sl_held s)(name := Suc (sl_held s name))\<rparr>))"
| expire: "i < length (sl_calls s) \<Longrightarrow> ca_phase (sl_calls s ! i) = Queued \<Longrightarrow> ca_deadline (sl_calls s ! i) \<le> sl_time s \<Longrightarrow>
     slot_step conns s (set_phase i Timed_Out s)"
| release: "i < length (sl_calls s) \<Longrightarrow> ca_phase (sl_calls s ! i) = Asking \<Longrightarrow> name = ca_conn (sl_calls s ! i) \<Longrightarrow>
     slot_step conns s (set_phase i Ended (s\<lparr>sl_held := (sl_held s)(name := sl_held s name - 1)\<rparr>))"
| pass: "0 \<le> d \<Longrightarrow> slot_step conns s (s\<lparr>sl_time := sl_time s + d\<rparr>)"

inductive slot_run :: "(string \<times> connection) list \<Rightarrow> slots \<Rightarrow> bool" for conns where
  no_calls: "slot_run conns (new_client t)"
| more_calls: "slot_run conns s \<Longrightarrow> slot_step conns s s' \<Longrightarrow> slot_run conns s'"

subsection \<open>At most the limit ask at a time\<close>

definition asking :: "slots \<Rightarrow> string \<Rightarrow> nat" where
  "asking s name = length (filter (\<lambda>c. ca_conn c = name \<and> ca_phase c = Asking) (sl_calls s))"

lemma length_filter_update:
  assumes "i < length xs"
  shows "length (filter P (xs[i := x])) + (if P (xs ! i) then 1 else 0) = length (filter P xs) + (if P x then 1 else 0)"
  using assms by (subst (2) id_take_nth_drop [OF assms]) (simp add: upd_conv_take_nth_drop)

lemma mget_new_limits: "mget (new_limits conns) name = map_option (\<lambda>c. slots_of (cn_concurrency c)) (mget conns name)"
  by (induction conns) (auto simp: new_limits_def)

definition slots_ok :: "(string \<times> connection) list \<Rightarrow> slots \<Rightarrow> bool" where
  "slots_ok conns s \<longleftrightarrow> (\<forall>name. sl_held s name = asking s name) \<and>
     (\<forall>name c. mget conns name = Some c \<longrightarrow> asking s name \<le> slots_of (cn_concurrency c)) \<and>
     (\<forall>c\<in>set (sl_calls s). mget conns (ca_conn c) \<noteq> None)"

lemma asking_update:
  assumes "i < length (sl_calls s)"
  shows "asking (set_phase i ph s) name + (if ca_conn (sl_calls s ! i) = name \<and> ca_phase (sl_calls s ! i) = Asking then 1 else 0)
     = asking s name + (if ca_conn (sl_calls s ! i) = name \<and> ph = Asking then 1 else 0)"
  using length_filter_update [OF assms, of "\<lambda>c. ca_conn c = name \<and> ca_phase c = Asking" "(sl_calls s ! i)\<lparr>ca_phase := ph\<rparr>"]
  by (simp add: asking_def)

lemma calls_update:
  "i < length xs \<Longrightarrow> \<forall>c\<in>set xs. P (ca_conn c) \<Longrightarrow> \<forall>c\<in>set (xs[i := (xs ! i)\<lparr>ca_phase := ph\<rparr>]). P (ca_conn c)"
  by (auto dest!: set_update_subset_insert [THEN subsetD])

lemma slot_step_ok: "slot_step conns s s' \<Longrightarrow> slots_ok conns s \<Longrightarrow> slots_ok conns s'"
proof (induction rule: slot_step.induct)
  case (arrive name c s outer)
  let ?c = "\<lparr>ca_conn = name, ca_deadline = with_timeout outer (sl_time s) (call_seconds c), ca_phase = Queued\<rparr>"
  have count: "asking (s\<lparr>sl_calls := sl_calls s @ [?c]\<rparr>) k = asking s k" for k by (simp add: asking_def)
  show ?case using arrive unfolding slots_ok_def count by simp
next
  case (acquire i s name n)
  have "asking (set_phase i Asking s) k = asking s k + (if k = name then 1 else 0)" for k
    using asking_update [OF acquire(1), of Asking k] acquire(2,3) by auto
  then have count: "asking (set_phase i Asking (s\<lparr>sl_held := h\<rparr>)) k = asking s k + (if k = name then 1 else 0)" for h k
    by (simp add: asking_def)
  have known: "\<forall>c\<in>set ((sl_calls s)[i := (sl_calls s ! i)\<lparr>ca_phase := Asking\<rparr>]). mget conns (ca_conn c) \<noteq> None"
    using calls_update [OF acquire(1), of "\<lambda>k. mget conns k \<noteq> None"] acquire.prems unfolding slots_ok_def by blast
  have "asking s name < slots_of (cn_concurrency c)" if "mget conns name = Some c" for c
    using acquire(4,5) acquire.prems that by (simp add: mget_new_limits slots_ok_def)
  then show ?case using acquire.prems known unfolding slots_ok_def count by (simp add: Suc_leI)
next
  case (expire i s)
  have "asking (set_phase i Timed_Out s) k = asking s k" for k using asking_update [OF expire(1), of Timed_Out k] expire(2) by auto
  moreover have "\<forall>c\<in>set ((sl_calls s)[i := (sl_calls s ! i)\<lparr>ca_phase := Timed_Out\<rparr>]). mget conns (ca_conn c) \<noteq> None"
    using calls_update [OF expire(1), of "\<lambda>k. mget conns k \<noteq> None"] expire.prems unfolding slots_ok_def by blast
  ultimately show ?case using expire.prems unfolding slots_ok_def by simp
next
  case (release i s name)
  have "asking (set_phase i Ended s) k + (if k = name then 1 else 0) = asking s k" for k
    using asking_update [OF release(1), of Ended k] release(2,3) by auto
  then have "asking (set_phase i Ended s) k = asking s k - (if k = name then 1 else 0)" for k
    by (metis add_diff_cancel_right')
  then have count: "asking (set_phase i Ended (s\<lparr>sl_held := h\<rparr>)) k = asking s k - (if k = name then 1 else 0)" for h k
    by (simp add: asking_def)
  have known: "\<forall>c\<in>set ((sl_calls s)[i := (sl_calls s ! i)\<lparr>ca_phase := Ended\<rparr>]). mget conns (ca_conn c) \<noteq> None"
    using calls_update [OF release(1), of "\<lambda>k. mget conns k \<noteq> None"] release.prems unfolding slots_ok_def by blast
  show ?case using release.prems known unfolding slots_ok_def count by (simp add: le_diff_conv trans_le_add1)
next
  case (pass d s)
  then show ?case by (simp add: slots_ok_def asking_def)
qed

lemma slot_run_ok: "slot_run conns s \<Longrightarrow> slots_ok conns s"
proof (induction rule: slot_run.induct)
  case (no_calls t)
  show ?case by (simp add: slots_ok_def new_client_def asking_def)
qed (rule slot_step_ok)

text \<open>However many steps ask, a connection serves at most its \<open>concurrency\<close> of them at a time, one when that is not set.\<close>

lemma connection_limit:
  assumes "slot_run conns s" "mget conns name = Some c"
  shows "asking s name \<le> (if cn_concurrency c \<le> 0 then 1 else nat (cn_concurrency c))"
  using slot_run_ok [OF assms(1)] assms(2) unfolding slots_ok_def slots_of_def by metis

text \<open>A slot is never leaked: when no call is being asked, the channel is empty.\<close>

lemma slots_returned:
  assumes "slot_run conns s" "\<forall>c\<in>set (sl_calls s). ca_phase c \<noteq> Asking"
  shows "sl_held s name = 0"
  using slot_run_ok [OF assms(1)] assms(2) by (auto simp: slots_ok_def asking_def)

subsection \<open>Every call ends\<close>

text \<open>A queued call has a slot to take, or waits for a call of its connection that is being asked.\<close>

lemma call_goes_on:
  assumes "slot_run conns s" "i < length (sl_calls s)" "ca_phase (sl_calls s ! i) = Queued"
  shows "(\<exists>s'. slot_step conns s s' \<and> ca_phase (sl_calls s' ! i) = Asking) \<or>
    0 < asking s (ca_conn (sl_calls s ! i))"
proof -
  let ?name = "ca_conn (sl_calls s ! i)"
  have ok: "slots_ok conns s" by (rule slot_run_ok [OF assms(1)])
  then obtain c where c: "mget conns ?name = Some c" using assms(2) unfolding slots_ok_def by (meson nth_mem not_None_eq)
  show ?thesis
  proof (cases "asking s ?name = 0")
    case True
    then have "sl_held s ?name < slots_of (cn_concurrency c)" using ok by (simp add: slots_ok_def slots_of_def)
    then have "slot_step conns s (set_phase i Asking (s\<lparr>sl_held := (sl_held s)(?name := Suc (sl_held s ?name))\<rparr>))"
      using assms(2,3) c by (intro slot_step.acquire) (simp_all add: mget_new_limits)
    moreover have "ca_phase (sl_calls (set_phase i Asking (s\<lparr>sl_held := (sl_held s)(?name := Suc (sl_held s ?name))\<rparr>)) ! i) = Asking"
      using assms(2) by simp
    ultimately show ?thesis by blast
  qed simp
qed

text \<open>The steps of the calls themselves are bounded: two for each that arrived.\<close>

fun phase_work :: "call_phase \<Rightarrow> nat" where
  "phase_work Queued = 2"
| "phase_work Asking = 1"
| "phase_work _ = 0"

definition calls_work :: "slots \<Rightarrow> nat" where
  "calls_work s = sum_list (map (\<lambda>c. phase_work (ca_phase c)) (sl_calls s))"

lemma sum_list_decreases:
  assumes "i < length xs" "f x < f (xs ! i)"
  shows "sum_list (map f (xs[i := x])) < (sum_list (map f xs) :: nat)"
proof -
  have "sum_list (map f xs) = sum_list (map f (take i xs)) + f (xs ! i) + sum_list (map f (drop (Suc i) xs))"
    by (subst id_take_nth_drop [OF assms(1)]) simp
  then show ?thesis using assms by (simp add: upd_conv_take_nth_drop)
qed

lemma call_step_works:
  "slot_step conns s s' \<Longrightarrow> length (sl_calls s') = length (sl_calls s) \<Longrightarrow> sl_calls s' = sl_calls s \<or> calls_work s' < calls_work s"
  by (induction rule: slot_step.induct) (auto simp: calls_work_def intro!: sum_list_decreases)

text \<open>Two steps asking one connection without a \<open>concurrency\<close>: the second waits, and gives up at the deadline fixed when it
  arrived.\<close>

lemma second_call_waits:
  assumes "slot_run conns s" "mget conns name = Some c" "cn_concurrency c = 0" "i < length (sl_calls s)" "j < length (sl_calls s)"
    "i \<noteq> j" "ca_conn (sl_calls s ! i) = name" "ca_conn (sl_calls s ! j) = name" "ca_phase (sl_calls s ! i) = Asking"
  shows "ca_phase (sl_calls s ! j) \<noteq> Asking"
proof
  assume "ca_phase (sl_calls s ! j) = Asking"
  then have "{i, j} \<subseteq> {k. k < length (sl_calls s) \<and> ca_conn (sl_calls s ! k) = name \<and> ca_phase (sl_calls s ! k) = Asking}"
    using assms by auto
  then have "card {i, j} \<le> asking s name" unfolding asking_def length_filter_conv_card by (intro card_mono) auto
  moreover have "asking s name \<le> 1" using connection_limit [OF assms(1,2)] assms(3) by simp
  ultimately show False using assms(6) by simp
qed

end
